(* ===== verification/GraphSearch.thy ===== *)
theory GraphSearch
  imports Prelude
begin

text \<open>
  The interface between the task graph and the searches over it. A graph is given by a
  successor function over a finite list of nodes; the client lemmas say what a search
  that is closed under successors has found, and bound the work of a FIFO search that,
  like \<open>_TaskDagNode._get_all_tasks\<close>, may queue a node more than once.
\<close>

section \<open>Reachability over a successor function\<close>

inductive reach :: "('a \<Rightarrow> 'a list) \<Rightarrow> 'a \<Rightarrow> 'a \<Rightarrow> bool" for succ where
  reach_refl [intro, simp]: "reach succ x x"
| reach_step: "reach succ x y \<Longrightarrow> z \<in> set (succ y) \<Longrightarrow> reach succ x z"

lemma reach_edge [intro]: "y \<in> set (succ x) \<Longrightarrow> reach succ x y"
  by (rule reach_step [OF reach_refl])

lemma reach_trans: "reach succ x y \<Longrightarrow> reach succ y z \<Longrightarrow> reach succ x z"
  by (rotate_tac 1, induction rule: reach.induct) (auto intro: reach_step)

lemma reach_closed:
  "reach succ x y \<Longrightarrow> x \<in> S \<Longrightarrow> (\<And>u v. u \<in> S \<Longrightarrow> v \<in> set (succ u) \<Longrightarrow> v \<in> S) \<Longrightarrow> y \<in> S"
  by (induction rule: reach.induct) auto

lemma reach_cong:
  assumes "\<And>u. set (f u) = set (g u)"
  shows "reach f x y = reach g x y"
proof
  show "reach f x y \<Longrightarrow> reach g x y"
    by (induction rule: reach.induct) (auto simp: assms intro: reach_step)
  show "reach g x y \<Longrightarrow> reach f x y"
    by (induction rule: reach.induct) (auto simp: assms [symmetric] intro: reach_step)
qed

section \<open>The finite-graph interface\<close>

locale finite_graph =
  fixes succ :: "'g \<Rightarrow> 'a \<Rightarrow> 'a list"
    and nodes :: "'g \<Rightarrow> 'a list"
    and invar :: "'g \<Rightarrow> bool"
  assumes succ_in_nodes: "invar g \<Longrightarrow> x \<in> set (nodes g) \<Longrightarrow> y \<in> set (succ g x) \<Longrightarrow> y \<in> set (nodes g)"
begin

lemma reach_in_nodes:
  "invar g \<Longrightarrow> x \<in> set (nodes g) \<Longrightarrow> reach (succ g) x y \<Longrightarrow> y \<in> set (nodes g)"
  by (rule reach_closed [of "succ g" x]) (auto intro: succ_in_nodes)

lemma finite_reach:
  "invar g \<Longrightarrow> x \<in> set (nodes g) \<Longrightarrow> finite {y. reach (succ g) x y}"
  by (rule finite_subset [of _ "set (nodes g)"]) (auto dest: reach_in_nodes)

lemma closed_set_is_reach:
  assumes "x \<in> S"
    and "\<And>u v. u \<in> S \<Longrightarrow> v \<in> set (succ g u) \<Longrightarrow> v \<in> S"
    and "\<And>u. u \<in> S \<Longrightarrow> reach (succ g) x u"
  shows "S = {y. reach (succ g) x y}"
  using assms reach_closed [of "succ g" x _ S] by blast

end

section \<open>The work of a FIFO search\<close>

text \<open>
  \<open>chain_weight succ U S x\<close> counts the chains that start at \<open>x\<close> and avoid
  \<open>S\<close>: processing a queue entry \<open>x\<close> replaces it by entries whose weights add up
  to one less. The sum over the queue is the measure that makes the search terminate on
  every graph, cyclic ones included.
\<close>

function chain_weight :: "('a \<Rightarrow> 'a list) \<Rightarrow> 'a set \<Rightarrow> 'a set \<Rightarrow> 'a \<Rightarrow> nat" where
  "chain_weight succ U S x =
     (if finite U \<and> x \<in> U then
        Suc (sum_list (map (chain_weight succ U (insert x S))
          (filter (\<lambda>y. y \<notin> insert x S) (succ x))))
      else 1)"
  by pat_completeness auto
termination
proof (relation "measure (\<lambda>(succ, U, S, x). 2 * card (U - S) + (if x \<in> S then 1 else 0))", goal_cases)
  case (2 succ U S x y)
  then have fin: "finite (U - S)" by simp
  from 2 have y: "y \<notin> insert x S" by auto
  show ?case
  proof (cases "x \<in> S")
    case True
    with y show ?thesis by (simp add: insert_absorb)
  next
    case False
    with 2 have "card (U - insert x S) < card (U - S)"
      by (intro psubset_card_mono fin) auto
    with y False show ?thesis by simp
  qed
qed simp

declare chain_weight.simps [simp del]

lemma chain_weight_pos [simp]: "0 < chain_weight succ U S x"
  by (subst chain_weight.simps) simp

lemma sum_list_filter_le:
  fixes f g :: "'a \<Rightarrow> nat"
  assumes "\<And>x. x \<in> set xs \<Longrightarrow> P x \<Longrightarrow> Q x" and "\<And>x. x \<in> set xs \<Longrightarrow> P x \<Longrightarrow> f x \<le> g x"
  shows "sum_list (map f (filter P xs)) \<le> sum_list (map g (filter Q xs))"
  using assms by (induction xs) (auto intro: add_mono trans_le_add2)

lemma chain_weight_antimono: "S \<subseteq> T \<Longrightarrow> chain_weight succ U T x \<le> chain_weight succ U S x"
proof (induction succ U S x arbitrary: T rule: chain_weight.induct)
  case (1 succ U S x)
  show ?case
  proof (cases "finite U \<and> x \<in> U")
    case True
    have "sum_list (map (chain_weight succ U (insert x T)) (filter (\<lambda>y. y \<notin> insert x T) (succ x)))
        \<le> sum_list (map (chain_weight succ U (insert x S)) (filter (\<lambda>y. y \<notin> insert x S) (succ x)))"
    proof (rule sum_list_filter_le)
      fix y assume "y \<in> set (succ x)" "y \<notin> insert x T"
      then show "chain_weight succ U (insert x T) y \<le> chain_weight succ U (insert x S) y"
        using True "1.prems" by (intro "1.IH") auto
    qed (use "1.prems" in auto)
    with True show ?thesis
      by (simp add: chain_weight.simps [of succ U T x] chain_weight.simps [of succ U S x])
  next
    case False
    then have "chain_weight succ U T x = 1" and "chain_weight succ U S x = 1"
      by (simp_all only: chain_weight.simps [of succ U T x] chain_weight.simps [of succ U S x] if_False)
    then show ?thesis by simp
  qed
qed

definition queue_weight :: "('a \<Rightarrow> 'a list) \<Rightarrow> 'a set \<Rightarrow> 'a set \<Rightarrow> 'a list \<Rightarrow> nat" where
  "queue_weight succ U S q = sum_list (map (chain_weight succ U S) q)"

lemma queue_weight_append [simp]:
  "queue_weight succ U S (p @ q) = queue_weight succ U S p + queue_weight succ U S q"
  by (simp add: queue_weight_def)

lemma queue_weight_antimono: "S \<subseteq> T \<Longrightarrow> queue_weight succ U T q \<le> queue_weight succ U S q"
  unfolding queue_weight_def by (intro sum_list_mono chain_weight_antimono)

lemma queue_weight_step:
  assumes "finite U" "x \<in> U"
  shows "queue_weight succ U (insert x S) (q @ filter (\<lambda>y. y \<notin> insert x S) (succ x))
    < queue_weight succ U S (x # q)"
proof -
  have "queue_weight succ U (insert x S) (filter (\<lambda>y. y \<notin> insert x S) (succ x)) < chain_weight succ U S x"
    using assms by (subst chain_weight.simps) (simp add: queue_weight_def)
  moreover have "queue_weight succ U (insert x S) q \<le> queue_weight succ U S q"
    by (rule queue_weight_antimono) auto
  ultimately show ?thesis by (simp add: queue_weight_def)
qed

lemma queue_weight_drop:
  "queue_weight succ U (insert x S) q < queue_weight succ U S (x # q)"
proof -
  have "queue_weight succ U (insert x S) q \<le> queue_weight succ U S q"
    by (rule queue_weight_antimono) auto
  moreover have "0 < chain_weight succ U S x" by simp
  ultimately show ?thesis by (simp add: queue_weight_def del: chain_weight_pos)
qed

end
