(* ===== verification/TaskDag.thy ===== *)
theory TaskDag
  imports GraphSearch
begin

text \<open>
  The task graph: \<open>_core/task_ctrl/task_dag.py\<close> (\<open>_TaskDagNode\<close>,
  \<open>topological_sort\<close>, \<open>all_subdags\<close>), \<open>_core/task_ctrl/task_descendant.py\<close>
  and \<open>_core/errors/friendly_error/graph.py\<close>. A task is its id, as
  \<open>_BaseTask.__eq__\<close> and \<open>__hash__\<close> have it; the dictionary of the
  task instance cache holds the mutable node of every id. A Python set of ids is a list
  without repetitions in the order the run iterates it, and every theorem holds for any
  such order.
\<close>

section \<open>State\<close>

type_synonym task_id = string

record task =
  task_name :: string
  task_creation_id :: int
  should_run :: bool
  is_data_source :: bool
  upstream_tasks :: "task_id list"
  downstream_tasks :: "task_id list"
  children :: "task_id list"

type_synonym dag = "(task_id, task) dict"

definition get_task_by_id :: "dag \<Rightarrow> task_id \<Rightarrow> task option" where
  "get_task_by_id d i = map_of d i"

definition add_child :: "task \<Rightarrow> task_id \<Rightarrow> task" where
  "add_child t c = (if c \<in> set (children t) then t else t\<lparr>children := children t @ [c]\<rparr>)"

text \<open>\<open>TaskDescendants.get_children\<close> raises on an id of another context.\<close>

definition get_children :: "dag \<Rightarrow> task \<Rightarrow> task_id list result" where
  "get_children d t =
     mapM (\<lambda>c. case get_task_by_id d c of
              None \<Rightarrow> Inl (DatabandError (''You have created '' @ c @ '' in different dbnd_context, can't find task object in current context!''))
            | Some _ \<Rightarrow> Inr c) (children t)"

definition direction :: "bool \<Rightarrow> task \<Rightarrow> task_id list" where
  "direction upstream t = (if upstream then upstream_tasks t else downstream_tasks t)"

text \<open>
  \<open>_task_id_to_tasks\<close> maps an unknown id to \<open>None\<close>, which the callers see
  as an element of the set.
\<close>

definition task_id_to_tasks :: "dag \<Rightarrow> task_id list \<Rightarrow> task_id option list" where
  "task_id_to_tasks d is = map (\<lambda>i. map_option (\<lambda>_. i) (get_task_by_id d i)) is"

definition upstream :: "dag \<Rightarrow> task_id \<Rightarrow> task_id option list" where
  "upstream d i = (case get_task_by_id d i of None \<Rightarrow> [] | Some t \<Rightarrow> task_id_to_tasks d (upstream_tasks t))"

definition downstream :: "dag \<Rightarrow> task_id \<Rightarrow> task_id option list" where
  "downstream d i = (case get_task_by_id d i of None \<Rightarrow> [] | Some t \<Rightarrow> task_id_to_tasks d (downstream_tasks t))"

section \<open>Edges\<close>

definition connect :: "bool \<Rightarrow> task_id \<Rightarrow> task \<Rightarrow> task" where
  "connect up i t =
     (if i \<in> set (direction up t) then t
      else if up then t\<lparr>upstream_tasks := upstream_tasks t @ [i]\<rparr>
      else t\<lparr>downstream_tasks := downstream_tasks t @ [i]\<rparr>)"

text \<open>\<open>_TaskDagNode._set_relatives\<close> on the node of \<open>self\<close>.\<close>

definition set_relative :: "dag \<Rightarrow> task_id \<Rightarrow> task_id \<Rightarrow> bool \<Rightarrow> dag" where
  "set_relative d self other up =
     (case get_task_by_id d self of None \<Rightarrow> d | Some t \<Rightarrow> dict_set d self (connect up other t))"

fun set_relatives :: "dag \<Rightarrow> task_id \<Rightarrow> task_id list \<Rightarrow> bool \<Rightarrow> dag" where
  "set_relatives d self [] up = d"
| "set_relatives d self (t # ts) up =
     set_relatives (set_relative (set_relative d t self (\<not> up)) self t up) self ts up"

definition set_upstream :: "dag \<Rightarrow> task_id \<Rightarrow> task_id list \<Rightarrow> dag" where
  "set_upstream d self ts = set_relatives d self ts True"

definition set_downstream :: "dag \<Rightarrow> task_id \<Rightarrow> task_id list \<Rightarrow> dag" where
  "set_downstream d self ts = set_relatives d self ts False"

definition has_upstream :: "dag \<Rightarrow> task_id \<Rightarrow> task_id \<Rightarrow> bool" where
  "has_upstream d self t = (case get_task_by_id d self of None \<Rightarrow> False | Some n \<Rightarrow> t \<in> set (upstream_tasks n))"

text \<open>
  \<open>initialize_dag_node\<close>: the tasks behind the inputs become upstreams
  (\<open>None\<close> is filtered out), and so does every child that nobody waits for.
\<close>

definition initialize_dag_node :: "dag \<Rightarrow> task_id \<Rightarrow> task_id option list \<Rightarrow> dag result" where
  "initialize_dag_node d self inputs =
     (case get_task_by_id d self of
        None \<Rightarrow> Inl (AttributeError self)
      | Some t \<Rightarrow>
          rbind (get_children d t) (\<lambda>cs.
            let ups = map the (filter (\<lambda>x. x \<noteq> None) inputs)
                      @ filter (\<lambda>c. downstream d c = []) cs
            in Inr (fold (\<lambda>u d. set_upstream d self [u]) (remdups ups) d)))"

section \<open>Walking the graph\<close>

definition node_step :: "dag \<Rightarrow> bool \<Rightarrow> bool \<Rightarrow> task_id \<Rightarrow> task_id list" where
  "node_step d up should_run_only i =
     (case get_task_by_id d i of
        None \<Rightarrow> []
      | Some t \<Rightarrow> if should_run_only \<and> \<not> should_run t then [] else direction up t)"

definition resolve_task :: "dag \<Rightarrow> task_id \<Rightarrow> task_id result" where
  "resolve_task d i = (case get_task_by_id d i of
       None \<Rightarrow> Inl (DatabandError (''Can't resolve task '' @ i @ '' by it's id''))
     | Some _ \<Rightarrow> Inr i)"

lemma resolve_task_Inr [simp]: "resolve_task d i = Inr j \<longleftrightarrow> j = i \<and> i \<in> fst ` set d"
  by (auto simp: resolve_task_def get_task_by_id_def map_of_eq_None_iff split: option.splits)
     (metis domI dom_map_of_conv_image_fst)

lemma mapM_resolve_task: "mapM (resolve_task d) is = Inr js \<longleftrightarrow> js = is \<and> set is \<subseteq> fst ` set d"
  by (induction "is" arbitrary: js) (auto simp: result_simps list_all2_Cons1)

text \<open>The loop of \<open>_get_all_tasks\<close>; \<open>result\<close> keeps the repetitions.\<close>

function get_all_tasks_loop ::
  "dag \<Rightarrow> bool \<Rightarrow> bool \<Rightarrow> task_id list \<Rightarrow> task_id list \<Rightarrow> task_id list \<Rightarrow> task_id list result" where
  "get_all_tasks_loop d up should_run_only seen result [] = Inr (remdups result)"
| "get_all_tasks_loop d up should_run_only seen result (current # to_process) =
     (case get_task_by_id d current of
        None \<Rightarrow> Inl (AttributeError current)
      | Some t \<Rightarrow>
          if should_run_only \<and> \<not> should_run t
          then get_all_tasks_loop d up should_run_only (current # seen) result to_process
          else (case mapM (resolve_task d) (filter (\<lambda>i. i \<notin> set (current # seen)) (direction up t)) of
                  Inl e \<Rightarrow> Inl e
                | Inr connected \<Rightarrow>
                    get_all_tasks_loop d up should_run_only (current # seen) (result @ [current])
                      (to_process @ connected)))"
  by pat_completeness auto
termination
proof (relation "measure (\<lambda>(d, up, sro, seen, result, q).
    queue_weight (node_step d up sro) (fst ` set d) (set seen) q)", goal_cases)
  case (2 d up sro seen result current q t)
  then show ?case
    using queue_weight_drop [of _ _ current "set seen" q] by simp
next
  case (3 d up sro seen result current q t connected)
  then have "current \<in> fst ` set d"
    by (metis domI dom_map_of_conv_image_fst get_task_by_id_def)
  moreover have "connected = filter (\<lambda>i. i \<notin> insert current (set seen)) (node_step d up sro current)"
    using 3 by (auto simp: mapM_resolve_task node_step_def)
  ultimately show ?case
    using queue_weight_step [of "fst ` set d" current "node_step d up sro" "set seen" q] by simp
qed simp

definition get_all_tasks :: "dag \<Rightarrow> task_id \<Rightarrow> bool \<Rightarrow> bool \<Rightarrow> task_id list result" where
  "get_all_tasks d self up should_run_only = get_all_tasks_loop d up should_run_only [] [] [self]"

definition subdag_tasks :: "dag \<Rightarrow> task_id \<Rightarrow> bool \<Rightarrow> task_id list result" where
  "subdag_tasks d self should_run_only = get_all_tasks d self True should_run_only"

definition all_subdags :: "dag \<Rightarrow> task_id list \<Rightarrow> task_id list result" where
  "all_subdags d tasks = rmap (remdups \<circ> concat) (mapM (\<lambda>t. subdag_tasks d t False) tasks)"

text \<open>
  \<open>set_global_upstream\<close>: the recursion is on the Python stack, so running out of
  \<open>fuel\<close> is \<open>RecursionError\<close>. The children are a set comprehension that drops
  data sources; \<open>children & upstreams\<close> is the intersection with the child's own subgraph.
\<close>

fun set_global_upstream :: "nat \<Rightarrow> dag \<Rightarrow> task_id \<Rightarrow> task_id list \<Rightarrow> dag result" where
  "set_global_upstream 0 d self ts = Inl RecursionError"
| "set_global_upstream (Suc fuel) d self ts =
     (case get_task_by_id d self of
        None \<Rightarrow> Inl (AttributeError self)
      | Some t \<Rightarrow>
          rbind (get_children d t) (\<lambda>all_children.
            let children = filter (\<lambda>c. \<not> is_data_source (the (get_task_by_id d c))) all_children;
                d' = (if children = [] then set_upstream d self ts else d)
            in foldM (\<lambda>g c. rbind (subdag_tasks g c False) (\<lambda>upstreams.
                 if filter (\<lambda>x. x \<in> set upstreams) children = []
                 then set_global_upstream fuel g c ts else Inr g)) d' children))"

text \<open>
  \<open>select_by_task_names\<close>; \<open>findall regex text\<close> says whether \<open>re.findall\<close>
  returns a non-empty list. An empty \<open>tasks\<close> argument means the whole subgraph.
\<close>

definition select_by_task_names ::
  "(string \<Rightarrow> string \<Rightarrow> bool) \<Rightarrow> dag \<Rightarrow> task_id \<Rightarrow> string list \<Rightarrow> task_id list \<Rightarrow> task_id list result" where
  "select_by_task_names findall d self tasks_regexes tasks =
     rbind (if tasks = [] then subdag_tasks d self False else Inr tasks) (\<lambda>ts.
       let selected = concat (map (\<lambda>r. filter (findall r) ts) tasks_regexes)
       in if selected = []
          then Inl (DatabandConfigError (''None of '' @ join_str '', '' tasks_regexes @ '' tasks have been found at current pipeline!''))
          else Inr selected)"

section \<open>Topological sort\<close>

definition tasks_trail :: "task_id list \<Rightarrow> string" where
  "tasks_trail ts = join_str '' -> '' ts"

fun index_of :: "'a \<Rightarrow> 'a list \<Rightarrow> nat" where
  "index_of x [] = 0"
| "index_of x (y # ys) = (if x = y then 0 else Suc (index_of x ys))"

text \<open>
  One round of \<open>_find_cirlce\<close> over the upstream edges of the current node: an edge
  back into the trail closes the circle, the first edge to an unvisited node is followed.
\<close>

datatype circle_step = Closed task_id | Follow task_id | NoEdge

fun circle_edge :: "task_id list \<Rightarrow> task_id list \<Rightarrow> task_id option list \<Rightarrow> circle_step" where
  "circle_edge trail unsorted [] = NoEdge"
| "circle_edge trail unsorted (None # es) = circle_edge trail unsorted es"
| "circle_edge trail unsorted (Some e # es) =
     (if e \<in> set trail then Closed e
      else if e \<in> set unsorted then Follow e
      else circle_edge trail unsorted es)"

text \<open>
  \<open>graph_unsorted.remove(node)\<close> raises when the node is absent, and
  \<open>graph_unsorted[0]\<close> when nothing is left.
\<close>

function find_circle_loop :: "dag \<Rightarrow> task_id list \<Rightarrow> task_id \<Rightarrow> task_id list \<Rightarrow> task_id list result" where
  "find_circle_loop d unsorted node trail =
     (if unsorted = [] then Inr trail
      else if node \<notin> set unsorted then Inl (ValueError ''list.remove(x): x not in list'')
      else
        let unsorted' = remove1 node unsorted; trail' = trail @ [node]
        in case circle_edge trail' unsorted' (upstream d node) of
             Closed e \<Rightarrow> Inr (drop (index_of e trail') trail')
           | Follow e \<Rightarrow> find_circle_loop d unsorted' e trail'
           | NoEdge \<Rightarrow> (case unsorted' of [] \<Rightarrow> Inl IndexError
                         | n # _ \<Rightarrow> find_circle_loop d unsorted' n trail'))"
  by pat_completeness auto
termination
  by (relation "measure (\<lambda>(d, unsorted, node, trail). length unsorted)")
     (auto simp: length_remove1 simp flip: length_greater_0_conv)

definition find_circle :: "dag \<Rightarrow> task_id list \<Rightarrow> task_id list result" where
  "find_circle d cyclic_nodes =
     (case cyclic_nodes of [] \<Rightarrow> Inl IndexError | n # _ \<Rightarrow> find_circle_loop d cyclic_nodes n [])"

text \<open>
  \<open>cyclic_graph_detected\<close>. The message is built with \<open>str.format\<close>, so the
  \<open>%s\<close> in it stays as it is.
\<close>

definition cyclic_graph_message :: "task_id list \<Rightarrow> string" where
  "cyclic_graph_message circle =
     ''A cyclic dependency occurred %s: '' @ tasks_trail (take 3 circle) @ ''.. (''
       @ nat_str (length circle) @ '' tasks)''"

definition cyclic_graph_detected :: "dag \<Rightarrow> task_id list \<Rightarrow> py_error" where
  "cyclic_graph_detected d cyclic_nodes =
     (case find_circle d cyclic_nodes of
        Inl e \<Rightarrow> e
      | Inr circle \<Rightarrow> DatabandBuildError (cyclic_graph_message circle))"

definition is_resolved :: "dag \<Rightarrow> task_id list \<Rightarrow> task_id \<Rightarrow> bool" where
  "is_resolved d unsorted node = (\<forall>e \<in> set (upstream d node). e \<notin> Some ` set unsorted)"

text \<open>The body of one pass: the copy of the unsorted set is walked, the set itself shrinks.\<close>

fun topo_pass :: "dag \<Rightarrow> task_id list \<Rightarrow> task_id list \<Rightarrow> task_id list \<Rightarrow> bool
    \<Rightarrow> task_id list \<times> task_id list \<times> bool" where
  "topo_pass d [] unsorted graph_sorted is_acyclic = (unsorted, graph_sorted, is_acyclic)"
| "topo_pass d (node # rest) unsorted graph_sorted is_acyclic =
     (if is_resolved d unsorted node
      then topo_pass d rest (remove1 node unsorted) (graph_sorted @ [node]) True
      else topo_pass d rest unsorted graph_sorted is_acyclic)"

lemma topo_pass_length:
  assumes "topo_pass d nodes us srt ac = (us', srt', ac')" "set nodes \<subseteq> set us" "distinct nodes"
  shows "length us' \<le> length us \<and> (ac' \<and> \<not> ac \<longrightarrow> length us' < length us)"
  using assms
proof (induction d nodes us srt ac arbitrary: us' srt' ac' rule: topo_pass.induct)
  case (2 d node rest us srt ac)
  show ?case
  proof (cases "is_resolved d us node")
    case True
    have "topo_pass d rest (remove1 node us) (srt @ [node]) True = (us', srt', ac')"
      using 2(3) True by simp
    moreover have "set rest \<subseteq> set (remove1 node us)"
      using 2(4,5) by (auto intro!: in_set_remove1 [THEN iffD2])
    ultimately have "length us' \<le> length (remove1 node us)"
      using "2.IH"(1) [OF True] 2(5) by auto
    moreover have "length (remove1 node us) < length us"
      using 2(4) by (simp add: length_remove1) (metis length_pos_if_in_set diff_Suc_less One_nat_def)
    ultimately show ?thesis by simp
  next
    case False
    with 2 show ?thesis by simp
  qed
qed simp

function topo_loop :: "dag \<Rightarrow> task_id list \<Rightarrow> task_id list \<Rightarrow> task_id list result" where
  "topo_loop d unsorted graph_sorted =
     (if unsorted = [] then Inr graph_sorted
      else case topo_pass d (remdups unsorted) unsorted graph_sorted False of
        (unsorted', graph_sorted', is_acyclic) \<Rightarrow>
          if \<not> is_acyclic then Inl (cyclic_graph_detected d unsorted')
          else topo_loop d unsorted' graph_sorted')"
  by pat_completeness auto
termination
  by (relation "measure (\<lambda>(d, unsorted, graph_sorted). length unsorted)") (auto dest!: topo_pass_length [OF sym])

declare find_circle_loop.simps [simp del] topo_loop.simps [simp del]

text \<open>\<open>set(tasks)\<close> starts the loop; an empty argument returns the empty tuple at once.\<close>

definition topological_sort :: "dag \<Rightarrow> task_id list \<Rightarrow> task_id list result" where
  "topological_sort d tasks = (if tasks = [] then Inr [] else topo_loop d (remdups tasks) [])"

definition node_topological_sort :: "dag \<Rightarrow> task_id \<Rightarrow> task_id list result" where
  "node_topological_sort d self = rbind (subdag_tasks d self False) (topological_sort d)"

section \<open>Well-formed graphs\<close>

text \<open>
  \<open>wf_dag\<close>: every edge leads to a registered task. \<open>mirrored\<close>: the two
  edge sets describe the same relation, the invariant \<open>set_relatives\<close> maintains by
  writing both ends.
\<close>

definition task_refs :: "task \<Rightarrow> task_id set" where
  "task_refs t = set (upstream_tasks t) \<union> set (downstream_tasks t) \<union> set (children t)"

definition wf_dag :: "dag \<Rightarrow> bool" where
  "wf_dag d \<longleftrightarrow> distinct (map fst d) \<and>
     (\<forall>(i, t) \<in> set d. task_refs t \<subseteq> fst ` set d)"

definition edge :: "dag \<Rightarrow> bool \<Rightarrow> task_id \<Rightarrow> task_id \<Rightarrow> bool" where
  "edge d up i j \<longleftrightarrow> (\<exists>t. map_of d i = Some t \<and> j \<in> set (direction up t))"

definition mirrored :: "dag \<Rightarrow> bool" where
  "mirrored d \<longleftrightarrow> (\<forall>i j. edge d True i j \<longleftrightarrow> edge d False j i)"

lemma in_keys_iff: "i \<in> fst ` set d \<longleftrightarrow> (\<exists>t. map_of d i = Some t)"
  by (metis domD domI dom_map_of_conv_image_fst)

lemma direction_task_refs: "set (direction up t) \<subseteq> task_refs t"
  by (auto simp: direction_def task_refs_def)

lemma wf_dagD:
  "wf_dag d \<Longrightarrow> map_of d i = Some t \<Longrightarrow>
     task_refs t \<subseteq> fst ` set d"
  by (auto simp: wf_dag_def dest: map_of_SomeD)

lemma node_step_in_keys: "wf_dag d \<Longrightarrow> j \<in> set (node_step d up sro i) \<Longrightarrow> j \<in> fst ` set d"
  by (auto simp: node_step_def get_task_by_id_def split: option.splits if_splits
      dest!: direction_task_refs [THEN subsetD] sym [of "Some _"] dest: wf_dagD)

interpretation dag_walk: finite_graph
  "\<lambda>(d, up, sro). node_step d up sro" "\<lambda>(d, up, sro). map fst d" "\<lambda>(d, up, sro). wf_dag d"
  by unfold_locales (auto intro: node_step_in_keys)

subsection \<open>Edges under \<open>set_relatives\<close>\<close>

lemma edge_set_relative:
  "self \<in> fst ` set d \<Longrightarrow>
     edge (set_relative d self other up) up' i j \<longleftrightarrow> edge d up' i j \<or> (i = self \<and> j = other \<and> up' = up)"
  by (cases up; cases up'; cases "i = self")
     (auto simp: in_keys_iff edge_def set_relative_def get_task_by_id_def connect_def direction_def
       split: if_splits)

lemma keys_set_relative: "fst ` set (set_relative d self other up) = fst ` set d"
  by (auto simp: set_relative_def get_task_by_id_def set_fst_dict_set in_keys_iff split: option.splits)

lemma wf_dag_edge:
  "wf_dag d \<longleftrightarrow> distinct (map fst d) \<and>
     (\<forall>i t. map_of d i = Some t \<longrightarrow>
       task_refs t \<subseteq> fst ` set d)"
  unfolding wf_dag_def by (rule conj_cong [OF refl]) (rule ball_dict_iff)

lemma task_refs_connect: "task_refs (connect up other t) \<subseteq> insert other (task_refs t)"
  by (auto simp: task_refs_def connect_def)

lemma wf_dag_set_relative:
  assumes "wf_dag d" "other \<in> fst ` set d"
  shows "wf_dag (set_relative d self other up)"
proof (cases "map_of d self")
  case None
  with assms show ?thesis by (simp add: set_relative_def get_task_by_id_def)
next
  case (Some t)
  then have eq: "set_relative d self other up = dict_set d self (connect up other t)"
    by (simp add: set_relative_def get_task_by_id_def)
  have keys: "fst ` set (dict_set d self (connect up other t)) = fst ` set d"
    using keys_set_relative [of d self other up] eq by simp
  show ?thesis
    unfolding eq wf_dag_edge keys
  proof (intro conjI allI impI)
    show "distinct (map fst (dict_set d self (connect up other t)))"
      using assms by (auto simp: wf_dag_def intro: distinct_dict_set)
    fix i t'
    assume "map_of (dict_set d self (connect up other t)) i = Some t'"
    then show "task_refs t' \<subseteq> fst ` set d"
      using wf_dagD [OF assms(1), of i] wf_dagD [OF assms(1) Some] assms(2)
        task_refs_connect [of up other t]
      by (auto split: if_splits)
  qed
qed

lemma set_relatives_keys: "fst ` set (set_relatives d self ts up) = fst ` set d"
  by (induction d self ts up rule: set_relatives.induct) (auto simp: keys_set_relative)

lemma wf_dag_set_relatives:
  "wf_dag d \<Longrightarrow> self \<in> fst ` set d \<Longrightarrow> set ts \<subseteq> fst ` set d \<Longrightarrow> wf_dag (set_relatives d self ts up)"
proof (induction d self ts up rule: set_relatives.induct)
  case (2 d self t ts up)
  have "wf_dag (set_relative (set_relative d t self (\<not> up)) self t up)"
    using 2(2-4) by (intro wf_dag_set_relative) (auto simp: keys_set_relative)
  with 2 show ?case by (simp add: keys_set_relative)
qed simp

lemma edge_set_relatives:
  "self \<in> fst ` set d \<Longrightarrow> set ts \<subseteq> fst ` set d \<Longrightarrow>
     edge (set_relatives d self ts up) up' i j \<longleftrightarrow>
       edge d up' i j \<or> (if up' = up then i = self \<and> j \<in> set ts else i \<in> set ts \<and> j = self)"
proof (induction d self ts up rule: set_relatives.induct)
  case (2 d self t ts up)
  have keys: "fst ` set (set_relative (set_relative d t self (\<not> up)) self t up) = fst ` set d"
    by (simp add: keys_set_relative)
  have "edge (set_relative (set_relative d t self (\<not> up)) self t up) up' i j \<longleftrightarrow>
      edge d up' i j \<or> (if up' = up then i = self \<and> j = t else i = t \<and> j = self)"
    using 2(2,3) by (auto simp: edge_set_relative keys_set_relative)
  with 2 keys show ?case by (auto simp: keys_set_relative)
qed simp

lemma set_relatives_inv:
  assumes "wf_dag d" "mirrored d" "self \<in> fst ` set d" "set ts \<subseteq> fst ` set d"
  shows "wf_dag (set_relatives d self ts up)" "mirrored (set_relatives d self ts up)"
  using assms wf_dag_set_relatives [of d self ts up]
  by (cases up; auto simp: mirrored_def edge_set_relatives)+

text \<open>
  C6. Registering relatives keeps the graph well formed and keeps the two directions mirror
  images: afterwards \<open>j\<close> is upstream of \<open>i\<close> exactly when \<open>i\<close> is downstream of
  \<open>j\<close>, whichever of \<open>set_upstream\<close> and \<open>set_downstream\<close> was called.
\<close>

theorem set_relatives_keeps_mirror:
  assumes "wf_dag d" "mirrored d" "self \<in> fst ` set d" "set ts \<subseteq> fst ` set d"
  shows "wf_dag (set_relatives d self ts up) \<and> mirrored (set_relatives d self ts up) \<and>
    (\<forall>t \<in> set ts. edge (set_relatives d self ts up) up self t)"
  using assms set_relatives_inv [OF assms] by (auto simp: edge_set_relatives)

section \<open>What a walk finds\<close>

definition enabled :: "dag \<Rightarrow> bool \<Rightarrow> task_id \<Rightarrow> bool" where
  "enabled d sro i \<longleftrightarrow> (\<forall>t. map_of d i = Some t \<longrightarrow> sro \<longrightarrow> should_run t)"

lemma get_all_tasks_loop_sound:
  assumes "get_all_tasks_loop d up sro seen result q = Inr r"
    and "set result = {x \<in> set seen. enabled d sro x}"
    and "\<And>x y. x \<in> set seen \<Longrightarrow> y \<in> set (node_step d up sro x) \<Longrightarrow> y \<in> set seen \<union> set q"
    and "\<And>x. x \<in> set seen \<union> set q \<Longrightarrow> reach (node_step d up sro) root x"
    and "root \<in> set seen \<union> set q"
  shows "set r = {x. reach (node_step d up sro) root x \<and> enabled d sro x} \<and> distinct r"
  using assms
proof (induction d up sro seen result q arbitrary: r rule: get_all_tasks_loop.induct)
  case (1 d up sro seen result)
  from 1 have r: "r = remdups result" by simp
  have "set seen = {y. reach (node_step d up sro) root y}"
  proof (rule dag_walk.closed_set_is_reach [of root _ "(d, up, sro)", simplified])
    show "root \<in> set seen" using 1(5) by simp
    show "v \<in> set seen" if "u \<in> set seen" "v \<in> set (node_step d up sro u)" for u v
      using that 1(3) by simp
    show "reach (node_step d up sro) root u" if "u \<in> set seen" for u
      using that 1(4) by simp
  qed
  with 1(2) r show ?case by auto
next
  case (2 d up sro seen result current q)
  from 2(3) obtain t where t: "get_task_by_id d current = Some t"
    by (auto split: option.splits)
  show ?case
  proof (cases "sro \<and> \<not> should_run t")
    case True
    then have step: "node_step d up sro current = []" and "\<not> enabled d sro current"
      using t by (auto simp: node_step_def enabled_def get_task_by_id_def)
    show ?thesis
    proof (rule "2.IH"(1) [OF t True])
      show "get_all_tasks_loop d up sro (current # seen) result q = Inr r"
        using 2(3) t True by simp
      show "set result = {x \<in> set (current # seen). enabled d sro x}"
        using 2(4) \<open>\<not> enabled d sro current\<close> by auto
      show "y \<in> set (current # seen) \<union> set q"
        if "x \<in> set (current # seen)" "y \<in> set (node_step d up sro x)" for x y
        using that 2(5) [of x y] step by auto
      show "reach (node_step d up sro) root x" if "x \<in> set (current # seen) \<union> set q" for x
        using that 2(6) [of x] by auto
      show "root \<in> set (current # seen) \<union> set q"
        using 2(7) by auto
    qed
  next
    case False
    then have step: "node_step d up sro current = direction up t" and en: "enabled d sro current"
      using t by (auto simp: node_step_def enabled_def get_task_by_id_def)
    from 2(3) t False obtain connected where c: "mapM (resolve_task d)
        (filter (\<lambda>i. i \<notin> set (current # seen)) (direction up t)) = Inr connected"
      by (auto split: sum.splits)
    then have conn: "connected = filter (\<lambda>i. i \<notin> set (current # seen)) (direction up t)"
      by (auto simp: mapM_resolve_task)
    show ?thesis
    proof (rule "2.IH"(2) [OF t False c])
      show "get_all_tasks_loop d up sro (current # seen) (result @ [current]) (q @ connected) = Inr r"
        using 2(3) t False c by (auto split: if_splits)
      show "set (result @ [current]) = {x \<in> set (current # seen). enabled d sro x}"
        using 2(4) en by auto
      show "y \<in> set (current # seen) \<union> set (q @ connected)"
        if "x \<in> set (current # seen)" "y \<in> set (node_step d up sro x)" for x y
        using that 2(5) [of x y] step conn by auto
      have cur: "reach (node_step d up sro) root current" using 2(6) by simp
      show "reach (node_step d up sro) root x" if "x \<in> set (current # seen) \<union> set (q @ connected)" for x
        using that 2(6) [of x] conn step reach_step [OF cur, of x] by auto
      show "root \<in> set (current # seen) \<union> set (q @ connected)"
        using 2(7) by auto
    qed
  qed
qed

lemma get_all_tasks_loop_total:
  "wf_dag d \<Longrightarrow> set q \<subseteq> fst ` set d \<Longrightarrow> \<exists>r. get_all_tasks_loop d up sro seen result q = Inr r"
proof (induction d up sro seen result q rule: get_all_tasks_loop.induct)
  case (2 d up sro seen result current q)
  then obtain t where t: "get_task_by_id d current = Some t"
    by (auto simp: get_task_by_id_def in_keys_iff)
  show ?case
  proof (cases "sro \<and> \<not> should_run t")
    case True
    with 2 t show ?thesis by simp
  next
    case False
    let ?new = "filter (\<lambda>i. i \<notin> set (current # seen)) (direction up t)"
    have "set ?new \<subseteq> fst ` set d"
      using wf_dagD [OF 2(3)] t direction_task_refs [of up t] by (force simp: get_task_by_id_def)
    moreover from this have c: "mapM (resolve_task d) ?new = Inr ?new"
      by (simp add: mapM_resolve_task)
    ultimately have "\<exists>r. get_all_tasks_loop d up sro (current # seen) (result @ [current]) (q @ ?new) = Inr r"
      using 2(3,4) by (intro "2.IH"(2) [OF t False c]) auto
    with t False c show ?thesis by auto
  qed
qed simp

declare get_all_tasks_loop.simps(2) [simp del]

lemma subdag_tasks_outcome:
  assumes "wf_dag d" "root \<in> fst ` set d"
  shows "\<exists>r. subdag_tasks d root sro = Inr r \<and> distinct r \<and>
    set r = {x. reach (node_step d True sro) root x \<and> enabled d sro x}"
proof -
  obtain r where r: "subdag_tasks d root sro = Inr r"
    using get_all_tasks_loop_total [OF assms(1), of "[root]" True sro "[]" "[]"] assms(2)
    by (auto simp: subdag_tasks_def get_all_tasks_def)
  then have "set r = {x. reach (node_step d True sro) root x \<and> enabled d sro x} \<and> distinct r"
    unfolding subdag_tasks_def get_all_tasks_def
    by (rule get_all_tasks_loop_sound) auto
  with r show ?thesis by blast
qed

text \<open>
  C3. \<open>subdag_tasks\<close> always returns on a well-formed graph, cyclic ones included, and
  returns exactly the tasks reachable upwards: all of them, or, with
  \<open>should_run_only\<close>, the runnable ones on a path of runnable tasks; each task once.
\<close>

theorem subdag_tasks_correct:
  assumes "wf_dag d" "root \<in> fst ` set d"
  shows "\<exists>r. subdag_tasks d root sro = Inr r \<and> distinct r \<and>
    set r = {x. reach (node_step d True sro) root x \<and> enabled d sro x}"
  using assms by (rule subdag_tasks_outcome)

section \<open>Order and circles\<close>

definition topo_ordered :: "dag \<Rightarrow> task_id list \<Rightarrow> bool" where
  "topo_ordered d ts \<longleftrightarrow> sorted_wrt (\<lambda>x y. Some y \<notin> set (upstream d x)) ts \<and>
     (\<forall>x \<in> set ts. Some x \<notin> set (upstream d x))"

definition is_circle :: "dag \<Rightarrow> task_id list \<Rightarrow> bool" where
  "is_circle d c \<longleftrightarrow> c \<noteq> [] \<and> distinct c \<and>
     successively (\<lambda>x y. Some y \<in> set (upstream d x)) c \<and> Some (hd c) \<in> set (upstream d (last c))"

lemma circle_edge_cases:
  "case circle_edge trail uns es of
     Closed e \<Rightarrow> Some e \<in> set es \<and> e \<in> set trail
   | Follow e \<Rightarrow> Some e \<in> set es \<and> e \<in> set uns
   | NoEdge \<Rightarrow> (\<forall>e. Some e \<in> set es \<longrightarrow> e \<notin> set trail \<and> e \<notin> set uns)"
  by (induction trail uns es rule: circle_edge.induct) (auto split: circle_step.splits)

lemma index_of_nth: "x \<in> set xs \<Longrightarrow> index_of x xs < length xs \<and> xs ! index_of x xs = x"
  by (induction x xs rule: index_of.induct) auto

lemma successively_drop: "successively P xs \<Longrightarrow> successively P (drop n xs)"
  by (metis append_take_drop_id successively_append_iff)

definition closed_under_edges :: "dag \<Rightarrow> task_id list \<Rightarrow> bool" where
  "closed_under_edges d us \<longleftrightarrow> (\<forall>n \<in> set us. \<exists>e \<in> set us. Some e \<in> set (upstream d n))"

lemma closing_edge_circle:
  assumes "distinct trail" "successively (\<lambda>x y. Some y \<in> set (upstream d x)) trail"
    and "e \<in> set trail" "Some e \<in> set (upstream d (last trail))"
  shows "is_circle d (drop (index_of e trail) trail)"
  using assms index_of_nth [OF assms(3)]
  by (auto simp: is_circle_def successively_drop hd_drop_conv_nth)

lemma find_circle_loop_correct:
  assumes "closed_under_edges d us" "set trail \<union> set uns = set us" "distinct (trail @ uns)"
    and "node \<in> set uns" "successively (\<lambda>x y. Some y \<in> set (upstream d x)) (trail @ [node])"
  shows "\<exists>c. find_circle_loop d uns node trail = Inr c \<and> is_circle d c \<and> set c \<subseteq> set us"
  using assms
proof (induction d uns node trail rule: find_circle_loop.induct)
  case (1 d uns node trail)
  let ?uns = "remove1 node uns" and ?trail = "trail @ [node]"
  have sets: "set ?trail \<union> set ?uns = set us" and dist: "distinct (?trail @ ?uns)"
    using 1(4-6) by auto
  have "node \<in> set us" using 1(4,6) by auto
  then obtain e0 where e0: "e0 \<in> set us" "Some e0 \<in> set (upstream d node)"
    using 1(3) by (auto simp: closed_under_edges_def)
  note ce = circle_edge_cases [where trail = ?trail and uns = ?uns and es = "upstream d node"]
  have unfold: "find_circle_loop d uns node trail =
      (case circle_edge ?trail ?uns (upstream d node) of
         Closed e \<Rightarrow> Inr (drop (index_of e ?trail) ?trail)
       | Follow e \<Rightarrow> find_circle_loop d ?uns e ?trail
       | NoEdge \<Rightarrow> (case ?uns of [] \<Rightarrow> Inl IndexError | n # _ \<Rightarrow> find_circle_loop d ?uns n ?trail))"
    using 1(6) by (subst find_circle_loop.simps) (auto simp: Let_def)
  show ?case
  proof (cases "circle_edge ?trail ?uns (upstream d node)")
    case (Closed e)
    then have "is_circle d (drop (index_of e ?trail) ?trail)"
      using ce dist 1(7) by (intro closing_edge_circle) auto
    with Closed unfold sets show ?thesis
      using set_drop_subset [of "index_of e ?trail" ?trail] by auto
  next
    case (Follow e)
    then have e: "e \<in> set ?uns" "Some e \<in> set (upstream d node)"
      using ce by auto
    have "\<exists>c. find_circle_loop d ?uns e ?trail = Inr c \<and> is_circle d c \<and> set c \<subseteq> set us"
      using 1(3,6,7) sets dist e Follow
      by (intro "1.IH"(1)) (auto simp: successively_append_iff)
    with Follow unfold show ?thesis by simp
  next
    case NoEdge
    with ce e0 sets have False by auto
    then show ?thesis ..
  qed
qed

theorem find_circle_correct:
  assumes "closed_under_edges d us" "us \<noteq> []" "distinct us"
  shows "\<exists>c. find_circle d us = Inr c \<and> is_circle d c \<and> set c \<subseteq> set us"
  using assms find_circle_loop_correct [of d us "[]" us "hd us"]
  by (cases us) (auto simp: find_circle_def)

text \<open>Invariant of the sort: what is sorted is ordered and waits for nothing unsorted.\<close>

definition topo_inv :: "dag \<Rightarrow> task_id list \<Rightarrow> task_id list \<Rightarrow> bool" where
  "topo_inv d us gs \<longleftrightarrow> distinct us \<and> distinct gs \<and> set us \<inter> set gs = {} \<and> topo_ordered d gs \<and>
     (\<forall>x \<in> set gs. \<forall>y \<in> set us. Some y \<notin> set (upstream d x))"

lemma topo_inv_step:
  assumes "topo_inv d us gs" "n \<in> set us" "is_resolved d us n"
  shows "topo_inv d (remove1 n us) (gs @ [n])"
  using assms unfolding topo_inv_def topo_ordered_def is_resolved_def
  by (auto simp: sorted_wrt_append)

lemma topo_pass_correct:
  assumes "topo_pass d nodes us gs ac = (us', gs', ac')" "topo_inv d us gs"
    and "set nodes \<subseteq> set us" "distinct nodes"
  shows "topo_inv d us' gs' \<and> set us' \<union> set gs' = set us \<union> set gs \<and> set us' \<subseteq> set us \<and> (ac \<longrightarrow> ac') \<and>
    (\<not> ac' \<longrightarrow> us' = us \<and> (\<forall>n \<in> set nodes. \<not> is_resolved d us n))"
  using assms
proof (induction d nodes us gs ac arbitrary: us' gs' ac' rule: topo_pass.induct)
  case (2 d node rest us gs ac)
  show ?case
  proof (cases "is_resolved d us node")
    case True
    have inv: "topo_inv d (remove1 node us) (gs @ [node])"
      using topo_inv_step [OF 2(4) _ True] 2(5) by simp
    have sub: "set rest \<subseteq> set (remove1 node us)"
      using 2(5,6) by (auto intro!: in_set_remove1 [THEN iffD2])
    have dist: "distinct us" using 2(4) by (simp add: topo_inv_def)
    have "topo_pass d rest (remove1 node us) (gs @ [node]) True = (us', gs', ac')"
      using 2(3) True by simp
    from "2.IH"(1) [OF True this inv sub] 2(5,6) dist show ?thesis
      by auto
  next
    case False
    with 2 show ?thesis by auto
  qed
qed simp

lemma not_resolved_closed:
  "\<forall>n \<in> set us. \<not> is_resolved d us n \<Longrightarrow> closed_under_edges d us"
  by (fastforce simp: is_resolved_def closed_under_edges_def)

lemma topo_loop_correct:
  assumes "topo_inv d us gs"
  shows "(\<exists>r. topo_loop d us gs = Inr r \<and> topo_ordered d r \<and> distinct r \<and> set r = set us \<union> set gs) \<or>
    (\<exists>c. topo_loop d us gs = Inl (DatabandBuildError (cyclic_graph_message c)) \<and> is_circle d c \<and> set c \<subseteq> set us)"
  using assms
proof (induction d us gs rule: topo_loop.induct)
  case (1 d us gs)
  show ?case
  proof (cases "us = []")
    case True
    with 1(2) show ?thesis
      by (subst (1) topo_loop.simps) (auto simp: topo_inv_def)
  next
    case False
    obtain us' gs' ac where pass: "topo_pass d (remdups us) us gs False = (us', gs', ac)"
      by (metis prod_cases3)
    from topo_pass_correct [OF pass 1(2)]
    have post: "topo_inv d us' gs'" "set us' \<union> set gs' = set us \<union> set gs" "set us' \<subseteq> set us"
      "\<not> ac \<Longrightarrow> us' = us \<and> (\<forall>n \<in> set us. \<not> is_resolved d us n)" by auto
    show ?thesis
    proof (cases ac)
      case True
      have "topo_loop d us gs = topo_loop d us' gs'"
        using False True pass by (subst topo_loop.simps) simp
      moreover note "1.IH" [OF False pass [symmetric] refl]
      ultimately show ?thesis
        using True post(1-3) by simp (meson subset_trans)
    next
      case ac: False
      have "topo_loop d us gs = Inl (cyclic_graph_detected d us)"
        using False ac pass post(4) by (subst topo_loop.simps) simp
      moreover obtain c where "find_circle d us = Inr c" "is_circle d c" "set c \<subseteq> set us"
        using find_circle_correct [OF not_resolved_closed [of us d] False] post(4) [OF ac] 1(2)
        by (auto simp: topo_inv_def)
      ultimately show ?thesis
        by (auto simp: cyclic_graph_detected_def)
    qed
  qed
qed

lemma topo_sort_outcome:
  "(\<exists>r. topological_sort d ts = Inr r \<and> topo_ordered d r \<and> distinct r \<and> set r = set ts) \<or>
   (\<exists>c. topological_sort d ts = Inl (DatabandBuildError (cyclic_graph_message c)) \<and>
      is_circle d c \<and> set c \<subseteq> set ts)"
proof (cases "ts = []")
  case True
  then show ?thesis by (simp add: topological_sort_def topo_ordered_def)
next
  case False
  have "topo_inv d (remdups ts) []"
    by (simp add: topo_inv_def topo_ordered_def)
  from topo_loop_correct [OF this] False show ?thesis
    by (simp add: topological_sort_def)
qed

text \<open>
  C1. \<open>topological_sort\<close> always returns or raises: either every task exactly once,
  each after all of its upstream tasks, or the error naming a real circle of upstream edges
  among the given tasks.
\<close>

theorem topological_sort_correct:
  "(\<exists>r. topological_sort d ts = Inr r \<and> topo_ordered d r \<and> distinct r \<and> set r = set ts) \<or>
   (\<exists>c. topological_sort d ts = Inl (DatabandBuildError (cyclic_graph_message c)) \<and>
      is_circle d c \<and> set c \<subseteq> set ts)"
  by (rule topo_sort_outcome)

lemma circle_upstream:
  assumes "is_circle d c" "x \<in> set c"
  shows "\<exists>y \<in> set c. Some y \<in> set (upstream d x)"
proof -
  from assms(2) obtain i where i: "i < length c" "c ! i = x"
    by (auto simp: in_set_conv_nth)
  show ?thesis
  proof (cases "Suc i < length c")
    case True
    then have "Some (c ! Suc i) \<in> set (upstream d x)"
      using assms(1) i by (auto simp: is_circle_def successively_conv_nth)
    with True show ?thesis by (auto intro: nth_mem)
  next
    case False
    with i have "x = last c" by (metis Suc_lessI diff_Suc_1 last_conv_nth list.size(3) not_less_zero)
    with assms(1) show ?thesis by (auto simp: is_circle_def)
  qed
qed

lemma edge_upstream:
  assumes "wf_dag d" "edge d True i j" shows "Some j \<in> set (upstream d i)"
proof -
  obtain t where t: "map_of d i = Some t" "j \<in> set (upstream_tasks t)"
    using assms(2) by (auto simp: edge_def direction_def)
  then have "j \<in> fst ` set d" using wf_dagD [OF assms(1) t(1)] by (auto simp: task_refs_def)
  then obtain u where "map_of d j = Some u" by (auto simp: in_keys_iff)
  then show ?thesis
    using t by (auto simp: upstream_def get_task_by_id_def task_id_to_tasks_def image_iff intro!: bexI [of _ j])
qed

lemma topo_ordered_upstream_before:
  assumes "topo_ordered d r" "Some y \<in> set (upstream d (r ! i))" "i < length r" "j < length r" "r ! j = y"
  shows "j < i"
proof (rule ccontr)
  assume "\<not> j < i"
  then consider "i < j" | "i = j" by linarith
  then show False
    using assms by cases (auto simp: topo_ordered_def sorted_wrt_iff_nth_less)
qed

lemma topo_ordered_no_circle:
  assumes "topo_ordered d r" "is_circle d c" "set c \<subseteq> set r"
  shows False
proof -
  have "\<forall>j < length r. r ! j \<notin> set c"
  proof (intro allI impI)
    fix j assume "j < length r"
    then show "r ! j \<notin> set c"
    proof (induction j rule: less_induct)
      case (less j)
      show ?case
      proof
        assume "r ! j \<in> set c"
        then obtain y where y: "y \<in> set c" "Some y \<in> set (upstream d (r ! j))"
          using circle_upstream [OF assms(2)] by blast
        then obtain k where k: "k < length r" "r ! k = y"
          using assms(3) by (auto simp: in_set_conv_nth subset_iff)
        have "k < j"
          using topo_ordered_upstream_before [OF assms(1) y(2) less.prems k] .
        with less.IH k y show False by auto
      qed
    qed
  qed
  moreover have "hd c \<in> set r" "hd c \<in> set c"
    using assms(2,3) by (auto simp: is_circle_def)
  ultimately show False by (metis in_set_conv_nth)
qed

text \<open>
  C2. The sort is complete: it succeeds exactly on the task sets without a circle, so the
  check \<open>run_driver\<close> makes before building task runs rejects no acyclic pipeline and
  accepts no cyclic one.
\<close>

theorem topological_sort_succeeds_iff:
  "(\<exists>r. topological_sort d ts = Inr r) = (\<nexists>c. is_circle d c \<and> set c \<subseteq> set ts)"
proof -
  have "\<not> (\<exists>r. topological_sort d ts = Inr r)" if "is_circle d c" "set c \<subseteq> set ts" for c
    using topo_sort_outcome [of d ts] topo_ordered_no_circle [OF _ that(1)] that(2) by auto
  then show ?thesis
    using topo_sort_outcome [of d ts] by auto
qed

section \<open>Wiring a node, global upstreams\<close>

lemma children_registered:
  "wf_dag d \<Longrightarrow> map_of d i = Some t \<Longrightarrow> c \<in> set (children t) \<Longrightarrow> \<exists>u. map_of d c = Some u"
  using wf_dagD [of d i t] by (auto simp: task_refs_def in_keys_iff [symmetric])

lemma get_children_wf:
  "wf_dag d \<Longrightarrow> map_of d i = Some t \<Longrightarrow> get_children d t = Inr (children t)"
  unfolding get_children_def
  by (subst mapM_total [where g = id])
     (auto simp: get_task_by_id_def dest: children_registered split: option.splits)

lemma fold_set_upstream:
  "fold (\<lambda>u d. set_upstream d self [u]) us d = set_relatives d self us True"
  by (induction us arbitrary: d) (auto simp: set_upstream_def)

lemma downstream_Nil_iff: "downstream d c = [] \<longleftrightarrow> (\<forall>i. \<not> edge d False c i)"
  by (auto simp: downstream_def task_id_to_tasks_def edge_def direction_def get_task_by_id_def
      split: option.splits)

lemma initialize_dag_node_outcome:
  assumes "wf_dag d" "mirrored d" "map_of d self = Some t" "\<forall>i. Some i \<in> set inputs \<longrightarrow> i \<in> fst ` set d"
  shows "\<exists>d'. initialize_dag_node d self inputs = Inr d' \<and> wf_dag d' \<and> mirrored d' \<and>
    (\<forall>i. Some i \<in> set inputs \<longrightarrow> edge d' True self i) \<and>
    (\<forall>c \<in> set (children t). \<exists>w. edge d' False c w)"
proof -
  obtain us where us: "us = remdups (map the (filter (\<lambda>x. x \<noteq> None) inputs)
     @ filter (\<lambda>c. downstream d c = []) (children t))" by simp
  let ?d = "set_relatives d self us True"
  have self: "self \<in> fst ` set d" using assms(3) by (auto simp: in_keys_iff)
  have "set (children t) \<subseteq> fst ` set d"
    using wf_dagD [OF assms(1,3)] by (simp add: task_refs_def)
  then have ups: "set us \<subseteq> fst ` set d"
    using assms(4) us by fastforce
  have inputs_in: "i \<in> set us" if "Some i \<in> set inputs" for i
    unfolding us set_remdups set_append set_map set_filter
    using that by (intro UnI1 image_eqI [of _ _ "Some i"]) auto
  have orphans_in: "c \<in> set us" if "c \<in> set (children t)" "downstream d c = []" for c
    using that us by simp
  have "initialize_dag_node d self inputs = Inr (fold (\<lambda>u d. set_upstream d self [u]) us d)"
    unfolding initialize_dag_node_def get_task_by_id_def assms(3) option.case
      get_children_wf [OF assms(1,3)] rbind.simps Let_def us ..
  then have "initialize_dag_node d self inputs = Inr ?d"
    by (simp only: fold_set_upstream)
  moreover have "wf_dag ?d \<and> mirrored ?d"
    using set_relatives_inv [OF assms(1,2) self ups, of True] by blast
  moreover have "edge ?d True self i" if "Some i \<in> set inputs" for i
    using inputs_in [OF that] edge_set_relatives [OF self ups] by auto
  moreover have "\<exists>w. edge ?d False c w" if "c \<in> set (children t)" for c
  proof (cases "downstream d c = []")
    case True
    then show ?thesis
      using orphans_in [OF that] edge_set_relatives [OF self ups] by auto
  next
    case False
    then show ?thesis
      using edge_set_relatives [OF self ups] by (auto simp: downstream_Nil_iff)
  qed
  ultimately show ?thesis by blast
qed

text \<open>
  C7. \<open>initialize_dag_node\<close> leaves no orphans: every task behind an input is upstream of
  the task, every child has somebody waiting for it, and the graph stays well formed and
  mirrored.
\<close>

theorem initialize_dag_node_no_orphans:
  assumes "wf_dag d" "mirrored d" "map_of d self = Some t" "\<forall>i. Some i \<in> set inputs \<longrightarrow> i \<in> fst ` set d"
  shows "\<exists>d'. initialize_dag_node d self inputs = Inr d' \<and> wf_dag d' \<and> mirrored d' \<and>
    (\<forall>i. Some i \<in> set inputs \<longrightarrow> edge d' True self i) \<and>
    (\<forall>c \<in> set (children t). \<exists>w. edge d' False c w)"
  by (rule initialize_dag_node_outcome [OF assms])

lemma subdag_tasks_self:
  assumes "wf_dag d" "c \<in> fst ` set d"
  shows "\<exists>r. subdag_tasks d c False = Inr r \<and> c \<in> set r"
  using subdag_tasks_outcome [OF assms, of False] by (auto simp: enabled_def)

text \<open>
  As written, \<open>set_global_upstream\<close> changes nothing for a task that has a child
  other than a data source: every child is part of its own subgraph, so the test
  \<open>not children & upstreams\<close> never holds and no leaf is ever reached.
\<close>

theorem set_global_upstream_noop:
  assumes "wf_dag d" "map_of d self = Some t" "c \<in> set (children t)"
    and "map_of d c = Some tc" "\<not> is_data_source tc"
  shows "set_global_upstream (Suc fuel) d self ts = Inr d"
proof -
  obtain cs where cs: "cs = filter (\<lambda>c. \<not> is_data_source (the (get_task_by_id d c))) (children t)" by simp
  have "c \<in> set cs" using assms(3-5) cs by (simp add: get_task_by_id_def)
  then have "cs \<noteq> []" by auto
  have reg: "x \<in> fst ` set d" if "x \<in> set cs" for x
    using that cs children_registered [OF assms(1,2)] by (auto simp: in_keys_iff)
  have "foldM (\<lambda>g c. rbind (subdag_tasks g c False) (\<lambda>upstreams.
          if filter (\<lambda>x. x \<in> set upstreams) cs = []
          then set_global_upstream fuel g c ts else Inr g)) d xs = Inr d" if "set xs \<subseteq> set cs" for xs
    using that
  proof (induction xs)
    case (Cons x xs)
    then obtain r where r: "subdag_tasks d x False = Inr r" "x \<in> set r"
      using subdag_tasks_self [OF assms(1) reg, of x] by auto
    with Cons have "filter (\<lambda>y. y \<in> set r) cs \<noteq> []"
      by (auto simp: filter_empty_conv)
    with Cons r show ?case by simp
  qed simp
  from this [OF subset_refl] show ?thesis
    using assms(2) get_children_wf [OF assms(1,2)] \<open>cs \<noteq> []\<close>
    by (simp add: get_task_by_id_def Let_def cs [symmetric] del: filter_filter flip: get_task_by_id_def)
qed

section \<open>A sample pipeline\<close>

text \<open>\<open>pipe\<close> has the children \<open>train\<close> and \<open>load\<close>; \<open>load\<close> reads \<open>raw\<close>.\<close>

definition sample_task :: "string \<Rightarrow> int \<Rightarrow> string list \<Rightarrow> string list \<Rightarrow> string list \<Rightarrow> task" where
  "sample_task n i ups downs cs =
     \<lparr>task_name = n, task_creation_id = i, should_run = True, is_data_source = False,
      upstream_tasks = ups, downstream_tasks = downs, children = cs\<rparr>"

definition sample_dag :: dag where
  "sample_dag =
     [(''pipe'', sample_task ''pipe'' 1 [''train'', ''load''] [] [''train'', ''load'']),
      (''train'', sample_task ''train'' 2 [''load''] [''pipe''] []),
      (''load'', sample_task ''load'' 3 [''raw''] [''pipe'', ''train''] []),
      (''raw'', sample_task ''raw'' 4 [] [''load''] [])]"

lemma sample_dag_wf [simp]: "wf_dag sample_dag"
  by (simp add: wf_dag_def sample_dag_def sample_task_def task_refs_def)

lemma sample_dag_keys: "fst ` set sample_dag = {''pipe'', ''train'', ''load'', ''raw''}"
  by (auto simp: sample_dag_def)

lemma sample_dag_mirrored [simp]: "mirrored sample_dag"
  by (simp add: mirrored_def edge_def sample_dag_def sample_task_def direction_def)

theorem set_relatives_keeps_mirror_witness:
  "mirrored (set_relatives sample_dag ''train'' [''raw''] True) \<and>
   edge (set_relatives sample_dag ''train'' [''raw''] True) True ''train'' ''raw''"
  using set_relatives_keeps_mirror [of sample_dag "''train''" "[''raw'']" True]
  by (simp add: sample_dag_keys)

theorem subdag_tasks_correct_witness:
  "\<exists>r. subdag_tasks sample_dag ''pipe'' True = Inr r \<and>
    set r = {x. reach (node_step sample_dag True True) ''pipe'' x \<and> enabled sample_dag True x}"
  using subdag_tasks_correct [of sample_dag "''pipe''" True] by (auto simp: sample_dag_keys)

theorem initialize_dag_node_no_orphans_witness:
  "\<exists>d'. initialize_dag_node sample_dag ''pipe'' [Some ''raw'', None] = Inr d' \<and> edge d' True ''pipe'' ''raw''"
  using initialize_dag_node_no_orphans [of sample_dag "''pipe''" "snd (hd sample_dag)" "[Some ''raw'', None]"]
  by (auto simp: sample_dag_keys) (auto simp: sample_dag_def)

theorem set_global_upstream_noop_witness:
  "set_global_upstream (Suc 9) sample_dag ''pipe'' [''raw''] = Inr sample_dag"
  by (rule set_global_upstream_noop [of _ _ "snd (hd sample_dag)" "''train''" "snd (sample_dag ! 1)"])
     (simp_all add: sample_dag_wf, simp_all add: sample_dag_def sample_task_def)

end
