(* ===== verification/TaskCompletion.thy ===== *)
theory TaskCompletion
  imports TaskDag
begin

text \<open>
  When is a task complete, and which tasks does a run have to execute:
  \<open>Task._complete\<close> and \<open>Task._should_run\<close> of \<open>_core/task/task.py\<close>, the two completeness
  searches and \<open>find_tasks_to_skip_complete\<close> of \<open>_core/task_executor/task_runs_builder.py\<close>.
  \<open>exists\<close> is the state of the file systems, \<open>complete\<close> what \<open>_complete\<close> of each
  task returns or raises in it.
\<close>

section \<open>Completeness of one task\<close>

record task_output =
  out_path :: string
  overwrite_target :: bool

definition is_task_complete ::
  "(string \<Rightarrow> bool) \<Rightarrow> bool \<Rightarrow> string \<Rightarrow> task_output list \<Rightarrow> string option \<Rightarrow> bool result" where
  "is_task_complete exists validate_task_outputs_on_build name task_outputs task_band =
     (let outputs = filter (\<lambda>out. \<not> overwrite_target out) task_outputs
      in if outputs = [] then
           (case task_band of None \<Rightarrow> Inr False | Some band \<Rightarrow> Inr (exists band))
         else
           let incomplete_outputs = filter (\<lambda>out. \<not> exists (out_path out)) outputs;
               num_of_incomplete_outputs = length incomplete_outputs
           in if 0 < num_of_incomplete_outputs \<and> num_of_incomplete_outputs < length outputs
                 \<and> validate_task_outputs_on_build
              then Inl (DatabandBuildError (''incomplete outputs of '' @ name))
              else Inr (num_of_incomplete_outputs = 0))"

record run_flags =
  task_enabled :: bool
  task_enabled_in_prod :: bool
  env_production :: bool
  enable_prod :: bool

definition task_should_run :: "run_flags \<Rightarrow> bool" where
  "task_should_run f =
     (if \<not> task_enabled f then False
      else if env_production f then task_enabled_in_prod f \<or> enable_prod f
      else True)"

section \<open>Searching for the tasks that are not complete\<close>

type_synonym completed_status = "(task_id, bool) dict"

definition in_status :: "task_id \<Rightarrow> completed_status \<Rightarrow> bool" where
  "in_status i st = (map_of st i \<noteq> None)"

text \<open>
  \<open>check_if_completed_dfs\<close>: the recursive call shares the caller's dictionary, which is
  non-empty by then, so it extends it in place; \<open>fuel\<close> is Python's recursion limit.
\<close>

fun check_if_completed_dfs ::
  "nat \<Rightarrow> dag \<Rightarrow> (task_id \<Rightarrow> bool result) \<Rightarrow> task_id \<Rightarrow> completed_status \<Rightarrow> completed_status result" where
  "check_if_completed_dfs 0 d complete task st = Inl RecursionError"
| "check_if_completed_dfs (Suc fuel) d complete task st =
     rbind (complete task) (\<lambda>completed.
       let st' = dict_set st task completed
       in if completed then Inr st'
          else foldM (\<lambda>s c. case c of
                   None \<Rightarrow> Inl (AttributeError ''task_id'')
                 | Some c \<Rightarrow> if in_status c s then Inr s
                             else check_if_completed_dfs fuel d complete c s) st' (upstream d task))"

text \<open>
  \<open>check_if_completed_bfs\<close>: the answers of one level are collected from the thread
  pool, then the level's incomplete tasks queue their unanswered upstreams. The order in
  which the futures finish does not matter to the dictionary's contents.
\<close>

definition collect_level ::
  "(task_id \<Rightarrow> bool result) \<Rightarrow> completed_status \<Rightarrow> task_id list \<Rightarrow> completed_status result" where
  "collect_level complete st tasks =
     foldM (\<lambda>s t. case complete t of
              Inl e \<Rightarrow> Inl (DatabandRuntimeError (''Failed to get completeness result of task_id '' @ t))
            | Inr data \<Rightarrow> Inr (dict_set s t data)) st tasks"

definition next_level :: "dag \<Rightarrow> completed_status \<Rightarrow> task_id list \<Rightarrow> task_id list result" where
  "next_level d st tasks =
     rmap concat (mapM (\<lambda>t.
       if map_of st t = Some True then Inr []
       else mapM (\<lambda>u. case u of None \<Rightarrow> Inl (AttributeError ''task_id'') | Some u \<Rightarrow> Inr u)
              (filter (\<lambda>u. case u of None \<Rightarrow> True | Some u \<Rightarrow> \<not> in_status u st) (upstream d t))) tasks)"

lemma upstream_in_keys: "Some u \<in> set (upstream d t) \<Longrightarrow> u \<in> fst ` set d"
  by (auto simp: upstream_def task_id_to_tasks_def get_task_by_id_def in_keys_iff map_option_case
      split: option.splits)

lemma mapM_the: "mapM (\<lambda>u. case u of None \<Rightarrow> Inl e | Some u \<Rightarrow> Inr u) us = Inr vs \<longleftrightarrow> us = map Some vs"
  by (induction us arbitrary: vs) (auto simp: result_simps list_all2_Cons1 split: option.splits)

lemma next_level_set:
  "next_level d st tasks = Inr ts \<Longrightarrow>
     set ts = {u. \<exists>t \<in> set tasks. map_of st t \<noteq> Some True \<and> Some u \<in> set (upstream d t) \<and> \<not> in_status u st}"
proof (induction tasks arbitrary: ts)
  case (Cons t tasks)
  from Cons.prems obtain vs us where
    vs: "(if map_of st t = Some True then Inr [] else mapM (\<lambda>u. case u of None \<Rightarrow> Inl (AttributeError ''task_id'') | Some u \<Rightarrow> Inr u)
              (filter (\<lambda>u. case u of None \<Rightarrow> True | Some u \<Rightarrow> \<not> in_status u st) (upstream d t))) = Inr vs"
    and us: "next_level d st tasks = Inr us" and ts: "ts = vs @ us"
    by (auto simp: next_level_def rbind_Inr_iff rmap_Inr_iff)
  have "set vs = {u. map_of st t \<noteq> Some True \<and> Some u \<in> set (upstream d t) \<and> \<not> in_status u st}"
  proof (cases "map_of st t = Some True")
    case False
    with vs have eq: "map Some vs = filter (\<lambda>u. case u of None \<Rightarrow> True | Some u \<Rightarrow> \<not> in_status u st) (upstream d t)"
      by (simp add: mapM_the)
    have "u \<in> set vs \<longleftrightarrow> Some u \<in> set (map Some vs)" for u by auto
    with eq False show ?thesis by auto
  qed (use vs in simp)
  with Cons.IH [OF us] ts show ?case by auto
qed (simp add: next_level_def)

lemma collect_level_keys:
  "collect_level complete st tasks = Inr st' \<Longrightarrow> fst ` set st' = fst ` set st \<union> set tasks"
  unfolding collect_level_def
  by (induction tasks arbitrary: st) (auto simp: rbind_Inr_iff set_fst_dict_set split: sum.splits)

lemma in_status_iff: "in_status i st \<longleftrightarrow> i \<in> fst ` set st"
  by (auto simp: in_status_def in_keys_iff)

function bfs_loop ::
  "dag \<Rightarrow> (task_id \<Rightarrow> bool result) \<Rightarrow> completed_status \<Rightarrow> task_id list \<Rightarrow> completed_status result" where
  "bfs_loop d complete st tasks =
     (if tasks = [] then Inr st
      else case collect_level complete st tasks of
             Inl e \<Rightarrow> Inl e
           | Inr st' \<Rightarrow> (case next_level d st' tasks of
               Inl e \<Rightarrow> Inl e
             | Inr tasks' \<Rightarrow> bfs_loop d complete st' tasks'))"
  by pat_completeness auto
termination
proof (relation "measure (\<lambda>(d, complete, st, tasks). 2 * card (fst ` set d - fst ` set st)
    + (if tasks \<noteq> [] \<and> set tasks \<inter> (fst ` set d - fst ` set st) = {} then 1 else 0))", goal_cases)
  case (2 d complete st tasks st' tasks')
  let ?U = "fst ` set d" and ?S = "fst ` set st"
  have S': "fst ` set st' = ?S \<union> set tasks"
    using 2(2) by (rule collect_level_keys)
  have new: "set tasks' \<subseteq> ?U - fst ` set st'"
    using next_level_set [OF 2(3)] upstream_in_keys by (auto simp: in_status_iff)
  show ?case
  proof (cases "set tasks \<inter> (?U - ?S) = {}")
    case True
    then have "?U - fst ` set st' = ?U - ?S" using S' by auto
    moreover have "tasks' = [] \<or> set tasks' \<inter> (?U - fst ` set st') \<noteq> {}"
      using new by (cases tasks') auto
    ultimately show ?thesis using 2(1) True by auto
  next
    case False
    then have "card (?U - fst ` set st') < card (?U - ?S)"
      using S' by (intro psubset_card_mono) auto
    with False show ?thesis by auto
  qed
qed simp

declare bfs_loop.simps [simp del]

definition check_if_completed_bfs ::
  "dag \<Rightarrow> (task_id \<Rightarrow> bool result) \<Rightarrow> task_id \<Rightarrow> completed_status result" where
  "check_if_completed_bfs d complete root_task = bfs_loop d complete [] [root_task]"

definition find_tasks_to_skip_complete ::
  "nat \<Rightarrow> dag \<Rightarrow> (task_id \<Rightarrow> bool result) \<Rightarrow> task_id list \<Rightarrow> task_id list \<Rightarrow> nat
     \<Rightarrow> (task_id list \<times> task_id list) result" where
  "find_tasks_to_skip_complete fuel d complete root_tasks all_tasks number_of_threads =
     rbind (foldM (\<lambda>st t. rmap (dict_update st)
               (if number_of_threads > 1 then check_if_completed_bfs d complete t
                else check_if_completed_dfs fuel d complete t [])) [] root_tasks)
       (\<lambda>completed_status.
          let skipped_tasks = filter (\<lambda>t. map_of completed_status t = None) all_tasks;
              completed_tasks = filter (\<lambda>t. map_of completed_status t = Some True) all_tasks
          in Inr (completed_tasks, skipped_tasks))"

section \<open>Both searches compute the same status\<close>

text \<open>
  The specification: the status holds the answer of every task that can be reached from the
  root through incomplete tasks only, and of no other task.
\<close>

definition incomplete_step :: "dag \<Rightarrow> (task_id \<Rightarrow> bool) \<Rightarrow> task_id \<Rightarrow> task_id list" where
  "incomplete_step d c i = (if c i then [] else map the (filter (\<lambda>u. u \<noteq> None) (upstream d i)))"

definition status_spec :: "dag \<Rightarrow> (task_id \<Rightarrow> bool) \<Rightarrow> task_id \<Rightarrow> task_id \<rightharpoonup> bool" where
  "status_spec d c root = (\<lambda>i. if reach (incomplete_step d c) root i then Some (c i) else None)"

lemma set_incomplete_step: "u \<in> set (incomplete_step d c i) \<longleftrightarrow> \<not> c i \<and> Some u \<in> set (upstream d i)"
  by (force simp: incomplete_step_def)

lemma in_upstream_iff:
  "x \<in> set (upstream d t) \<longleftrightarrow>
     (\<exists>n i. map_of d t = Some n \<and> i \<in> set (upstream_tasks n) \<and> x = map_option (\<lambda>_. i) (map_of d i))"
  by (cases "map_of d t") (auto simp: upstream_def task_id_to_tasks_def get_task_by_id_def)

lemma upstream_resolved:
  assumes "wf_dag d"
  shows "None \<notin> set (upstream d t)"
proof
  assume "None \<in> set (upstream d t)"
  then obtain n i where n: "map_of d t = Some n" "i \<in> set (upstream_tasks n)" "map_of d i = None"
    by (auto simp: in_upstream_iff)
  from wf_dagD [OF assms n(1)] n(2) have "i \<in> fst ` set d"
    by (auto simp: task_refs_def)
  with n(3) show False by (simp add: map_of_eq_None_iff)
qed

definition answers :: "dag \<Rightarrow> (task_id \<Rightarrow> bool result) \<Rightarrow> (task_id \<Rightarrow> bool) \<Rightarrow> bool" where
  "answers d complete c \<longleftrightarrow> (\<forall>i \<in> fst ` set d. complete i = Inr (c i))"

text \<open>What a call on \<open>t\<close> adds to the status \<open>st\<close>.\<close>

definition dfs_post :: "dag \<Rightarrow> (task_id \<Rightarrow> bool) \<Rightarrow> task_id \<Rightarrow> completed_status \<Rightarrow> completed_status \<Rightarrow> bool" where
  "dfs_post d c t st st' \<longleftrightarrow>
     map_of st \<subseteq>\<^sub>m map_of st' \<and>
     (\<forall>i. in_status i st' \<and> \<not> in_status i st \<longrightarrow>
        map_of st' i = Some (c i) \<and> reach (incomplete_step d c) t i \<and>
        (\<forall>u \<in> set (incomplete_step d c i). in_status u st'))"

lemma in_status_mono: "map_of st \<subseteq>\<^sub>m map_of st' \<Longrightarrow> in_status i st \<Longrightarrow> in_status i st'"
  by (auto simp: in_status_def map_le_def dom_def)

lemma dfs_post_refl: "dfs_post d c t st st"
  by (simp add: dfs_post_def)

lemma dfs_post_step:
  assumes "dfs_post d c t st s" "dfs_post d c u s s'" "u \<in> set (incomplete_step d c t)"
  shows "dfs_post d c t st s'"
proof -
  have le: "map_of s \<subseteq>\<^sub>m map_of s'" "map_of st \<subseteq>\<^sub>m map_of s"
    using assms by (auto simp: dfs_post_def)
  have "map_of s' i = Some (c i) \<and> reach (incomplete_step d c) t i \<and>
        (\<forall>v \<in> set (incomplete_step d c i). in_status v s')"
    if "in_status i s'" "\<not> in_status i st" for i
  proof (cases "in_status i s")
    case True
    with that assms(1) have "map_of s i = Some (c i)" "reach (incomplete_step d c) t i"
      "\<forall>v \<in> set (incomplete_step d c i). in_status v s"
      by (auto simp: dfs_post_def)
    then show ?thesis
      using le(1) in_status_mono [OF le(1)] by (auto simp: map_le_def dom_def)
  next
    case False
    with that assms(2,3) show ?thesis
      by (auto simp: dfs_post_def intro: reach_trans [OF reach_edge])
  qed
  with map_le_trans [OF le(2,1)] show ?thesis by (auto simp: dfs_post_def)
qed

lemma dfs_correct:
  assumes "wf_dag d" "answers d complete c"
    and "t \<in> fst ` set d" "\<not> in_status t st" "card (fst ` set d - fst ` set st) < fuel"
  shows "\<exists>st'. check_if_completed_dfs fuel d complete t st = Inr st' \<and> in_status t st' \<and>
    dfs_post d c t st st'"
  using assms(3-5)
proof (induction fuel arbitrary: t st)
  case (Suc fuel)
  let ?st = "dict_set st t (c t)"
  let ?f = "\<lambda>s u. case u of None \<Rightarrow> Inl (AttributeError ''task_id'')
     | Some u \<Rightarrow> if in_status u s then Inr s else check_if_completed_dfs fuel d complete u s"
  have ct: "complete t = Inr (c t)" using assms(2) Suc.prems(1) unfolding answers_def by blast
  have le: "map_of st \<subseteq>\<^sub>m map_of ?st"
    using Suc.prems(2) by (auto simp: map_le_def in_status_def)
  have tin: "in_status t ?st" by (simp add: in_status_def)
  show ?case
  proof (cases "c t")
    case True
    then have "dfs_post d c t st ?st"
      using le by (auto simp: dfs_post_def in_status_def incomplete_step_def split: if_splits)
    with True ct tin show ?thesis by simp
  next
    case False
    have less: "card (fst ` set d - fst ` set s) < fuel" if "map_of ?st \<subseteq>\<^sub>m map_of s" for s
    proof -
      have "fst ` set ?st \<subseteq> fst ` set s"
        using in_status_mono [OF that] by (auto simp: in_status_iff)
      then have "fst ` set d - fst ` set s \<subset> fst ` set d - fst ` set st"
        using Suc.prems(1,2) by (auto simp: set_fst_dict_set in_status_iff)
      then have "card (fst ` set d - fst ` set s) < card (fst ` set d - fst ` set st)"
        by (intro psubset_card_mono) auto
      with Suc.prems(3) show ?thesis by simp
    qed
    have "\<exists>s'. foldM ?f s us = Inr s' \<and> dfs_post d c t ?st s' \<and> map_of s \<subseteq>\<^sub>m map_of s' \<and> (\<forall>u. Some u \<in> set us \<longrightarrow> in_status u s')"
      if "set us \<subseteq> set (upstream d t)" "dfs_post d c t ?st s" for us s
      using that
    proof (induction us arbitrary: s)
      case (Cons o' us)
      then obtain u where u: "o' = Some u" "Some u \<in> set (upstream d t)"
        using upstream_resolved [OF assms(1), of t] by (cases o') auto
      obtain s1 where s1: "?f s o' = Inr s1" "dfs_post d c t ?st s1" "in_status u s1"
        "map_of s \<subseteq>\<^sub>m map_of s1"
      proof (cases "in_status u s")
        case True
        with that [of s] Cons.prems u show ?thesis by simp
      next
        case False
        have "card (fst ` set d - fst ` set s) < fuel"
          using less Cons.prems(2) by (auto simp: dfs_post_def)
        then obtain s1 where "check_if_completed_dfs fuel d complete u s = Inr s1" "in_status u s1"
          "dfs_post d c u s s1"
          using Suc.IH [OF upstream_in_keys [OF u(2)] False] by blast
        note rec = this
        have eval: "?f s o' = Inr s1" using u(1) False rec(1) by simp
        have step: "dfs_post d c t ?st s1"
          using u(2) \<open>\<not> c t\<close>
          by (intro dfs_post_step [OF Cons.prems(2) rec(3)]) (simp add: set_incomplete_step)
        have "map_of s \<subseteq>\<^sub>m map_of s1" using rec(3) by (simp add: dfs_post_def)
        then show ?thesis by (rule that [OF eval step rec(2)])
      qed
      have "set us \<subseteq> set (upstream d t)" using Cons.prems(1) by simp
      from Cons.IH [OF this s1(2)] obtain s' where
        s': "foldM ?f s1 us = Inr s'" "dfs_post d c t ?st s'" "map_of s1 \<subseteq>\<^sub>m map_of s'"
          "\<forall>u. Some u \<in> set us \<longrightarrow> in_status u s'"
        by blast
      have "foldM ?f s (o' # us) = Inr s'"
        using s1(1) s'(1) by simp
      moreover have "map_of s \<subseteq>\<^sub>m map_of s'"
        using s1(4) s'(3) by (rule map_le_trans)
      moreover have "in_status u s'"
        using in_status_mono [OF s'(3) s1(3)] .
      ultimately show ?case using s'(2,4) u(1) by auto
    qed simp
    from this [OF subset_refl dfs_post_refl] obtain s' where
      s': "foldM ?f ?st (upstream d t) = Inr s'" "dfs_post d c t ?st s'"
      "\<forall>u. Some u \<in> set (upstream d t) \<longrightarrow> in_status u s'" by auto
    have le': "map_of ?st \<subseteq>\<^sub>m map_of s'" using s'(2) by (simp add: dfs_post_def)
    have self: "map_of s' t = Some (c t)"
      using le' by (auto simp: map_le_def)
    have "map_of s' i = Some (c i) \<and> reach (incomplete_step d c) t i \<and>
        (\<forall>u \<in> set (incomplete_step d c i). in_status u s')"
      if "in_status i s'" "\<not> in_status i st" for i
    proof (cases "i = t")
      case True
      with self s'(3) show ?thesis by (auto simp: set_incomplete_step)
    next
      case False
      with that(2) have "\<not> in_status i ?st" by (simp add: in_status_def)
      with that(1) s'(2) show ?thesis by (simp add: dfs_post_def)
    qed
    then have "dfs_post d c t st s'"
      using map_le_trans [OF le le'] by (auto simp: dfs_post_def)
    moreover have "check_if_completed_dfs (Suc fuel) d complete t st = Inr s'"
      using ct False s'(1) by simp
    ultimately show ?thesis
      using in_status_mono [OF le' tin] by blast
  qed
qed simp

lemma status_closed_spec:
  assumes "in_status root st"
    and "\<forall>i. in_status i st \<longrightarrow> map_of st i = Some (c i) \<and> reach (incomplete_step d c) root i \<and>
      (\<forall>u \<in> set (incomplete_step d c i). in_status u st)"
  shows "map_of st = status_spec d c root"
proof
  fix i
  have "in_status i st" if "reach (incomplete_step d c) root i"
    by (rule reach_closed [OF that, of "{i. in_status i st}", simplified]) (use assms in auto)
  with assms(2) show "map_of st i = status_spec d c root i"
    by (cases "in_status i st") (auto simp: status_spec_def, simp add: in_status_def)
qed

lemma in_status_Nil [simp]: "\<not> in_status i []"
  by (simp add: in_status_def)

lemma dfs_root:
  assumes "wf_dag d" "answers d complete c" "root \<in> fst ` set d" "length d < fuel"
  shows "\<exists>st. check_if_completed_dfs fuel d complete root [] = Inr st \<and> map_of st = status_spec d c root"
proof -
  have "card (fst ` set d - fst ` set []) < fuel"
    using assms(4) card_image_le [of "set d" fst] card_length [of d] by simp
  with dfs_correct [OF assms(1,2,3), of "[]" fuel] obtain st where
    st: "check_if_completed_dfs fuel d complete root [] = Inr st" "in_status root st" "dfs_post d c root [] st"
    by (auto simp: in_status_def)
  from status_closed_spec [OF st(2)] st(3) have "map_of st = status_spec d c root"
    by (simp add: dfs_post_def in_status_Nil)
  with st(1) show ?thesis by auto
qed

subsection \<open>Level by level\<close>

lemma collect_level_map:
  assumes "answers d complete c" "set tasks \<subseteq> fst ` set d"
  shows "\<exists>st'. collect_level complete st tasks = Inr st' \<and>
    (\<forall>i. map_of st' i = (if i \<in> set tasks then Some (c i) else map_of st i))"
  using assms(2)
proof (induction tasks arbitrary: st)
  case (Cons t tasks)
  have "complete t = Inr (c t)" using assms(1) Cons.prems unfolding answers_def by auto
  with Cons.IH [of "dict_set st t (c t)"] Cons.prems show ?case
    by (auto simp: collect_level_def)
qed (simp add: collect_level_def)

lemma next_level_total:
  "wf_dag d \<Longrightarrow> \<exists>ts. next_level d st tasks = Inr ts"
proof (induction tasks)
  case (Cons t tasks)
  let ?us = "filter (\<lambda>u. case u of None \<Rightarrow> True | Some u \<Rightarrow> \<not> in_status u st) (upstream d t)"
  have "Some (the x) = x" if "x \<in> set ?us" for x
    using upstream_resolved [OF Cons.prems, of t] that by (cases x) auto
  then have "?us = map Some (map the ?us)"
    unfolding map_map by (intro sym [OF map_idI]) (simp only: o_apply)
  then have "mapM (\<lambda>u. case u of None \<Rightarrow> Inl (AttributeError ''task_id'') | Some u \<Rightarrow> Inr u) ?us
      = Inr (map the ?us)"
    by (simp only: mapM_the)
  with Cons show ?case
    by (auto simp: next_level_def rmap_Inr_iff simp del: mapM_the)
qed (simp add: next_level_def)

text \<open>
  The loop invariant: answered tasks have their answer and are reachable, and the successors of
  an answered task are answered or queued.
\<close>

definition bfs_inv :: "dag \<Rightarrow> (task_id \<Rightarrow> bool) \<Rightarrow> task_id \<Rightarrow> completed_status \<Rightarrow> task_id list \<Rightarrow> bool" where
  "bfs_inv d c root st tasks \<longleftrightarrow>
     set tasks \<subseteq> fst ` set d \<and> (in_status root st \<or> root \<in> set tasks) \<and>
     (\<forall>i. in_status i st \<longrightarrow> map_of st i = Some (c i)) \<and>
     (\<forall>i. in_status i st \<or> i \<in> set tasks \<longrightarrow> reach (incomplete_step d c) root i) \<and>
     (\<forall>i. in_status i st \<longrightarrow> (\<forall>u \<in> set (incomplete_step d c i). in_status u st \<or> u \<in> set tasks))"

lemma bfs_inv_step:
  assumes inv: "bfs_inv d c root st tasks" and ans: "answers d complete c"
    and lev: "collect_level complete st tasks = Inr st'" and nxt: "next_level d st' tasks = Inr tasks'"
  shows "bfs_inv d c root st' tasks'"
proof -
  have sub: "set tasks \<subseteq> fst ` set d" using inv by (simp add: bfs_inv_def)
  from collect_level_map [OF ans sub, of st] lev have
    m: "map_of st' i = (if i \<in> set tasks then Some (c i) else map_of st i)" for i by auto
  then have ins: "in_status i st' \<longleftrightarrow> in_status i st \<or> i \<in> set tasks" for i
    by (auto simp: in_status_def)
  have val: "map_of st' i = Some (c i)" if "in_status i st'" for i
    using that inv m [of i] ins by (auto simp: bfs_inv_def)
  have new: "set tasks' = {u. \<exists>t \<in> set tasks. \<not> c t \<and> Some u \<in> set (upstream d t) \<and> \<not> in_status u st'}"
    using next_level_set [OF nxt] m by auto
  have "reach (incomplete_step d c) root i" if "in_status i st' \<or> i \<in> set tasks'" for i
  proof (cases "in_status i st'")
    case True
    with inv ins show ?thesis by (auto simp: bfs_inv_def)
  next
    case False
    with that new obtain t where t: "t \<in> set tasks" "\<not> c t" "Some i \<in> set (upstream d t)" by auto
    then have "reach (incomplete_step d c) root t" using inv by (auto simp: bfs_inv_def)
    then show ?thesis using t by (rule_tac reach_step) (auto simp: set_incomplete_step)
  qed
  moreover have "in_status u st' \<or> u \<in> set tasks'" if "in_status i st'" "u \<in> set (incomplete_step d c i)" for i u
  proof (cases "i \<in> set tasks")
    case True
    with that new show ?thesis by (auto simp: set_incomplete_step)
  next
    case False
    with that inv ins show ?thesis by (auto simp: bfs_inv_def)
  qed
  moreover have "set tasks' \<subseteq> fst ` set d" using new upstream_in_keys by blast
  ultimately show ?thesis
    using inv ins val unfolding bfs_inv_def by auto
qed

lemma bfs_loop_correct:
  assumes "wf_dag d" "answers d complete c" "bfs_inv d c root st tasks"
  shows "\<exists>st'. bfs_loop d complete st tasks = Inr st' \<and> bfs_inv d c root st' []"
  using assms
proof (induction d complete st tasks rule: bfs_loop.induct)
  case (1 d complete st tasks)
  show ?case
  proof (cases "tasks = []")
    case True
    with 1 show ?thesis by (subst bfs_loop.simps) simp
  next
    case False
    have "set tasks \<subseteq> fst ` set d" using 1(4) by (simp add: bfs_inv_def)
    then obtain st' where st': "collect_level complete st tasks = Inr st'"
      using collect_level_map [OF 1(3)] by blast
    obtain tasks' where tasks': "next_level d st' tasks = Inr tasks'"
      using next_level_total [OF 1(2)] by blast
    from "1.IH" [OF False st' tasks' 1(2,3) bfs_inv_step [OF 1(4,3) st' tasks']]
    show ?thesis
      using False st' tasks' by (subst bfs_loop.simps) simp
  qed
qed

lemma bfs_root:
  assumes "wf_dag d" "answers d complete c" "root \<in> fst ` set d"
  shows "\<exists>st. check_if_completed_bfs d complete root = Inr st \<and> map_of st = status_spec d c root"
proof -
  have "bfs_inv d c root [] [root]"
    using assms(3) by (auto simp: bfs_inv_def in_status_def)
  from bfs_loop_correct [OF assms(1,2) this] obtain st where
    st: "check_if_completed_bfs d complete root = Inr st" and inv: "bfs_inv d c root st []"
    by (auto simp: check_if_completed_bfs_def)
  have "map_of st = status_spec d c root"
    by (rule status_closed_spec) (use inv in \<open>simp_all add: bfs_inv_def\<close>)
  with st show ?thesis by auto
qed

subsection \<open>What is skipped\<close>

lemma distinct_dfs:
  "check_if_completed_dfs fuel d complete t st = Inr st' \<Longrightarrow> distinct (map fst st) \<Longrightarrow> distinct (map fst st')"
proof (induction fuel arbitrary: t st st')
  case (Suc fuel)
  let ?f = "\<lambda>s u. case u of None \<Rightarrow> Inl (AttributeError ''task_id'')
     | Some u \<Rightarrow> if in_status u s then Inr s else check_if_completed_dfs fuel d complete u s"
  have fold: "distinct (map fst s')" if "foldM ?f s us = Inr s'" "distinct (map fst s)" for us s s'
    using that
  proof (induction us arbitrary: s)
    case (Cons u us)
    then obtain s1 where s1: "?f s u = Inr s1" "foldM ?f s1 us = Inr s'"
      by (auto simp: rbind_Inr_iff)
    then have "distinct (map fst s1)"
      using Suc.IH [of _ s s1] Cons.prems(2) by (auto split: option.splits if_splits)
    with Cons.IH s1(2) show ?case by blast
  qed simp
  from Suc.prems(1) obtain b where "complete t = Inr b"
    and b: "(if b then Inr (dict_set st t b) else foldM ?f (dict_set st t b) (upstream d t)) = Inr st'"
    by (auto simp: rbind_Inr_iff Let_def)
  show ?case
    using b distinct_dict_set [OF Suc.prems(2), of t b] fold by (cases b) auto
qed simp

lemma distinct_collect_level:
  "collect_level complete st tasks = Inr st' \<Longrightarrow> distinct (map fst st) \<Longrightarrow> distinct (map fst st')"
  unfolding collect_level_def
  by (induction tasks arbitrary: st) (auto simp: rbind_Inr_iff intro: distinct_dict_set split: sum.splits)

lemma distinct_bfs_loop:
  "bfs_loop d complete st tasks = Inr st' \<Longrightarrow> distinct (map fst st) \<Longrightarrow> distinct (map fst st')"
proof (induction d complete st tasks rule: bfs_loop.induct)
  case (1 d complete st tasks)
  show ?case
  proof (cases "tasks = []")
    case True
    with 1(2,3) show ?thesis by (subst (asm) bfs_loop.simps) simp
  next
    case False
    from 1(2) False obtain s1 ts1 where s1: "collect_level complete st tasks = Inr s1"
      "next_level d s1 tasks = Inr ts1" "bfs_loop d complete s1 ts1 = Inr st'"
      by (subst (asm) bfs_loop.simps) (auto split: sum.splits)
    with "1.IH" [OF False s1(1,2)] distinct_collect_level [OF s1(1) 1(3)] show ?thesis by blast
  qed
qed

definition root_status ::
  "nat \<Rightarrow> dag \<Rightarrow> (task_id \<Rightarrow> bool result) \<Rightarrow> nat \<Rightarrow> task_id \<Rightarrow> completed_status result" where
  "root_status fuel d complete number_of_threads t =
     (if number_of_threads > 1 then check_if_completed_bfs d complete t
      else check_if_completed_dfs fuel d complete t [])"

lemma root_status_correct:
  assumes "wf_dag d" "answers d complete c" "root \<in> fst ` set d" "length d < fuel"
  shows "\<exists>st. root_status fuel d complete n root = Inr st \<and> map_of st = status_spec d c root \<and>
    distinct (map fst st)"
proof (cases "n > 1")
  case True
  then have "root_status fuel d complete n root = bfs_loop d complete [] [root]"
    by (simp add: root_status_def check_if_completed_bfs_def)
  then show ?thesis
    using bfs_root [OF assms(1-3)] distinct_bfs_loop [of d complete "[]" "[root]"]
    by (auto simp: check_if_completed_bfs_def)
next
  case False
  then show ?thesis
    using dfs_root [OF assms] distinct_dfs [of fuel d complete root "[]"]
    by (auto simp: root_status_def)
qed

lemma merged_status_correct:
  assumes "wf_dag d" "answers d complete c" "set roots \<subseteq> fst ` set d" "length d < fuel"
    and "\<forall>i. map_of st i \<in> {None, Some (c i)}"
  shows "\<exists>st'. foldM (\<lambda>st t. rmap (dict_update st) (root_status fuel d complete n t)) st roots = Inr st' \<and>
    (\<forall>i. map_of st' i = (if map_of st i \<noteq> None \<or> (\<exists>r \<in> set roots. reach (incomplete_step d c) r i)
       then Some (c i) else None))"
  using assms(3,5)
proof (induction roots arbitrary: st)
  case (Cons r roots)
  have "r \<in> fst ` set d" using Cons.prems(1) unfolding list.set by blast
  from root_status_correct [OF assms(1,2) this assms(4), of n]
  obtain s where s: "root_status fuel d complete n r = Inr s" "map_of s = status_spec d c r" "distinct (map fst s)"
    by blast
  have m: "map_of (dict_update st s) i =
      (if reach (incomplete_step d c) r i then Some (c i) else map_of st i)" for i
    using s(2,3) by (simp add: map_of_dict_update_distinct map_add_def status_spec_def)
  have "\<forall>i. map_of (dict_update st s) i \<in> {None, Some (c i)}"
    using Cons.prems(2) m by auto
  moreover have "set roots \<subseteq> fst ` set d" using Cons.prems(1) by simp
  ultimately obtain st' where st': "foldM (\<lambda>st t. rmap (dict_update st) (root_status fuel d complete n t))
      (dict_update st s) roots = Inr st'"
    "\<forall>i. map_of st' i = (if map_of (dict_update st s) i \<noteq> None \<or> (\<exists>r \<in> set roots. reach (incomplete_step d c) r i)
       then Some (c i) else None)"
    using Cons.IH by blast
  have "map_of st' i = (if map_of st i \<noteq> None \<or> (\<exists>r' \<in> set (r # roots). reach (incomplete_step d c) r' i)
       then Some (c i) else None)" for i
    using st'(2) m [of i] by auto
  with st'(1) s(1) show ?case by auto
next
  case Nil
  then have "map_of st i = (if map_of st i \<noteq> None then Some (c i) else None)" for i
    by (cases "map_of st i") (auto dest: spec [of _ i])
  then show ?case by simp
qed

lemma find_tasks_outcome:
  assumes "wf_dag d" "answers d complete c" "set roots \<subseteq> fst ` set d" "length d < fuel"
  shows "\<exists>completed skipped.
    find_tasks_to_skip_complete fuel d complete roots tasks n = Inr (completed, skipped) \<and>
    set completed = {t \<in> set tasks. (\<exists>r \<in> set roots. reach (incomplete_step d c) r t) \<and> c t} \<and>
    set skipped = {t \<in> set tasks. \<not> (\<exists>r \<in> set roots. reach (incomplete_step d c) r t)}"
proof -
  obtain st where st: "foldM (\<lambda>st t. rmap (dict_update st) (root_status fuel d complete n t)) [] roots = Inr st"
    "\<forall>i. map_of st i = (if \<exists>r \<in> set roots. reach (incomplete_step d c) r i then Some (c i) else None)"
    using merged_status_correct [OF assms, of "[]" n] by auto
  then show ?thesis
    by (auto simp: find_tasks_to_skip_complete_def root_status_def Let_def)
qed

text \<open>
  C4. The depth-first and the breadth-first completeness search agree: on a well-formed graph
  both return the answer of exactly the tasks reachable from the root through incomplete tasks.
  The recursion depth of the first is at most the number of tasks.
\<close>

theorem completeness_searches_agree:
  assumes "wf_dag d" "answers d complete c" "root \<in> fst ` set d" "length d < fuel"
  shows "\<exists>st st'. check_if_completed_dfs fuel d complete root [] = Inr st \<and>
    check_if_completed_bfs d complete root = Inr st' \<and>
    map_of st = status_spec d c root \<and> map_of st' = status_spec d c root"
  using dfs_root [OF assms] bfs_root [OF assms(1-3)] by blast

text \<open>
  C5. \<open>find_tasks_to_skip_complete\<close>, with any number of threads: a task is reused when it is
  complete and reached, skipped as not required when no incomplete task leads to it, and left to
  run exactly when it is reached and incomplete.
\<close>

theorem find_tasks_to_skip_complete_correct:
  assumes "wf_dag d" "answers d complete c" "set roots \<subseteq> fst ` set d" "length d < fuel"
  shows "\<exists>completed skipped.
    find_tasks_to_skip_complete fuel d complete roots tasks n = Inr (completed, skipped) \<and>
    set completed = {t \<in> set tasks. (\<exists>r \<in> set roots. reach (incomplete_step d c) r t) \<and> c t} \<and>
    set skipped = {t \<in> set tasks. \<not> (\<exists>r \<in> set roots. reach (incomplete_step d c) r t)} \<and>
    set tasks - set completed - set skipped
      = {t \<in> set tasks. (\<exists>r \<in> set roots. reach (incomplete_step d c) r t) \<and> \<not> c t}"
  using find_tasks_outcome [OF assms, of tasks n] by fastforce

text \<open>
  A pipeline with two inputs, one of which is complete and hides its own upstream.
\<close>

definition sample_complete :: "task_id \<Rightarrow> bool" where
  "sample_complete i = (i = ''load'')"

lemma sample_answers: "answers sample_dag (\<lambda>i. Inr (sample_complete i)) sample_complete"
  by (simp add: answers_def)

lemma sample_size: "length sample_dag < 10" "set [''pipe''] \<subseteq> fst ` set sample_dag"
  "''pipe'' \<in> fst ` set sample_dag"
  by (simp_all add: sample_dag_def)

theorem completeness_searches_agree_witness:
  "\<exists>st st'. check_if_completed_dfs 10 sample_dag (\<lambda>i. Inr (sample_complete i)) ''pipe'' [] = Inr st \<and>
    check_if_completed_bfs sample_dag (\<lambda>i. Inr (sample_complete i)) ''pipe'' = Inr st' \<and>
    map_of st = status_spec sample_dag sample_complete ''pipe'' \<and>
    map_of st' = status_spec sample_dag sample_complete ''pipe''"
  by (rule completeness_searches_agree [OF sample_dag_wf sample_answers sample_size(3,1)])

theorem find_tasks_to_skip_complete_witness:
  "\<exists>completed skipped.
    find_tasks_to_skip_complete 10 sample_dag (\<lambda>i. Inr (sample_complete i)) [''pipe'']
      [''pipe'', ''load'', ''raw''] 4 = Inr (completed, skipped) \<and>
    set skipped = {t \<in> set [''pipe'', ''load'', ''raw''].
      \<not> (\<exists>r \<in> set [''pipe'']. reach (incomplete_step sample_dag sample_complete) r t)}"
  using find_tasks_to_skip_complete_correct [OF sample_dag_wf sample_answers sample_size(2,1),
      of "[''pipe'', ''load'', ''raw'']" 4]
  by blast

end
