(* ===== verification/TaskStates.thy ===== *)
theory TaskStates
  imports Prelude
begin

text \<open>
  The states of \<open>_core/constants.py\<close>: \<open>TaskRunState\<close>, \<open>RunState\<close> and the
  other enumerations other components decide on, with the sets and the order the code
  builds from them.
\<close>

section \<open>Task run states\<close>

datatype task_run_state =
    SCHEDULED | QUEUED | RUNNING | SUCCESS | FAILED
  | CANCELLED | SHUTDOWN
  | UPSTREAM_FAILED | SKIPPED | UP_FOR_RETRY
  | REMOVED

definition all_task_run_states :: "task_run_state list" where
  "all_task_run_states =
     [SCHEDULED, QUEUED, RUNNING, SUCCESS, FAILED, CANCELLED, SHUTDOWN, UPSTREAM_FAILED,
      SKIPPED, UP_FOR_RETRY, REMOVED]"

fun task_run_state_value :: "task_run_state \<Rightarrow> string" where
  "task_run_state_value SCHEDULED = ''scheduled''"
| "task_run_state_value QUEUED = ''queued''"
| "task_run_state_value RUNNING = ''running''"
| "task_run_state_value SUCCESS = ''success''"
| "task_run_state_value FAILED = ''failed''"
| "task_run_state_value CANCELLED = ''cancelled''"
| "task_run_state_value SHUTDOWN = ''shutdown''"
| "task_run_state_value UPSTREAM_FAILED = ''upstream_failed''"
| "task_run_state_value SKIPPED = ''skipped''"
| "task_run_state_value UP_FOR_RETRY = ''up_for_retry''"
| "task_run_state_value REMOVED = ''removed''"

text \<open>\<open>Enum(value)\<close>: the first member with that value, \<open>ValueError\<close> without one.\<close>

definition enum_of_value :: "('a \<Rightarrow> string) \<Rightarrow> 'a list \<Rightarrow> string \<Rightarrow> 'a result" where
  "enum_of_value val members s =
     (case find (\<lambda>m. val m = s) members of
        None \<Rightarrow> Inl (ValueError s)
      | Some m \<Rightarrow> Inr m)"

definition parse_task_run_state :: "string option \<Rightarrow> task_run_state option result" where
  "parse_task_run_state state =
     (case state of
        None \<Rightarrow> Inr None
      | Some s \<Rightarrow> if s = [] then Inr None
                  else rmap Some (enum_of_value task_run_state_value all_task_run_states s))"

definition finished_states :: "task_run_state set" where
  "finished_states = {SUCCESS, FAILED, CANCELLED}"

definition final_states :: "task_run_state set" where
  "final_states = finished_states \<union> {UPSTREAM_FAILED, SKIPPED, REMOVED}"

definition direct_fail_states :: "task_run_state set" where
  "direct_fail_states = {FAILED, CANCELLED}"

definition fail_states :: "task_run_state set" where
  "fail_states = {FAILED, CANCELLED, UPSTREAM_FAILED}"

definition order_map :: "task_run_state \<Rightarrow> nat" where
  "order_map s = (case s of SCHEDULED \<Rightarrow> 1 | QUEUED \<Rightarrow> 2 | RUNNING \<Rightarrow> 3 | _ \<Rightarrow> 4)"

definition is_after :: "task_run_state \<Rightarrow> task_run_state \<Rightarrow> bool" where
  "is_after self old_state =
     (if order_map self > order_map old_state then True
      else self \<in> {FAILED, SUCCESS} \<and> self \<noteq> old_state)"

section \<open>Run states and tracking sources\<close>

datatype run_state = R_RUNNING | R_SUCCESS | R_FAILED | R_SHUTDOWN | R_CANCELLED

fun run_state_value :: "run_state \<Rightarrow> string" where
  "run_state_value R_RUNNING = ''running''"
| "run_state_value R_SUCCESS = ''success''"
| "run_state_value R_FAILED = ''failed''"
| "run_state_value R_SHUTDOWN = ''shutdown''"
| "run_state_value R_CANCELLED = ''cancelled''"

definition run_finished_states_str :: "string list" where
  "run_finished_states_str = map task_run_state_value [SUCCESS, FAILED, CANCELLED]"

datatype update_source =
    US_dbnd | US_airflow_monitor | US_airflow_tracking | US_azkaban_tracking | US_generic_tracking

fun update_source_value :: "update_source \<Rightarrow> string" where
  "update_source_value US_dbnd = ''dbnd''"
| "update_source_value US_airflow_monitor = ''airflow_monitor''"
| "update_source_value US_airflow_tracking = ''airflow_tracking''"
| "update_source_value US_azkaban_tracking = ''azkaban_tracking''"
| "update_source_value US_generic_tracking = ''generic_tracking''"

definition update_source_str :: "update_source \<Rightarrow> string" where
  "update_source_str u = ''UpdateSource.'' @ update_source_value u"

text \<open>\<open>__eq__\<close> compares with another source or with its name or value as a string.\<close>

definition update_source_eq_str :: "update_source \<Rightarrow> string \<Rightarrow> bool" where
  "update_source_eq_str u other = (update_source_str u = other \<or> update_source_value u = other)"

definition is_tracking_source :: "string \<Rightarrow> bool" where
  "is_tracking_source source =
     (\<exists>u \<in> set [US_airflow_tracking, US_azkaban_tracking]. update_source_eq_str u source)"

datatype alert_status = TRIGGERED | RESOLVED | ACKNOWLEDGED

fun alert_status_value :: "alert_status \<Rightarrow> string" where
  "alert_status_value TRIGGERED = ''TRIGGERED''"
| "alert_status_value RESOLVED = ''RESOLVED''"
| "alert_status_value ACKNOWLEDGED = ''ACKNOWLEDGED''"

definition alert_not_resolved :: "string list" where
  "alert_not_resolved = map alert_status_value [TRIGGERED, ACKNOWLEDGED]"

datatype system_metric = Duration | TotalDuration | ComputeTime | State

fun system_metric_value :: "system_metric \<Rightarrow> string" where
  "system_metric_value Duration = ''Duration''"
| "system_metric_value TotalDuration = ''Total Duration''"
| "system_metric_value ComputeTime = ''Compute Time''"
| "system_metric_value State = ''State''"

definition duration_metrics :: "string list" where
  "duration_metrics = map system_metric_value [Duration, TotalDuration, ComputeTime]"

definition get_metric_description :: "string \<Rightarrow> string option" where
  "get_metric_description metric_name =
     (if metric_name = system_metric_value Duration
      then Some ''Execution time of the latest run attempt of this task''
      else if metric_name = system_metric_value TotalDuration
      then Some ''Sum the duration of all task run attempts of this task''
      else if metric_name = system_metric_value ComputeTime
      then Some ''Sum of the duration of all task attempts related to this run''
      else None)"

definition default_metric_sources :: "string list" where
  "default_metric_sources = [''user'', ''system'', ''histograms'', ''spark'']"

definition default_sources_str :: string where
  "default_sources_str = join_str '','' default_metric_sources"

section \<open>Facts about the states\<close>

lemma task_run_state_value_inj: "task_run_state_value s = task_run_state_value t \<Longrightarrow> s = t"
  by (cases s; cases t) simp_all

lemma all_task_run_states_complete: "s \<in> set all_task_run_states"
  by (cases s) (simp_all add: all_task_run_states_def)

lemma find_enum_value:
  assumes "\<And>x y. val x = val y \<Longrightarrow> x = y" "m \<in> set members"
  shows "find (\<lambda>x. val x = val m) members = Some m"
  using assms(2) by (induction members) (auto dest: assms(1))

text \<open>
  Parsing the stored value of a state gives the state back, for all eleven states, and the
  empty value or none parses to none.
\<close>

theorem parse_task_run_state_roundtrip:
  "parse_task_run_state (Some (task_run_state_value s)) = Inr (Some s) \<and>
   parse_task_run_state (Some []) = Inr None \<and> parse_task_run_state None = Inr None"
proof -
  have "find (\<lambda>x. task_run_state_value x = task_run_state_value s) all_task_run_states = Some s"
    by (rule find_enum_value) (auto intro: task_run_state_value_inj all_task_run_states_complete)
  moreover have "task_run_state_value s \<noteq> []" by (cases s) simp_all
  ultimately show ?thesis
    by (simp add: parse_task_run_state_def enum_of_value_def)
qed

text \<open>
  \<open>is_after\<close> is there to keep the most recent of two racing reports; \<open>apply_report\<close>
  keeps the reported state when it is after the current one.
\<close>

definition apply_report :: "task_run_state \<Rightarrow> task_run_state \<Rightarrow> task_run_state" where
  "apply_report cur new = (if is_after new cur then new else cur)"

lemma apply_report_order: "order_map cur \<le> order_map (apply_report cur new)"
  by (auto simp: apply_report_def is_after_def order_map_def split: task_run_state.splits)

lemma apply_report_ge: "order_map new \<le> order_map (apply_report cur new)"
  by (auto simp: apply_report_def is_after_def order_map_def split: task_run_state.splits)

lemma fold_reports_order:
  "order_map cur \<le> order_map (fold (\<lambda>n c. apply_report c n) rs cur) \<and>
   (\<forall>r \<in> set rs. order_map r \<le> order_map (fold (\<lambda>n c. apply_report c n) rs cur))"
proof (induction rs arbitrary: cur)
  case (Cons r rs)
  then show ?case
    using apply_report_order [of cur r] apply_report_ge [of r cur] le_trans by fastforce
qed simp

lemma fold_reports_in: "fold (\<lambda>n c. apply_report c n) rs cur \<in> insert cur (set rs)"
proof (induction rs arbitrary: cur)
  case (Cons r rs)
  have "apply_report cur r \<in> {cur, r}" by (simp add: apply_report_def)
  with Cons [of "apply_report cur r"] show ?case by auto
qed simp

lemma order_map_below_inj:
  "order_map s = order_map t \<Longrightarrow> order_map s < 4 \<Longrightarrow> s = t"
  by (cases s; cases t) (simp_all add: order_map_def)

text \<open>
  Reports that arrive out of order do no harm: whatever the order of the reports of one
  attempt (any number of progress states and one terminal state), the state kept at the end
  is the terminal one.
\<close>

theorem reports_converge:
  assumes "order_map t = 4" "t \<in> set rs" "\<forall>r \<in> set rs. order_map r = 4 \<longrightarrow> r = t" "order_map cur < 4"
  shows "fold (\<lambda>n c. apply_report c n) rs cur = t"
proof -
  let ?f = "fold (\<lambda>n c. apply_report c n) rs cur"
  have "order_map s \<le> 4" for s by (cases s) (simp_all add: order_map_def)
  then have "order_map ?f = 4"
    using fold_reports_order [of cur rs] assms(1,2) le_antisym by metis
  then show ?thesis
    using fold_reports_in [of rs cur] assms(3,4) by auto
qed

theorem reports_converge_witness:
  "fold (\<lambda>n c. apply_report c n) [RUNNING, SUCCESS, QUEUED, RUNNING] SCHEDULED = SUCCESS"
  by (rule reports_converge) (auto simp: order_map_def)

end
