(* ===== verification/TaskRuns.thy ===== *)
theory TaskRuns
  imports TaskCompletion TaskStates "HOL-Library.Multiset"
begin

text \<open>
  Task runs and the run that owns them: \<open>_core/task_run/task_run.py\<close> (\<open>TaskRun\<close>),
  \<open>_core/run/databand_run.py\<close> (\<open>DatabandRun\<close>), the friendly ids of
  \<open>_core/utils/task_utils.py\<close> and \<open>TaskRunsBuilder\<close>. A \<open>TaskRun\<close> object is its
  index in \<open>task_runs\<close>; the two dictionaries of the run point to indices. Calls of the
  tracking store are recorded in order in \<open>tracked\<close>.
\<close>

section \<open>State\<close>

datatype tracking_event =
    TrackInitRun
  | TrackRunState run_state
  | TrackAddTaskRuns "task_id list"
  | TrackTaskRunState task_id task_run_state
  | TrackTaskReused task_id
  | TrackTaskRunStates "task_id list"
  | TrackUnfinished task_run_state
  | TrackExternalLinks task_id "(string, string) dict"

record task_run =
  tr_task :: task_id
  tr_af_id :: string
  is_reused :: bool
  is_skipped :: bool
  is_skipped_as_not_required :: bool
  is_root :: bool
  attempt_number :: int
  attempts_initialized :: nat
  state_of_run :: "task_run_state option"
  started :: bool
  errors :: "string list"
  external_resource_urls :: "(string, string) dict"

record run =
  task_runs :: "task_run list"
  task_runs_by_id :: "(task_id, nat) dict"
  task_runs_by_af_id :: "(string, nat) dict"
  dynamic_af_tasks_count :: "(string, int) dict"
  run_killed :: bool
  the_run_state :: "run_state option"
  cache_cleared :: "string list"
  tracked :: "tracking_event list"

definition new_task_run :: "task_id \<Rightarrow> string option \<Rightarrow> int \<Rightarrow> task_run" where
  "new_task_run task task_af_id try_number =
     \<lparr>tr_task = task,
      tr_af_id = (case task_af_id of None \<Rightarrow> task | Some a \<Rightarrow> if a = [] then task else a),
      is_reused = False, is_skipped = False, is_skipped_as_not_required = False, is_root = False,
      attempt_number = try_number, attempts_initialized = 1,
      state_of_run = None, started = False, errors = [], external_resource_urls = []\<rparr>"

definition track :: "tracking_event \<Rightarrow> run \<Rightarrow> run" where
  "track e r = r\<lparr>tracked := tracked r @ [e]\<rparr>"

section \<open>Operations of a task run\<close>

definition put_task_run :: "nat \<Rightarrow> task_run \<Rightarrow> run \<Rightarrow> run" where
  "put_task_run i tr r = r\<lparr>task_runs := (task_runs r)[i := tr]\<rparr>"

definition apply_state :: "task_run \<Rightarrow> task_run_state \<Rightarrow> string option \<Rightarrow> task_run" where
  "apply_state tr state error =
     tr\<lparr>errors := (case error of None \<Rightarrow> errors tr | Some e \<Rightarrow> errors tr @ [e]),
        started := (started tr \<or> state = RUNNING),
        state_of_run := Some state\<rparr>"

definition set_task_run_state ::
  "nat \<Rightarrow> task_run_state option \<Rightarrow> bool \<Rightarrow> string option \<Rightarrow> run \<Rightarrow> run \<times> bool" where
  "set_task_run_state i state track_it error r =
     (case state of
        None \<Rightarrow> (r, False)
      | Some s \<Rightarrow>
          let tr = task_runs r ! i
          in if state_of_run tr = Some s then (r, False)
             else let r' = put_task_run i (apply_state tr s error) r
                  in (if track_it then track (TrackTaskRunState (tr_task tr) s) r' else r', True))"

definition set_task_reused :: "nat \<Rightarrow> run \<Rightarrow> run" where
  "set_task_reused i r =
     (let tr = task_runs r ! i
      in track (TrackTaskReused (tr_task tr)) (put_task_run i (tr\<lparr>state_of_run := Some SUCCESS\<rparr>) r))"

text \<open>A dictionary with an empty value is ignored as a whole.\<close>

definition set_external_resource_urls :: "nat \<Rightarrow> (string, string) dict option \<Rightarrow> run \<Rightarrow> run" where
  "set_external_resource_urls i links r =
     (case links of
        None \<Rightarrow> r
      | Some links_dict \<Rightarrow>
          if \<exists>p \<in> set links_dict. snd p = [] then r
          else let tr = task_runs r ! i
               in track (TrackExternalLinks (tr_task tr) links_dict)
                    (put_task_run i (tr\<lparr>external_resource_urls :=
                       dict_update (external_resource_urls tr) links_dict\<rparr>) r))"

definition update_task_run_attempt :: "nat \<Rightarrow> int option \<Rightarrow> run \<Rightarrow> run result" where
  "update_task_run_attempt i attempt r =
     (case attempt of
        None \<Rightarrow> Inl (DatabandRuntimeError ''cannot set None as the attempt number'')
      | Some n \<Rightarrow>
          let tr = task_runs r ! i
          in Inr (if attempt_number tr \<noteq> n
                  then put_task_run i (tr\<lparr>attempt_number := n,
                         attempts_initialized := Suc (attempts_initialized tr)\<rparr>) r
                  else r))"

section \<open>Operations of the run\<close>

definition add_task_run :: "task_run \<Rightarrow> run \<Rightarrow> run" where
  "add_task_run tr r =
     (let i = length (task_runs r)
      in r\<lparr>task_runs := task_runs r @ [tr],
           task_runs_by_id := dict_set (task_runs_by_id r) (tr_task tr) i,
           task_runs_by_af_id := dict_set (task_runs_by_af_id r) (tr_af_id tr) i\<rparr>)"

definition add_task_runs_and_track :: "task_run list \<Rightarrow> run \<Rightarrow> run" where
  "add_task_runs_and_track trs r = track (TrackAddTaskRuns (map tr_task trs)) (fold add_task_run trs r)"

definition get_task_run_by_id :: "run \<Rightarrow> task_id \<Rightarrow> nat option" where
  "get_task_run_by_id r i = map_of (task_runs_by_id r) i"

definition get_task_run_by_af_id :: "run \<Rightarrow> string \<Rightarrow> nat option" where
  "get_task_run_by_af_id r i = map_of (task_runs_by_af_id r) i"

definition get_task_run :: "run \<Rightarrow> string \<Rightarrow> nat option" where
  "get_task_run r i = (case get_task_run_by_id r i of Some n \<Rightarrow> Some n | None \<Rightarrow> get_task_run_by_af_id r i)"

definition get_af_task_ids :: "run \<Rightarrow> string list \<Rightarrow> string list result" where
  "get_af_task_ids r ids =
     mapM (\<lambda>i. case get_task_run r i of
        None \<Rightarrow> Inl (AttributeError ''task_af_id'') | Some n \<Rightarrow> Inr (tr_af_id (task_runs r ! n))) ids"

definition set_run_state :: "run_state \<Rightarrow> run \<Rightarrow> run" where
  "set_run_state s r = track (TrackRunState s) (r\<lparr>the_run_state := Some s\<rparr>)"

text \<open>
  \<open>get_task_runs\<close>: the driver and submitter task runs are recognised by the name of their task;
  \<open>name_of\<close> and \<open>is_system\<close> read the task.
\<close>

definition driver_and_submitter :: "string list" where
  "driver_and_submitter = [''dbnd_driver_submit'', ''dbnd_driver'']"

definition get_task_runs ::
  "(task_id \<Rightarrow> string) \<Rightarrow> (task_id \<Rightarrow> bool) \<Rightarrow> run \<Rightarrow> bool \<Rightarrow> bool \<Rightarrow> task_run list" where
  "get_task_runs name_of is_system r without_executor without_system =
     (let trs = task_runs r;
          trs = (if without_executor
                 then filter (\<lambda>tr. name_of (tr_task tr) \<notin> set driver_and_submitter) trs else trs)
      in if without_system then filter (\<lambda>tr. \<not> is_system (tr_task tr)) trs else trs)"

definition next_af_task_name :: "string \<Rightarrow> run \<Rightarrow> string \<times> run" where
  "next_af_task_name friendly_task_name r =
     (case map_of (dynamic_af_tasks_count r) friendly_task_name of
        Some n \<Rightarrow> (friendly_task_name @ ''_'' @ int_str (n + 1),
                    r\<lparr>dynamic_af_tasks_count := dict_set (dynamic_af_tasks_count r) friendly_task_name (n + 1)\<rparr>)
      | None \<Rightarrow> (friendly_task_name,
                 r\<lparr>dynamic_af_tasks_count := dict_set (dynamic_af_tasks_count r) friendly_task_name 1\<rparr>))"

text \<open>\<open>af_context_task_id\<close> is \<open>af_context.task_id\<close> when the run is inside Airflow.\<close>

definition create_task_run_at_execution_time ::
  "string option \<Rightarrow> task_id \<Rightarrow> string \<Rightarrow> string option \<Rightarrow> run \<Rightarrow> nat \<times> run" where
  "create_task_run_at_execution_time af_context_task_id task friendly_task_name task_af_id r =
     (let (af_id, r1) = (case task_af_id of
            None \<Rightarrow> next_af_task_name friendly_task_name r | Some a \<Rightarrow> (a, r));
          af_id = (case af_context_task_id of None \<Rightarrow> af_id | Some c \<Rightarrow> join_str ''_'' [c, af_id])
      in (length (task_runs r1), add_task_runs_and_track [new_task_run task (Some af_id) 1] r1))"

definition get_upstream_failed_task_run_state :: "dag \<Rightarrow> run \<Rightarrow> task_id \<Rightarrow> task_run_state result" where
  "get_upstream_failed_task_run_state d r task =
     (case get_task_by_id d task of
        None \<Rightarrow> Inl (AttributeError task)
      | Some t \<Rightarrow>
          foldM (\<lambda>state c. case get_task_run_by_id r c of
                   None \<Rightarrow> Inl (AttributeError ''task_run_state'')
                 | Some n \<Rightarrow> Inr (if state_of_run (task_runs r ! n) = Some FAILED then FAILED else state))
            UPSTREAM_FAILED (children t))"

text \<open>
  \<open>cleanup_after_task_run\<close>: of the targets of a finished task, those that no unfinished task
  run still reads are dropped from \<open>TARGET_CACHE\<close>; \<open>cache_cleared\<close> lists the dropped ones.
\<close>

definition cleanup_after_task_run ::
  "(task_id \<Rightarrow> string list) \<Rightarrow> (task_id \<Rightarrow> string list) \<Rightarrow> task_id \<Rightarrow> run \<Rightarrow> run" where
  "cleanup_after_task_run inputs_of outputs_of task r =
     (let targets_to_clean = remdups (inputs_of task @ outputs_of task);
          unfinished = filter (\<lambda>tr. case state_of_run tr of None \<Rightarrow> True | Some s \<Rightarrow> s \<notin> final_states) (task_runs r);
          targets_in_use = concat (map (\<lambda>tr. inputs_of (tr_task tr)) unfinished)
      in r\<lparr>cache_cleared := cache_cleared r @ filter (\<lambda>t. t \<notin> set targets_in_use) targets_to_clean\<rparr>)"

section \<open>Friendly ids\<close>

definition name_of :: "dag \<Rightarrow> task_id \<Rightarrow> string" where
  "name_of d i = (case get_task_by_id d i of None \<Rightarrow> [] | Some t \<Rightarrow> task_name t)"

definition creation_of :: "dag \<Rightarrow> task_id \<Rightarrow> int" where
  "creation_of d i = (case get_task_by_id d i of None \<Rightarrow> 0 | Some t \<Rightarrow> task_creation_id t)"

definition group_by_name :: "dag \<Rightarrow> task_id list \<Rightarrow> (string, task_id list) dict" where
  "group_by_name d tasks =
     foldl (\<lambda>g t. dict_set g (name_of d t) (dict_get_default g (name_of d t) [] @ [t])) [] tasks"

definition friendly_group :: "dag \<Rightarrow> task_id list \<Rightarrow> (task_id \<times> string) list" where
  "friendly_group d tasks =
     (let sorted_tasks = sort_key (creation_of d) tasks
      in map (\<lambda>(i, t). (t, if i > 0 \<or> length sorted_tasks > 1
                          then name_of d t @ ''_'' @ nat_str i else name_of d t))
           (enumerate 0 sorted_tasks))"

definition calculate_friendly_task_ids :: "dag \<Rightarrow> task_id list \<Rightarrow> (task_id, string) dict" where
  "calculate_friendly_task_ids d tasks =
     foldl (\<lambda>ids g. dict_update ids (friendly_group d g)) [] (dict_values (group_by_name d tasks))"

section \<open>Building the task runs of a run\<close>

record run_config =
  selected_tasks_regex :: "string list"
  skip_completed :: bool
  task_complete_parallelism_level :: nat

definition get_tasks_without_disabled :: "dag \<Rightarrow> task_id \<Rightarrow> (task_id list \<times> task_id list) result" where
  "get_tasks_without_disabled d task =
     rbind (subdag_tasks d task False) (\<lambda>all_tasks.
     rbind (subdag_tasks d task True) (\<lambda>runnable_tasks.
       Inr (runnable_tasks, filter (\<lambda>t. t \<notin> set runnable_tasks) all_tasks)))"

definition select_roots ::
  "(string \<Rightarrow> string \<Rightarrow> bool) \<Rightarrow> dag \<Rightarrow> run_config \<Rightarrow> task_id \<Rightarrow> task_id list
     \<Rightarrow> (task_id list \<times> task_id list) result" where
  "select_roots findall d cfg root_task tasks_to_run =
     (if selected_tasks_regex cfg \<noteq> [] then
        rbind (select_by_task_names findall d root_task (selected_tasks_regex cfg) tasks_to_run) (\<lambda>roots.
        rbind (all_subdags d roots) (\<lambda>sub.
          Inr (roots, filter (\<lambda>t. t \<notin> set sub) tasks_to_run)))
      else Inr ([root_task], []))"

definition build_task_run ::
  "(task_id, string) dict \<Rightarrow> task_id list \<Rightarrow> task_id list \<Rightarrow> task_id list \<Rightarrow> task_id \<Rightarrow> task_id \<Rightarrow> task_run" where
  "build_task_run friendly_ids completed_ids not_required_ids skipped_ids root_task task =
     (new_task_run task (map_of friendly_ids task) 1)
       \<lparr>is_reused := (task \<in> set completed_ids \<or> task \<in> set not_required_ids),
        is_skipped_as_not_required := task \<in> set not_required_ids,
        is_skipped := task \<in> set skipped_ids,
        is_root := (task = root_task)\<rparr>"

definition build_task_runs ::
  "(string \<Rightarrow> string \<Rightarrow> bool) \<Rightarrow> nat \<Rightarrow> dag \<Rightarrow> (task_id \<Rightarrow> bool result) \<Rightarrow> run_config \<Rightarrow> task_id
     \<Rightarrow> task_run list result" where
  "build_task_runs findall fuel d complete cfg root_task =
     rbind (get_tasks_without_disabled d root_task) (\<lambda>(tasks_to_run, tasks_disabled).
     rbind (select_roots findall d cfg root_task tasks_to_run) (\<lambda>(roots, tasks_skipped).
     rbind (let enabled_tasks = filter (\<lambda>t. t \<notin> set tasks_skipped) tasks_to_run
            in if skip_completed cfg
               then find_tasks_to_skip_complete fuel d complete roots enabled_tasks
                      (task_complete_parallelism_level cfg)
               else Inr ([], [])) (\<lambda>(tasks_completed, not_required).
       Inr (map (build_task_run (calculate_friendly_task_ids d tasks_to_run)
                   tasks_completed not_required tasks_skipped root_task)
              (sort_key (creation_of d) tasks_to_run)))))"

section \<open>The dictionaries of the run\<close>

text \<open>One dictionary: it points to objects carrying the key, and every object is found.\<close>

definition index_ok :: "('a \<Rightarrow> 'k) \<Rightarrow> ('k, nat) dict \<Rightarrow> 'a list \<Rightarrow> bool" where
  "index_ok key idx xs \<longleftrightarrow>
     (\<forall>k n. map_of idx k = Some n \<longrightarrow> n < length xs \<and> key (xs ! n) = k) \<and>
     (\<forall>x \<in> set xs. map_of idx (key x) \<noteq> None)"

lemma index_ok_append: "index_ok key idx xs \<Longrightarrow> index_ok key (dict_set idx (key x) (length xs)) (xs @ [x])"
  by (auto simp: index_ok_def nth_append less_SucI)

lemma index_ok_update:
  assumes "index_ok key idx xs" "key x = key (xs ! i)"
  shows "index_ok key idx (xs[i := x])"
proof (cases "i < length xs")
  case True
  have eq: "key (xs[i := x] ! n) = key (xs ! n)" for n
    using assms(2) True by (cases "n = i") auto
  have "map_of idx (key y) \<noteq> None" if "y \<in> set (xs[i := x])" for y
  proof -
    have "y = x \<or> y \<in> set xs" using that set_update_subset_insert by fast
    then show ?thesis
      using assms True by (metis index_ok_def nth_mem)
  qed
  with assms(1) eq show ?thesis by (simp add: index_ok_def)
next
  case False
  with assms(1) show ?thesis by (simp add: list_update_beyond)
qed

definition run_wf :: "run \<Rightarrow> bool" where
  "run_wf r \<longleftrightarrow> index_ok tr_task (task_runs_by_id r) (task_runs r) \<and>
     index_ok tr_af_id (task_runs_by_af_id r) (task_runs r)"

lemma track_fields [simp]:
  "task_runs (track e r) = task_runs r" "task_runs_by_id (track e r) = task_runs_by_id r"
  "task_runs_by_af_id (track e r) = task_runs_by_af_id r" "run_killed (track e r) = run_killed r"
  "the_run_state (track e r) = the_run_state r"
  "dynamic_af_tasks_count (track e r) = dynamic_af_tasks_count r"
  "tracked (track e r) = tracked r @ [e]"
  by (simp_all add: track_def)

lemma put_task_run_fields [simp]:
  "task_runs (put_task_run i tr r) = (task_runs r)[i := tr]"
  "task_runs_by_id (put_task_run i tr r) = task_runs_by_id r"
  "task_runs_by_af_id (put_task_run i tr r) = task_runs_by_af_id r"
  "run_killed (put_task_run i tr r) = run_killed r"
  "the_run_state (put_task_run i tr r) = the_run_state r"
  by (simp_all add: put_task_run_def)

lemma run_wf_track [simp]: "run_wf (track e r) = run_wf r"
  by (simp add: run_wf_def)

lemma run_wf_put:
  "run_wf r \<Longrightarrow> tr_task tr = tr_task (task_runs r ! i) \<Longrightarrow> tr_af_id tr = tr_af_id (task_runs r ! i)
     \<Longrightarrow> run_wf (put_task_run i tr r)"
  by (simp add: run_wf_def index_ok_update)

lemma run_wf_add: "run_wf r \<Longrightarrow> run_wf (add_task_run tr r)"
  by (simp add: run_wf_def add_task_run_def Let_def index_ok_append)

lemma run_wf_fold_add: "run_wf r \<Longrightarrow> run_wf (fold add_task_run trs r)"
  by (induction trs arbitrary: r) (auto intro: run_wf_add)

lemma run_wf_dynamic [simp]: "run_wf (r\<lparr>dynamic_af_tasks_count := c\<rparr>) = run_wf r"
  "run_wf (r\<lparr>the_run_state := s\<rparr>) = run_wf r" "run_wf (r\<lparr>run_killed := k\<rparr>) = run_wf r"
  by (simp_all add: run_wf_def)

lemma run_wf_next_af: "run_wf r \<Longrightarrow> run_wf (snd (next_af_task_name n r))"
  by (auto simp: next_af_task_name_def split: option.splits)

lemma run_wf_set_state: "run_wf r \<Longrightarrow> run_wf (fst (set_task_run_state i s tk e r))"
  by (auto simp: set_task_run_state_def Let_def apply_state_def intro!: run_wf_put split: option.splits)

lemma run_wf_reused: "run_wf r \<Longrightarrow> run_wf (set_task_reused i r)"
  by (auto simp: set_task_reused_def Let_def intro!: run_wf_put)

lemma run_wf_urls: "run_wf r \<Longrightarrow> run_wf (set_external_resource_urls i links r)"
  by (auto simp: set_external_resource_urls_def Let_def intro!: run_wf_put split: option.splits)

lemma run_wf_attempt: "run_wf r \<Longrightarrow> update_task_run_attempt i a r = Inr r' \<Longrightarrow> run_wf r'"
  by (auto simp: update_task_run_attempt_def Let_def intro!: run_wf_put split: option.splits if_splits)

lemma run_wf_add_tracked: "run_wf r \<Longrightarrow> run_wf (add_task_runs_and_track trs r)"
  by (simp add: add_task_runs_and_track_def run_wf_fold_add)

lemma run_wf_run_state: "run_wf r \<Longrightarrow> run_wf (set_run_state rs r)"
  by (simp add: set_run_state_def)

lemma run_wf_create:
  assumes "run_wf r"
  shows "run_wf (snd (create_task_run_at_execution_time c t n af r))"
  using assms run_wf_next_af [OF assms, of n]
  by (auto simp: create_task_run_at_execution_time_def Let_def
      split: option.splits prod.splits intro!: run_wf_add_tracked)

text \<open>
  Every operation keeps the dictionaries of the run in step with its list of task runs: an
  id or an Airflow id points to a task run that carries it, and every task run is found.
\<close>

theorem run_operations_keep_index:
  assumes "run_wf r"
  shows "run_wf (fst (set_task_run_state i s tk e r)) \<and>
    run_wf (set_task_reused i r) \<and>
    run_wf (set_external_resource_urls i links r) \<and>
    (\<forall>r'. update_task_run_attempt i a r = Inr r' \<longrightarrow> run_wf r') \<and>
    run_wf (add_task_runs_and_track trs r) \<and>
    run_wf (set_run_state rs r) \<and>
    run_wf (snd (create_task_run_at_execution_time c t n af r))"
  using run_wf_set_state [OF assms] run_wf_reused [OF assms] run_wf_urls [OF assms]
    run_wf_attempt [OF assms] run_wf_add_tracked [OF assms] run_wf_run_state [OF assms]
    run_wf_create [OF assms] by blast

theorem run_operations_keep_index_witness:
  "run_wf (add_task_runs_and_track [new_task_run ''a'' None 1]
     \<lparr>task_runs = [], task_runs_by_id = [], task_runs_by_af_id = [], dynamic_af_tasks_count = [],
      run_killed = False, the_run_state = None, cache_cleared = [], tracked = []\<rparr>)"
proof -
  have "run_wf \<lparr>task_runs = [], task_runs_by_id = [], task_runs_by_af_id = [], dynamic_af_tasks_count = [],
      run_killed = False, the_run_state = None, cache_cleared = [], tracked = []\<rparr>"
    by (simp add: run_wf_def index_ok_def)
  from run_operations_keep_index [OF this] show ?thesis by blast
qed

section \<open>Friendly ids\<close>

definition same_name :: "dag \<Rightarrow> task_id list \<Rightarrow> string \<Rightarrow> task_id list" where
  "same_name d tasks n = filter (\<lambda>t. name_of d t = n) tasks"

lemma map_of_group_by_name:
  "map_of (group_by_name d tasks) n = (if same_name d tasks n = [] then None else Some (same_name d tasks n))"
proof (induction tasks arbitrary: n rule: rev_induct)
  case (snoc x xs)
  have "dict_get_default (group_by_name d xs) (name_of d x) [] = same_name d xs (name_of d x)"
    by (simp add: dict_get_default_def snoc.IH)
  then have "map_of (group_by_name d (xs @ [x])) n =
      ((map_of (group_by_name d xs))(name_of d x \<mapsto> same_name d xs (name_of d x) @ [x])) n"
    by (simp add: group_by_name_def)
  with snoc.IH [of n] show ?case by (simp add: same_name_def)
qed (simp add: group_by_name_def same_name_def)

lemma distinct_group_by_name: "distinct (map fst (group_by_name d tasks))"
  by (induction tasks rule: rev_induct) (auto simp: group_by_name_def intro: distinct_dict_set)

text \<open>The friendly id of a task, read off its position among the tasks of its name.\<close>

definition friendly_id :: "dag \<Rightarrow> task_id list \<Rightarrow> task_id \<Rightarrow> string" where
  "friendly_id d tasks t =
     (let g = sort_key (creation_of d) (same_name d tasks (name_of d t))
      in if length g > 1 then name_of d t @ ''_'' @ nat_str (index_of t g) else name_of d t)"

lemma map_of_friendly_group:
  assumes "distinct g" "\<forall>t \<in> set g. name_of d t = n"
  shows "map_of (friendly_group d g) t =
    (if t \<in> set g then Some (if length g > 1 then n @ ''_'' @ nat_str (index_of t (sort_key (creation_of d) g)) else n)
     else None)"
proof -
  let ?s = "sort_key (creation_of d) g"
  have gen: "map_of (map (\<lambda>(i, t). (t, f i t)) (enumerate k xs)) t =
      (if t \<in> set xs then Some (f (k + index_of t xs) t) else None)" for f :: "nat \<Rightarrow> task_id \<Rightarrow> string" and k xs
    by (induction xs arbitrary: k) auto
  have "map_of (friendly_group d g) t =
      (if t \<in> set g then Some (if 0 < index_of t ?s \<or> 1 < length g
         then name_of d t @ ''_'' @ nat_str (index_of t ?s) else name_of d t) else None)"
    by (simp add: friendly_group_def Let_def gen)
  moreover have "0 < index_of t ?s \<longrightarrow> 1 < length g" if "t \<in> set g"
    using index_of_nth [of t ?s] that by auto
  ultimately show ?thesis using assms(2) by auto
qed

lemma map_fst_enumerate: "map fst (map (\<lambda>(i, t). (t, f i t)) (enumerate k xs)) = xs"
  by (induction xs arbitrary: k) auto

lemma distinct_friendly_group: "distinct g \<Longrightarrow> distinct (map fst (friendly_group d g))"
  unfolding friendly_group_def Let_def map_fst_enumerate by simp

lemma map_of_calculate:
  assumes "distinct (concat gs)" "\<forall>g \<in> set gs. \<exists>n. \<forall>t \<in> set g. name_of d t = n" "t \<in> set g" "g \<in> set gs"
  shows "map_of (foldl (\<lambda>ids g. dict_update ids (friendly_group d g)) ids gs) t =
    map_of (friendly_group d g) t"
  using assms
proof (induction gs arbitrary: ids)
  case (Cons h gs)
  have rest: "map_of (foldl (\<lambda>ids g. dict_update ids (friendly_group d g)) i gs) t = map_of i t"
    if "t \<notin> set (concat gs)" "\<forall>g \<in> set gs. \<exists>n. \<forall>t \<in> set g. name_of d t = n" "distinct (concat gs)" for i
    using that
  proof (induction gs arbitrary: i)
    case (Cons x xs)
    then obtain n where n: "\<forall>t \<in> set x. name_of d t = n" by auto
    have x: "distinct x" using Cons.prems by auto
    have "map_of (dict_update i (friendly_group d x)) t = map_of i t"
      using Cons.prems(1) map_of_friendly_group [OF x n, of t]
      by (simp add: map_of_dict_update_distinct [OF distinct_friendly_group [OF x]] map_add_def)
    with Cons show ?case by auto
  qed simp
  show ?case
  proof (cases "t \<in> set h")
    case True
    then have "g = h" using Cons.prems by auto
    obtain n where n: "\<forall>t \<in> set h. name_of d t = n" using Cons.prems(2) by auto
    have h: "distinct h" using Cons.prems(1) by auto
    have "t \<notin> set (concat gs)" using Cons.prems(1) True by auto
    then show ?thesis
      using rest [of "dict_update ids (friendly_group d h)"] Cons.prems(1,2) True \<open>g = h\<close>
        map_of_friendly_group [OF h n, of t]
      by (simp add: map_of_dict_update_distinct [OF distinct_friendly_group [OF h]] map_add_def)
  next
    case False
    with Cons show ?thesis by auto
  qed
qed simp

lemma map_of_calculate_friendly_task_ids:
  assumes "distinct tasks" "t \<in> set tasks"
  shows "map_of (calculate_friendly_task_ids d tasks) t = Some (friendly_id d tasks t)"
proof -
  let ?gs = "dict_values (group_by_name d tasks)"
  have in_gs: "g \<in> set ?gs \<longleftrightarrow> (\<exists>n. g = same_name d tasks n \<and> g \<noteq> [])" for g
  proof -
    have "g \<in> set ?gs \<longleftrightarrow> (\<exists>n. (n, g) \<in> set (group_by_name d tasks))"
      unfolding dict_values_def set_map by (auto intro: rev_image_eqI)
    also have "\<dots> \<longleftrightarrow> (\<exists>n. map_of (group_by_name d tasks) n = Some g)"
      by (simp only: map_of_eq_Some_iff [OF distinct_group_by_name])
    finally have "g \<in> set ?gs \<longleftrightarrow> (\<exists>n. map_of (group_by_name d tasks) n = Some g)" .
    then show ?thesis by (auto simp: map_of_group_by_name)
  qed
  have disj: "distinct (concat ?gs)"
  proof -
    have "distinct (concat (map snd ps))"
      if "distinct (map fst ps)" "\<forall>(n, g) \<in> set ps. g = same_name d tasks n" for ps
      using that
    proof (induction ps)
      case (Cons p ps)
      obtain n g where p: "p = (n, g)" by fastforce
      have "x \<notin> set g'" if "x \<in> set g" "(n', g') \<in> set ps" for x n' g'
      proof -
        have "n' \<noteq> n" using Cons.prems(1) that(2) p by force
        moreover have "g = same_name d tasks n" "g' = same_name d tasks n'"
          using Cons.prems(2) that(2) p by auto
        ultimately show ?thesis using that(1) by (auto simp: same_name_def)
      qed
      then have "set g \<inter> set (concat (map snd ps)) = {}" by auto
      moreover have "distinct g" using Cons.prems(2) p assms(1) by (simp add: same_name_def)
      moreover have "distinct (concat (map snd ps))"
        using Cons.prems by (intro Cons.IH) auto
      ultimately show ?case using p by simp
    qed simp
    moreover have "\<forall>(n, g) \<in> set (group_by_name d tasks). g = same_name d tasks n"
      by (simp add: ball_dict_iff [OF distinct_group_by_name] map_of_group_by_name)
    ultimately show ?thesis
      using distinct_group_by_name [of d tasks] by (simp add: dict_values_def)
  qed
  let ?g = "same_name d tasks (name_of d t)"
  have g: "t \<in> set ?g" "distinct ?g" using assms by (simp_all add: same_name_def)
  from g(1) have "?g \<noteq> []" by auto
  then have "?g \<in> set ?gs" unfolding in_gs by blast
  moreover have "\<exists>n. \<forall>t \<in> set g. name_of d t = n" if "g \<in> set ?gs" for g
  proof -
    from that obtain n where "g = same_name d tasks n" unfolding in_gs by blast
    then show ?thesis by (simp add: same_name_def)
  qed
  ultimately have "map_of (calculate_friendly_task_ids d tasks) t = map_of (friendly_group d ?g) t"
    unfolding calculate_friendly_task_ids_def using disj g(1) by (intro map_of_calculate) blast+
  also have "\<dots> = Some (friendly_id d tasks t)"
    using map_of_friendly_group [OF g(2), of d "name_of d t" t] g(1)
    by (simp add: friendly_id_def same_name_def)
  finally show ?thesis .
qed

lemma index_of_inj: "x \<in> set xs \<Longrightarrow> y \<in> set xs \<Longrightarrow> index_of x xs = index_of y xs \<Longrightarrow> x = y"
  by (metis index_of_nth)

lemma no_underscore_nat_str: "CHR ''_'' \<notin> set (nat_str n)"
  using nat_str_digits [of n] by (auto simp: is_digit_def)

lemma append_suffix_inj:
  assumes "a @ ''_'' @ s = b @ ''_'' @ t" "CHR ''_'' \<notin> set s" "CHR ''_'' \<notin> set t"
  shows "a = b \<and> s = t"
proof -
  have r: "rev s @ CHR ''_'' # rev a = rev t @ CHR ''_'' # rev b"
    using arg_cong [OF assms(1), of rev] by simp
  have "takeWhile (\<lambda>c. c \<noteq> CHR ''_'') (rev x @ CHR ''_'' # y) = rev x"
    if "CHR ''_'' \<notin> set x" for x y
    using that by (auto simp: takeWhile_append)
  with r assms(2,3) have "rev s = rev t" by metis
  with r show ?thesis by simp
qed

lemma friendly_id_cases:
  "friendly_id d tasks t = name_of d t \<or> (\<exists>k. friendly_id d tasks t = name_of d t @ ''_'' @ nat_str k)"
  by (auto simp: friendly_id_def Let_def)

text \<open>
  The friendly ids tell the tasks of a run apart, provided no task is named like another
  task's name with a number appended.
\<close>

theorem friendly_task_ids_injective:
  assumes "distinct tasks" "t \<in> set tasks" "u \<in> set tasks"
    and "\<forall>x \<in> set tasks. \<forall>y \<in> set tasks. \<forall>k. name_of d x \<noteq> name_of d y @ ''_'' @ nat_str k"
    and "map_of (calculate_friendly_task_ids d tasks) t = map_of (calculate_friendly_task_ids d tasks) u"
  shows "t = u"
proof -
  have eq: "friendly_id d tasks t = friendly_id d tasks u"
    using assms(5) map_of_calculate_friendly_task_ids [OF assms(1)] assms(2,3) by simp
  have name: "name_of d t = name_of d u"
    using eq assms(2-4) friendly_id_cases [of d tasks t] friendly_id_cases [of d tasks u]
      append_suffix_inj [OF _ no_underscore_nat_str no_underscore_nat_str] by metis
  let ?g = "sort_key (creation_of d) (same_name d tasks (name_of d t))"
  have mem: "t \<in> set ?g" "u \<in> set ?g" using assms(2,3) name by (auto simp: same_name_def)
  show ?thesis
  proof (cases "length ?g > 1")
    case True
    then have "friendly_id d tasks t = name_of d t @ ''_'' @ nat_str (index_of t ?g)"
      "friendly_id d tasks u = name_of d t @ ''_'' @ nat_str (index_of u ?g)"
      using name unfolding friendly_id_def Let_def by (simp_all only: if_True)
    with eq have "index_of t ?g = index_of u ?g"
      by (simp only: same_append_eq nat_str_inj)
    with mem show ?thesis by (intro index_of_inj [of t ?g u])
  next
    case False
    have "x = y" if "length g \<le> 1" "x \<in> set g" "y \<in> set g" for g :: "task_id list" and x y
      using that by (cases g) auto
    from this [OF _ mem] False show ?thesis by simp
  qed
qed

definition clash_dag :: dag where
  "clash_dag = [(''x'', sample_task ''a'' 1 [] [] []), (''y'', sample_task ''a'' 2 [] [] []),
     (''z'', sample_task ''a_1'' 3 [] [] [])]"

text \<open>
  Without that proviso they need not: of two tasks called \<open>a\<close> and one called \<open>a_1\<close>,
  two get the id \<open>a_1\<close>, and the run's dictionary of Airflow ids loses one of them.
\<close>

theorem friendly_task_ids_collide:
  "map_of (calculate_friendly_task_ids clash_dag [''x'', ''y'', ''z'']) ''y'' = Some ''a_1'' \<and>
   map_of (calculate_friendly_task_ids clash_dag [''x'', ''y'', ''z'']) ''z'' = Some ''a_1''"
  by code_simp

theorem friendly_task_ids_injective_witness:
  "map_of (calculate_friendly_task_ids sample_dag [''load'', ''raw'']) ''load'' =
     map_of (calculate_friendly_task_ids sample_dag [''load'', ''raw'']) ''load'' \<and> ''load'' = ''load''"
proof -
  have "\<forall>x \<in> set [''load'', ''raw'']. \<forall>y \<in> set [''load'', ''raw'']. \<forall>k.
      name_of sample_dag x \<noteq> name_of sample_dag y @ ''_'' @ nat_str k"
    by (simp add: name_of_def get_task_by_id_def sample_dag_def sample_task_def)
  from friendly_task_ids_injective [OF _ _ _ this, of "''load''" "''load''"]
  show ?thesis by simp
qed

section \<open>What the builder decides\<close>

definition selected_roots :: "(string \<Rightarrow> string \<Rightarrow> bool) \<Rightarrow> dag \<Rightarrow> run_config \<Rightarrow> task_id \<Rightarrow> task_id set" where
  "selected_roots findall d cfg root =
     (if selected_tasks_regex cfg = [] then {root}
      else {t. reach (node_step d True True) root t \<and> enabled d True t \<and>
               (\<exists>r \<in> set (selected_tasks_regex cfg). findall r t)})"

lemma enabled_False [simp]: "enabled d False t"
  by (simp add: enabled_def)

lemma all_subdags_set:
  assumes "wf_dag d" "set roots \<subseteq> fst ` set d"
  shows "\<exists>sub. all_subdags d roots = Inr sub \<and> set sub = {t. \<exists>r \<in> set roots. reach (node_step d True False) r t}"
proof -
  have "\<exists>rs. mapM (\<lambda>t. subdag_tasks d t False) roots = Inr rs \<and>
      set (concat rs) = {t. \<exists>r \<in> set roots. reach (node_step d True False) r t}"
    using assms(2)
  proof (induction roots)
    case (Cons r roots)
    have "r \<in> fst ` set d" using Cons.prems unfolding list.set by blast
    from subdag_tasks_outcome [OF assms(1) this, of False] Cons
    show ?case by auto
  qed simp
  then show ?thesis by (auto simp: all_subdags_def)
qed

lemma select_by_names_set:
  assumes "select_by_task_names findall d self regexes tasks = Inr sel" "tasks \<noteq> []"
  shows "set sel = {t \<in> set tasks. \<exists>r \<in> set regexes. findall r t}"
  using assms by (auto simp: select_by_task_names_def Let_def split: if_splits)

lemma tasks_without_disabled:
  assumes "wf_dag d" "root \<in> fst ` set d"
  shows "\<exists>to_run disabled. get_tasks_without_disabled d root = Inr (to_run, disabled) \<and> distinct to_run \<and>
    set to_run = {x. reach (node_step d True True) root x \<and> enabled d True x}"
  using subdag_tasks_outcome [OF assms, of True] subdag_tasks_outcome [OF assms, of False]
  by (auto simp: get_tasks_without_disabled_def)

lemma select_roots_set:
  assumes "wf_dag d" "root \<in> fst ` set d" "select_roots findall d cfg root to_run = Inr (roots, skipped)"
    and "set to_run = {x. reach (node_step d True True) root x \<and> enabled d True x}"
  shows "set roots \<subseteq> fst ` set d \<and> (to_run \<noteq> [] \<longrightarrow> set roots = selected_roots findall d cfg root) \<and>
    set skipped = {t \<in> set to_run. selected_tasks_regex cfg \<noteq> [] \<and>
      \<not> (\<exists>r \<in> set roots. reach (node_step d True False) r t)}"
proof (cases "selected_tasks_regex cfg = []")
  case True
  with assms(3) have "roots = [root]" "skipped = []" by (simp_all add: select_roots_def)
  with assms(2) True show ?thesis unfolding selected_roots_def by simp
next
  case False
  from assms(3) False obtain sub where
    sel: "select_by_task_names findall d root (selected_tasks_regex cfg) to_run = Inr roots"
    and sub: "all_subdags d roots = Inr sub" "skipped = filter (\<lambda>t. t \<notin> set sub) to_run"
    by (auto simp: select_roots_def rbind_Inr_iff)
  have reg: "x \<in> fst ` set d" if "reach (node_step d True sro) root x" for x sro
    using dag_walk.reach_in_nodes [of "(d, True, sro)" root x] assms(1,2) that by simp
  have "set roots \<subseteq> fst ` set d"
  proof (cases "to_run = []")
    case True
    obtain all where "subdag_tasks d root False = Inr all"
      "set all = {x. reach (node_step d True False) root x \<and> enabled d False x}"
      using subdag_tasks_outcome [OF assms(1,2), of False] by blast
    with sel True reg show ?thesis
      by (auto simp: select_by_task_names_def Let_def split: if_splits)
  next
    case False
    with select_by_names_set [OF sel] assms(4) reg show ?thesis by auto
  qed
  moreover from this obtain sub' where "all_subdags d roots = Inr sub'"
    "set sub' = {t. \<exists>r \<in> set roots. reach (node_step d True False) r t}"
    using all_subdags_set [OF assms(1)] by blast
  ultimately show ?thesis
    using sub False select_by_names_set [OF sel] assms(4) by (auto simp: selected_roots_def)
qed

lemma select_roots_total:
  assumes "set to_run = {x. reach (node_step d True True) root x \<and> enabled d True x}" "wf_dag d"
    "root \<in> fst ` set d" "selected_roots findall d cfg root \<noteq> {}"
  shows "\<exists>roots skipped. select_roots findall d cfg root to_run = Inr (roots, skipped)"
proof (cases "selected_tasks_regex cfg = []")
  case True
  then show ?thesis by (simp add: select_roots_def)
next
  case False
  from assms(1,4) False obtain t r where tr: "t \<in> set to_run" "r \<in> set (selected_tasks_regex cfg)" "findall r t"
    unfolding selected_roots_def by auto
  let ?sel = "concat (map (\<lambda>r. filter (findall r) to_run) (selected_tasks_regex cfg))"
  have "t \<in> set ?sel" "to_run \<noteq> []" using tr by auto
  have ne: "?sel \<noteq> []"
  proof
    assume "?sel = []"
    with \<open>t \<in> set ?sel\<close> show False by (simp only: list.set empty_iff)
  qed
  from ne \<open>to_run \<noteq> []\<close> have sel: "select_by_task_names findall d root (selected_tasks_regex cfg) to_run = Inr ?sel"
    by (simp add: select_by_task_names_def Let_def del: concat_eq_Nil_conv)
  have "set ?sel \<subseteq> fst ` set d"
  proof
    fix x assume "x \<in> set ?sel"
    then have "reach (node_step d True True) root x" using assms(1) by auto
    with dag_walk.reach_in_nodes [of "(d, True, True)" root x] assms(2,3) show "x \<in> fst ` set d" by simp
  qed
  then obtain sub where "all_subdags d ?sel = Inr sub" using all_subdags_set [OF assms(2)] by blast
  with sel False have "select_roots findall d cfg root to_run = Inr (?sel, filter (\<lambda>t. t \<notin> set sub) to_run)"
    by (simp add: select_roots_def del: set_concat)
  then show ?thesis by blast
qed

lemma build_task_run_fields [simp]:
  "tr_task (build_task_run f c n s root t) = t"
  "is_reused (build_task_run f c n s root t) = (t \<in> set c \<or> t \<in> set n)"
  "is_skipped (build_task_run f c n s root t) = (t \<in> set s)"
  "is_skipped_as_not_required (build_task_run f c n s root t) = (t \<in> set n)"
  "is_root (build_task_run f c n s root t) = (t = root)"
  "state_of_run (build_task_run f c n s root t) = None"
  by (simp_all add: build_task_run_def new_task_run_def)

text \<open>The tasks that the build leaves to the executor.\<close>

definition to_execute ::
  "(string \<Rightarrow> string \<Rightarrow> bool) \<Rightarrow> dag \<Rightarrow> (task_id \<Rightarrow> bool) \<Rightarrow> run_config \<Rightarrow> task_id \<Rightarrow> task_id \<Rightarrow> bool" where
  "to_execute findall d c cfg root t \<longleftrightarrow>
     (\<exists>r \<in> selected_roots findall d cfg root.
        (selected_tasks_regex cfg \<noteq> [] \<longrightarrow> reach (node_step d True False) r t)) \<and>
     (skip_completed cfg \<longrightarrow> \<not> c t \<and>
        (\<exists>r \<in> selected_roots findall d cfg root. reach (incomplete_step d c) r t))"

lemma build_task_runs_outcome:
  assumes "wf_dag d" "root \<in> fst ` set d" "answers d complete c" "length d < fuel"
    "enabled d True root" "selected_roots findall d cfg root \<noteq> {}"
  shows "\<exists>trs. build_task_runs findall fuel d complete cfg root = Inr trs \<and>
    distinct (map tr_task trs) \<and> sorted (map (creation_of d \<circ> tr_task) trs) \<and>
    tr_task ` set trs = {x. reach (node_step d True True) root x \<and> enabled d True x} \<and>
    (\<forall>tr \<in> set trs. state_of_run tr = None \<and> (is_root tr \<longleftrightarrow> tr_task tr = root) \<and>
       (is_skipped_as_not_required tr \<longrightarrow> is_reused tr) \<and>
       (\<not> is_reused tr \<and> \<not> is_skipped tr \<longleftrightarrow> to_execute findall d c cfg root (tr_task tr)))"
proof -
  let ?S = "selected_roots findall d cfg root"
  obtain to_run dis where tr: "get_tasks_without_disabled d root = Inr (to_run, dis)" "distinct to_run"
    "set to_run = {x. reach (node_step d True True) root x \<and> enabled d True x}"
    using tasks_without_disabled [OF assms(1,2)] by blast
  have "root \<in> set to_run" using tr(3) assms(5) by (simp add: reach.intros)
  then have ne: "to_run \<noteq> []" by (rule list.set_cases) simp_all
  obtain roots skipped where sel: "select_roots findall d cfg root to_run = Inr (roots, skipped)"
    using select_roots_total [OF tr(3) assms(1,2,6)] by blast
  note rs = select_roots_set [OF assms(1,2) sel tr(3)]
  from rs have roots1: "set roots \<subseteq> fst ` set d" by blast
  from rs ne have roots2: "set roots = ?S" by blast
  from rs have skipped: "set skipped = {t \<in> set to_run. selected_tasks_regex cfg \<noteq> [] \<and>
      \<not> (\<exists>r \<in> ?S. reach (node_step d True False) r t)}" unfolding roots2 by blast
  let ?en = "filter (\<lambda>t. t \<notin> set skipped) to_run"
  obtain comp nr where cn: "(if skip_completed cfg then find_tasks_to_skip_complete fuel d complete roots ?en
      (task_complete_parallelism_level cfg) else Inr ([], [])) = Inr (comp, nr)"
    "skip_completed cfg \<Longrightarrow> set comp = {t \<in> set ?en. (\<exists>r \<in> ?S. reach (incomplete_step d c) r t) \<and> c t}"
    "skip_completed cfg \<Longrightarrow> set nr = {t \<in> set ?en. \<not> (\<exists>r \<in> ?S. reach (incomplete_step d c) r t)}"
    "\<not> skip_completed cfg \<Longrightarrow> set comp \<union> set nr = {}"
    using find_tasks_outcome [OF assms(1,3) roots1 assms(4), of ?en "task_complete_parallelism_level cfg"]
    unfolding roots2 by (cases "skip_completed cfg") auto
  let ?b = "build_task_run (calculate_friendly_task_ids d to_run) comp nr skipped root"
  have res: "build_task_runs findall fuel d complete cfg root = Inr (map ?b (sort_key (creation_of d) to_run))"
    using cn(1) by (simp add: build_task_runs_def tr(1) sel Let_def)
  have ids: "map tr_task (map ?b (sort_key (creation_of d) to_run)) = sort_key (creation_of d) to_run"
    by (simp add: map_idI)
  have ex: "t \<notin> set comp \<and> t \<notin> set nr \<and> t \<notin> set skipped \<longleftrightarrow> to_execute findall d c cfg root t"
    if "t \<in> set to_run" for t
  proof (cases "skip_completed cfg")
    case True
    have "to_execute findall d c cfg root t \<longleftrightarrow> t \<notin> set skipped \<and> \<not> c t \<and> (\<exists>r \<in> ?S. reach (incomplete_step d c) r t)"
      using True that assms(6) unfolding to_execute_def skipped by blast
    then show ?thesis unfolding cn(2) [OF True] cn(3) [OF True] using that by auto
  next
    case False
    have "to_execute findall d c cfg root t \<longleftrightarrow> t \<notin> set skipped"
      using False that assms(6) unfolding to_execute_def skipped by blast
    moreover have "t \<notin> set comp" "t \<notin> set nr" using cn(4) [OF False] by auto
    ultimately show ?thesis by simp
  qed
  have "tr_task ` set (map ?b (sort_key (creation_of d) to_run)) = set to_run"
    using arg_cong [OF ids, of set] by (simp only: set_map set_sort)
  moreover have "sorted (map (creation_of d \<circ> tr_task) (map ?b (sort_key (creation_of d) to_run)))"
    by (simp add: comp_def)
  moreover have "distinct (map tr_task (map ?b (sort_key (creation_of d) to_run)))"
    unfolding ids by (simp add: tr(2))
  moreover have "state_of_run x = None \<and> (is_root x \<longleftrightarrow> tr_task x = root) \<and>
       (is_skipped_as_not_required x \<longrightarrow> is_reused x) \<and>
       (\<not> is_reused x \<and> \<not> is_skipped x \<longleftrightarrow> to_execute findall d c cfg root (tr_task x))"
    if x: "x \<in> set (map ?b (sort_key (creation_of d) to_run))" for x
  proof -
    from x obtain t where t: "t \<in> set to_run" "x = ?b t" by auto
    show ?thesis unfolding t(2) using ex [OF t(1)] by simp
  qed
  ultimately show ?thesis unfolding tr(3) using res by blast
qed

text \<open>
  C13. \<open>build_task_runs\<close> returns one task run per runnable task of the root, in creation
  order. It leaves a task to the executor (neither reused nor skipped) exactly when it belongs to
  the selected part of the graph and, if complete tasks are skipped, it is incomplete and an
  incomplete path leads to it from a selected root.
\<close>

theorem build_task_runs_correct:
  assumes "wf_dag d" "root \<in> fst ` set d" "answers d complete c" "length d < fuel"
    "enabled d True root" "selected_roots findall d cfg root \<noteq> {}"
  shows "\<exists>trs. build_task_runs findall fuel d complete cfg root = Inr trs \<and>
    distinct (map tr_task trs) \<and> sorted (map (creation_of d \<circ> tr_task) trs) \<and>
    tr_task ` set trs = {x. reach (node_step d True True) root x \<and> enabled d True x} \<and>
    (\<forall>tr \<in> set trs. state_of_run tr = None \<and> (is_root tr \<longleftrightarrow> tr_task tr = root) \<and>
       (is_skipped_as_not_required tr \<longrightarrow> is_reused tr) \<and>
       (\<not> is_reused tr \<and> \<not> is_skipped tr \<longleftrightarrow> to_execute findall d c cfg root (tr_task tr)))"
  by (rule build_task_runs_outcome [OF assms])

definition sample_run_config :: run_config where
  "sample_run_config = \<lparr>selected_tasks_regex = [], skip_completed = True, task_complete_parallelism_level = 4\<rparr>"

theorem build_task_runs_witness:
  "\<exists>trs. build_task_runs (=) 10 sample_dag (\<lambda>i. Inr (sample_complete i)) sample_run_config ''pipe'' = Inr trs \<and>
    distinct (map tr_task trs)"
proof -
  have "enabled sample_dag True ''pipe''"
    by (simp add: enabled_def get_task_by_id_def sample_dag_def sample_task_def)
  moreover have "selected_roots (=) sample_dag sample_run_config ''pipe'' \<noteq> {}"
    by (simp add: selected_roots_def sample_run_config_def)
  ultimately show ?thesis
    using build_task_runs_correct [OF sample_dag_wf sample_size(3) sample_answers sample_size(1)] by blast
qed

end
