(* ===== verification/PyStrings.thy ===== *)
theory PyStrings
  imports Prelude
begin

text \<open>
  The string operations of Python's standard library that several components use, on ASCII
  strings: \<open>lower\<close>, \<open>upper\<close>, \<open>strip\<close>, \<open>in\<close>, \<open>replace\<close>, \<open>int\<close>, and \<open>parse_bool\<close> of
  \<open>_core/utils/basics/helpers.py\<close>.
\<close>

section \<open>Case\<close>

definition lower_char :: "char \<Rightarrow> char" where
  "lower_char c = (let n = (of_char c :: nat) in if 65 \<le> n \<and> n \<le> 90 then char_of (n + 32) else c)"

definition lower :: "string \<Rightarrow> string" where
  "lower s = map lower_char s"

definition upper_char :: "char \<Rightarrow> char" where
  "upper_char c = (let n = (of_char c :: nat) in if 97 \<le> n \<and> n \<le> 122 then char_of (n - 32) else c)"

definition upper :: "string \<Rightarrow> string" where
  "upper s = map upper_char s"

lemma lower_char_idem [simp]: "lower_char (lower_char c) = lower_char c"
  by (auto simp: lower_char_def Let_def)

lemma lower_idem [simp]: "lower (lower s) = lower s"
  by (simp add: lower_def)

lemma lower_append: "lower (a @ b) = lower a @ lower b"
  by (simp add: lower_def)

section \<open>White space and substrings\<close>

definition is_space :: "char \<Rightarrow> bool" where
  "is_space c = (c \<in> {CHR '' '', CHR 0x09, CHR 0x0A, CHR 0x0B, CHR 0x0C, CHR 0x0D})"

definition lstrip :: "string \<Rightarrow> string" where
  "lstrip s = dropWhile is_space s"

definition rstrip :: "string \<Rightarrow> string" where
  "rstrip s = rev (dropWhile is_space (rev s))"

definition strip :: "string \<Rightarrow> string" where
  "strip s = rstrip (lstrip s)"

fun contains :: "string \<Rightarrow> string \<Rightarrow> bool" where
  "contains sub [] = (sub = [])"
| "contains sub (c # cs) = (starts_with (c # cs) sub \<or> contains sub cs)"

lemma contains_iff: "contains sub s \<longleftrightarrow> (\<exists>a b. s = a @ sub @ b)"
proof (induction s)
  case (Cons c cs)
  have "(\<exists>a b. c # cs = a @ sub @ b) \<longleftrightarrow> (\<exists>b. c # cs = sub @ b) \<or> (\<exists>a b. cs = a @ sub @ b)"
    by (auto simp: Cons_eq_append_conv)
  with Cons show ?case by (simp add: starts_with_iff)
qed simp

fun replace_char :: "char \<Rightarrow> string \<Rightarrow> string \<Rightarrow> string" where
  "replace_char c r [] = []"
| "replace_char c r (x # xs) = (if x = c then r else [x]) @ replace_char c r xs"

section \<open>Numbers and booleans\<close>

text \<open>\<open>int\<close> of a string: white space around, a sign, digits.\<close>

definition parse_digits :: "string \<Rightarrow> nat result" where
  "parse_digits s = (if s \<noteq> [] \<and> list_all is_digit s then Inr (digits_val s) else Inl (ValueError s))"

definition parse_int :: "string \<Rightarrow> int result" where
  "parse_int s =
     (let t = strip s
      in if t \<noteq> [] \<and> hd t = CHR ''-'' then rmap (\<lambda>n. - int n) (parse_digits (tl t))
         else if t \<noteq> [] \<and> hd t = CHR ''+'' then rmap int (parse_digits (tl t))
         else rmap int (parse_digits t))"

lemma digit_not_space: "is_digit c \<Longrightarrow> \<not> is_space c"
  by (auto simp: is_digit_def is_space_def)

lemma strip_id:
  assumes "s \<noteq> []" "\<not> is_space (hd s)" "\<not> is_space (last s)"
  shows "strip s = s"
proof -
  have l: "lstrip s = s" using assms(1,2) by (cases s) (simp_all add: lstrip_def)
  have "dropWhile is_space (rev s) = rev s"
    using assms(1,3) by (cases s rule: rev_cases) simp_all
  then show ?thesis by (simp add: strip_def rstrip_def l)
qed

lemma strip_nat_str [simp]: "strip (nat_str n) = nat_str n"
proof (rule strip_id)
  show "\<not> is_space (hd (nat_str n))" "\<not> is_space (last (nat_str n))"
    using nat_str_digits [of n] digit_not_space by (meson hd_in_set last_in_set nat_str_not_Nil)+
qed simp

lemma parse_digits_nat_str [simp]: "parse_digits (nat_str n) = Inr n"
  using nat_str_digits [of n] by (simp add: parse_digits_def list_all_iff digits_val_nat_str)

lemma hd_nat_str: "is_digit (hd (nat_str n))"
  using nat_str_digits [of n] by (metis hd_in_set nat_str_not_Nil)

lemma parse_int_nat_str [simp]: "parse_int (nat_str n) = Inr (int n)"
proof -
  have "hd (nat_str n) \<noteq> CHR ''-''" "hd (nat_str n) \<noteq> CHR ''+''"
    using hd_nat_str [of n] by (auto simp: is_digit_def)
  then show ?thesis by (simp add: parse_int_def)
qed

definition parse_bool :: "string option \<Rightarrow> bool result" where
  "parse_bool v =
     (case v of
        None \<Rightarrow> Inr False
      | Some s \<Rightarrow>
          let val = strip (lower s);
              val = (if CHR ''#'' \<in> set val then strip (hd (split_on (CHR ''#'') val)) else val)
          in if lower val \<in> {''t'', ''true'', ''yes'', ''1''} then Inr True
             else if lower val \<in> {''f'', ''false'', ''no'', ''0''} then Inr False
             else Inl (ValueError (''Can't parse '' @ s @ '' as boolean'')))"

end
