(* ===== verification/Execution.thy ===== *)
theory Execution
  imports TaskRuns PyStrings
begin

text \<open>
  Running the task runs of a run: \<open>TaskRunRunner.execute\<close> of
  \<open>_core/task_run/task_run_runner.py\<close>, \<open>LocalTaskExecutor\<close> of
  \<open>_core/task_executor/local_task_executor.py\<close> and the driver of
  \<open>_core/task_executor/run_executor.py\<close> with the executor choice of \<open>factory.py\<close>.
  The user's code, the validators and the process environment are the fields of
  \<open>run_env\<close>; they may change the run and raise.
\<close>

section \<open>What can be raised\<close>

text \<open>
  \<open>DatabandSigTermError\<close> is an \<open>Exception\<close> with handlers of its own,
  \<open>KeyboardInterrupt\<close> and \<open>SystemExit\<close> are no \<open>Exception\<close>s.
\<close>

datatype raised = RaisedSigTerm | RaisedInterrupt | RaisedSystemExit | RaisedError py_error

fun is_exception :: "raised \<Rightarrow> bool" where
  "is_exception RaisedSigTerm = True"
| "is_exception (RaisedError e) = True"
| "is_exception RaisedInterrupt = False"
| "is_exception RaisedSystemExit = False"

fun raised_str :: "raised \<Rightarrow> string" where
  "raised_str RaisedSigTerm = ''DatabandSigTermError''"
| "raised_str RaisedInterrupt = ''KeyboardInterrupt''"
| "raised_str RaisedSystemExit = ''SystemExit''"
| "raised_str (RaisedError e) = ''Exception''"

type_synonym step = "run \<times> raised option"

definition and_then :: "step \<Rightarrow> (run \<Rightarrow> step) \<Rightarrow> step" where
  "and_then s f = (case snd s of None \<Rightarrow> f (fst s) | Some e \<Rightarrow> s)"

record run_env =
  wraps :: "task_id \<Rightarrow> bool"
  submit_task_for :: "task_id \<Rightarrow> task_id \<times> string"
  af_task :: "string option"
  prepare :: "task_id \<Rightarrow> raised option"
  complete_now :: "task_id \<Rightarrow> run \<Rightarrow> raised + bool"
  runnable :: "task_id \<Rightarrow> bool"
  missing_inputs :: "task_id \<Rightarrow> py_error"
  inputs_check :: "task_id \<Rightarrow> raised option"
  user_submit :: "nat \<Rightarrow> run \<Rightarrow> step"
  save_band :: "task_id \<Rightarrow> raised option"
  outputs_check :: "task_id \<Rightarrow> raised option"
  on_kill :: "nat \<Rightarrow> run \<Rightarrow> step"
  wants_kill :: "task_id \<Rightarrow> bool"
  inputs_of :: "task_id \<Rightarrow> string list"
  outputs_of :: "task_id \<Rightarrow> string list"
  shown_name :: "task_id \<Rightarrow> string"

record exec_config =
  skip_completed_on_run :: bool
  validate_inputs :: bool
  validate_outputs :: bool
  fail_fast :: bool

section \<open>Running one task\<close>

definition run_state_to :: "nat \<Rightarrow> task_run_state \<Rightarrow> raised option \<Rightarrow> run \<Rightarrow> run" where
  "run_state_to i s e r = fst (set_task_run_state i (Some s) True (map_option raised_str e) r)"

definition internal_kill :: "run \<Rightarrow> run" where
  "internal_kill r = r\<lparr>run_killed := True\<rparr>"

text \<open>The body of the \<open>try\<close> block of \<open>TaskRunRunner.execute\<close>.\<close>

definition attempt :: "run_env \<Rightarrow> exec_config \<Rightarrow> nat \<Rightarrow> run \<Rightarrow> step" where
  "attempt env cfg i r =
     (let t = tr_task (task_runs r ! i)
      in and_then (r, prepare env t) (\<lambda>r.
         case (if skip_completed_on_run cfg then complete_now env t r else Inr False) of
           Inl e \<Rightarrow> (r, Some e)
         | Inr True \<Rightarrow> (set_task_reused i r, None)
         | Inr False \<Rightarrow>
             let r = run_state_to i RUNNING None r
             in and_then (r, if runnable env t then None else Some (RaisedError (missing_inputs env t))) (\<lambda>r.
                and_then (r, if validate_inputs cfg then inputs_check env t else None) (\<lambda>r.
                and_then (user_submit env i r) (\<lambda>r.
                and_then (r, save_band env t) (\<lambda>r.
                and_then (r, if validate_outputs cfg then outputs_check env t else None) (\<lambda>r.
                  (cleanup_after_task_run (inputs_of env) (outputs_of env) t (run_state_to i SUCCESS None r),
                   None))))))))"

text \<open>The \<open>except\<close> blocks: a second \<open>Exception\<close> raised by \<open>on_kill\<close> is only logged.\<close>

definition kill_task :: "run_env \<Rightarrow> nat \<Rightarrow> run \<Rightarrow> step" where
  "kill_task env i r =
     (case on_kill env i r of
        (r', None) \<Rightarrow> (r', None)
      | (r', Some e) \<Rightarrow> if is_exception e then (r', None) else (r', Some e))"

definition handle_raised :: "run_env \<Rightarrow> nat \<Rightarrow> step \<Rightarrow> step" where
  "handle_raised env i s =
     (case s of
        (r, None) \<Rightarrow> (r, None)
      | (r, Some RaisedSigTerm) \<Rightarrow>
          and_then (kill_task env i (internal_kill r)) (\<lambda>r.
            (run_state_to i CANCELLED (Some RaisedSigTerm) r, Some RaisedSigTerm))
      | (r, Some RaisedInterrupt) \<Rightarrow>
          and_then (if wants_kill env (tr_task (task_runs r ! i)) then kill_task env i r else (r, None)) (\<lambda>r.
            (internal_kill (run_state_to i CANCELLED (Some RaisedInterrupt) r), Some RaisedInterrupt))
      | (r, Some RaisedSystemExit) \<Rightarrow>
          (run_state_to i CANCELLED (Some RaisedSystemExit) r,
           Some (RaisedError (DatabandRuntimeError ''Task execution has been aborted with sys.exit() call'')))
      | (r, Some (RaisedError e)) \<Rightarrow>
          (run_state_to i FAILED (Some (RaisedError e)) r, Some (RaisedError e)))"

definition execute_here :: "run_env \<Rightarrow> exec_config \<Rightarrow> nat \<Rightarrow> run \<Rightarrow> step" where
  "execute_here env cfg i r =
     (if run_killed r
      then (r, Some (RaisedError (DatabandRuntimeError ''Databand Context has been killed externaly.'')))
      else handle_raised env i (attempt env cfg i r))"

text \<open>
  A task whose engine needs a submission runs its submit task instead, on the host engine,
  which never needs one (\<open>RunExecutor.__init__\<close> clones it with \<open>require_submit=False\<close>).
\<close>

definition run_task_at_execution_time ::
  "run_env \<Rightarrow> exec_config \<Rightarrow> task_id \<Rightarrow> string \<Rightarrow> run \<Rightarrow> step" where
  "run_task_at_execution_time env cfg task friendly_name r =
     (case create_task_run_at_execution_time (af_task env) task friendly_name None r of
        (j, r') \<Rightarrow> execute_here env cfg j r')"

definition execute :: "run_env \<Rightarrow> exec_config \<Rightarrow> nat \<Rightarrow> int option \<Rightarrow> bool \<Rightarrow> run \<Rightarrow> step" where
  "execute env cfg i airflow_try_number allow_resubmit r =
     (case (case airflow_try_number of None \<Rightarrow> Inr r | Some n \<Rightarrow> update_task_run_attempt i (Some n) r) of
        Inl e \<Rightarrow> (r, Some (RaisedError e))
      | Inr r \<Rightarrow>
          let t = tr_task (task_runs r ! i)
          in if allow_resubmit \<and> wraps env t
             then (case submit_task_for env t of (s, n) \<Rightarrow> run_task_at_execution_time env cfg s n r)
             else execute_here env cfg i r)"

section \<open>Running the tasks of a run\<close>

definition state_of_task :: "run \<Rightarrow> task_id \<Rightarrow> task_run_state option" where
  "state_of_task r t = (case get_task_run_by_id r t of None \<Rightarrow> None | Some i \<Rightarrow> state_of_run (task_runs r ! i))"

text \<open>The states of the upstream task runs; an upstream without a task run raises.\<close>

definition upstream_states :: "dag \<Rightarrow> run \<Rightarrow> task_id \<Rightarrow> task_run_state option list result" where
  "upstream_states d r t =
     mapM (\<lambda>u. case u of
        None \<Rightarrow> Inl (AttributeError ''task_id'')
      | Some u \<Rightarrow> (case get_task_run_by_id r u of
          None \<Rightarrow> Inl (AttributeError ''task_run_state'')
        | Some i \<Rightarrow> Inr (state_of_run (task_runs r ! i)))) (upstream d t)"

definition has_failed :: "task_run_state option \<Rightarrow> bool" where
  "has_failed s = (case s of None \<Rightarrow> False | Some s \<Rightarrow> s \<in> fail_states)"

definition mark :: "nat \<Rightarrow> task_run_state \<Rightarrow> run \<Rightarrow> run" where
  "mark i s r = fst (set_task_run_state i (Some s) False None r)"

fun do_run_loop ::
  "run_env \<Rightarrow> exec_config \<Rightarrow> dag \<Rightarrow> task_id list \<Rightarrow> run \<Rightarrow> bool \<Rightarrow> nat list \<Rightarrow> run \<times> (raised + bool \<times> nat list)" where
  "do_run_loop env cfg d [] r failed to_update = (r, Inr (failed, to_update))"
| "do_run_loop env cfg d (t # ts) r failed to_update =
     (case get_task_run_by_id r t of
        None \<Rightarrow> (r, Inl (RaisedError (AttributeError ''is_reused'')))
      | Some i \<Rightarrow>
          if is_reused (task_runs r ! i) then do_run_loop env cfg d ts r failed to_update
          else if fail_fast cfg \<and> failed then
            (case get_upstream_failed_task_run_state d r t of
               Inl e \<Rightarrow> (r, Inl (RaisedError e))
             | Inr s \<Rightarrow> do_run_loop env cfg d ts (mark i s r) failed (to_update @ [i]))
          else
            (case upstream_states d r t of
               Inl e \<Rightarrow> (r, Inl (RaisedError e))
             | Inr states \<Rightarrow>
                 if filter has_failed states \<noteq> [] then
                   do_run_loop env cfg d ts (mark i UPSTREAM_FAILED r) failed (to_update @ [i])
                 else if run_killed r then
                   do_run_loop env cfg d ts (mark i FAILED r) failed (to_update @ [i])
                 else
                   (case execute env cfg i None True r of
                      (r', None) \<Rightarrow> do_run_loop env cfg d ts r' failed to_update
                    | (r', Some (RaisedError e)) \<Rightarrow> do_run_loop env cfg d ts r' True to_update
                    | (r', Some e) \<Rightarrow> (r', Inl e))))"

definition collect_errors :: "(task_id \<Rightarrow> string) \<Rightarrow> task_run list \<Rightarrow> string" where
  "collect_errors name trs =
     (let upstream_failed = map (name \<circ> tr_task) (filter (\<lambda>tr. state_of_run tr = Some UPSTREAM_FAILED) trs);
          failed = map (name \<circ> tr_task) (filter (\<lambda>tr. case state_of_run tr of None \<Rightarrow> False
                     | Some s \<Rightarrow> s \<noteq> UPSTREAM_FAILED \<and> s \<in> direct_fail_states) trs)
      in (if upstream_failed \<noteq> [] then
            ''Task that didn't run because of failed dependency:'' @ [CHR 0x0A, CHR 0x09] @
            join_str [CHR 0x0A, CHR 0x09] upstream_failed @ [CHR 0x0A] else []) @
         (if failed \<noteq> [] then
            ''Failed tasks are:'' @ [CHR 0x0A, CHR 0x09] @ join_str [CHR 0x0A, CHR 0x09] failed else []))"

definition do_run :: "run_env \<Rightarrow> exec_config \<Rightarrow> dag \<Rightarrow> task_run list \<Rightarrow> run \<Rightarrow> step" where
  "do_run env cfg d trs r =
     (case topological_sort d (map tr_task trs) of
        Inl e \<Rightarrow> (r, Some (RaisedError e))
      | Inr topological_tasks \<Rightarrow>
          (case do_run_loop env cfg d topological_tasks r False [] of
             (r, Inl e) \<Rightarrow> (r, Some e)
           | (r, Inr (task_failed, to_update)) \<Rightarrow>
               let r = (if to_update \<noteq> []
                        then track (TrackTaskRunStates (map (\<lambda>i. tr_task (task_runs r ! i)) to_update)) r else r);
                   err = collect_errors (shown_name env) (task_runs r)
               in (r, if task_failed \<and> err \<noteq> [] then Some (RaisedError (DatabandRunError err)) else None)))"

section \<open>Choosing the executor\<close>

record factory_env =
  airflow_enabled :: bool
  docker_plugin :: bool
  sql_alchemy_conn :: string
  run_parallel :: bool
  configured_executor_type :: "string option"
  submit_tasks :: bool
  kubernetes_engine :: bool
  enable_airflow_kubernetes :: bool
  enable_concurent_sqlite :: bool

text \<open>\<open>AirflowTaskExecutorType.all\<close> is every public name \<open>dir\<close> lists, itself included.\<close>

definition airflow_executor_types :: "string list" where
  "airflow_executor_types =
     [''airflow_inprocess'', ''airflow_kubernetes'', ''airflow_multiprocess_local'', ''all'']"

definition calculate_task_executor_type :: "factory_env \<Rightarrow> (string \<times> bool) result" where
  "calculate_task_executor_type e =
     (let ty = (case configured_executor_type e of
            Some t \<Rightarrow> t
          | None \<Rightarrow> if airflow_enabled e then ''airflow_inprocess'' else ''local'');
          check = (\<lambda>(ty, parallel).
            if ty \<in> set (''local'' # (if airflow_enabled e then airflow_executor_types else []))
            then Inr (ty, parallel)
            else Inl (DatabandConfigError (''Unsupported engine type '' @ ty)))
      in if airflow_enabled e then
           let ty = (if run_parallel e \<and> (ty = ''local'' \<or> ty = ''airflow_inprocess'')
                     then ''airflow_multiprocess_local'' else ty)
           in if (ty = ''airflow_multiprocess_local'' \<or> ty = ''airflow_kubernetes'') \<and>
                 contains ''sqlite'' (sql_alchemy_conn e) \<and> \<not> enable_concurent_sqlite e
              then Inl (DatabandConfigError (ty @ '' executor is not supported when using an sqlite database''))
              else if docker_plugin e \<and> submit_tasks e \<and> kubernetes_engine e \<and> enable_airflow_kubernetes e
                      \<and> ty \<noteq> ''airflow_kubernetes''
              then check (''airflow_kubernetes'', True)
              else check (ty, run_parallel e)
         else check (ty, run_parallel e))"

section \<open>The driver\<close>

datatype executor_role = Driver | DriverSubmit

text \<open>What \<open>RunExecutor.__init__\<close> decides: the role, and whether tasks may be resubmitted.\<close>

definition executor_role_of :: "bool \<Rightarrow> bool \<Rightarrow> executor_role" where
  "executor_role_of submit_driver existing_run =
     (if submit_driver \<and> \<not> existing_run then DriverSubmit else Driver)"

definition remote_require_submit :: "bool \<Rightarrow> bool \<Rightarrow> bool \<Rightarrow> string \<Rightarrow> bool \<Rightarrow> bool" where
  "remote_require_submit submit_driver existing_run submits executor_type require_submit =
     (if executor_role_of submit_driver existing_run = Driver \<and>
         (\<not> submits \<or> executor_type = ''airflow_kubernetes'')
      then False else require_submit)"

record driver_config =
  role :: executor_role
  executor_type :: string
  dry :: bool
  always_save_pipeline :: bool
  disable_save_pipeline :: bool
  remote_submits :: bool
  with_airflow :: bool
  requires_dump :: "task_id \<Rightarrow> bool"
  exec_cfg :: exec_config
  run_cfg :: run_config
  tasks_limit :: nat

record driver_env =
  task_env :: run_env
  git_policy :: "raised option"
  prepare_for_run :: "raised option"
  build_root :: "raised + dag \<times> task_id"
  submit_root :: "raised + dag \<times> task_id"
  findall :: "string \<Rightarrow> string \<Rightarrow> bool"
  complete_at_build :: "task_id \<Rightarrow> bool result"
  save_pickle :: "raised option"
  heartbeat_start :: "raised option"
  airflow_do_run :: "dag \<Rightarrow> task_run list \<Rightarrow> run \<Rightarrow> step"

definition is_save_run_pickle :: "driver_config \<Rightarrow> task_run list \<Rightarrow> bool" where
  "is_save_run_pickle cfg trs =
     (if always_save_pipeline cfg then True
      else if disable_save_pipeline cfg then False
      else if \<exists>tr \<in> set trs. requires_dump cfg (tr_task tr) then True
      else if remote_submits cfg then True
      else if executor_type cfg = ''local'' then False
      else if with_airflow cfg then executor_type cfg \<notin> {''airflow_inprocess'', ''local''}
      else True)"

definition init_task_runs_for_execution ::
  "driver_env \<Rightarrow> driver_config \<Rightarrow> dag \<Rightarrow> task_id \<Rightarrow> run \<Rightarrow> run \<times> task_run list result" where
  "init_task_runs_for_execution env cfg d root r =
     (case build_task_runs (findall env) (tasks_limit cfg) d (complete_at_build env) (run_cfg cfg) root of
        Inl e \<Rightarrow> (r, Inl e)
      | Inr trs \<Rightarrow> (add_task_runs_and_track trs r, Inr trs))"

definition executor_do_run ::
  "driver_env \<Rightarrow> driver_config \<Rightarrow> string \<Rightarrow> dag \<Rightarrow> task_run list \<Rightarrow> run \<Rightarrow> step" where
  "executor_do_run env cfg type d trs r =
     (if type = ''local'' then do_run (task_env env) (exec_cfg cfg) d trs r
      else airflow_do_run env d trs r)"

definition run_driver :: "driver_env \<Rightarrow> driver_config \<Rightarrow> run \<Rightarrow> step" where
  "run_driver env cfg r =
     and_then (r, git_policy env) (\<lambda>r.
     and_then (r, prepare_for_run env) (\<lambda>r.
       case build_root env of
         Inl e \<Rightarrow> (r, Some e)
       | Inr (d, root) \<Rightarrow>
           (case node_topological_sort d root of
              Inl e \<Rightarrow> (r, Some (RaisedError e))
            | Inr _ \<Rightarrow>
                (case init_task_runs_for_execution env cfg d root r of
                   (r, Inl e) \<Rightarrow> (r, Some (RaisedError e))
                 | (r, Inr trs) \<Rightarrow>
                     if get_task_run_by_id r root = None
                     then (r, Some (RaisedError (AttributeError ''task_af_id'')))
                     else if dry cfg then (r, None)
                     else and_then (r, if is_save_run_pickle cfg trs then save_pickle env else None) (\<lambda>r.
                          and_then (r, heartbeat_start env) (\<lambda>r.
                          and_then (executor_do_run env cfg (executor_type cfg) d
                                      (filter (\<lambda>tr. \<not> is_skipped tr) trs) r) (\<lambda>r.
                            (set_run_state R_SUCCESS r, None))))))))"

definition run_submitter :: "driver_env \<Rightarrow> driver_config \<Rightarrow> run \<Rightarrow> step" where
  "run_submitter env cfg r =
     and_then (r, git_policy env) (\<lambda>r.
     and_then (r, prepare_for_run env) (\<lambda>r.
       case submit_root env of
         Inl e \<Rightarrow> (r, Some e)
       | Inr (d, root) \<Rightarrow>
           (case init_task_runs_for_execution env cfg d root r of
              (r, Inl e) \<Rightarrow> (r, Some (RaisedError e))
            | (r, Inr trs) \<Rightarrow> executor_do_run env cfg ''local'' d trs r)))"

text \<open>\<open>_RunExecutor_Task.run\<close>, the body of the driver's own task.\<close>

definition executor_task_run :: "driver_env \<Rightarrow> driver_config \<Rightarrow> run \<Rightarrow> step" where
  "executor_task_run env cfg r =
     (case role cfg of Driver \<Rightarrow> run_driver env cfg r | DriverSubmit \<Rightarrow> run_submitter env cfg r)"

fun is_run_error :: "raised \<Rightarrow> bool" where
  "is_run_error (RaisedError (DatabandRunError m)) = True"
| "is_run_error (RaisedError (DatabandFailFastError m)) = True"
| "is_run_error e = False"

fun is_fail_fast :: "raised \<Rightarrow> bool" where
  "is_fail_fast (RaisedError (DatabandFailFastError m)) = True"
| "is_fail_fast e = False"

definition dbnd_run_error :: "raised \<Rightarrow> run \<Rightarrow> run" where
  "dbnd_run_error ex r =
     (let (run_st, unfinished_task_state) =
            (if ex = RaisedInterrupt \<or> ex = RaisedSigTerm \<or> run_killed r then (R_CANCELLED, UPSTREAM_FAILED)
             else if is_fail_fast ex then (R_FAILED, UPSTREAM_FAILED)
             else (R_FAILED, FAILED))
      in track (TrackUnfinished unfinished_task_state) (set_run_state run_st r))"

definition run_execute :: "driver_env \<Rightarrow> driver_config \<Rightarrow> nat \<Rightarrow> run \<Rightarrow> step" where
  "run_execute env cfg driver r =
     (let r = set_run_state R_RUNNING (track TrackInitRun r);
          driver_task_env = (task_env env)\<lparr>user_submit := \<lambda>i r. if i = driver then executor_task_run env cfg r
                                                      else user_submit (task_env env) i r\<rparr>
      in case execute driver_task_env (exec_cfg cfg) driver None True r of
           (r, None) \<Rightarrow> (r, None)
         | (r, Some ex) \<Rightarrow>
             (dbnd_run_error ex r,
              Some (if is_run_error ex then ex
                    else RaisedError (DatabandRunError (''Run has failed: '' @ raised_str ex)))))"

section \<open>What running a task may touch\<close>

text \<open>
  \<open>frame i r r'\<close>: between two states of the run only the state of task run \<open>i\<close> changed;
  new task runs may have been added, and a kill is never undone.
\<close>

definition frame :: "nat \<Rightarrow> run \<Rightarrow> run \<Rightarrow> bool" where
  "frame i r r' \<longleftrightarrow> (run_wf r \<longrightarrow> run_wf r') \<and> length (task_runs r) \<le> length (task_runs r') \<and>
     (\<forall>j < length (task_runs r). tr_task (task_runs r' ! j) = tr_task (task_runs r ! j) \<and>
        is_reused (task_runs r' ! j) = is_reused (task_runs r ! j) \<and>
        (j \<noteq> i \<longrightarrow> state_of_run (task_runs r' ! j) = state_of_run (task_runs r ! j))) \<and>
     (\<forall>t j. get_task_run_by_id r t = Some j \<longrightarrow> get_task_run_by_id r' t = Some j) \<and>
     (run_killed r \<longrightarrow> run_killed r') \<and> the_run_state r' = the_run_state r"

text \<open>The contract of the user's code: it leaves the other task runs and the run state alone.\<close>

definition user_ok :: "run_env \<Rightarrow> bool" where
  "user_ok env \<longleftrightarrow> (\<forall>i r. i < length (task_runs r) \<longrightarrow>
     frame i r (fst (user_submit env i r)) \<and> frame i r (fst (on_kill env i r)))"

lemma frame_refl [simp, intro]: "frame i r r"
  by (simp add: frame_def)

lemma frame_trans:
  assumes "frame i r r'" "frame i r' r''"
  shows "frame i r r''"
  using assms unfolding frame_def by (fastforce intro: le_trans)

lemma frame_length: "frame i r r' \<Longrightarrow> i < length (task_runs r) \<Longrightarrow> i < length (task_runs r')"
  by (simp add: frame_def)

lemma frame_put:
  assumes "tr_task tr = tr_task (task_runs r ! i)" "tr_af_id tr = tr_af_id (task_runs r ! i)"
    "is_reused tr = is_reused (task_runs r ! i)"
  shows "frame i r (put_task_run i tr r)"
proof -
  have "P ((task_runs r)[i := tr] ! j) = P (task_runs r ! j)"
    if "P tr = P (task_runs r ! i)" "j < length (task_runs r)" for P :: "task_run \<Rightarrow> 'b" and j
    using that by (cases "j = i") simp_all
  from this [of tr_task] this [of is_reused] assms show ?thesis
    by (simp add: frame_def get_task_run_by_id_def run_wf_put)
qed

lemma frame_track [simp]: "frame i r (track e r') = frame i r r'"
  by (simp add: frame_def get_task_run_by_id_def)

lemma frame_set_state: "frame i r r' \<Longrightarrow> frame i r (fst (set_task_run_state i s tk e r'))"
  by (auto simp: set_task_run_state_def Let_def apply_state_def intro!: frame_put
      intro: frame_trans split: option.splits)

lemma frame_run_state_to: "frame i r r' \<Longrightarrow> frame i r (run_state_to i s e r')"
  by (simp add: run_state_to_def frame_set_state)

lemma frame_mark: "frame i r r' \<Longrightarrow> frame i r (mark i s r')"
  by (simp add: mark_def frame_set_state)

lemma frame_reused: "frame i r r' \<Longrightarrow> frame i r (set_task_reused i r')"
  by (simp add: set_task_reused_def Let_def frame_trans [OF _ frame_put])

lemma frame_kill: "frame i r r' \<Longrightarrow> frame i r (internal_kill r')"
  by (simp add: internal_kill_def frame_def get_task_run_by_id_def run_wf_def)

lemma frame_cleanup: "frame i r r' \<Longrightarrow> frame i r (cleanup_after_task_run f g t r')"
  by (simp add: cleanup_after_task_run_def Let_def frame_def get_task_run_by_id_def run_wf_def)

lemmas frame_steps = frame_refl frame_run_state_to frame_mark frame_reused frame_kill frame_cleanup

lemma frame_and_then:
  assumes "frame i r (fst s)" "\<And>r'. frame i r r' \<Longrightarrow> s = (r', None) \<Longrightarrow> frame i r (fst (f r'))"
  shows "frame i r (fst (and_then s f))"
  using assms by (cases s) (auto simp: and_then_def split: option.splits)

lemma frame_guard:
  "frame i r r' \<Longrightarrow> (frame i r r' \<Longrightarrow> frame i r (fst (f r'))) \<Longrightarrow> frame i r (fst (and_then (r', e) f))"
  by (cases e) (simp_all add: and_then_def)

lemma frame_user:
  assumes "user_ok env" "i < length (task_runs r)" "frame i r r'"
  shows "frame i r (fst (user_submit env i r'))" "frame i r (fst (on_kill env i r'))"
proof -
  have i: "i < length (task_runs r')" using assms(3,2) by (rule frame_length)
  then show "frame i r (fst (user_submit env i r'))" "frame i r (fst (on_kill env i r'))"
    using assms(1,3) frame_trans unfolding user_ok_def by blast+
qed

lemma frame_attempt:
  assumes "user_ok env" "i < length (task_runs r)"
  shows "frame i r (fst (attempt env cfg i r))"
  unfolding attempt_def Let_def
  by (rule frame_guard, rule frame_refl, split sum.split, intro conjI allI impI)
    (simp, split bool.split, intro conjI impI, simp add: frame_reused,
     (rule frame_guard frame_steps frame_and_then frame_user(1) [OF assms] | assumption
        | simp only: fst_conv)+)

lemma frame_kill_task:
  assumes "user_ok env" "i < length (task_runs r)" "frame i r r'"
  shows "frame i r (fst (kill_task env i r'))"
  using frame_user(2) [OF assms] by (auto simp: kill_task_def split: prod.splits option.splits)

lemma frame_handle:
  assumes "user_ok env" "frame i r (fst s)" "i < length (task_runs r)"
  shows "frame i r (fst (handle_raised env i s))"
proof -
  obtain r' e where s: "s = (r', e)" by force
  have f: "frame i r r'" using assms(2) s by simp
  note k = frame_kill_task [OF assms(1,3)]
  show ?thesis
  proof (cases e)
    case (Some x)
    then show ?thesis
    proof (cases x)
      case RaisedSigTerm
      show ?thesis unfolding s Some RaisedSigTerm handle_raised_def prod.case option.case raised.case
        by (rule frame_and_then, rule k, rule frame_kill, rule f, simp add: frame_run_state_to)
    next
      case RaisedInterrupt
      show ?thesis unfolding s Some RaisedInterrupt handle_raised_def prod.case option.case raised.case
        by (rule frame_and_then) (simp_all add: k f frame_kill frame_run_state_to)
    qed (simp_all add: s f handle_raised_def frame_run_state_to)
  qed (simp add: s f handle_raised_def)
qed

lemma frame_execute_here:
  assumes "user_ok env" "i < length (task_runs r)"
  shows "frame i r (fst (execute_here env cfg i r))"
  using assms by (auto simp: execute_here_def intro!: frame_handle frame_attempt)

section \<open>The state a task run is left in\<close>

lemma and_then_None: "and_then s f = (r, None) \<longleftrightarrow> (\<exists>r'. s = (r', None) \<and> f r' = (r, None))"
  by (cases s) (auto simp: and_then_def split: option.splits)

lemma state_run_state_to:
  "i < length (task_runs r) \<Longrightarrow> state_of_run (task_runs (run_state_to i s e r) ! i) = Some s"
  by (auto simp: run_state_to_def set_task_run_state_def Let_def apply_state_def)

lemma state_mark: "i < length (task_runs r) \<Longrightarrow> state_of_run (task_runs (mark i s r) ! i) = Some s"
  by (auto simp: mark_def set_task_run_state_def Let_def apply_state_def)

lemma task_runs_kill [simp]: "task_runs (internal_kill r) = task_runs r"
  by (simp add: internal_kill_def)

lemma attempt_success:
  assumes "attempt env cfg i r = (r', None)" "user_ok env" "i < length (task_runs r)"
  shows "state_of_run (task_runs r' ! i) = Some SUCCESS"
proof -
  have reused: "state_of_run (task_runs (set_task_reused i r) ! i) = Some SUCCESS"
    using assms(3) by (simp add: set_task_reused_def Let_def)
  have done_: "state_of_run (task_runs (cleanup_after_task_run f g t (run_state_to i SUCCESS None x)) ! i) = Some SUCCESS"
    if "user_submit env i (run_state_to i RUNNING None r) = (x, None)" for f g t x
  proof -
    have "frame i r x"
      using frame_user(1) [OF assms(2,3) frame_run_state_to [OF frame_refl], of RUNNING None] that by simp
    then have "i < length (task_runs x)" using assms(3) by (rule frame_length)
    then show ?thesis by (simp add: cleanup_after_task_run_def Let_def state_run_state_to)
  qed
  from assms(1) show ?thesis
    unfolding attempt_def Let_def
    by (auto simp: and_then_None reused done_ split: sum.splits bool.splits)
qed

lemma handle_raised_None: "handle_raised env i s = (r', None) \<longleftrightarrow> s = (r', None)"
proof -
  obtain r e where s: "s = (r, e)" by force
  show ?thesis
    by (cases e) (auto simp: s handle_raised_def and_then_def split: raised.splits option.splits)
qed

lemma kill_task_raises: "kill_task env i r = (r', Some e) \<Longrightarrow> \<not> is_exception e"
  by (auto simp: kill_task_def split: prod.splits option.splits if_splits)

lemma handle_raised_error:
  assumes "handle_raised env i (r, e) = (r', Some (RaisedError x))" "i < length (task_runs r)"
  shows "state_of_run (task_runs r' ! i) = Some FAILED \<or> state_of_run (task_runs r' ! i) = Some CANCELLED"
proof -
  have no: "\<not> is_exception (RaisedError x) \<Longrightarrow> P" for P by simp
  from assms show ?thesis
    by (auto simp: handle_raised_def and_then_def state_run_state_to dest!: kill_task_raises
        split: option.splits raised.splits if_splits)
qed

lemma execute_here_states:
  assumes "execute_here env cfg i r = (r', out)" "user_ok env" "i < length (task_runs r)" "\<not> run_killed r"
  shows "(out = None \<longrightarrow> state_of_run (task_runs r' ! i) = Some SUCCESS) \<and>
    (\<forall>e. out = Some (RaisedError e) \<longrightarrow> state_of_run (task_runs r' ! i) \<in> {Some FAILED, Some CANCELLED})"
proof -
  obtain x e where a: "attempt env cfg i r = (x, e)" by force
  have "frame i r x" using frame_attempt [OF assms(2,3), of cfg] a by simp
  then have i: "i < length (task_runs x)" using assms(3) by (rule frame_length)
  from assms(1,4) have h: "handle_raised env i (x, e) = (r', out)" by (simp add: execute_here_def a)
  show ?thesis
    using h handle_raised_error [of env i x e r'] i handle_raised_None [of env i "(x, e)" r']
      attempt_success [of env cfg i r r'] a assms(2,3) by auto
qed

section \<open>The local executor settles every task\<close>

text \<open>The task runs that the executor looks up exist.\<close>

definition known :: "dag \<Rightarrow> run \<Rightarrow> task_id \<Rightarrow> bool" where
  "known d r t \<longleftrightarrow> get_task_run_by_id r t \<noteq> None \<and>
     (\<exists>tk. get_task_by_id d t = Some tk \<and> (\<forall>c \<in> set (children tk). get_task_run_by_id r c \<noteq> None)) \<and>
     (\<forall>u \<in> set (upstream d t). \<exists>i. u = Some i \<and> get_task_run_by_id r i \<noteq> None)"

definition reused_task :: "run \<Rightarrow> task_id \<Rightarrow> bool" where
  "reused_task r t = (case get_task_run_by_id r t of None \<Rightarrow> False | Some i \<Rightarrow> is_reused (task_runs r ! i))"

definition failed_upstream :: "dag \<Rightarrow> run \<Rightarrow> task_id \<Rightarrow> bool" where
  "failed_upstream d r t = (\<exists>u. Some u \<in> set (upstream d t) \<and> has_failed (state_of_task r u))"

text \<open>What the executor owes a task it does not reuse.\<close>

definition settled :: "dag \<Rightarrow> run \<Rightarrow> task_id \<Rightarrow> bool" where
  "settled d r t \<longleftrightarrow>
     (state_of_task r t = Some SUCCESS \<and> \<not> failed_upstream d r t) \<or>
     state_of_task r t \<in> {Some FAILED, Some UPSTREAM_FAILED} \<or>
     (state_of_task r t = Some CANCELLED \<and> \<not> failed_upstream d r t)"

lemma frame_known: "frame i r r' \<Longrightarrow> known d r t \<Longrightarrow> known d r' t"
  unfolding known_def frame_def by (metis not_Some_eq)

lemma index_valid:
  "run_wf r \<Longrightarrow> get_task_run_by_id r t = Some i \<Longrightarrow> i < length (task_runs r) \<and> tr_task (task_runs r ! i) = t"
  by (simp add: run_wf_def index_ok_def get_task_run_by_id_def)

lemma frame_other:
  assumes "frame i r r'" "run_wf r" "get_task_run_by_id r t = Some j" "j \<noteq> i"
  shows "state_of_task r' t = state_of_task r t"
  using assms index_valid [OF assms(2,3)] by (simp add: frame_def state_of_task_def)

lemma frame_reused_task:
  assumes "frame i r r'" "run_wf r" "get_task_run_by_id r t = Some j"
  shows "reused_task r' t = reused_task r t"
  using assms index_valid [OF assms(2,3)] by (simp add: frame_def reused_task_def)

lemma upstream_states_known:
  assumes "known d r t"
  shows "upstream_states d r t = Inr (map (\<lambda>u. state_of_task r (the u)) (upstream d t))"
  unfolding upstream_states_def using assms
  by (intro mapM_total) (fastforce simp: known_def state_of_task_def)

lemma failed_upstream_iff:
  assumes "known d r t"
  shows "filter has_failed (map (\<lambda>u. state_of_task r (the u)) (upstream d t)) \<noteq> [] \<longleftrightarrow> failed_upstream d r t"
  using assms by (fastforce simp: failed_upstream_def filter_empty_conv known_def)

lemma upstream_failed_state_known:
  assumes "known d r t"
  shows "\<exists>s \<in> {FAILED, UPSTREAM_FAILED}. get_upstream_failed_task_run_state d r t = Inr s"
proof -
  obtain tk where tk: "get_task_by_id d t = Some tk" "\<forall>c \<in> set (children tk). get_task_run_by_id r c \<noteq> None"
    using assms by (auto simp: known_def)
  show ?thesis
    unfolding get_upstream_failed_task_run_state_def tk(1) option.case
    by (rule foldM_invariant) (use tk(2) in \<open>fastforce+\<close>)
qed

text \<open>
  One round of the loop: the effect on the task it is about, by the reason for it. \<open>None\<close>
  as the second component stops the loop.
\<close>

definition loop_step ::
  "run_env \<Rightarrow> exec_config \<Rightarrow> dag \<Rightarrow> task_id \<Rightarrow> run \<Rightarrow> bool \<Rightarrow> nat list \<Rightarrow> run \<times> (raised + bool \<times> nat list)" where
  "loop_step env cfg d t r failed upd = do_run_loop env cfg d [t] r failed upd"

lemma do_run_loop_Cons:
  "do_run_loop env cfg d (t # ts) r failed upd =
     (case loop_step env cfg d t r failed upd of
        (r', Inl e) \<Rightarrow> (r', Inl e)
      | (r', Inr (failed', upd')) \<Rightarrow> do_run_loop env cfg d ts r' failed' upd')"
  by (auto simp: loop_step_def split: option.splits sum.splits prod.splits raised.splits)

lemma execute_local: "\<not> wraps env (tr_task (task_runs r ! i)) \<Longrightarrow> execute env cfg i None True r = execute_here env cfg i r"
  by (simp add: execute_def Let_def)

declare do_run_loop.simps(2) [simp del]

lemma frame_other_task:
  assumes "frame i r r'" "run_wf r" "get_task_run_by_id r t = Some i" "get_task_run_by_id r u \<noteq> None" "u \<noteq> t"
  shows "state_of_task r' u = state_of_task r u"
proof -
  obtain j where j: "get_task_run_by_id r u = Some j" using assms(4) by auto
  have "j \<noteq> i" using index_valid [OF assms(2) j] index_valid [OF assms(2,3)] assms(5) by auto
  with frame_other [OF assms(1,2) j] show ?thesis by simp
qed

lemma frame_failed_upstream:
  assumes "frame i r r'" "run_wf r" "get_task_run_by_id r t = Some i" "known d r t'"
    "Some t \<notin> set (upstream d t')"
  shows "failed_upstream d r' t' = failed_upstream d r t'"
proof -
  have "state_of_task r' u = state_of_task r u" if "Some u \<in> set (upstream d t')" for u
  proof (rule frame_other_task [OF assms(1-3)])
    show "get_task_run_by_id r u \<noteq> None" using that assms(4) by (fastforce simp: known_def)
    show "u \<noteq> t" using that assms(5) by auto
  qed
  then show ?thesis by (auto simp: failed_upstream_def)
qed

lemma frame_state_here:
  "frame i r r' \<Longrightarrow> get_task_run_by_id r t = Some i \<Longrightarrow> state_of_task r' t = state_of_run (task_runs r' ! i)"
  by (simp add: frame_def state_of_task_def)

lemma loop_step_cases:
  assumes "known d r t" "get_task_run_by_id r t = Some i"
  obtains (reused) "reused_task r t" "loop_step env cfg d t r failed upd = (r, Inr (failed, upd))"
  | (stopped) s where "failed" "s \<in> {FAILED, UPSTREAM_FAILED}" "\<not> reused_task r t"
      "loop_step env cfg d t r failed upd = (mark i s r, Inr (failed, upd @ [i]))"
  | (upstream) "failed_upstream d r t" "\<not> reused_task r t"
      "loop_step env cfg d t r failed upd = (mark i UPSTREAM_FAILED r, Inr (failed, upd @ [i]))"
  | (killed) "run_killed r" "\<not> reused_task r t"
      "loop_step env cfg d t r failed upd = (mark i FAILED r, Inr (failed, upd @ [i]))"
  | (executed) r' out where "\<not> run_killed r" "\<not> failed_upstream d r t" "\<not> reused_task r t"
      "execute env cfg i None True r = (r', out)"
      "loop_step env cfg d t r failed upd =
         (r', case out of None \<Rightarrow> Inr (failed, upd) | Some (RaisedError e) \<Rightarrow> Inr (True, upd) | Some e \<Rightarrow> Inl e)"
proof -
  have reu: "reused_task r t = is_reused (task_runs r ! i)" by (simp add: reused_task_def assms(2))
  obtain s where s: "s \<in> {FAILED, UPSTREAM_FAILED}" "get_upstream_failed_task_run_state d r t = Inr s"
    using upstream_failed_state_known [OF assms(1)] by blast
  obtain r' out where ex: "execute env cfg i None True r = (r', out)" by force
  note step = loop_step_def do_run_loop.simps(2) assms(2) option.case s(2) sum.case
    upstream_states_known [OF assms(1)] failed_upstream_iff [OF assms(1)] reu [symmetric]
  consider "reused_task r t" | "\<not> reused_task r t" "fail_fast cfg \<and> failed"
    | "\<not> reused_task r t" "\<not> (fail_fast cfg \<and> failed)" "failed_upstream d r t"
    | "\<not> reused_task r t" "\<not> (fail_fast cfg \<and> failed)" "\<not> failed_upstream d r t" "run_killed r"
    | "\<not> reused_task r t" "\<not> (fail_fast cfg \<and> failed)" "\<not> failed_upstream d r t" "\<not> run_killed r" by blast
  then show thesis
  proof cases
    case 1
    then show thesis by (intro reused) (simp_all add: step)
  next
    case 2
    then show thesis using s(1) by (intro stopped [of s]) (simp_all only: step if_True if_False simp_thms do_run_loop.simps(1))
  next
    case 3
    then show thesis by (intro upstream) (simp_all only: step if_True if_False simp_thms do_run_loop.simps(1))
  next
    case 4
    then show thesis by (intro killed) (simp_all only: step if_True if_False simp_thms do_run_loop.simps(1))
  next
    case 5
    have "loop_step env cfg d t r failed upd =
        (case execute env cfg i None True r of
             (r', None) \<Rightarrow> do_run_loop env cfg d [] r' failed upd
           | (r', Some (RaisedError e)) \<Rightarrow> do_run_loop env cfg d [] r' True upd
           | (r', Some e) \<Rightarrow> (r', Inl e))"
      using 5 by (simp only: step if_False simp_thms)
    then have "loop_step env cfg d t r failed upd =
         (r', case out of None \<Rightarrow> Inr (failed, upd) | Some (RaisedError e) \<Rightarrow> Inr (True, upd) | Some e \<Rightarrow> Inl e)"
      by (simp add: ex split: option.splits raised.splits)
    with 5 ex show thesis by (intro executed) simp_all
  qed
qed

lemma loop_step_settles:
  assumes "loop_step env cfg d t r failed upd = (r', Inr (failed', upd'))"
    and "known d r t" "run_wf r" "user_ok env" "\<forall>t. \<not> wraps env t" "Some t \<notin> set (upstream d t)"
  shows "\<exists>i. get_task_run_by_id r t = Some i \<and> frame i r r' \<and> (reused_task r t \<longrightarrow> r' = r) \<and>
    (\<not> reused_task r t \<longrightarrow> settled d r' t) \<and>
    (failed \<longrightarrow> failed') \<and>
    (failed' \<and> \<not> failed \<longrightarrow> state_of_task r' t \<in> {Some FAILED, Some CANCELLED}) \<and>
    (\<not> failed' \<and> \<not> run_killed r' \<and> \<not> reused_task r t \<and> \<not> failed_upstream d r' t \<longrightarrow> state_of_task r' t = Some SUCCESS)"
proof -
  obtain i where i: "get_task_run_by_id r t = Some i" using assms(2) by (auto simp: known_def)
  have len: "i < length (task_runs r)" using index_valid [OF assms(3) i] by simp
  have here: "state_of_task (mark i s r) t = Some s" for s
    using frame_state_here [OF frame_mark [OF frame_refl] i] state_mark [OF len] by simp
  have ups: "failed_upstream d r' t = failed_upstream d r t" if "frame i r r'"
    using frame_failed_upstream [OF that assms(3) i assms(2,6)] .
  show ?thesis
  proof (cases rule: loop_step_cases [OF assms(2) i, of env cfg failed upd,
        case_names reused stopped upstream killed executed])
    case reused
    then show ?thesis using assms(1) i by (auto simp: settled_def)
  next
    case (stopped s)
    then have r': "r' = mark i s r" "failed'" using assms(1) by simp_all
    then show ?thesis using stopped(1,2,3) i here [of s] by (auto simp: settled_def frame_mark)
  next
    case upstream
    then have r': "r' = mark i UPSTREAM_FAILED r" "failed' = failed" using assms(1) by simp_all
    then show ?thesis using upstream(1,2) i here [of UPSTREAM_FAILED] ups
      by (auto simp: settled_def frame_mark)
  next
    case killed
    then have r': "r' = mark i FAILED r" "failed' = failed" using assms(1) by simp_all
    have "run_killed r'" using killed(1) frame_mark [OF frame_refl, of i r FAILED] r'(1) by (simp add: frame_def)
    then show ?thesis using killed(2) i here [of FAILED] r' by (auto simp: settled_def frame_mark)
  next
    case (executed x out)
    then have ex: "execute_here env cfg i r = (x, out)" using assms(5) by (simp add: execute_local)
    have x: "x = r'" "failed' = (failed \<or> (\<exists>e. out = Some (RaisedError e)))"
      and out: "out = None \<or> (\<exists>e. out = Some (RaisedError e))"
      using assms(1) executed(5) by (auto split: option.splits raised.splits)
    have f: "frame i r r'" using frame_execute_here [OF assms(4) len, of cfg] ex x by simp
    have st: "(out = None \<longrightarrow> state_of_task r' t = Some SUCCESS) \<and>
        (\<forall>e. out = Some (RaisedError e) \<longrightarrow> state_of_task r' t \<in> {Some FAILED, Some CANCELLED})"
      using execute_here_states [OF ex assms(4) len executed(1)] frame_state_here [OF f i] x by simp
    from out show ?thesis
    proof
      assume "out = None"
      with st x i f ups [OF f] executed(2,3) show ?thesis by (auto simp: settled_def)
    next
      assume "\<exists>e. out = Some (RaisedError e)"
      with st x i f ups [OF f] executed(2,3) show ?thesis by (auto simp: settled_def)
    qed
  qed
qed

definition keeps :: "task_id set \<Rightarrow> run \<Rightarrow> run \<Rightarrow> bool" where
  "keeps T r r' \<longleftrightarrow> run_wf r' \<and> (run_killed r \<longrightarrow> run_killed r') \<and> the_run_state r' = the_run_state r \<and>
     (\<forall>t. get_task_run_by_id r t \<noteq> None \<longrightarrow> get_task_run_by_id r' t = get_task_run_by_id r t \<and>
        reused_task r' t = reused_task r t \<and> (t \<notin> T \<longrightarrow> state_of_task r' t = state_of_task r t))"

lemma frame_keeps:
  assumes "frame i r r'" "run_wf r" "get_task_run_by_id r t = Some i"
  shows "keeps {t} r r'"
  using assms frame_other_task [OF assms] frame_reused_task [OF assms(1,2)]
  by (auto simp: keeps_def frame_def)

lemma keeps_trans: "keeps T r r' \<Longrightarrow> keeps T' r' r'' \<Longrightarrow> keeps (T \<union> T') r r''"
  by (auto simp: keeps_def)

lemma keeps_known: "keeps T r r' \<Longrightarrow> known d r t \<Longrightarrow> known d r' t"
  unfolding known_def keeps_def by (metis not_Some_eq)

lemma keeps_failed_upstream:
  assumes "keeps T r r'" "known d r t" "\<And>u. Some u \<in> set (upstream d t) \<Longrightarrow> u \<notin> T"
  shows "failed_upstream d r' t = failed_upstream d r t"
proof -
  have "state_of_task r' u = state_of_task r u" if "Some u \<in> set (upstream d t)" for u
    using that assms by (fastforce simp: keeps_def known_def)
  then show ?thesis by (auto simp: failed_upstream_def)
qed

lemma do_run_loop_settles:
  assumes "do_run_loop env cfg d ts r failed upd = (r', Inr (failed', upd'))"
    "\<forall>t \<in> set ts. known d r t" "run_wf r" "user_ok env" "\<forall>t. \<not> wraps env t" "topo_ordered d ts" "distinct ts"
  shows "keeps (set ts) r r' \<and>
    (\<forall>t \<in> set ts. reused_task r t \<longrightarrow> state_of_task r' t = state_of_task r t) \<and> (\<forall>t \<in> set ts. \<not> reused_task r t \<longrightarrow> settled d r' t) \<and> (failed \<longrightarrow> failed') \<and>
    (failed' \<and> \<not> failed \<longrightarrow> (\<exists>t \<in> set ts. state_of_task r' t \<in> {Some FAILED, Some CANCELLED})) \<and>
    (\<not> failed' \<and> \<not> run_killed r' \<longrightarrow>
       (\<forall>t \<in> set ts. \<not> reused_task r t \<and> \<not> failed_upstream d r' t \<longrightarrow> state_of_task r' t = Some SUCCESS))"
  using assms(1-3,6,7)
proof (induction ts arbitrary: r failed upd)
  case Nil
  then show ?case by (auto simp: keeps_def)
next
  case (Cons t ts)
  from Cons.prems(1) obtain r1 failed1 upd1 where
    step: "loop_step env cfg d t r failed upd = (r1, Inr (failed1, upd1))"
    and rest: "do_run_loop env cfg d ts r1 failed1 upd1 = (r', Inr (failed', upd'))"
    by (auto simp: do_run_loop_Cons split: prod.splits sum.splits)
  have t: "known d r t" "Some t \<notin> set (upstream d t)" "t \<notin> set ts"
    and later: "\<And>u. Some u \<in> set (upstream d t) \<Longrightarrow> u \<notin> set ts"
    using Cons.prems(2,4,5) by (auto simp: topo_ordered_def)
  obtain i where i: "get_task_run_by_id r t = Some i" "frame i r r1"
    and s0: "reused_task r t \<Longrightarrow> r1 = r"
    and s: "\<not> reused_task r t \<Longrightarrow> settled d r1 t" "failed \<Longrightarrow> failed1"
      "failed1 \<Longrightarrow> \<not> failed \<Longrightarrow> state_of_task r1 t \<in> {Some FAILED, Some CANCELLED}"
      "\<not> failed1 \<Longrightarrow> \<not> run_killed r1 \<Longrightarrow> \<not> reused_task r t \<Longrightarrow> \<not> failed_upstream d r1 t \<Longrightarrow> state_of_task r1 t = Some SUCCESS"
    using loop_step_settles [OF step t(1) Cons.prems(3) assms(4,5) t(2)] by blast
  have k1: "keeps {t} r r1" using frame_keeps [OF i(2) Cons.prems(3) i(1)] .
  then have wf1: "run_wf r1" by (simp add: keeps_def)
  have known1: "\<forall>t \<in> set ts. known d r1 t" using keeps_known [OF k1] Cons.prems(2) by simp
  have topo1: "topo_ordered d ts" "distinct ts" using Cons.prems(4,5) by (auto simp: topo_ordered_def)
  note IH = Cons.IH [OF rest known1 wf1 topo1]
  then have k2: "keeps (set ts) r1 r'" by blast
  have st: "state_of_task r' t = state_of_task r1 t"
    using k2 t(1,3) keeps_known [OF k1 t(1)] by (simp add: keeps_def known_def)
  have up: "failed_upstream d r' t = failed_upstream d r1 t"
    using keeps_failed_upstream [OF k2 keeps_known [OF k1 t(1)] later] .
  have settled: "settled d r' t = settled d r1 t" by (simp add: settled_def st up)
  have reu: "reused_task r1 x = reused_task r x" if "x \<in> set ts" for x
    using k1 Cons.prems(2) that by (simp add: keeps_def known_def)
  have killed: "run_killed r1 \<Longrightarrow> run_killed r'" using k2 by (simp add: keeps_def)
  have "keeps (set (t # ts)) r r'" using keeps_trans [OF k1 k2] by simp
  moreover have "\<forall>x \<in> set (t # ts). \<not> reused_task r x \<longrightarrow> settled d r' x"
    using IH reu s(1) settled by auto
  moreover have "failed' \<and> \<not> failed \<longrightarrow> (\<exists>x \<in> set (t # ts). state_of_task r' x \<in> {Some FAILED, Some CANCELLED})"
    using IH s(3) st by (cases failed1) auto
  moreover have "\<not> failed' \<and> \<not> run_killed r' \<longrightarrow> (\<forall>x \<in> set (t # ts). \<not> reused_task r x \<and>
      \<not> failed_upstream d r' x \<longrightarrow> state_of_task r' x = Some SUCCESS)"
    using IH reu s(4) st up killed by auto
  moreover have "\<forall>x \<in> set (t # ts). reused_task r x \<longrightarrow> state_of_task r' x = state_of_task r x"
  proof
    fix x assume "x \<in> set (t # ts)"
    moreover have "state_of_task r1 x = state_of_task r x" if x: "x \<in> set ts"
    proof -
      have "x \<noteq> t" using x t(3) by blast
      with k1 Cons.prems(2) x show ?thesis by (simp add: keeps_def known_def)
    qed
    ultimately show "reused_task r x \<longrightarrow> state_of_task r' x = state_of_task r x"
      using IH reu st s0 by auto
  qed
  ultimately show ?case using IH s(2) by blast
qed

text \<open>Without a failure among the tasks that were there before, the failed tasks have a first one.\<close>

lemma no_failed_upstream:
  assumes "topo_ordered d ts" "t \<in> set ts" "failed_upstream d r t"
    "\<forall>t \<in> set ts. \<not> reused_task r t \<and> \<not> failed_upstream d r t \<longrightarrow> state_of_task r t = Some SUCCESS"
    "\<forall>t \<in> set ts. reused_task r t \<longrightarrow> \<not> has_failed (state_of_task r t)"
    "\<forall>t \<in> set ts. \<forall>u. Some u \<in> set (upstream d t) \<and> u \<notin> set ts \<longrightarrow> \<not> has_failed (state_of_task r u)"
  shows False
  using assms(2,3)
proof (induction "index_of t ts" arbitrary: t rule: less_induct)
  case less
  obtain u where u: "Some u \<in> set (upstream d t)" "has_failed (state_of_task r u)"
    using less.prems(2) by (auto simp: failed_upstream_def)
  have uin: "u \<in> set ts" using assms(6) less.prems(1) u by blast
  have "\<not> reused_task r u" using assms(5) uin u(2) by blast
  moreover have "state_of_task r u \<noteq> Some SUCCESS" using u(2) by (auto simp: has_failed_def fail_states_def)
  ultimately have fu: "failed_upstream d r u" using assms(4) uin by blast
  have "index_of u ts < index_of t ts"
  proof -
    note it = index_of_nth [OF less.prems(1)] and iu = index_of_nth [OF uin]
    have "index_of u ts \<noteq> index_of t ts" using it iu u(1) assms(1) less.prems(1) by (auto simp: topo_ordered_def)
    moreover have "\<not> index_of t ts < index_of u ts"
      using assms(1) it iu u(1) unfolding topo_ordered_def sorted_wrt_iff_nth_less by metis
    ultimately show ?thesis by simp
  qed
  from less.hyps [OF this uin fu] show False .
qed

lemma do_run_loop_interrupted:
  assumes "do_run_loop env cfg d ts r failed upd = (r', Inl e)" "\<forall>t \<in> set ts. known d r t" "run_wf r"
    "user_ok env" "\<forall>t. \<not> wraps env t" "topo_ordered d ts" "distinct ts"
  shows "\<not> (\<exists>x. e = RaisedError x)"
  using assms(1-3,6,7)
proof (induction ts arbitrary: r failed upd)
  case (Cons t ts)
  have t: "known d r t" "Some t \<notin> set (upstream d t)" using Cons.prems(2,4) by (auto simp: topo_ordered_def)
  obtain i where i: "get_task_run_by_id r t = Some i" using t(1) by (auto simp: known_def)
  obtain r1 x where step: "loop_step env cfg d t r failed upd = (r1, x)" by force
  show ?case
  proof (cases x)
    case (Inl e')
    then have "e' = e" using Cons.prems(1) step by (simp add: do_run_loop_Cons)
    moreover have "\<not> (\<exists>x. e' = RaisedError x)"
      by (cases rule: loop_step_cases [OF t(1) i, of env cfg failed upd])
        (use step Inl in \<open>auto split: option.splits raised.splits\<close>)
    ultimately show ?thesis by simp
  next
    case (Inr y)
    obtain failed1 upd1 where y: "y = (failed1, upd1)" by force
    from step Inr y have s: "loop_step env cfg d t r failed upd = (r1, Inr (failed1, upd1))" by simp
    obtain i' where i': "get_task_run_by_id r t = Some i'" "frame i' r r1"
      using loop_step_settles [OF s t(1) Cons.prems(3) assms(4,5) t(2)] by blast
    have k1: "keeps {t} r r1" using frame_keeps [OF i'(2) Cons.prems(3) i'(1)] .
    have rest: "do_run_loop env cfg d ts r1 failed1 upd1 = (r', Inl e)"
      using Cons.prems(1) s by (simp add: do_run_loop_Cons)
    show ?thesis
      using Cons.IH [OF rest] Cons.prems k1 keeps_known [OF k1] by (simp add: keeps_def topo_ordered_def)
  qed
qed simp

lemma collect_errors_failed:
  assumes "tr \<in> set trs" "state_of_run tr \<in> {Some FAILED, Some CANCELLED}"
  shows "collect_errors name trs \<noteq> []"
proof -
  have "tr \<in> set (filter (\<lambda>tr. case state_of_run tr of None \<Rightarrow> False
      | Some s \<Rightarrow> s \<noteq> UPSTREAM_FAILED \<and> s \<in> direct_fail_states) trs)"
    using assms by (auto simp: direct_fail_states_def)
  then have "filter (\<lambda>tr. case state_of_run tr of None \<Rightarrow> False
      | Some s \<Rightarrow> s \<noteq> UPSTREAM_FAILED \<and> s \<in> direct_fail_states) trs \<noteq> []"
    by (metis empty_iff empty_set)
  then show ?thesis by (simp add: collect_errors_def Let_def)
qed

lemma do_run_outcome:
  assumes "run_wf r" "user_ok env" "\<forall>t. \<not> wraps env t" "\<forall>tr \<in> set trs. known d r (tr_task tr)"
    and "\<forall>t. \<not> has_failed (state_of_task r t)"
    and "do_run env cfg d trs r = (r', out)" "out = None \<or> (\<exists>e. out = Some (RaisedError e))"
  shows "(r' = r \<and> (\<exists>c. out = Some (RaisedError (DatabandBuildError (cyclic_graph_message c))) \<and> is_circle d c)) \<or>
    ((\<forall>tr \<in> set trs. \<not> reused_task r (tr_task tr) \<longrightarrow> settled d r' (tr_task tr)) \<and>
     (out \<noteq> None \<longrightarrow> (\<exists>m. out = Some (RaisedError (DatabandRunError m))) \<and>
        (\<exists>tr \<in> set trs. state_of_task r' (tr_task tr) \<in> {Some FAILED, Some CANCELLED})) \<and>
     (out = None \<and> \<not> run_killed r' \<longrightarrow>
        (\<forall>tr \<in> set trs. \<not> reused_task r (tr_task tr) \<longrightarrow> state_of_task r' (tr_task tr) = Some SUCCESS)))"
proof (cases "topological_sort d (map tr_task trs)")
  case (Inl e)
  then show ?thesis
    using topo_sort_outcome [of d "map tr_task trs"] assms(6) by (auto simp: do_run_def)
next
  case (Inr ts)
  then have ts: "topo_ordered d ts" "distinct ts" "set ts = tr_task ` set trs"
    using topo_sort_outcome [of d "map tr_task trs"] by auto
  then have known: "\<forall>t \<in> set ts. known d r t" using assms(4) by auto
  obtain r1 res where loop: "do_run_loop env cfg d ts r False [] = (r1, res)" by force
  show ?thesis
  proof (cases res)
    case (Inl e)
    then show ?thesis
      using do_run_loop_interrupted [OF loop [unfolded Inl] known assms(1-3) ts(1,2)] assms(6,7) loop
      by (auto simp: do_run_def Inr)
  next
    case res: (Inr fu)
    obtain failed upd where fu: "fu = (failed, upd)" by force
    note S = do_run_loop_settles [OF loop [unfolded res fu] known assms(1-3) ts(1,2)]
    have r': "task_runs r' = task_runs r1" "task_runs_by_id r' = task_runs_by_id r1" "run_killed r' = run_killed r1"
      and out: "out = (if failed \<and> collect_errors (shown_name env) (task_runs r1) \<noteq> []
        then Some (RaisedError (DatabandRunError (collect_errors (shown_name env) (task_runs r1)))) else None)"
      using assms(6) by (auto simp: do_run_def Inr loop res fu Let_def split: if_splits)
    have same: "state_of_task r' t = state_of_task r1 t" "settled d r' t = settled d r1 t" for t
      unfolding settled_def failed_upstream_def state_of_task_def get_task_run_by_id_def r' by (rule refl)+
    have errs: "collect_errors (shown_name env) (task_runs r1) \<noteq> []" if fl: "failed"
    proof -
      obtain t where t: "t \<in> set ts" "state_of_task r1 t \<in> {Some FAILED, Some CANCELLED}" using S fl by blast
      have wf: "run_wf r1" using S by (simp add: keeps_def)
      obtain j where j: "get_task_run_by_id r1 t = Some j" using t(2) by (auto simp: state_of_task_def split: option.splits)
      show ?thesis
        using index_valid [OF wf j] t(2) j
        by (intro collect_errors_failed [of "task_runs r1 ! j"]) (auto simp: state_of_task_def)
    qed
    have "state_of_task r1 t = Some SUCCESS"
      if g: "\<not> failed" "\<not> run_killed r1" "t \<in> set ts" "\<not> reused_task r t" for t
    proof (rule ccontr)
      assume "state_of_task r1 t \<noteq> Some SUCCESS"
      then have fu: "failed_upstream d r1 t" using S g by blast
      have K: "keeps (set ts) r r1" using S by blast
      have reu: "x \<in> set ts \<Longrightarrow> reused_task r1 x = reused_task r x" for x
        using K known by (simp add: keeps_def known_def)
      show False
      proof (rule no_failed_upstream [OF ts(1) g(3) fu])
        show "\<forall>t \<in> set ts. \<not> reused_task r1 t \<and> \<not> failed_upstream d r1 t \<longrightarrow> state_of_task r1 t = Some SUCCESS"
          using S g(1,2) reu by blast
        show "\<forall>t \<in> set ts. reused_task r1 t \<longrightarrow> \<not> has_failed (state_of_task r1 t)"
          using S assms(5) reu by simp
        show "\<forall>t \<in> set ts. \<forall>u. Some u \<in> set (upstream d t) \<and> u \<notin> set ts \<longrightarrow> \<not> has_failed (state_of_task r1 u)"
          using K known assms(5) by (fastforce simp: keeps_def known_def)
      qed
    qed
    then show ?thesis
      using S out errs ts(3) same r'(3) by (cases failed) auto
  qed
qed


definition sample_env :: "(task_id \<Rightarrow> bool) \<Rightarrow> run_env" where
  "sample_env fails =
     \<lparr>wraps = \<lambda>t. False, submit_task_for = \<lambda>t. (''submit__'' @ t, ''dbnd_task_submit''), af_task = None,
      prepare = \<lambda>t. None, complete_now = \<lambda>t r. Inr False, runnable = \<lambda>t. True,
      missing_inputs = \<lambda>t. DatabandConfigError t, inputs_check = \<lambda>t. None,
      user_submit = \<lambda>i r. (r, if fails (tr_task (task_runs r ! i)) then Some (RaisedError (ValueError ''boom'')) else None),
      save_band = \<lambda>t. None, outputs_check = \<lambda>t. None, on_kill = \<lambda>i r. (r, None),
      wants_kill = \<lambda>t. True, inputs_of = \<lambda>t. [], outputs_of = \<lambda>t. [], shown_name = \<lambda>t. t\<rparr>"

definition sample_exec :: "bool \<Rightarrow> exec_config" where
  "sample_exec ff =
     \<lparr>skip_completed_on_run = True, validate_inputs = True, validate_outputs = True, fail_fast = ff\<rparr>"

definition empty_run :: run where
  "empty_run = \<lparr>task_runs = [], task_runs_by_id = [], task_runs_by_af_id = [], dynamic_af_tasks_count = [],
     run_killed = False, the_run_state = None, cache_cleared = [], tracked = []\<rparr>"

definition sample_trs :: "task_run list" where
  "sample_trs = map (\<lambda>t. new_task_run t None 1) [''pipe'', ''train'', ''load'', ''raw'']"

definition sample_run :: run where
  "sample_run = add_task_runs_and_track sample_trs empty_run"

lemma sample_run_facts:
  "run_wf sample_run" "user_ok (sample_env f)" "\<forall>t. \<not> has_failed (state_of_task sample_run t)"
  "\<forall>tr \<in> set sample_trs. known sample_dag sample_run (tr_task tr)"
proof -
  show "run_wf sample_run"
    unfolding sample_run_def by (rule run_wf_add_tracked) (simp add: empty_run_def run_wf_def index_ok_def)
  show "user_ok (sample_env f)" by (simp add: user_ok_def sample_env_def)
  show "\<forall>t. \<not> has_failed (state_of_task sample_run t)"
    by (simp add: has_failed_def state_of_task_def get_task_run_by_id_def sample_run_def sample_trs_def
      empty_run_def add_task_runs_and_track_def add_task_run_def new_task_run_def Let_def)
  show "\<forall>tr \<in> set sample_trs. known sample_dag sample_run (tr_task tr)"
    by (simp add: known_def get_task_run_by_id_def sample_run_def sample_trs_def get_task_by_id_def
      empty_run_def add_task_runs_and_track_def add_task_run_def new_task_run_def Let_def sample_dag_def
      sample_task_def upstream_def task_id_to_tasks_def)
qed

definition sample_trs2 :: "task_run list" where
  "sample_trs2 = map (\<lambda>t. new_task_run t None 1) [''load'', ''raw'']"

definition sample_outcome :: step where
  "sample_outcome =
     do_run (sample_env (\<lambda>t. t = ''raw'')) (sample_exec False) sample_dag sample_trs2 sample_run"

lemma sample_failing_run:
  "case snd sample_outcome of Some (RaisedError (DatabandRunError m)) \<Rightarrow> True | _ \<Rightarrow> False"
  by code_simp


section \<open>A submitted task that fails\<close>

text \<open>
  With \<open>fail_fast\<close> off, the failure of a submit task is not seen by the tasks downstream:
  the local executor looks at the state of the wrapped task, which nothing has set.
\<close>

definition submitting_env :: run_env where
  "submitting_env = (sample_env (\<lambda>t. t = ''submit__raw''))\<lparr>wraps := \<lambda>t. t = ''raw''\<rparr>"

text \<open>
  When a task is executed by a submit task and that one fails, the local executor (without
  \<open>fail_fast\<close>) still runs the tasks downstream of it.
\<close>

theorem failed_submit_does_not_stop_downstream:
  "(case do_run submitting_env (sample_exec False) sample_dag sample_trs2 sample_run of
      (r', out) \<Rightarrow> state_of_task r' ''submit__raw'' = Some FAILED \<and> state_of_task r' ''raw'' = None \<and>
        state_of_task r' ''load'' = Some SUCCESS \<and> out \<noteq> None)"
  by code_simp

section \<open>The state of the whole run\<close>

lemma the_run_state_frame: "frame i r r' \<Longrightarrow> the_run_state r' = the_run_state r"
  by (simp add: frame_def)

lemma the_run_state_simps [simp]:
  "the_run_state (run_state_to i s e r) = the_run_state r"
  "the_run_state (set_task_reused i r) = the_run_state r"
  "the_run_state (cleanup_after_task_run f g t r) = the_run_state r"
  "the_run_state (set_run_state rs r) = Some rs"
  using the_run_state_frame [OF frame_run_state_to [OF frame_refl]]
    the_run_state_frame [OF frame_reused [OF frame_refl]]
    the_run_state_frame [OF frame_cleanup [OF frame_refl]]
  by (auto simp: set_run_state_def)

lemma the_run_state_add [simp]: "the_run_state (add_task_runs_and_track trs r) = the_run_state r"
proof -
  have "the_run_state (fold add_task_run trs r) = the_run_state r"
    by (induction trs arbitrary: r) (simp_all add: add_task_run_def Let_def)
  then show ?thesis by (simp add: add_task_runs_and_track_def)
qed

lemma run_driver_None:
  assumes "run_driver env cfg r = (r', None)"
  shows "the_run_state r' = (if dry cfg then the_run_state r else Some R_SUCCESS)"
  using assms
  by (auto simp: run_driver_def and_then_None init_task_runs_for_execution_def
      split: sum.splits prod.splits if_splits)

lemma attempt_None:
  assumes "attempt env cfg i r = (r', None)"
  shows "(skip_completed_on_run cfg \<and> complete_now env (tr_task (task_runs r ! i)) r = Inr True \<and>
      the_run_state r' = the_run_state r) \<or>
    (\<exists>x. user_submit env i (run_state_to i RUNNING None r) = (x, None) \<and> the_run_state r' = the_run_state x)"
  using assms unfolding attempt_def Let_def
  by (auto simp: and_then_None split: sum.splits bool.splits if_splits)

lemma run_execute_outcome:
  assumes "run_execute env cfg driver r = (r', out)" "\<not> wraps (task_env env) (tr_task (task_runs r ! driver))"
    and "\<forall>x. complete_now (task_env env) (tr_task (task_runs r ! driver)) x \<noteq> Inr True"
  shows "case out of
      None \<Rightarrow> role cfg = Driver \<longrightarrow> the_run_state r' = Some (if dry cfg then R_RUNNING else R_SUCCESS)
    | Some e \<Rightarrow> is_run_error e \<and> the_run_state r' \<in> {Some R_CANCELLED, Some R_FAILED} \<and>
        (run_killed r' \<longrightarrow> the_run_state r' = Some R_CANCELLED) \<and>
        (\<exists>s. last (tracked r') = TrackUnfinished s \<and> (the_run_state r' = Some R_CANCELLED \<longrightarrow> s = UPSTREAM_FAILED))"
proof -
  let ?r = "set_run_state R_RUNNING (track TrackInitRun r)"
  let ?env = "(task_env env)\<lparr>user_submit := \<lambda>i r. if i = driver then executor_task_run env cfg r
      else user_submit (task_env env) i r\<rparr>"
  obtain x e where ex: "execute ?env (exec_cfg cfg) driver None True ?r = (x, e)" by force
  have task: "tr_task (task_runs ?r ! driver) = tr_task (task_runs r ! driver)" by (simp add: set_run_state_def)
  then have here: "execute_here ?env (exec_cfg cfg) driver ?r = (x, e)"
    using ex assms(2) by (simp add: execute_def Let_def)
  show ?thesis
  proof (cases e)
    case None
    then have r': "r' = x" "out = None" using assms(1) ex by (simp_all add: run_execute_def Let_def)
    have "attempt ?env (exec_cfg cfg) driver ?r = (x, None)"
      using here None by (simp add: execute_here_def handle_raised_None split: if_splits)
    from attempt_None [OF this] assms(3) task
    obtain y where y: "executor_task_run env cfg (run_state_to driver RUNNING None ?r) = (y, None)"
      "the_run_state x = the_run_state y" by auto
    then show ?thesis
      using run_driver_None [of env cfg "run_state_to driver RUNNING None ?r" y]
      by (cases "role cfg") (auto simp: r' executor_task_run_def)
  next
    case (Some z)
    then have r': "r' = dbnd_run_error z x"
      and out: "out = Some (if is_run_error z then z else RaisedError (DatabandRunError (''Run has failed: '' @ raised_str z)))"
      using assms(1) ex by (simp_all add: run_execute_def Let_def)
    show ?thesis by (auto simp: r' out dbnd_run_error_def Let_def set_run_state_def)
  qed
qed


definition sample_driver_env :: driver_env where
  "sample_driver_env =
     \<lparr>task_env = sample_env (\<lambda>t. False), git_policy = None, prepare_for_run = None,
      build_root = Inr (sample_dag, ''pipe''), submit_root = Inr (sample_dag, ''pipe''),
      findall = (=), complete_at_build = \<lambda>t. Inr False, save_pickle = None, heartbeat_start = None,
      airflow_do_run = \<lambda>d trs r. (r, None)\<rparr>"

definition sample_driver_config :: driver_config where
  "sample_driver_config =
     \<lparr>role = Driver, executor_type = ''local'', dry = False, always_save_pipeline = False,
      disable_save_pipeline = False, remote_submits = False, with_airflow = False,
      requires_dump = \<lambda>t. False, exec_cfg = sample_exec True,
      run_cfg = \<lparr>selected_tasks_regex = [], skip_completed = True, task_complete_parallelism_level = 1\<rparr>,
      tasks_limit = 10\<rparr>"


end
