(* ===== verification/Config.thy ===== *)
theory Config
  imports PyStrings
begin

text \<open>
  The layered configuration: \<open>config_value.py\<close>, \<open>config_store.py\<close>, \<open>dbnd_config.py\<close> and
  the readers of \<open>config_readers.py\<close> under \<open>_core/configuration\<close>. Values are of any type
  \<open>'v\<close>, the attribute \<open>extend\<close> is the field \<open>mergeable\<close>; parsing the files is Python's \<open>ConfigParser\<close>, a parameter.
\<close>

section \<open>Values\<close>

record 'v config_value =
  cv_value :: 'v
  cv_source :: "string option"
  require_parse :: bool
  priority :: int
  mergeable :: bool

definition FALLBACK :: int where "FALLBACK = 10"
definition NORMAL :: int where "NORMAL = 50"
definition OVERRIDE :: int where "OVERRIDE = 100"

definition override_value :: "'v \<Rightarrow> 'v config_value" where
  "override_value v = \<lparr>cv_value = v, cv_source = None, require_parse = True, priority = OVERRIDE, mergeable = False\<rparr>"

definition default_value :: "'v \<Rightarrow> 'v config_value" where
  "default_value v = \<lparr>cv_value = v, cv_source = None, require_parse = True, priority = FALLBACK, mergeable = False\<rparr>"

definition extend_value :: "('v \<Rightarrow> bool) \<Rightarrow> 'v \<Rightarrow> 'v config_value result" where
  "extend_value is_list_or_dict v =
     (if is_list_or_dict v
      then Inr \<lparr>cv_value = v, cv_source = None, require_parse = True, priority = NORMAL, mergeable = True\<rparr>
      else Inl (ValueError ''extend is not supported''))"

definition fold_config_value ::
  "'v config_value list \<Rightarrow> 'v config_value option \<Rightarrow> 'v config_value list" where
  "fold_config_value stack lower_value =
     (case lower_value of
        None \<Rightarrow> stack
      | Some l \<Rightarrow>
          (case stack of
             [] \<Rightarrow> [l]
           | bottom # _ \<Rightarrow>
               if priority bottom < priority l then [l]
               else if mergeable bottom then l # stack
               else stack))"

section \<open>The store\<close>

text \<open>
  A section is a dictionary of values; \<open>replace_section\<close> says whether it holds the key
  \<open>__config_replace_section\<close>.
\<close>

record 'v config_section =
  entries :: "(string, 'v config_value) dict"
  replace_section :: bool

type_synonym 'v config_store = "(string, 'v config_section) dict"

definition empty_section :: "'v config_section" where
  "empty_section = \<lparr>entries = [], replace_section = False\<rparr>"

definition replace_section_with :: "'v config_section \<Rightarrow> 'v config_section" where
  "replace_section_with s = s\<lparr>replace_section := True\<rparr>"

text \<open>\<open>store[key]\<close>: looked up in lower case, created under the key as it is when missing.\<close>

definition get_section :: "'v config_store \<Rightarrow> string \<Rightarrow> 'v config_section \<times> 'v config_store" where
  "get_section store key =
     (case map_of store (lower key) of
        Some s \<Rightarrow> (s, store)
      | None \<Rightarrow> (empty_section, dict_set store key empty_section))"

definition get_config_value :: "'v config_store \<Rightarrow> string \<Rightarrow> string \<Rightarrow> 'v config_value option" where
  "get_config_value store section key =
     (case map_of store (lower section) of
        None \<Rightarrow> None
      | Some s \<Rightarrow> map_of (entries s) (lower key))"

definition set_config_value :: "'v config_store \<Rightarrow> string \<Rightarrow> string \<Rightarrow> 'v config_value \<Rightarrow> 'v config_store" where
  "set_config_value store section key v =
     (case get_section store (lower section) of
        (s, store') \<Rightarrow> dict_set store' (lower section) (s\<lparr>entries := dict_set (entries s) (lower key) v\<rparr>))"

definition update_entry :: "(string, 'v config_value) dict \<Rightarrow> string \<times> 'v config_value \<Rightarrow> (string, 'v config_value) dict" where
  "update_entry es kv =
     (case kv of (k, v) \<Rightarrow>
        (case map_of es (lower k) of
           None \<Rightarrow> dict_set es (lower k) v
         | Some old \<Rightarrow> if priority old > priority v then es else dict_set es (lower k) v))"

definition update_section :: "'v config_store \<Rightarrow> string \<times> 'v config_section \<Rightarrow> 'v config_store" where
  "update_section store sec =
     (case sec of (name, s) \<Rightarrow>
        let section = lower name;
            current = (if replace_section s then empty_section else fst (get_section store section))
        in dict_set store section (current\<lparr>entries := foldl update_entry (entries current) (entries s)\<rparr>))"

text \<open>\<open>update\<close> pops the marker, so the store it reads from loses it.\<close>

definition drop_markers :: "'v config_store \<Rightarrow> 'v config_store" where
  "drop_markers store = map (\<lambda>(n, s). (n, s\<lparr>replace_section := False\<rparr>)) store"

definition update_store :: "'v config_store \<Rightarrow> 'v config_store \<Rightarrow> 'v config_store" where
  "update_store store config_values = foldl update_section store config_values"

text \<open>
  \<open>merge_config_stores\<close> copies the sections of the right store into a copy of the left one
  before the update. Indexing the left store creates its missing sections, so the left store
  is the first result; the right store, without its markers, is the second.
\<close>

definition copy_section :: "'v config_store \<times> 'v config_store \<Rightarrow> string \<Rightarrow> 'v config_store \<times> 'v config_store" where
  "copy_section lr name =
     (case lr of (left, new) \<Rightarrow>
        case get_section left name of (s, left') \<Rightarrow> (left', dict_set new name s))"

definition merge_config_stores ::
  "'v config_store \<Rightarrow> 'v config_store \<Rightarrow> 'v config_store \<times> 'v config_store \<times> 'v config_store" where
  "merge_config_stores left right =
     (if right = [] then (left, right, left)
      else if left = [] then (left, right, right)
      else case foldl copy_section (left, left) (map fst right) of
             (left', new) \<Rightarrow> (left', drop_markers right, update_store new right))"

definition as_value_dict ::
  "('v \<Rightarrow> string) \<Rightarrow> string list option \<Rightarrow> 'v config_store \<Rightarrow> (string, (string, string) dict) dict" where
  "as_value_dict str sections store =
     map (\<lambda>(n, s). (n, map (\<lambda>(k, v). (k, str (cv_value v))) (entries s)))
       (filter (\<lambda>(n, s). case sections of None \<Rightarrow> True | Some ss \<Rightarrow> ss = [] \<or> n \<in> set ss) store)"

section \<open>Layers\<close>

record 'v config_layer =
  layer_name :: string
  merged :: "'v config_store"
  delta :: "'v config_store"

text \<open>A layer with its parents is a list, the current layer first.\<close>

type_synonym 'v layers = "'v config_layer list"

record 'v dbnd_config =
  layers :: "'v layers"
  initialized_with_env :: bool

definition current_config :: "'v layers \<Rightarrow> 'v config_store" where
  "current_config ls = (case ls of [] \<Rightarrow> [] | l # _ \<Rightarrow> merged l)"

definition config_layer_path :: "'v layers \<Rightarrow> string" where
  "config_layer_path ls = join_str '' <- '' (map layer_name ls)"

definition merge_and_create_new_layer :: "string \<Rightarrow> 'v config_store \<Rightarrow> 'v layers \<Rightarrow> 'v layers" where
  "merge_and_create_new_layer name config_values ls =
     (case merge_config_stores (current_config ls) config_values of
        (left, right, new) \<Rightarrow>
          \<lparr>layer_name = name, merged = new, delta = right\<rparr> #
          (case ls of [] \<Rightarrow> [] | l # rest \<Rightarrow> l\<lparr>merged := left\<rparr> # rest))"

definition new_config_layer :: "'v config_store \<Rightarrow> string \<Rightarrow> 'v layers \<Rightarrow> 'v layers" where
  "new_config_layer config_values source ls =
     (if config_values = [] then ls else merge_and_create_new_layer source config_values ls)"

definition set_values :: "'v config_store \<Rightarrow> string \<Rightarrow> 'v dbnd_config \<Rightarrow> 'v dbnd_config" where
  "set_values config_values source c = c\<lparr>layers := new_config_layer config_values source (layers c)\<rparr>"

text \<open>\<open>with config(...)\<close>: the layers are restored whatever the body does to them.\<close>

definition with_config ::
  "'v config_store \<Rightarrow> string \<Rightarrow> ('v dbnd_config \<Rightarrow> 'v dbnd_config \<times> 'a result) \<Rightarrow> 'v dbnd_config
     \<Rightarrow> 'v dbnd_config \<times> 'a result" where
  "with_config config_values source body c =
     (case body (c\<lparr>layers := new_config_layer config_values source (layers c)\<rparr>) of
        (c', out) \<Rightarrow> (c'\<lparr>layers := layers c, initialized_with_env := initialized_with_env c\<rparr>, out))"

definition scan_layer ::
  "string list \<Rightarrow> string \<Rightarrow> 'v config_value list \<Rightarrow> 'v config_layer \<Rightarrow> 'v config_value list" where
  "scan_layer sections key stack l =
     foldl (\<lambda>stack section. fold_config_value stack (get_config_value (delta l) section key)) stack sections"

definition get_multisection_config_value ::
  "'v dbnd_config \<Rightarrow> string list \<Rightarrow> string \<Rightarrow> 'v config_value list" where
  "get_multisection_config_value c sections key =
     (if length sections = 1 then
        (case get_config_value (current_config (layers c)) (hd sections) key of None \<Rightarrow> [] | Some v \<Rightarrow> [v])
      else foldl (scan_layer sections key) [] (layers c))"

definition config_get :: "('v \<Rightarrow> 'v) \<Rightarrow> 'v dbnd_config \<Rightarrow> string \<Rightarrow> string \<Rightarrow> bool \<Rightarrow> 'v option" where
  "config_get expand c section key expand_env =
     map_option (\<lambda>v. if expand_env then expand (cv_value v) else cv_value v)
       (get_config_value (current_config (layers c)) section key)"

definition getboolean :: "(string \<Rightarrow> string) \<Rightarrow> string dbnd_config \<Rightarrow> string \<Rightarrow> string \<Rightarrow> bool result" where
  "getboolean expand c section key = parse_bool (config_get expand c section key True)"

definition getint :: "(string \<Rightarrow> string) \<Rightarrow> string dbnd_config \<Rightarrow> string \<Rightarrow> string \<Rightarrow> int result" where
  "getint expand c section key =
     (case config_get expand c section key True of
        None \<Rightarrow> Inl (TypeError ''int() argument must be a string'')
      | Some s \<Rightarrow> parse_int s)"

definition load_system_configs ::
  "'v config_store list \<Rightarrow> 'v config_store \<Rightarrow> bool \<Rightarrow> 'v dbnd_config \<Rightarrow> 'v dbnd_config result" where
  "load_system_configs file_configs environ_config force c =
     (if initialized_with_env c \<and> \<not> force then Inr c
      else case file_configs of
             [] \<Rightarrow> Inl (TypeError ''reduce() of empty sequence with no initial value'')
           | f # fs \<Rightarrow>
               let system_config_store = update_store (foldl update_store f fs) environ_config
               in Inr ((set_values system_config_store ''system'' c)\<lparr>initialized_with_env := True\<rparr>))"

section \<open>Readers\<close>

definition read_from_config_stream ::
  "(string, (string, 'v) dict) dict \<Rightarrow> string \<Rightarrow> 'v config_store" where
  "read_from_config_stream parsed source =
     foldl (\<lambda>st (section, options). foldl (\<lambda>st (option, v).
         set_config_value st section option
           \<lparr>cv_value = v, cv_source = Some (''config['' @ source @ '']''), require_parse = True,
            priority = NORMAL, mergeable = False\<rparr>) st options) [] parsed"

text \<open>
  The pattern \<open>^DBND__([\w\d_\-]+)__([\w\d_\-]+)$\<close>: the first group is greedy, so the name
  is cut at its last double underscore that leaves both groups non-empty.
\<close>

definition word_char :: "char \<Rightarrow> bool" where
  "word_char c =
     (let n = (of_char c :: nat)
      in (48 \<le> n \<and> n \<le> 57) \<or> (65 \<le> n \<and> n \<le> 90) \<or> (97 \<le> n \<and> n \<le> 122) \<or> c = CHR ''_'' \<or> c = CHR ''-'')"

fun split_last_sep :: "nat \<Rightarrow> string \<Rightarrow> (string \<times> string) option" where
  "split_last_sep 0 s = None"
| "split_last_sep (Suc n) s =
     (if take 2 (drop (Suc n) s) = ''__'' \<and> drop (Suc n + 2) s \<noteq> []
      then Some (take (Suc n) s, drop (Suc n + 2) s) else split_last_sep n s)"

definition match_environ_key :: "string \<Rightarrow> (string \<times> string) option" where
  "match_environ_key key =
     (if starts_with key ''DBND__'' \<and> list_all word_char (drop 6 key)
      then split_last_sep (length key) (drop 6 key) else None)"

definition get_environ_config_from_dict ::
  "(string, string) dict \<Rightarrow> string \<Rightarrow> string config_store" where
  "get_environ_config_from_dict env_dict source_prefix =
     foldl (\<lambda>st (name, v).
         case match_environ_key name of
           None \<Rightarrow> st
         | Some (section, key) \<Rightarrow> set_config_value st section key
             \<lparr>cv_value = v, cv_source = Some (source_prefix @ ''['' @ key @ '']''), require_parse = True,
              priority = NORMAL, mergeable = False\<rparr>) [] env_dict"

text \<open>
  \<open>parse_and_build_config_store\<close> for sections given by name. The duplicate test looks at
  the section as it was when it was indexed and at the key as it is written.
\<close>

datatype 'v raw_value = Plain 'v | Prepared "'v config_value"

definition prepare_value :: "string \<Rightarrow> int \<Rightarrow> bool \<Rightarrow> 'v raw_value \<Rightarrow> 'v config_value" where
  "prepare_value source prio extends v =
     (case v of
        Plain x \<Rightarrow> \<lparr>cv_value = x, cv_source = Some source, require_parse = False, priority = prio, mergeable = extends\<rparr>
      | Prepared c \<Rightarrow>
          let c = (if cv_source c = None then c\<lparr>cv_source := Some source\<rparr> else c)
          in if extends then c\<lparr>mergeable := True\<rparr> else c)"

definition add_raw_value ::
  "string \<Rightarrow> int \<Rightarrow> bool \<Rightarrow> string \<Rightarrow> bool \<Rightarrow> 'v config_store \<Rightarrow> string \<times> 'v raw_value \<Rightarrow> 'v config_store result" where
  "add_raw_value source prio extends section indexed st kv =
     (case kv of (key, v) \<Rightarrow>
        if indexed \<and> (case map_of st (lower section) of None \<Rightarrow> False | Some s \<Rightarrow> map_of (entries s) key \<noteq> None)
        then Inl (ValueError (''multiple definition of '' @ section @ ''.'' @ key))
        else Inr (set_config_value st section key (prepare_value source prio extends v)))"

definition parse_and_build_config_store ::
  "string \<Rightarrow> (string, (string, 'v raw_value) dict) dict \<Rightarrow> int option \<Rightarrow> bool \<Rightarrow> bool \<Rightarrow> 'v config_store result" where
  "parse_and_build_config_store source config_values prio overrides extends =
     (let p = (case prio of Some p \<Rightarrow> p | None \<Rightarrow> if overrides then OVERRIDE else NORMAL)
      in foldM (\<lambda>st (section, section_values).
           let st' = snd (get_section st section);
               indexed = (map_of st (lower section) \<noteq> None \<or> lower section = section)
           in foldM (add_raw_value source p extends section indexed) st' section_values) [] config_values)"

section \<open>What a merge makes visible\<close>

text \<open>
  The rule of the code: a value is replaced by the one merged over it unless its priority is
  higher, and a replaced section hides everything below.
\<close>

definition pick :: "'v config_value option \<Rightarrow> 'v config_value option \<Rightarrow> 'v config_value option" where
  "pick old new =
     (case new of
        None \<Rightarrow> old
      | Some v \<Rightarrow> (case old of None \<Rightarrow> Some v | Some ov \<Rightarrow> if priority ov > priority v then Some ov else Some v))"

definition replaces :: "'v config_store \<Rightarrow> string \<Rightarrow> bool" where
  "replaces store section = (case map_of store (lower section) of None \<Rightarrow> False | Some s \<Rightarrow> replace_section s)"

text \<open>The stores the readers build: lower-case keys, and sections in other case are empty.\<close>

definition store_ok :: "'v config_store \<Rightarrow> bool" where
  "store_ok st \<longleftrightarrow> distinct (map fst st) \<and>
     (\<forall>(n, s) \<in> set st. distinct (map fst (entries s)) \<and> (\<forall>(k, v) \<in> set (entries s). lower k = k) \<and>
        (lower n \<noteq> n \<longrightarrow> entries s = [] \<and> \<not> replace_section s))"

lemma pick_None [simp]: "pick x None = x" "pick None x = x"
  by (simp_all add: pick_def split: option.splits)

lemma update_entries_lookup:
  assumes "distinct (map fst vs)" "\<forall>(k, v) \<in> set vs. lower k = k"
  shows "map_of (foldl update_entry es vs) k = pick (map_of es k) (map_of vs k)"
  using assms
proof (induction vs arbitrary: es)
  case (Cons kv vs)
  obtain k' v where kv: "kv = (k', v)" by force
  have k': "lower k' = k'" "k' \<notin> fst ` set vs" using Cons.prems kv by auto
  have "map_of vs k' = None" using k'(2) by (simp add: map_of_eq_None_iff)
  with Cons k'(1) show ?case
    by (cases "k = k'") (auto simp: kv update_entry_def pick_def split: option.splits)
qed simp

lemma lookup_dict_set:
  "get_config_value (dict_set st n s) section key =
     (if lower section = n then map_of (entries s) (lower key) else get_config_value st section key)"
  by (simp add: get_config_value_def)

lemma update_section_lookup:
  assumes "distinct (map fst (entries s))" "\<forall>(k, v) \<in> set (entries s). lower k = k"
  shows "get_config_value (update_section st (n, s)) section key =
    (if lower section = lower n
     then (if replace_section s then map_of (entries s) (lower key)
           else pick (get_config_value st section key) (map_of (entries s) (lower key)))
     else get_config_value st section key)"
  unfolding update_section_def Let_def prod.case lookup_dict_set
  by (auto simp: update_entries_lookup [OF assms] empty_section_def get_section_def get_config_value_def
      split: option.splits)

lemma store_okD:
  assumes "store_ok st" "(n, s) \<in> set st"
  shows "distinct (map fst (entries s))" "\<forall>(k, v) \<in> set (entries s). lower k = k"
    "lower n \<noteq> n \<Longrightarrow> entries s = []" "lower n \<noteq> n \<Longrightarrow> \<not> replace_section s"
  using assms by (auto simp: store_ok_def)

lemma update_store_other:
  assumes "store_ok right" "map_of right (lower section) = None"
  shows "get_config_value (update_store st right) section key = get_config_value st section key"
  using assms
proof (induction right arbitrary: st)
  case (Cons x right)
  obtain n s where x: "x = (n, s)" by force
  have ok: "store_ok right" using Cons.prems(1) by (auto simp: store_ok_def)
  have ne: "lower section \<noteq> n" and none: "map_of right (lower section) = None"
    using Cons.prems(2) x by (auto split: if_splits)
  have s: "distinct (map fst (entries s))" "\<forall>(k, v) \<in> set (entries s). lower k = k"
    "lower n \<noteq> n \<Longrightarrow> entries s = [] \<and> \<not> replace_section s"
    using store_okD [OF Cons.prems(1), of n s] x by auto
  have "get_config_value (update_section st (n, s)) section key = get_config_value st section key"
    unfolding update_section_lookup [OF s(1,2)] using ne s(3) by auto
  with Cons.IH [OF ok none] show ?case by (simp add: x update_store_def)
qed (simp add: update_store_def)

lemma update_store_lookup:
  assumes "store_ok right"
  shows "get_config_value (update_store st right) section key =
    (if replaces right section then get_config_value right section key
     else pick (get_config_value st section key) (get_config_value right section key))"
  using assms
proof (induction right arbitrary: st)
  case Nil
  then show ?case by (simp add: update_store_def replaces_def get_config_value_def [of "[]"])
next
  case (Cons x right)
  obtain n s where x: "x = (n, s)" by force
  have ok: "store_ok right" using Cons.prems(1) by (auto simp: store_ok_def)
  have s: "distinct (map fst (entries s))" "\<forall>(k, v) \<in> set (entries s). lower k = k"
    "lower n \<noteq> n \<Longrightarrow> entries s = [] \<and> \<not> replace_section s"
    using store_okD [OF Cons.prems(1), of n s] x by auto
  have step: "update_store st (x # right) = update_store (update_section st (n, s)) right"
    by (simp add: update_store_def x)
  show ?case
  proof (cases "lower section = n")
    case True
    have none: "map_of right (lower section) = None"
      using Cons.prems(1) x True by (auto simp: store_ok_def map_of_eq_None_iff)
    have "lower n = n" using True by (metis lower_idem)
    then show ?thesis
      unfolding step update_store_other [OF ok none] update_section_lookup [OF s(1,2)]
      by (simp add: True x replaces_def get_config_value_def [of "_ # _"])
  next
    case False
    have "get_config_value (update_section st (n, s)) section key = get_config_value st section key"
      unfolding update_section_lookup [OF s(1,2)] using False s(3) by auto
    with Cons.IH [OF ok] False show ?thesis
      unfolding step by (simp add: x replaces_def get_config_value_def [of "_ # _"] get_config_value_def [of right])
  qed
qed

lemma get_section_lookup: "get_config_value (snd (get_section st n)) section key = get_config_value st section key"
  by (auto simp: get_section_def get_config_value_def empty_section_def split: option.splits)

lemma copy_section_lookup:
  assumes "copy_section (l, new) n = (l', new')"
    "\<And>s k. get_config_value new s k = get_config_value l0 s k" "\<And>s k. get_config_value l s k = get_config_value l0 s k"
  shows "get_config_value l' s k = get_config_value l0 s k" "get_config_value new' s k = get_config_value l0 s k"
proof -
  obtain sec where g: "get_section l n = (sec, l')" and new': "new' = dict_set new n sec"
    using assms(1) by (auto simp: copy_section_def split: prod.splits)
  show "get_config_value l' s k = get_config_value l0 s k"
    using get_section_lookup [of l n s k] g assms(3) by simp
  have "map_of (entries sec) (lower k) = get_config_value l n k"
    using g by (auto simp: get_section_def get_config_value_def empty_section_def split: option.splits)
  then show "get_config_value new' s k = get_config_value l0 s k"
    using assms(2,3) by (auto simp: new' lookup_dict_set) (metis get_config_value_def lower_idem)
qed

lemma copy_sections_lookup:
  assumes "foldl copy_section (l, new) ns = (l', new')"
    "\<And>s k. get_config_value new s k = get_config_value l0 s k" "\<And>s k. get_config_value l s k = get_config_value l0 s k"
  shows "get_config_value l' s k = get_config_value l0 s k \<and> get_config_value new' s k = get_config_value l0 s k"
  using assms
proof (induction ns arbitrary: l new)
  case (Cons n ns)
  obtain l1 new1 where c: "copy_section (l, new) n = (l1, new1)" by force
  note copied = copy_section_lookup [OF c Cons.prems(2,3)]
  from Cons.IH [OF _ copied(2,1)] Cons.prems(1) c show ?case by simp
qed simp

lemma drop_markers_lookup [simp]: "get_config_value (drop_markers st) section key = get_config_value st section key"
proof -
  have "map_of (drop_markers st) n = map_option (\<lambda>s. s\<lparr>replace_section := False\<rparr>) (map_of st n)" for n
    by (induction st) (auto simp: drop_markers_def)
  then show ?thesis by (simp add: get_config_value_def split: option.splits)
qed

lemma merge_lookup:
  assumes "merge_config_stores left right = (left', right', new)" "store_ok right"
  shows "get_config_value new section key =
      (if replaces right section then get_config_value right section key
       else pick (get_config_value left section key) (get_config_value right section key)) \<and>
    get_config_value left' section key = get_config_value left section key \<and>
    get_config_value right' section key = get_config_value right section key"
proof (cases "right = [] \<or> left = []")
  case True
  have nil: "get_config_value [] section key = None" by (simp add: get_config_value_def)
  from True show ?thesis
  proof
    assume "right = []"
    with assms(1) show ?thesis by (auto simp: merge_config_stores_def replaces_def nil)
  next
    assume "left = []"
    then have "left' = []" "right' = right" "new = right"
      using assms(1) by (auto simp: merge_config_stores_def split: if_splits)
    with \<open>left = []\<close> show ?thesis by (simp add: nil)
  qed
next
  case False
  obtain l n where c: "foldl copy_section (left, left) (map fst right) = (l, n)" by force
  from copy_sections_lookup [OF c, of left]
  have "get_config_value l s k = get_config_value left s k \<and> get_config_value n s k = get_config_value left s k"
    for s k by simp
  with False assms(1) c show ?thesis
    by (auto simp: merge_config_stores_def update_store_lookup [OF assms(2)])
qed

text \<open>
  C21. Merging a store over another: a section marked for replacement shows only its own values,
  in any other section a key shows the value merged last unless the one below has a higher
  priority. What either store itself shows does not change, although the merge writes to both.
\<close>

theorem merge_respects_priority:
  assumes "merge_config_stores left right = (left', right', new)" "store_ok right"
  shows "get_config_value new section key =
      (if replaces right section then get_config_value right section key
       else pick (get_config_value left section key) (get_config_value right section key)) \<and>
    get_config_value left' section key = get_config_value left section key \<and>
    get_config_value right' section key = get_config_value right section key"
  by (rule merge_lookup [OF assms])

section \<open>Looking through the layers\<close>

text \<open>The layers that setting values one store after the other builds, from an empty configuration.\<close>

definition plain_store :: "'v config_store \<Rightarrow> bool" where
  "plain_store st \<longleftrightarrow> store_ok st \<and> (\<forall>(n, s) \<in> set st. \<not> replace_section s \<and> (\<forall>(k, v) \<in> set (entries s). \<not> mergeable v))"

inductive built :: "'v layers \<Rightarrow> bool" where
  start: "built [\<lparr>layer_name = n, merged = [], delta = []\<rparr>]"
| layer: "built ls \<Longrightarrow> plain_store st \<Longrightarrow> built (new_config_layer st source ls)"

definition scan_one :: "string \<Rightarrow> string \<Rightarrow> 'v layers \<Rightarrow> 'v config_value list \<Rightarrow> 'v config_value list" where
  "scan_one section key ls stack = foldl (scan_layer [section] key) stack ls"

lemma plain_lookup:
  "plain_store st \<Longrightarrow> get_config_value st section key = Some v \<Longrightarrow> \<not> mergeable v"
  by (auto simp: plain_store_def get_config_value_def dest!: map_of_SomeD split: option.splits)

lemma plain_replaces: "plain_store st \<Longrightarrow> \<not> replaces st section"
  by (auto simp: plain_store_def replaces_def dest!: map_of_SomeD split: option.splits)

text \<open>Scanning below a value keeps the value unless something below has a higher priority.\<close>

definition below :: "'v config_value option \<Rightarrow> 'v config_value list \<Rightarrow> 'v config_value list" where
  "below first rest =
     (case first of None \<Rightarrow> rest
      | Some v \<Rightarrow> (case rest of [] \<Rightarrow> [v] | w # _ \<Rightarrow> if priority v < priority w then rest else [v]))"

lemma scan_one_stack:
  assumes "\<forall>l \<in> set ls. \<forall>v. get_config_value (delta l) section key = Some v \<longrightarrow> \<not> mergeable v"
    and "\<not> mergeable v"
  shows "scan_one section key ls [v] = below (Some v) (scan_one section key ls [])"
  using assms
proof (induction ls arbitrary: v)
  case (Cons l ls)
  show ?case
  proof (cases "get_config_value (delta l) section key")
    case None
    with Cons show ?thesis by (simp add: scan_one_def scan_layer_def fold_config_value_def)
  next
    case (Some w)
    have w: "\<not> mergeable w" using Cons.prems(1) Some by simp
    have ls: "scan_one section key ls [u] = below (Some u) (scan_one section key ls [])" if "\<not> mergeable u" for u
      using Cons.IH [of u] Cons.prems(1) that by simp
    have "scan_one section key (l # ls) [v] = scan_one section key ls (if priority v < priority w then [w] else [v])"
      using Some Cons.prems(2) by (simp add: scan_one_def scan_layer_def fold_config_value_def)
    moreover have "scan_one section key (l # ls) [] = scan_one section key ls [w]"
      using Some by (simp add: scan_one_def scan_layer_def fold_config_value_def)
    ultimately show ?thesis
      using ls [OF w] ls [OF Cons.prems(2)]
      by (auto simp: below_def split: list.splits)
  qed
qed (simp add: scan_one_def below_def)

lemma built_invariant:
  assumes "built ls"
  shows "ls \<noteq> [] \<and>
    (\<forall>l \<in> set ls. \<forall>v. get_config_value (delta l) section key = Some v \<longrightarrow> \<not> mergeable v) \<and>
    scan_one section key ls [] =
      (case get_config_value (current_config ls) section key of None \<Rightarrow> [] | Some v \<Rightarrow> [v])"
  using assms
proof (induction rule: built.induct)
  case (start n)
  show ?case
    by (simp add: scan_one_def scan_layer_def fold_config_value_def current_config_def get_config_value_def)
next
  case (layer ls st source)
  show ?case
  proof (cases "st = []")
    case True
    with layer.IH show ?thesis by (simp add: new_config_layer_def)
  next
    case False
    obtain l rest where ls: "ls = l # rest" using layer.IH by (cases ls) auto
    obtain left right new where m: "merge_config_stores (merged l) st = (left, right, new)"
      using prod_cases3 by blast
    have ok: "store_ok st" using layer.hyps(2) by (simp add: plain_store_def)
    note look = merge_lookup [OF m ok, of "section" key]
    have nl: "new_config_layer st source ls =
        \<lparr>layer_name = source, merged = new, delta = right\<rparr> # l\<lparr>merged := left\<rparr> # rest"
      using False m by (simp add: new_config_layer_def merge_and_create_new_layer_def ls current_config_def)
    have pl: "get_config_value right section key = Some v \<Longrightarrow> \<not> mergeable v" for v
      using look plain_lookup [OF layer.hyps(2)] by metis
    have same: "scan_one section key (l\<lparr>merged := left\<rparr> # rest) s = scan_one section key ls s" for s
      by (simp add: scan_one_def scan_layer_def ls)
    have scan: "scan_one section key (new_config_layer st source ls) [] =
        below (get_config_value right section key) (scan_one section key ls [])"
    proof (cases "get_config_value right section key")
      case None
      then show ?thesis using same by (simp add: nl scan_one_def scan_layer_def fold_config_value_def below_def)
    next
      case (Some v)
      have "scan_one section key (new_config_layer st source ls) [] = scan_one section key ls [v]"
        using same [of "[v]"] Some by (simp add: nl scan_one_def scan_layer_def fold_config_value_def)
      with scan_one_stack [of ls "section" key v] layer.IH pl [OF Some] Some show ?thesis by simp
    qed
    have "get_config_value new section key =
        pick (get_config_value (merged l) section key) (get_config_value right section key)"
      using look plain_replaces [OF layer.hyps(2)] by simp
    moreover have cur: "current_config (new_config_layer st source ls) = new" by (simp only: nl current_config_def list.case) simp
    moreover have "current_config ls = merged l" by (simp add: ls current_config_def)
    ultimately have "below (get_config_value right section key) (scan_one section key ls []) =
        (case get_config_value new section key of None \<Rightarrow> [] | Some v \<Rightarrow> [v])"
      using layer.IH by (auto simp: below_def pick_def split: option.splits)
    moreover have "\<forall>l \<in> set (new_config_layer st source ls). \<forall>v. get_config_value (delta l) section key = Some v \<longrightarrow> \<not> mergeable v"
      using layer.IH pl unfolding nl by (auto simp: ls)
    moreover have "new_config_layer st source ls \<noteq> []" unfolding nl by simp
    ultimately show ?thesis unfolding scan cur by blast
  qed
qed

text \<open>
  C22. The precalculated view that a lookup in one section uses is the result of scanning the
  layers from the top: for values that are not to be merged and sections that are not replaced,
  both give the value of the highest priority, the newest among equals.
\<close>

theorem precalculated_view_is_scan:
  assumes "built (layers c)"
  shows "get_multisection_config_value c [section] key =
    foldl (scan_layer [section] key) [] (layers c)"
  using built_invariant [OF assms, of "section" key]
  by (auto simp: get_multisection_config_value_def scan_one_def split: option.splits)

definition sample_value :: "int \<Rightarrow> int \<Rightarrow> bool \<Rightarrow> int config_value" where
  "sample_value v p m = \<lparr>cv_value = v, cv_source = Some ''test'', require_parse = False, priority = p, mergeable = m\<rparr>"

definition one_value :: "string \<Rightarrow> string \<Rightarrow> 'v config_value \<Rightarrow> 'v config_store" where
  "one_value section key v = [(section, \<lparr>entries = [(key, v)], replace_section = False\<rparr>)]"

lemma lower_eval: "lower ''task'' = ''task''" "lower ''k'' = ''k''" "lower ''core'' = ''core''"
  by code_simp+

theorem merge_respects_priority_witness:
  "get_config_value (snd (snd (merge_config_stores (one_value ''task'' ''k'' (sample_value 1 100 False))
       (one_value ''task'' ''k'' (sample_value 2 50 False))))) ''task'' ''k'' = Some (sample_value 1 100 False)"
proof -
  obtain l' r' new where m: "merge_config_stores (one_value ''task'' ''k'' (sample_value 1 100 False))
       (one_value ''task'' ''k'' (sample_value 2 50 False)) = (l', r', new)"
    using prod_cases3 by blast
  have "store_ok (one_value ''task'' ''k'' (sample_value 2 50 False))"
    by (simp add: store_ok_def one_value_def lower_eval)
  from merge_respects_priority [OF m this, of "''task''" "''k''"] m show ?thesis
    by (simp add: replaces_def one_value_def lower_eval get_config_value_def pick_def sample_value_def)
qed

text \<open>Three layers: a value, a forced value above it, an ordinary value on top.\<close>

definition sample_config :: "int dbnd_config" where
  "sample_config =
     set_values (one_value ''task'' ''k'' (sample_value 3 50 False)) ''top''
       (set_values (one_value ''task'' ''k'' (sample_value 2 100 False)) ''forced''
         (set_values (one_value ''task'' ''k'' (sample_value 1 50 False)) ''file''
           \<lparr>layers = [\<lparr>layer_name = ''empty'', merged = [], delta = []\<rparr>], initialized_with_env = False\<rparr>))"

theorem precalculated_view_is_scan_witness:
  "get_multisection_config_value sample_config [''task''] ''k'' = [sample_value 2 100 False] \<and>
   foldl (scan_layer [''task''] ''k'') [] (layers sample_config) = [sample_value 2 100 False]"
proof -
  have "plain_store (one_value ''task'' ''k'' (sample_value v p False))" for v p
    by (simp add: plain_store_def store_ok_def one_value_def sample_value_def lower_eval)
  then have "built (layers sample_config)"
    by (auto simp: sample_config_def set_values_def intro!: built.intros)
  moreover have "get_multisection_config_value sample_config [''task''] ''k'' = [sample_value 2 100 False]"
    by code_simp
  ultimately show ?thesis using precalculated_view_is_scan [of sample_config "''task''" "''k''"] by simp
qed

text \<open>
  For a value marked with \<open>extend\<close> the two differ: a lookup in one section returns the
  extension alone, the scan of the layers also returns the value it extends.
\<close>

theorem extend_is_lost_in_one_section:
  "(let c = set_values (one_value ''task'' ''k'' (sample_value 2 50 True)) ''extension''
             (set_values (one_value ''task'' ''k'' (sample_value 1 50 False)) ''file''
               \<lparr>layers = [\<lparr>layer_name = ''empty'', merged = [], delta = []\<rparr>], initialized_with_env = False\<rparr>)
    in get_multisection_config_value c [''task''] ''k'' = [sample_value 2 50 True] \<and>
       get_multisection_config_value c [''task'', ''core''] ''k'' = [sample_value 1 50 False, sample_value 2 50 True])"
  by code_simp

section \<open>Environment variables\<close>

lemma split_last_sep_correct:
  assumes "list_all word_char k" "k \<noteq> []" "\<not> contains ''__'' (CHR ''_'' # k)" "s \<noteq> []"
    "length s \<le> n"
  shows "split_last_sep n (s @ ''__'' @ k) = Some (s, k)"
  using assms(5)
proof (induction n)
  case (Suc n)
  show ?case
  proof (cases "Suc n = length s")
    case True
    show ?thesis unfolding split_last_sep.simps(2) using True assms(2) by simp
  next
    case False
    then have le: "length s \<le> n" using Suc.prems by simp
    have no: "take 2 (drop (Suc n) (s @ ''__'' @ k)) \<noteq> ''__''"
    proof
      assume eq: "take 2 (drop (Suc n) (s @ ''__'' @ k)) = ''__''"
      have "drop (Suc n) (s @ ''__'' @ k) = drop (n - length s) (CHR ''_'' # k)"
        using le by (simp add: Suc_diff_le)
      with eq have "take 2 (drop (n - length s) (CHR ''_'' # k)) = ''__''" by (simp only:)
      then have "CHR ''_'' # k = take (n - length s) (CHR ''_'' # k) @ ''__'' @ drop 2 (drop (n - length s) (CHR ''_'' # k))"
        by (metis append_take_drop_id)
      with assms(3) show False unfolding contains_iff by blast
    qed
    with Suc le show ?thesis by simp
  qed
qed (use assms(4) in simp)

text \<open>
  The variable that \<open>PARAM_ENV_TEMPLATE\<close> names for a section and a key is read back as
  that section and key, for names of word characters in which the key has no double underscore
  and does not start with one underscore.
\<close>

theorem environ_key_roundtrip:
  assumes "list_all word_char s" "list_all word_char k" "s \<noteq> []" "k \<noteq> []"
    "\<not> contains ''__'' (CHR ''_'' # k)"
  shows "match_environ_key (''DBND__'' @ s @ ''__'' @ k) = Some (s, k)"
proof -
  have "starts_with (''DBND__'' @ s @ ''__'' @ k) ''DBND__''" by (simp add: starts_with_def)
  moreover have "word_char (CHR ''_'')" by (simp add: word_char_def)
  ultimately show ?thesis
    using assms split_last_sep_correct [of k s "length s + length k"]
    by (simp add: match_environ_key_def)
qed

theorem environ_key_roundtrip_witness:
  "match_environ_key (''DBND__'' @ ''core'' @ ''__'' @ ''tracker_api'') = Some (''core'', ''tracker_api'')"
  by (rule environ_key_roundtrip) code_simp+

text \<open>
  The test for a key that is defined twice depends on how the names are written: it sees
  \<open>K\<close> before \<open>k\<close> in a lower-case section, and sees neither order in any other section.
\<close>

theorem duplicate_check_depends_on_case:
  "parse_and_build_config_store ''test'' [(''task'', [(''K'', Plain (1::int)), (''k'', Plain 2)])] None False False
     = Inl (ValueError ''multiple definition of task.k'') \<and>
   parse_and_build_config_store ''test'' [(''task'', [(''k'', Plain (1::int)), (''K'', Plain 2)])] None False False \<noteq>
     Inl (ValueError ''multiple definition of task.K'') \<and>
   (\<exists>st. parse_and_build_config_store ''test'' [(''Task'', [(''K'', Plain (1::int)), (''k'', Plain 2)])] None False False
     = Inr st)"
  by (intro conjI exI) code_simp+

end
