(* ===== verification/Paths.thy ===== *)
theory Paths
  imports PyStrings
begin

text \<open>
  POSIX paths as \<open>os.path\<close> treats them, and what a path says about a target:
  \<open>targets/target_config.py\<close> (formats, compressions, \<open>TargetConfig\<close>),
  \<open>targets/target_factory.py\<close>, \<open>targets/utils/path.py\<close> and the file system names of
  \<open>targets/fs/__init__.py\<close>.
\<close>

section \<open>os.path\<close>

abbreviation slash :: char where "slash \<equiv> CHR ''/''"

definition path_join2 :: "string \<Rightarrow> string \<Rightarrow> string" where
  "path_join2 a b =
     (if starts_with b [slash] then b
      else if a = [] \<or> ends_with a [slash] then a @ b
      else a @ [slash] @ b)"

definition path_join :: "string list \<Rightarrow> string" where
  "path_join ps = (case ps of [] \<Rightarrow> [] | p # qs \<Rightarrow> foldl path_join2 p qs)"

definition basename :: "string \<Rightarrow> string" where
  "basename p = rev (takeWhile ((\<noteq>) slash) (rev p))"

definition dirname :: "string \<Rightarrow> string" where
  "dirname p =
     (let head = take (length p - length (basename p)) p
      in if list_all ((=) slash) head then head
         else rev (dropWhile ((=) slash) (rev head)))"

fun norm_components :: "bool \<Rightarrow> string list \<Rightarrow> string list \<Rightarrow> string list" where
  "norm_components absolute [] acc = rev acc"
| "norm_components absolute (c # cs) acc =
     (if c = [] \<or> c = ''.'' then norm_components absolute cs acc
      else if c \<noteq> ''..'' \<or> (\<not> absolute \<and> acc = []) \<or> (acc \<noteq> [] \<and> hd acc = ''..'')
      then norm_components absolute cs (c # acc)
      else norm_components absolute cs (tl acc))"

definition normpath :: "string \<Rightarrow> string" where
  "normpath p =
     (if p = [] then ''.''
      else let initial = (if starts_with p ''//'' \<and> \<not> starts_with p ''///'' then ''//''
                          else if starts_with p [slash] then [slash] else []);
               q = initial @ join_str [slash] (norm_components (initial \<noteq> []) (split_on slash p) [])
           in if q = [] then ''.'' else q)"

section \<open>Slashes\<close>

definition is_slash :: "char \<Rightarrow> bool" where
  "is_slash c = (c = CHR 0x5C \<or> c = slash)"

definition trailing_slash :: "string \<Rightarrow> bool result" where
  "trailing_slash p = (if p = [] then Inl IndexError else Inr (is_slash (last p)))"

definition no_trailing_slash :: "string \<Rightarrow> string" where
  "no_trailing_slash p = (if p = [] then p else if is_slash (last p) then butlast p else p)"

section \<open>Formats and compressions\<close>

text \<open>The two extension maps after the registrations of the module: extension and name.\<close>

definition KNOWN_FORMATS :: "(string \<times> string list) list" where
  "KNOWN_FORMATS =
     [(''csv'', [''csv'']), (''txt'', [''txt'', ''py'', ''log'']), (''table'', [''table'']),
      (''parquet'', [''parquet'']), (''feather'', [''feather'']), (''xlsx'', [''xlsx'']),
      (''pickle'', [''pickle'']), (''html'', [''html'']), (''png'', [''png'']), (''pdf'', [''pdf'']),
      (''jpeg'', [''jpg'', ''jpeg'']), (''h5'', [''h5'', ''hdf5'']), (''json'', [''json'', ''hjson'']),
      (''yaml'', [''yaml'', ''yml'']), (''npy'', [''npy'', ''numpy'']), (''tsv'', [''tsv'']),
      (''tfmodel'', [''tfmodel'']), (''tfhistory'', [''tfhistory'']), (''zip'', [''zip''])]"

definition KNOWN_COMPRESSIONS :: "(string \<times> string list) list" where
  "KNOWN_COMPRESSIONS =
     [(''gz'', [''gz'']), (''bz2'', [''bz2'']), (''zip'', [''zip'']), (''xz'', [''xz'']), (''snappy'', [''snappy''])]"

definition BINARY_FORMATS :: "string list" where
  "BINARY_FORMATS = [''h5'', ''feather'', ''npy'', ''xlsx'', ''parquet'', ''pickle'', ''tfmodel'']"

text \<open>\<open>register_extension\<close> and the three queries of \<open>_FileExtensionMap\<close>.\<close>

definition register_extension :: "(string \<times> string list) list \<Rightarrow> string \<Rightarrow> string list \<Rightarrow> (string \<times> string list) list" where
  "register_extension known name extensions = dict_set known name (if extensions = [] then [name] else extensions)"

definition get_default_extension :: "(string \<times> string list) list \<Rightarrow> string option \<Rightarrow> string" where
  "get_default_extension known name =
     (case name of
        None \<Rightarrow> []
      | Some n \<Rightarrow>
          if n = [] then []
          else (case map_of known n of
             Some exts \<Rightarrow> (if hd exts = [] then [] else CHR ''.'' # hd exts)
           | None \<Rightarrow> CHR ''.'' # n))"

definition extension_to_name :: "(string \<times> string list) list \<Rightarrow> string \<Rightarrow> string option" where
  "extension_to_name known e = map_option fst (find (\<lambda>(n, exts). e \<in> set exts) (rev known))"

section \<open>Target configuration\<close>

record target_config =
  format :: "string option"
  compression :: "string option"
  folder :: bool
  meta_files :: "string list"
  flag :: "string option"
  is_binary :: bool
  require_local_access :: bool
  overwrite :: bool

text \<open>The flag of a folder: \<open>None\<close> is no flag; \<open>True\<close> stands for the default name.\<close>

definition DEFAULT_FLAG_FILE_NAME :: string where "DEFAULT_FLAG_FILE_NAME = ''_SUCCESS''"

definition file_config :: target_config where
  "file_config =
     \<lparr>format = None, compression = None, folder = False, meta_files = [], flag = Some DEFAULT_FLAG_FILE_NAME,
      is_binary = False, require_local_access = False, overwrite = False\<rparr>"

definition with_compression :: "string \<Rightarrow> target_config \<Rightarrow> target_config" where
  "with_compression c cfg = cfg\<lparr>compression := Some c\<rparr>"

definition with_format :: "string \<Rightarrow> target_config \<Rightarrow> target_config" where
  "with_format f cfg = cfg\<lparr>format := Some f, is_binary := f \<in> set BINARY_FORMATS\<rparr>"

definition with_meta_files :: "string list \<Rightarrow> target_config \<Rightarrow> target_config" where
  "with_meta_files fs cfg = cfg\<lparr>meta_files := fs, folder := True\<rparr>"

definition with_flag :: "string option \<Rightarrow> target_config \<Rightarrow> target_config" where
  "with_flag f cfg = cfg\<lparr>flag := f\<rparr>"

definition as_folder :: "target_config \<Rightarrow> target_config" where
  "as_folder cfg = cfg\<lparr>folder := True\<rparr>"

definition as_file :: "target_config \<Rightarrow> target_config" where
  "as_file cfg = cfg\<lparr>folder := False, flag := None\<rparr>"

text \<open>
  \<open>get_ext\<close>: the test that should leave out the compression of parquet and HDF5 compares
  the format with \<open>TargetConfig\<close> objects and is always true.
\<close>

definition get_ext :: "target_config \<Rightarrow> string" where
  "get_ext cfg =
     (case format cfg of None \<Rightarrow> [] | Some f \<Rightarrow> if f = [] then [] else get_default_extension KNOWN_FORMATS (Some f)) @
     get_default_extension KNOWN_FORMATS (compression cfg)"

definition truthy :: "string option \<Rightarrow> bool" where
  "truthy s = (case s of None \<Rightarrow> False | Some x \<Rightarrow> x \<noteq> [])"

definition infer_part :: "target_config \<Rightarrow> string \<Rightarrow> target_config" where
  "infer_part cfg p =
     (case extension_to_name KNOWN_FORMATS p of
        Some f \<Rightarrow> with_format f cfg
      | None \<Rightarrow>
          (case extension_to_name KNOWN_COMPRESSIONS p of Some c \<Rightarrow> with_compression c cfg | None \<Rightarrow> cfg))"

definition extract_target_config_from_path :: "string option \<Rightarrow> target_config option \<Rightarrow> target_config result" where
  "extract_target_config_from_path path config =
     (let cfg = (case config of None \<Rightarrow> file_config | Some c \<Rightarrow> c)
      in case path of
           None \<Rightarrow> Inr cfg
         | Some p \<Rightarrow>
             let (cfg, p) = (if ends_with p ''[noflag]'' then (with_flag None cfg, take (length p - 8) p) else (cfg, p))
             in rbind (trailing_slash p) (\<lambda>is_dir.
                  let (cfg, p) = (if is_dir then (as_folder cfg, dirname p) else (cfg, p));
                      p = normpath p
                  in if truthy (format cfg) \<or> truthy (compression cfg) then Inr cfg
                     else let parts = split_on (CHR ''.'') (basename p);
                              parts = (if length parts > 2 then drop (length parts - 2) parts else parts)
                          in Inr (foldl infer_part cfg parts)))"

definition parse_target_config :: "string \<Rightarrow> target_config result" where
  "parse_target_config s =
     extract_target_config_from_path (Some (if starts_with s ''.'' then s else CHR ''.'' # s)) None"

section \<open>Making targets\<close>

datatype the_target =
    FileTarget string target_config
  | DirTarget string target_config
  | MultiTarget "the_target list"

text \<open>The pattern \<open>.*{.*,.*}.*\<close>: a brace, a comma after it, a closing brace after that.\<close>

definition is_glob_path :: "string \<Rightarrow> bool" where
  "is_glob_path p =
     (let after_brace = dropWhile ((\<noteq>) (CHR ''{'')) p;
          after_comma = dropWhile ((\<noteq>) (CHR '','')) after_brace
      in CHR ''}'' \<in> set after_comma)"

definition single_target :: "target_config option \<Rightarrow> string \<Rightarrow> the_target result" where
  "single_target config path =
     rbind (extract_target_config_from_path (Some path) config) (\<lambda>cfg.
       let (cfg, path) = (if ends_with path ''[noflag]'' then (with_flag None cfg, take (length path - 8) path) else (cfg, path))
       in rbind (if folder cfg then trailing_slash path else Inr True) (\<lambda>slashed.
            let path = (if folder cfg \<and> \<not> slashed then path @ [slash] else path)
            in if path = [] then Inl (TargetError ''path must be set'')
               else Inr (if folder cfg then DirTarget path cfg else FileTarget path cfg)))"

definition make_target :: "string list \<Rightarrow> target_config option \<Rightarrow> the_target result" where
  "make_target ps config =
     (if ps = [] then Inl (TypeError ''join() missing 1 required positional argument'')
      else let path = path_join ps
           in if path = [] then Inl (DatabandError ''Can not convert empty string to Target'')
              else if \<not> is_glob_path path \<and> CHR '','' \<in> set path
              then rmap MultiTarget (mapM (\<lambda>p. if p = [] then Inl (DatabandError ''Can not convert empty string to Target'')
                                            else single_target config p) (split_on (CHR '','') path))
              else single_target config path)"

section \<open>File system names\<close>

definition get_file_system_name :: "string list \<Rightarrow> (string \<Rightarrow> string option) list \<Rightarrow> string \<Rightarrow> string result" where
  "get_file_system_name known_file_systems custom_matchers path =
     (let fs_prefix = (if CHR '':'' \<in> set path then Some (hd (split_on (CHR '':'') path)) else None)
      in if \<exists>f \<in> set known_file_systems. fs_prefix = Some f then Inr (the fs_prefix)
         else (case List.map_filter (\<lambda>m. case m path of Some n \<Rightarrow> if n = [] then None else Some n | None \<Rightarrow> None) custom_matchers of
                 n # _ \<Rightarrow> Inr n
               | [] \<Rightarrow>
                   if starts_with path [slash] then Inr ''local''
                   else (case fs_prefix of
                      Some f \<Rightarrow> if f = [] then Inr ''local''
                                else Inl (DatabandRuntimeError (''Can't find file system '' @ f))
                    | None \<Rightarrow> Inr ''local'')))"

section \<open>The extension says the format\<close>

definition plain_name :: "string \<Rightarrow> bool" where
  "plain_name s \<longleftrightarrow> s \<noteq> [] \<and> slash \<notin> set s \<and> CHR ''.'' \<notin> set s \<and>
     extension_to_name KNOWN_FORMATS s = None \<and> extension_to_name KNOWN_COMPRESSIONS s = None"

lemma basename_id: "slash \<notin> set p \<Longrightarrow> basename p = p"
proof -
  assume "slash \<notin> set p"
  then have "takeWhile ((\<noteq>) slash) (rev p) = rev p" by (auto simp: takeWhile_eq_all_conv)
  then show ?thesis unfolding basename_def by (simp only: rev_rev_ident)
qed

lemma dirname_shorter:
  assumes "x \<in> set p" "x \<noteq> slash"
  shows "length (dirname p) < length p"
proof -
  let ?head = "take (length p - length (basename p)) p"
  have p: "p \<noteq> []" using assms(1) by auto
  have strip: "length (rev (dropWhile ((=) slash) (rev ?head))) \<le> length ?head"
    by (metis length_dropWhile_le length_rev)
  show ?thesis
  proof (cases "basename p = []")
    case False
    then have "length ?head < length p" using p by (simp add: Suc_diff_le)
    with strip show ?thesis unfolding dirname_def Let_def by (auto simp del: length_rev)
  next
    case True
    have "last p = slash"
    proof (rule ccontr)
      assume "last p \<noteq> slash"
      with p have "takeWhile ((\<noteq>) slash) (rev p) \<noteq> []" by (cases p rule: rev_cases) auto
      with True show False by (simp add: basename_def)
    qed
    with append_butlast_last_id [OF p] have "p = butlast p @ [slash]" by simp
    then obtain q where q: "p = q @ [slash]" ..
    have "\<not> list_all ((=) slash) p" using assms(1) assms(2) [symmetric] unfolding list_all_iff by blast
    then have "dirname p = rev (dropWhile ((=) slash) (rev p))" using True by (simp add: dirname_def)
    moreover have "length (dropWhile ((=) slash) (rev p)) \<le> length q"
      using length_dropWhile_le [of "(=) slash" "rev q"] by (simp add: q)
    ultimately show ?thesis using q by simp
  qed
qed

lemma normpath_plain:
  assumes "slash \<notin> set p" "p \<noteq> []" "p \<noteq> ''.''" "p \<noteq> ''..''"
  shows "normpath p = p"
proof -
  have "\<not> starts_with p [slash]" "\<not> starts_with p ''//''"
    using assms(1) by (auto simp: starts_with_iff)
  with assms show ?thesis by (simp add: normpath_def split_on_join Let_def)
qed

text \<open>The finitely many formats and compressions, checked by evaluation.\<close>

definition ext_ok :: "string \<Rightarrow> bool" where
  "ext_ok e \<longleftrightarrow> e \<noteq> [] \<and> slash \<notin> set e \<and> CHR ''.'' \<notin> set e \<and> last e \<noteq> CHR 0x5C \<and> last e \<noteq> CHR '']''"

definition format_row_ok :: "string \<Rightarrow> bool" where
  "format_row_ok f \<longleftrightarrow>
     (let e = tl (get_default_extension KNOWN_FORMATS (Some f))
      in f \<noteq> [] \<and> get_default_extension KNOWN_FORMATS (Some f) = CHR ''.'' # e \<and> ext_ok e \<and>
         extension_to_name KNOWN_FORMATS e = Some f)"

definition compression_row_ok :: "string \<Rightarrow> bool" where
  "compression_row_ok c \<longleftrightarrow>
     (let e = tl (get_default_extension KNOWN_FORMATS (Some c))
      in get_default_extension KNOWN_FORMATS (Some c) = CHR ''.'' # e \<and> ext_ok e \<and>
         extension_to_name KNOWN_FORMATS e = None \<and> extension_to_name KNOWN_COMPRESSIONS e = Some c)"

lemma rows_ok:
  "list_all format_row_ok (map fst KNOWN_FORMATS)"
  "list_all compression_row_ok (filter (\<lambda>c. c \<noteq> ''zip'') (map fst KNOWN_COMPRESSIONS))"
  by code_simp+

lemma infer_format: "extension_to_name KNOWN_FORMATS e = Some f \<Longrightarrow> infer_part cfg e = with_format f cfg"
  by (simp add: infer_part_def)

lemma infer_compression:
  "extension_to_name KNOWN_FORMATS e = None \<Longrightarrow> extension_to_name KNOWN_COMPRESSIONS e = Some c \<Longrightarrow>
     infer_part cfg e = with_compression c cfg"
  by (simp add: infer_part_def)

lemma infer_plain: "plain_name s \<Longrightarrow> infer_part cfg s = cfg"
  by (simp add: infer_part_def plain_name_def)

lemma extract_dotted:
  assumes "plain_name b" "exts \<noteq> []" "length exts \<le> 2"
    "\<forall>e \<in> set exts. ext_ok e"
  shows "extract_target_config_from_path (Some (join_str ''.'' (b # exts))) None =
    Inr (foldl infer_part file_config exts)"
proof -
  let ?p = "join_str ''.'' (b # exts)"
  have ext: "\<forall>e \<in> set exts. slash \<notin> set e \<and> CHR ''.'' \<notin> set e"
    "last exts \<noteq> []" "last (last exts) \<noteq> CHR 0x5C" "last (last exts) \<noteq> CHR '']''"
    using assms(2,4) last_in_set [of exts] by (auto simp: ext_ok_def)
  obtain e es where exts: "exts = e # es" using assms(2) by (cases exts) auto
  have p: "?p = b @ CHR ''.'' # join_str ''.'' exts" by (simp add: exts)
  have join_set: "set (join_str ''.'' xs) \<subseteq> insert (CHR ''.'') (\<Union>(set ` set xs))" for xs
    by (induction "''.''" xs rule: join_str.induct) auto
  have nos: "slash \<notin> set ?p" using join_set [of "b # exts"] assms(1) ext(1) by (auto simp: plain_name_def)
  have join_last: "xs \<noteq> [] \<Longrightarrow> last xs \<noteq> [] \<Longrightarrow> join_str ''.'' xs \<noteq> [] \<and> last (join_str ''.'' xs) = last (last xs)"
    for xs by (induction "''.''" xs rule: join_str.induct) auto
  have lastp: "last ?p = last (last exts)" using join_last [of "b # exts"] assms(2) ext(2) by simp
  have "hd b \<in> set b" using assms(1) by (simp add: plain_name_def)
  with assms(1) have "hd b \<noteq> CHR ''.''" by (metis plain_name_def)
  moreover have "hd ?p = hd b" "?p \<noteq> []" using assms(1) p by (simp_all add: plain_name_def)
  ultimately have "?p \<noteq> []" "?p \<noteq> ''.''" "?p \<noteq> ''..''" by (metis list.sel(1))+
  then have np: "normpath ?p = ?p" using normpath_plain [OF nos] by blast
  have noflag: "\<not> ends_with ?p ''[noflag]''"
  proof
    assume "ends_with ?p ''[noflag]''"
    then obtain r where "?p = r @ ''[noflag]''" by (auto simp: ends_with_iff)
    then have "last ?p = CHR '']''" by (metis (no_types) last_appendR last.simps list.discI)
    with lastp ext(4) show False by simp
  qed
  have tr: "trailing_slash ?p = Inr False"
  proof -
    have "last ?p \<noteq> slash" using nos last_in_set [OF \<open>?p \<noteq> []\<close>] by metis
    then show ?thesis using \<open>?p \<noteq> []\<close> lastp ext(3) by (simp add: trailing_slash_def is_slash_def)
  qed
  have parts: "split_on (CHR ''.'') ?p = b # exts"
    using assms(1) ext(1) by (intro split_on_join_str) (auto simp: plain_name_def)
  have cfg: "\<not> truthy (format file_config)" "\<not> truthy (compression file_config)"
    by (simp_all add: file_config_def truthy_def)
  have "(if length (b # exts) > 2 then drop (length (b # exts) - 2) (b # exts) else b # exts) \<in> {exts, b # exts}"
    using assms(3) by (cases es) (auto simp: exts)
  moreover have "foldl infer_part file_config (b # exts) = foldl infer_part file_config exts"
    by (simp add: infer_plain [OF assms(1)])
  ultimately have two: "foldl infer_part file_config
      (if length (b # exts) > 2 then drop (length (b # exts) - 2) (b # exts) else b # exts) =
    foldl infer_part file_config exts"
    by auto
  have "extract_target_config_from_path (Some ?p) None = Inr (foldl infer_part file_config
      (if length (b # exts) > 2 then drop (length (b # exts) - 2) (b # exts) else b # exts))"
    unfolding extract_target_config_from_path_def Let_def option.case
    by (simp only: noflag tr np basename_id [OF nos] parts cfg rbind.simps if_False prod.case simp_thms)
  then show ?thesis unfolding two .
qed

text \<open>
  The extension that \<open>get_ext\<close> gives a target names its format and compression: reading
  them back from a file name gives the same configuration, for every known format (or none) with
  every compression (or none) but zip, which is a format of its own.
\<close>

theorem extension_roundtrip:
  assumes "plain_name b" "f \<in> fst ` set KNOWN_FORMATS" "c \<in> fst ` set KNOWN_COMPRESSIONS" "c \<noteq> ''zip''"
  shows "extract_target_config_from_path (Some (b @ get_ext (with_format f file_config))) None
       = Inr (with_format f file_config) \<and>
    extract_target_config_from_path (Some (b @ get_ext (with_compression c file_config))) None
       = Inr (with_compression c file_config) \<and>
    extract_target_config_from_path (Some (b @ get_ext (with_compression c (with_format f file_config)))) None
       = Inr (with_compression c (with_format f file_config))"
proof -
  obtain ef where f: "f \<noteq> []" "get_default_extension KNOWN_FORMATS (Some f) = CHR ''.'' # ef" "ext_ok ef"
      "extension_to_name KNOWN_FORMATS ef = Some f"
    using rows_ok(1) assms(2) by (auto simp: list_all_iff format_row_ok_def Let_def)
  obtain ec where c: "get_default_extension KNOWN_FORMATS (Some c) = CHR ''.'' # ec" "ext_ok ec"
      "extension_to_name KNOWN_FORMATS ec = None" "extension_to_name KNOWN_COMPRESSIONS ec = Some c"
    using rows_ok(2) assms(3,4) by (auto simp: list_all_iff compression_row_ok_def Let_def)
  have ext: "get_ext (with_format f file_config) = CHR ''.'' # ef"
    "get_ext (with_compression c file_config) = CHR ''.'' # ec"
    "get_ext (with_compression c (with_format f file_config)) = CHR ''.'' # ef @ CHR ''.'' # ec"
    using f(1,2) c(1)
    by (simp_all add: get_ext_def with_format_def with_compression_def file_config_def
        get_default_extension_def [of _ None])
  show ?thesis
    using extract_dotted [OF assms(1), of "[ef]"] extract_dotted [OF assms(1), of "[ec]"]
      extract_dotted [OF assms(1), of "[ef, ec]"] f(3) c(2)
    by (simp add: ext infer_format [OF f(4)] infer_compression [OF c(3,4)])
qed

theorem extension_roundtrip_witness:
  "extract_target_config_from_path (Some (''data'' @ get_ext (with_compression ''gz'' (with_format ''csv'' file_config)))) None
     = Inr (with_compression ''gz'' (with_format ''csv'' file_config))"
proof -
  have "plain_name ''data''" "''csv'' \<in> fst ` set KNOWN_FORMATS" "''gz'' \<in> fst ` set KNOWN_COMPRESSIONS"
    by code_simp+
  from extension_roundtrip [OF this] show ?thesis by simp
qed

text \<open>
  The compression is part of the file name of parquet and HDF5 targets too, which the code
  means to leave out; and a zip compression is read back as the format zip.
\<close>

theorem compressed_parquet_extension:
  "get_ext (with_compression ''snappy'' (with_format ''parquet'' file_config)) = ''.parquet.snappy'' \<and>
   extract_target_config_from_path (Some (''data'' @ get_ext (with_compression ''zip'' (with_format ''csv'' file_config)))) None
     = Inr (with_format ''zip'' file_config)"
  by code_simp

end
