(* ===== verification/FileSystems.thy ===== *)
theory FileSystems
  imports Paths "HOL-Library.List_Lexorder" "HOL-Library.Char_ord"
begin

text \<open>
  The file systems behind targets: \<open>targets/fs/local.py\<close> over the operating system's files,
  \<open>targets/fs/mock.py\<close>, the atomic writes of \<open>targets/utils/atomic.py\<close>, the targets of
  \<open>targets/file_target.py\<close> and \<open>targets/dir_target.py\<close>, and the value cache of
  \<open>targets/caching.py\<close>. The disk is a dictionary of files and a list of directories.
\<close>

section \<open>The disk\<close>

record disk =
  files :: "(string, string) dict"
  dirs :: "string list"

definition ends_in_slash :: "string \<Rightarrow> bool" where
  "ends_in_slash p = ends_with p [slash]"

definition os_isfile :: "disk \<Rightarrow> string \<Rightarrow> bool" where
  "os_isfile d p = (\<not> ends_in_slash p \<and> map_of (files d) (normpath p) \<noteq> None)"

definition os_isdir :: "disk \<Rightarrow> string \<Rightarrow> bool" where
  "os_isdir d p = (p \<noteq> [] \<and> (normpath p = [slash] \<or> normpath p = ''.'' \<or> normpath p \<in> set (dirs d)))"

definition os_exists :: "disk \<Rightarrow> string \<Rightarrow> bool" where
  "os_exists d p = (os_isfile d p \<or> os_isdir d p)"

definition ancestors :: "string \<Rightarrow> string list" where
  "ancestors p = map (\<lambda>i. take i p) (filter (\<lambda>i. p ! i = slash) [1..<length p]) @ [p]"

definition os_makedirs :: "disk \<Rightarrow> string \<Rightarrow> disk result" where
  "os_makedirs d p =
     (if os_exists d p then Inl (TargetError ''EEXIST'')
      else if \<exists>a \<in> set (ancestors (normpath p)). os_isfile d a then Inl (TargetError ''ENOTDIR'')
      else Inr (d\<lparr>dirs := dirs d @ filter (\<lambda>a. \<not> os_isdir d a) (ancestors (normpath p))\<rparr>))"

definition dir_prefix :: "string \<Rightarrow> string" where
  "dir_prefix p = (if normpath p = ''.'' then [] else path_join2 (normpath p) [])"

definition inside :: "string \<Rightarrow> string \<Rightarrow> bool" where
  "inside p f = (starts_with f (dir_prefix p) \<and> (normpath p = ''.'' \<longrightarrow> \<not> starts_with f [slash]))"

text \<open>\<open>os.walk\<close>: the files below a directory, under the name the directory was given.\<close>

definition os_walk_files :: "disk \<Rightarrow> string \<Rightarrow> string list" where
  "os_walk_files d p =
     (if os_isdir d p
      then map (\<lambda>f. path_join2 p (drop (length (dir_prefix p)) f))
             (filter (inside p) (map fst (files d)))
      else [])"

definition os_remove :: "disk \<Rightarrow> string \<Rightarrow> disk result" where
  "os_remove d p =
     (if os_isfile d p then Inr (d\<lparr>files := dict_del (files d) (normpath p)\<rparr>)
      else Inl (FileNotFoundError p))"

definition os_rmtree :: "disk \<Rightarrow> string \<Rightarrow> disk" where
  "os_rmtree d p =
     d\<lparr>files := filter (\<lambda>f. \<not> inside p (fst f)) (files d),
       dirs := filter (\<lambda>x. x \<noteq> normpath p \<and> \<not> inside p x) (dirs d)\<rparr>"

definition move_prefix :: "string \<Rightarrow> string \<Rightarrow> string \<Rightarrow> string" where
  "move_prefix old new p = (if p = old \<or> inside old p then new @ drop (length old) p else p)"

definition os_rename :: "disk \<Rightarrow> string \<Rightarrow> string \<Rightarrow> disk result" where
  "os_rename d old new =
     (if \<not> os_exists d old then Inl (FileNotFoundError old)
      else if normpath old = normpath new then Inr d
      else if os_isfile d old then
        (if os_isdir d new then Inl (TargetError ''EISDIR'')
         else if \<not> os_isdir d (if dirname new = [] then ''.'' else dirname new) then Inl (FileNotFoundError new)
         else Inr (d\<lparr>files := dict_set (dict_del (files d) (normpath old)) (normpath new)
                                (the (map_of (files d) (normpath old)))\<rparr>))
      else if os_exists d new then Inl (TargetError ''ENOTEMPTY'')
      else Inr (d\<lparr>files := map (\<lambda>(f, c). (move_prefix (normpath old) (normpath new) f, c)) (files d),
                  dirs := map (move_prefix (normpath old) (normpath new)) (dirs d)\<rparr>))"

definition shutil_copy :: "disk \<Rightarrow> string \<Rightarrow> string \<Rightarrow> disk result" where
  "shutil_copy d old new =
     (case map_of (files d) (normpath old) of
        None \<Rightarrow> Inl (FileNotFoundError old)
      | Some c \<Rightarrow>
          let new = (if os_isdir d new then path_join2 new (basename old) else new)
          in Inr (d\<lparr>files := dict_set (files d) (normpath new) c\<rparr>))"

definition shutil_copytree :: "disk \<Rightarrow> string \<Rightarrow> string \<Rightarrow> disk result" where
  "shutil_copytree d old new =
     (if \<not> os_isdir d old then Inl (FileNotFoundError old)
      else rbind (os_makedirs d new) (\<lambda>d'.
        Inr (d'\<lparr>files := foldl (\<lambda>fs (f, c). dict_set fs (move_prefix (normpath old) (normpath new) f) c) (files d')
                          (filter (\<lambda>f. inside old (fst f)) (files d)),
              dirs := dirs d' @ map (move_prefix (normpath old) (normpath new)) (filter (inside old) (dirs d))\<rparr>)))"

section \<open>LocalFileSystem\<close>

definition local_mkdir :: "disk \<Rightarrow> string \<Rightarrow> bool \<Rightarrow> bool \<Rightarrow> disk result" where
  "local_mkdir d p parents raise_if_exists =
     (if os_exists d p then
        (if raise_if_exists then Inl (FileAlreadyExists p)
         else if \<not> os_isdir d p then Inl (TargetError ''NotADirectory'')
         else Inr d)
      else if parents then os_makedirs d p
      else if \<not> os_exists d (dirname p) then Inl (TargetError ''MissingParentDirectory'')
      else Inr (d\<lparr>dirs := dirs d @ [normpath p]\<rparr>))"

definition local_mkdir_parent :: "disk \<Rightarrow> string \<Rightarrow> disk result" where
  "local_mkdir_parent d p =
     (let parentfolder = dirname (normpath p)
      in if parentfolder \<noteq> [] then local_mkdir d parentfolder True False else Inr d)"

definition make_parent :: "disk \<Rightarrow> string \<Rightarrow> disk result" where
  "make_parent d new =
     (let p = dirname new in if p \<noteq> [] \<and> \<not> os_exists d p then local_mkdir d p True False else Inr d)"

definition local_copy :: "disk \<Rightarrow> string \<Rightarrow> string \<Rightarrow> bool \<Rightarrow> disk result" where
  "local_copy d old new raise_if_exists =
     (if raise_if_exists \<and> os_exists d new then Inl (DatabandRuntimeError (''Destination exists: '' @ new))
      else if os_isfile d old then rbind (make_parent d new) (\<lambda>d. shutil_copy d old new)
      else shutil_copytree d old new)"

definition local_listdir :: "disk \<Rightarrow> string \<Rightarrow> string list" where
  "local_listdir d p = os_walk_files d p"

definition local_remove :: "disk \<Rightarrow> string \<Rightarrow> bool \<Rightarrow> disk result" where
  "local_remove d p recursive = (if recursive \<and> os_isdir d p then Inr (os_rmtree d p) else os_remove d p)"

text \<open>\<open>os.rename\<close> does not cross devices here, so the fallbacks for EXDEV and EEXIST do not run.\<close>

definition local_move :: "disk \<Rightarrow> string \<Rightarrow> string \<Rightarrow> bool \<Rightarrow> disk result" where
  "local_move d old new raise_if_exists =
     (if raise_if_exists \<and> os_exists d new then Inl (FileAlreadyExists new)
      else rbind (make_parent d new) (\<lambda>d. os_rename d old new))"

definition local_rename_dont_move :: "disk \<Rightarrow> string \<Rightarrow> string \<Rightarrow> disk result" where
  "local_rename_dont_move d old new = local_move d old new True"

definition local_move_dir :: "disk \<Rightarrow> string \<Rightarrow> string \<Rightarrow> bool \<Rightarrow> disk result" where
  "local_move_dir d p dest raise_if_exists =
     rbind (if \<not> os_exists d dest then local_mkdir d dest True False
            else if \<not> os_isdir d dest then Inl (TargetError ''NotADirectory'')
            else Inr d) (\<lambda>d.
       foldM (\<lambda>d f. local_move d (path_join2 p f) (path_join2 dest f) raise_if_exists) d (local_listdir d p))"

section \<open>MockFileSystem\<close>

type_synonym mock_fs = "(string, string) dict"

definition mock_exists :: "mock_fs \<Rightarrow> string \<Rightarrow> bool" where
  "mock_exists s p = (p \<in> set (map fst s))"

definition mock_copy :: "mock_fs \<Rightarrow> string \<Rightarrow> string \<Rightarrow> bool \<Rightarrow> mock_fs result" where
  "mock_copy s p dest raise_if_exists =
     (if raise_if_exists \<and> mock_exists s dest then Inl (DatabandRuntimeError (''Destination exists: '' @ p))
      else (case map_of s p of None \<Rightarrow> Inl (KeyError p) | Some c \<Rightarrow> Inr (dict_set s dest c)))"

definition mock_move :: "mock_fs \<Rightarrow> string \<Rightarrow> string \<Rightarrow> bool \<Rightarrow> mock_fs result" where
  "mock_move s p dest raise_if_exists =
     (if raise_if_exists \<and> mock_exists s dest then Inl (DatabandRuntimeError (''Destination exists: '' @ p))
      else (case map_of s p of None \<Rightarrow> Inl (KeyError p) | Some c \<Rightarrow> Inr (dict_set (dict_del s p) dest c)))"

definition mock_listdir :: "mock_fs \<Rightarrow> string \<Rightarrow> string list" where
  "mock_listdir s p = filter (\<lambda>q. starts_with q p) (map fst s)"

definition mock_isdir :: "mock_fs \<Rightarrow> string \<Rightarrow> bool" where
  "mock_isdir s p = (\<exists>q \<in> set (mock_listdir s p). q \<noteq> [])"

definition mock_remove :: "mock_fs \<Rightarrow> string \<Rightarrow> bool \<Rightarrow> mock_fs result" where
  "mock_remove s p recursive =
     (if recursive then Inr (foldl dict_del s (mock_listdir s p))
      else if mock_exists s p then Inr (dict_del s p) else Inl (KeyError p))"

text \<open>
  A write session: a \<open>MockFile\<close> stores what was written when it is closed in mode \<open>w\<close>; an
  \<open>AtomicLocalFile\<close> writes a temporary file, moves it when it is closed, and removes it in
  \<open>__del__\<close>. An exception leaves the \<open>with\<close> block without closing the file.
\<close>

definition mock_write :: "mock_fs \<Rightarrow> string \<Rightarrow> string \<Rightarrow> bool \<Rightarrow> mock_fs" where
  "mock_write s p content raised = (if raised then s else dict_set s p content)"

definition atomic_write :: "disk \<Rightarrow> string \<Rightarrow> string \<Rightarrow> string \<Rightarrow> bool \<Rightarrow> disk result" where
  "atomic_write d tmp_path p content raised =
     (let d1 = d\<lparr>files := dict_set (files d) (normpath tmp_path) content\<rparr>;
          clean = (\<lambda>d. if os_exists d tmp_path
                       then (case os_remove d tmp_path of Inr d' \<Rightarrow> d' | Inl _ \<Rightarrow> d) else d)
      in if raised then Inr (clean d1)
         else rmap clean (local_move d1 tmp_path p False))"

section \<open>Targets\<close>

fun has_wildcard :: "string \<Rightarrow> bool" where
  "has_wildcard p = (CHR ''*'' \<in> set p \<or> CHR ''?'' \<in> set p \<or> CHR ''['' \<in> set p \<or> CHR ''{'' \<in> set p)"

function wildcard_free :: "string \<Rightarrow> string" where
  "wildcard_free p = (if has_wildcard p then wildcard_free (dirname p) else p)"
  by auto
termination
proof (relation "measure length", simp)
  fix p assume "has_wildcard p"
  then show "(dirname p, p) \<in> measure length" by (auto intro: dirname_shorter)
qed

declare wildcard_free.simps [simp del]

definition file_target_exists :: "(string \<Rightarrow> bool) \<Rightarrow> string \<Rightarrow> bool" where
  "file_target_exists fs_exists p =
     (let q = wildcard_free p
      in fs_exists (if q \<noteq> p \<and> \<not> ends_in_slash q then q @ [slash] else q))"

text \<open>A directory target: path ending in a slash, the flag file, the configuration of its parts.\<close>

record dir_target =
  dir_path :: string
  dir_flag :: "string option"
  dir_config :: target_config
  auto_partition_count :: nat

definition dir_target :: "string \<Rightarrow> target_config \<Rightarrow> dir_target result" where
  "dir_target p cfg =
     rbind (trailing_slash p) (\<lambda>slashed.
       if \<not> slashed then Inl (ValueError ''requires the path to be to a directory'')
       else Inr \<lparr>dir_path = p, dir_flag = (case flag cfg of None \<Rightarrow> None | Some f \<Rightarrow> if f = [] then None else Some f),
                 dir_config = cfg, auto_partition_count = 0\<rparr>)"

definition flag_path :: "dir_target \<Rightarrow> string option" where
  "flag_path t = map_option (path_join2 (dir_path t)) (dir_flag t)"

definition dir_target_exists :: "(string \<Rightarrow> bool) \<Rightarrow> dir_target \<Rightarrow> bool" where
  "dir_target_exists fs_exists t =
     (case flag_path t of
        Some f \<Rightarrow> file_target_exists fs_exists f
      | None \<Rightarrow> file_target_exists fs_exists (dir_path t))"

definition is_meta_file :: "dir_target \<Rightarrow> string \<Rightarrow> bool" where
  "is_meta_file t p =
     (let base_name = basename p
      in starts_with base_name ''.'' \<or> starts_with base_name ''_'' \<or> base_name \<in> set (meta_files (dir_config t)))"

definition list_partitions :: "(string \<Rightarrow> string list) \<Rightarrow> dir_target \<Rightarrow> string list" where
  "list_partitions listdir t =
     (let all_files = filter (\<lambda>p. \<not> is_meta_file t p) (sort (listdir (dir_path t)))
      in case flag_path t of None \<Rightarrow> all_files | Some f \<Rightarrow> filter (\<lambda>p. p \<noteq> f) all_files)"

definition zero_padded :: "nat \<Rightarrow> string" where
  "zero_padded n = (let s = nat_str n in replicate (4 - length s) (CHR ''0'') @ s)"

definition partition_path :: "dir_target \<Rightarrow> string option \<Rightarrow> string option \<Rightarrow> string \<times> dir_target" where
  "partition_path t part_name extension =
     (let (n, t') = (case part_name of
            Some n \<Rightarrow> (n, t)
          | None \<Rightarrow> (''part-'' @ zero_padded (auto_partition_count t),
                     t\<lparr>auto_partition_count := auto_partition_count t + 1\<rparr>));
          ext = (case extension of Some e \<Rightarrow> e | None \<Rightarrow> get_ext (as_file (dir_config t)))
      in (path_join2 (dir_path t) (n @ ext), t'))"

definition touch :: "disk \<Rightarrow> string \<Rightarrow> disk" where
  "touch d p = (if map_of (files d) (normpath p) = None then d\<lparr>files := dict_set (files d) (normpath p) []\<rparr> else d)"

definition dir_mark_success :: "disk \<Rightarrow> dir_target \<Rightarrow> disk result" where
  "dir_mark_success d t =
     rbind (local_mkdir d (dir_path t) True False) (\<lambda>d.
       Inr (case flag_path t of None \<Rightarrow> d | Some f \<Rightarrow> touch d f))"

definition dir_move_from :: "disk \<Rightarrow> dir_target \<Rightarrow> string \<Rightarrow> bool \<Rightarrow> disk result" where
  "dir_move_from d t from_path raise_if_exists =
     rbind (local_move_dir d from_path (dir_path t) raise_if_exists) (\<lambda>d. dir_mark_success d t)"

text \<open>
  \<open>with target.tmp() as path\<close>: the temporary path is moved into place at the end and
  removed if it is still there; \<open>FileAlreadyExists\<close> is only logged.
\<close>

definition dir_tmp_session :: "disk \<Rightarrow> dir_target \<Rightarrow> string \<Rightarrow> (disk \<Rightarrow> disk) \<Rightarrow> disk result" where
  "dir_tmp_session d t tmp_path body =
     (let d1 = body (d\<lparr>dirs := dirs d @ [normpath tmp_path]\<rparr>);
          clean = (\<lambda>d. if os_exists d tmp_path then local_remove d tmp_path True else Inr d)
      in case dir_move_from d1 t tmp_path False of
           Inr d2 \<Rightarrow> clean d2
         | Inl (FileAlreadyExists p) \<Rightarrow> clean d1
         | Inl e \<Rightarrow> Inl e)"

section \<open>The value cache\<close>

text \<open>
  A key holds the target and the value type as strings. \<open>clear_for_targets\<close> is given
  objects: a target object is never equal to a string.
\<close>

type_synonym 'v target_cache = "((string \<times> string) \<times> 'v) list"

datatype cleared = TargetObject string | TargetName string

definition cache_set :: "bool \<Rightarrow> 'v target_cache \<Rightarrow> string \<times> string \<Rightarrow> 'v \<Rightarrow> 'v target_cache" where
  "cache_set enabled c key v = (if enabled then dict_set c key v else c)"

definition cache_get :: "bool \<Rightarrow> 'v target_cache \<Rightarrow> string \<times> string \<Rightarrow> 'v option" where
  "cache_get enabled c key = (if enabled then map_of c key else None)"

definition cache_has :: "'v target_cache \<Rightarrow> string \<times> string \<Rightarrow> bool" where
  "cache_has c key = (map_of c key \<noteq> None)"

definition clear_for_targets :: "'v target_cache \<Rightarrow> cleared list \<Rightarrow> 'v target_cache" where
  "clear_for_targets c targets_to_clear =
     (if targets_to_clear = [] then c
      else foldl dict_del c (filter (\<lambda>key. TargetName (fst key) \<in> set targets_to_clear) (map fst c)))"

text \<open>Time to live of a cached file: \<open>re.match\<close> of \<open>\d*d$|\d*h$\<close>, then \<open>int\<close> of the digits.\<close>

definition is_valid_ttl :: "string \<Rightarrow> bool" where
  "is_valid_ttl ttl =
     (let t = (if ttl \<noteq> [] \<and> last ttl = CHR 0x0A then butlast ttl else ttl)
      in t \<noteq> [] \<and> last t \<in> {CHR ''d'', CHR ''h''} \<and> list_all is_digit (butlast t))"

definition ttl_hours :: "string \<Rightarrow> int result" where
  "ttl_hours ttl =
     (if ttl = [] then Inl IndexError
      else rbind (parse_int (butlast ttl)) (\<lambda>n.
        if last ttl = CHR ''d'' then Inr (24 * n) else if last ttl = CHR ''h'' then Inr n
        else Inl (KeyError [last ttl])))"

definition meta_expired :: "int \<Rightarrow> string \<Rightarrow> int \<Rightarrow> bool result" where
  "meta_expired created_at ttl now = rmap (\<lambda>h. created_at + 3600 * h < now) (ttl_hours ttl)"

section \<open>Moving a directory into place\<close>

text \<open>Files under normalised names, in directories that exist.\<close>

definition disk_ok :: "disk \<Rightarrow> bool" where
  "disk_ok d \<longleftrightarrow> (\<forall>f \<in> fst ` set (files d). normpath f = f \<and> \<not> contains ''//'' f \<and> \<not> ends_in_slash f \<and>
     os_isdir d (dirname f))"

text \<open>An absolute directory name in normal form, other than the root.\<close>

definition absolute_dir :: "string \<Rightarrow> bool" where
  "absolute_dir p \<longleftrightarrow> starts_with p [slash] \<and> normpath p = p \<and> \<not> ends_in_slash p"

lemma absolute_dir_prefix: "absolute_dir p \<Longrightarrow> dir_prefix p = p @ [slash] \<and> (inside p f \<longleftrightarrow> (\<exists>r. f = p @ slash # r))"
  by (auto simp: absolute_dir_def dir_prefix_def inside_def path_join2_def starts_with_iff ends_in_slash_def)

lemma join_inside:
  assumes "absolute_dir p" "inside p f" "\<not> contains ''//'' f"
  shows "path_join2 p (drop (length (dir_prefix p)) f) = f"
proof -
  obtain r where f: "f = p @ slash # r" using absolute_dir_prefix [OF assms(1)] assms(2) by blast
  have "\<not> starts_with r [slash]"
    using assms(3) by (auto simp: f starts_with_iff contains_iff)
  then show ?thesis
    using assms(1) absolute_dir_prefix [OF assms(1), of f] f
    by (auto simp: path_join2_def absolute_dir_def ends_in_slash_def starts_with_def)
qed

lemma walk_inside:
  assumes "absolute_dir p" "disk_ok d" "f \<in> set (os_walk_files d p)"
  shows "f \<in> fst ` set (files d) \<and> starts_with f [slash]"
proof -
  obtain g where g: "g \<in> fst ` set (files d)" "inside p g" "f = path_join2 p (drop (length (dir_prefix p)) g)"
    using assms(3) by (auto simp: os_walk_files_def split: if_splits)
  have "\<not> contains ''//'' g" using assms(2) g(1) by (auto simp: disk_ok_def)
  then have "f = g" using join_inside [OF assms(1) g(2)] g(3) by simp
  moreover have "starts_with g [slash]"
    using absolute_dir_prefix [OF assms(1)] g(2) assms(1) by (auto simp: absolute_dir_def starts_with_iff)
  ultimately show ?thesis using g(1) by simp
qed

lemma in_files_iff: "f \<in> fst ` set (files d) \<longleftrightarrow> map_of (files d) f \<noteq> None"
  by (simp add: map_of_eq_None_iff)

lemma move_onto_itself:
  assumes "disk_ok d" "f \<in> fst ` set (files d)"
  shows "local_move d f f False = Inr d"
proof -
  have f: "normpath f = f" "\<not> ends_in_slash f" "os_isdir d (dirname f)" "map_of (files d) f \<noteq> None"
    using assms(1) [unfolded disk_ok_def, rule_format, OF assms(2)] assms(2) [unfolded in_files_iff] by blast+
  then have "make_parent d f = Inr d" by (simp add: make_parent_def os_exists_def)
  moreover have "os_exists d f" using f by (simp add: os_exists_def os_isfile_def)
  ultimately show ?thesis by (simp add: local_move_def os_rename_def)
qed

lemma move_dir_noop:
  assumes "absolute_dir p" "disk_ok d" "os_isdir d dest"
  shows "local_move_dir d p dest False = Inr d"
proof -
  have step: "local_move d (path_join2 p f) (path_join2 dest f) False = Inr d" if f: "f \<in> set (local_listdir d p)" for f
  proof -
    have "f \<in> fst ` set (files d)" "starts_with f [slash]"
      using walk_inside [OF assms(1,2)] f by (auto simp only: local_listdir_def)
    then show ?thesis using move_onto_itself [OF assms(2)] by (simp add: path_join2_def)
  qed
  have "foldM (\<lambda>d f. local_move d (path_join2 p f) (path_join2 dest f) False) d fs = Inr d"
    if "set fs \<subseteq> set (local_listdir d p)" for fs
    using that step by (induction fs) auto
  with assms(3) show ?thesis by (simp add: local_move_dir_def os_exists_def)
qed

text \<open>
  C23. \<open>move_dir\<close> of a directory given by its absolute name moves nothing: \<open>listdir\<close>
  yields absolute names, so both names that are joined to them are dropped. A directory target
  that is written through \<open>tmp()\<close> therefore loses everything that was written, while its flag
  file says that it is complete.
\<close>

theorem tmp_session_loses_the_data:
  assumes "absolute_dir tmp_path" "os_isdir d1 tmp_path" "os_isdir d1 (dir_path t)"
    "d1 = body (d\<lparr>dirs := dirs d @ [normpath tmp_path]\<rparr>)" "disk_ok d1"
    "flag_path t = Some f" "\<not> has_wildcard f" "\<not> ends_in_slash f" "\<not> inside tmp_path (normpath f)"
  shows "\<exists>d2. dir_tmp_session d t tmp_path body = Inr d2 \<and> dir_target_exists (os_exists d2) t \<and>
    (\<forall>q. inside tmp_path q \<longrightarrow> map_of (files d2) q = None) \<and>
    (\<forall>q. \<not> inside tmp_path q \<and> q \<noteq> normpath f \<longrightarrow> map_of (files d2) q = map_of (files d1) q)"
proof -
  have "dir_move_from d1 t tmp_path False = Inr (touch d1 f)"
    using move_dir_noop [OF assms(1,5,3)] assms(3,6)
    by (simp add: dir_move_from_def dir_mark_success_def local_mkdir_def os_exists_def)
  moreover have still: "os_isdir (touch d1 f) tmp_path"
    using assms(2) by (simp add: touch_def os_isdir_def)
  ultimately have session: "dir_tmp_session d t tmp_path body = Inr (os_rmtree (touch d1 f) tmp_path)"
    by (simp add: dir_tmp_session_def Let_def assms(4) [symmetric] os_exists_def local_remove_def)
  have tmp: "normpath tmp_path = tmp_path" using assms(1) by (simp add: absolute_dir_def)
  have look: "map_of (filter (\<lambda>f. \<not> P (fst f)) xs) q = (if P q then None else map_of xs q)" for P :: "string \<Rightarrow> bool" and xs :: "(string, string) dict" and q
    by (induction xs) auto
  have files: "map_of (files (os_rmtree (touch d1 f) tmp_path)) q =
      (if inside tmp_path q then None else map_of (files (touch d1 f)) q)" for q
    by (simp add: os_rmtree_def look)
  have "map_of (files (touch d1 f)) (normpath f) \<noteq> None" by (simp add: touch_def)
  then have "os_exists (os_rmtree (touch d1 f) tmp_path) f"
    using assms(8,9) by (simp add: os_exists_def os_isfile_def files)
  then have "dir_target_exists (os_exists (os_rmtree (touch d1 f) tmp_path)) t"
    using assms(6,7) by (simp add: dir_target_exists_def file_target_exists_def wildcard_free.simps)
  moreover have "map_of (files (touch d1 f)) q = map_of (files d1) q" if "q \<noteq> normpath f" for q
    using that by (simp add: touch_def)
  ultimately show ?thesis using session files by auto
qed

text \<open>
  A target whose path is a relative name with a wildcard and no slash always exists: the
  directory that is left of it is the empty name, which becomes the root directory.
\<close>

theorem relative_wildcard_always_exists:
  assumes "has_wildcard p" "slash \<notin> set p"
  shows "file_target_exists (os_exists d) p"
proof -
  have "dirname p = []" using assms(2) basename_id [OF assms(2)] by (simp add: dirname_def)
  then have "wildcard_free p = []" using assms(1) by (subst wildcard_free.simps) (simp add: wildcard_free.simps)
  moreover have "p \<noteq> []" using assms(1) by auto
  moreover have "os_isdir d [slash]"
    by (simp add: os_isdir_def normpath_def starts_with_def Let_def)
  ultimately show ?thesis by (simp add: file_target_exists_def ends_in_slash_def ends_with_def os_exists_def Let_def)
qed

theorem relative_wildcard_always_exists_witness:
  "file_target_exists (os_exists \<lparr>files = [], dirs = []\<rparr>) ''*.csv''"
  by (rule relative_wildcard_always_exists) simp_all

text \<open>
  Cleaning the cache for a set of target objects changes nothing: the keys hold the targets
  as strings, and no target object equals a string.
\<close>

theorem cache_is_not_cleared:
  "clear_for_targets c (map TargetObject ts) = c"
proof -
  have "filter (\<lambda>key. TargetName (fst key) \<in> set (map TargetObject ts)) ks = []" for ks :: "(string \<times> string) list"
    by (auto simp: filter_empty_conv)
  then show ?thesis unfolding clear_for_targets_def by (simp only: foldl_Nil if_cancel)
qed

theorem tmp_session_loses_the_data_witness:
  "\<exists>d2. dir_tmp_session \<lparr>files = [], dirs = [''/out'']\<rparr>
      \<lparr>dir_path = ''/out/'', dir_flag = Some ''_SUCCESS'', dir_config = as_folder file_config, auto_partition_count = 0\<rparr>
      ''/tmp'' (\<lambda>d. d\<lparr>files := [(''/tmp/part-0000'', ''data'')]\<rparr>) = Inr d2 \<and>
    map_of (files d2) ''/tmp/part-0000'' = None"
proof -
  let ?t = "\<lparr>dir_path = ''/out/'', dir_flag = Some ''_SUCCESS'', dir_config = as_folder file_config, auto_partition_count = 0\<rparr>"
  let ?body = "\<lambda>d :: disk. d\<lparr>files := [(''/tmp/part-0000'', ''data'')]\<rparr>"
  let ?d1 = "?body (\<lparr>files = [], dirs = [''/out'']\<rparr>\<lparr>dirs := dirs \<lparr>files = [], dirs = [''/out'']\<rparr> @ [normpath ''/tmp'']\<rparr>)"
  have "absolute_dir ''/tmp''" "os_isdir ?d1 ''/tmp''" "os_isdir ?d1 (dir_path ?t)" "disk_ok ?d1"
    "flag_path ?t = Some ''/out/_SUCCESS''" "\<not> has_wildcard ''/out/_SUCCESS''" "\<not> ends_in_slash ''/out/_SUCCESS''"
    "\<not> inside ''/tmp'' (normpath ''/out/_SUCCESS'')" "inside ''/tmp'' ''/tmp/part-0000''"
    by code_simp+
  from tmp_session_loses_the_data [where body = ?body, OF this(1-3) refl this(4-8)] this(9) show ?thesis
    by blast
qed

section \<open>Writes are atomic\<close>

text \<open>
  What a file system promises for one writing session, whether it is left normally or by an
  exception.
\<close>

locale file_store =
  fixes look :: "'s \<Rightarrow> string \<Rightarrow> string option"
    and commit :: "'s \<Rightarrow> string \<Rightarrow> string \<Rightarrow> bool \<Rightarrow> 's result"
    and writable :: "'s \<Rightarrow> string \<Rightarrow> bool"
  assumes commit_visible: "writable s p \<Longrightarrow> \<exists>s'. commit s p c False = Inr s' \<and> look s' = (look s)(p \<mapsto> c)"
    and commit_aborted: "writable s p \<Longrightarrow> \<exists>s'. commit s p c True = Inr s' \<and> look s' = look s"
    and still_writable: "commit s p c r = Inr s' \<Longrightarrow> writable s p \<Longrightarrow> writable s q \<Longrightarrow> writable s' q"
begin

lemma sessions_visible:
  assumes "\<forall>(p, c, r) \<in> set ws. writable s p"
  shows "\<exists>s'. foldM (\<lambda>s (p, c, r). commit s p c r) s ws = Inr s' \<and>
    look s' = foldl (\<lambda>m (p, c, r). if r then m else m(p \<mapsto> c)) (look s) ws"
  using assms
proof (induction ws arbitrary: s)
  case (Cons w ws)
  obtain p c r where w: "w = (p, c, r)" by (cases w)
  obtain s1 where s1: "commit s p c r = Inr s1" "look s1 = (if r then look s else (look s)(p \<mapsto> c))"
    using commit_visible [of s p c] commit_aborted [of s p c] Cons.prems w by (cases r) auto
  have "\<forall>(p, c, r) \<in> set ws. writable s1 p"
    using still_writable [OF s1(1)] Cons.prems w by fastforce
  from Cons.IH [OF this] s1 show ?case by (simp add: w)
qed simp

end

definition disk_look :: "string \<Rightarrow> disk \<Rightarrow> string \<Rightarrow> string option" where
  "disk_look tmp d p = (if p = tmp then None else map_of (files d) p)"

text \<open>A file name in normal form whose directory exists, next to the temporary name.\<close>

definition disk_writable :: "string \<Rightarrow> disk \<Rightarrow> string \<Rightarrow> bool" where
  "disk_writable tmp d p \<longleftrightarrow>
     normpath p = p \<and> \<not> ends_in_slash p \<and> \<not> os_isdir d p \<and> dirname p \<noteq> [] \<and> os_isdir d (dirname p) \<and>
     p \<noteq> tmp \<and> normpath tmp = tmp \<and> \<not> ends_in_slash tmp \<and> \<not> os_isdir d tmp"

lemma os_isdir_files [simp]: "os_isdir (d\<lparr>files := fs\<rparr>) p = os_isdir d p"
  by (simp add: os_isdir_def)

lemma atomic_write_done:
  assumes "disk_writable tmp d p"
  shows "atomic_write d tmp p c False =
      Inr (d\<lparr>files := dict_set (dict_del (dict_set (files d) tmp c) tmp) p c\<rparr>) \<and>
    atomic_write d tmp p c True = Inr (d\<lparr>files := dict_del (dict_set (files d) tmp c) tmp\<rparr>)"
proof -
  note w = assms [unfolded disk_writable_def]
  let ?d1 = "d\<lparr>files := dict_set (files d) tmp c\<rparr>" and ?d2 = "d\<lparr>files := dict_set (dict_del (dict_set (files d) tmp c) tmp) p c\<rparr>"
  have tmp: "os_isfile ?d1 tmp" using w by (simp add: os_isfile_def)
  have ne: "tmp \<noteq> p" "p \<noteq> tmp" using w by blast+
  have "make_parent ?d1 p = Inr ?d1" using w by (simp add: make_parent_def os_exists_def Let_def)
  moreover have "os_rename ?d1 tmp p = Inr ?d2"
  proof -
    have "normpath tmp \<noteq> normpath p" using w by metis
    with w tmp ne show ?thesis by (simp add: os_rename_def os_exists_def os_isfile_def)
  qed
  moreover have "\<not> os_exists ?d2 tmp" using w ne by (simp add: os_exists_def os_isfile_def)
  moreover have "os_exists ?d1 tmp" "os_remove ?d1 tmp = Inr (d\<lparr>files := dict_del (dict_set (files d) tmp c) tmp\<rparr>)"
    using tmp w by (simp_all add: os_exists_def os_remove_def)
  ultimately show ?thesis using w by (simp add: atomic_write_def Let_def local_move_def)
qed

interpretation local_store: file_store "disk_look tmp" "\<lambda>d p c r. atomic_write d tmp p c r" "disk_writable tmp" for tmp
proof
  fix s :: disk and p c
  assume w: "disk_writable tmp s p"
  show "\<exists>s'. atomic_write s tmp p c False = Inr s' \<and> disk_look tmp s' = (disk_look tmp s)(p \<mapsto> c)"
    using atomic_write_done [OF w, of c] w by (auto simp: disk_look_def disk_writable_def fun_eq_iff)
  show "\<exists>s'. atomic_write s tmp p c True = Inr s' \<and> disk_look tmp s' = disk_look tmp s"
    using atomic_write_done [OF w, of c] by (auto simp: disk_look_def fun_eq_iff)
next
  fix s s' :: disk and p c r q
  assume "atomic_write s tmp p c r = Inr s'" "disk_writable tmp s p" "disk_writable tmp s q"
  then show "disk_writable tmp s' q"
    using atomic_write_done [of tmp s p c] by (cases r) (auto simp: disk_writable_def)
qed

interpretation mock_store: file_store map_of "\<lambda>s p c r. Inr (mock_write s p c r)" "\<lambda>s p. True"
  by unfold_locales (simp_all add: mock_write_def)



end
