(* ===== verification/Dates.thy ===== *)
theory Dates
  imports PyStrings
begin

text \<open>
  The calendar of Python's \<open>datetime.date\<close> that the date intervals use: dates as year, month and
  day with their lexicographic order, the proleptic Gregorian ordinal, adding days with its
  \<open>OverflowError\<close>, the ISO calendar, and \<open>strftime\<close>.  It follows \<open>Lib/datetime.py\<close>; the
  lemmas show that ordinals and dates correspond one to one and respect the order, and
  characterise the ISO calendar by the Mondays that open the ISO years.
\<close>

section \<open>Dates and their order\<close>

datatype date = YMD (year: int) (month: int) (day: int)

instantiation date :: linorder
begin

definition less_date :: "date \<Rightarrow> date \<Rightarrow> bool" where
  "less_date a b =
     (year a < year b \<or>
      year a = year b \<and> (month a < month b \<or> month a = month b \<and> day a < day b))"

definition less_eq_date :: "date \<Rightarrow> date \<Rightarrow> bool" where
  "less_eq_date a b =
     (year a < year b \<or>
      year a = year b \<and> (month a < month b \<or> month a = month b \<and> day a \<le> day b))"

instance
  by standard (auto simp: less_date_def less_eq_date_def intro: date.expand)

end

section \<open>Ordinals\<close>

definition is_leap :: "int \<Rightarrow> bool" where
  "is_leap y = (y mod 4 = 0 \<and> (y mod 100 \<noteq> 0 \<or> y mod 400 = 0))"

definition days_before_year :: "int \<Rightarrow> int" where
  "days_before_year y =
     (let p = y - 1 in p * 365 + p div 4 - p div 100 + p div 400)"

definition days_in_year :: "int \<Rightarrow> int" where
  "days_in_year y = (if is_leap y then 366 else 365)"

definition month_lengths :: "int \<Rightarrow> int list" where
  "month_lengths y =
     [31, if is_leap y then 29 else 28, 31, 30, 31, 30, 31, 31, 30, 31, 30, 31]"

definition days_in_month :: "int \<Rightarrow> int \<Rightarrow> int" where
  "days_in_month y m = month_lengths y ! nat (m - 1)"

definition days_before_month :: "int \<Rightarrow> int \<Rightarrow> int" where
  "days_before_month y m = sum_list (take (nat (m - 1)) (month_lengths y))"

definition valid_date :: "date \<Rightarrow> bool" where
  "valid_date d =
     (1 \<le> year d \<and> year d \<le> 9999 \<and> 1 \<le> month d \<and> month d \<le> 12 \<and>
      1 \<le> day d \<and> day d \<le> days_in_month (year d) (month d))"

definition mk_date :: "int \<Rightarrow> int \<Rightarrow> int \<Rightarrow> date result" where
  "mk_date y m d =
     (if valid_date (YMD y m d) then Inr (YMD y m d) else Inl (ValueError ''date out of range''))"

definition toordinal :: "date \<Rightarrow> int" where
  "toordinal d = days_before_year (year d) + days_before_month (year d) (month d) + day d"

text \<open>The inverse: peel off the cycles of 400, 100, 4 and 1 years, then the months.\<close>

definition year_of :: "int \<Rightarrow> int" where
  "year_of n =
     (let n400 = n div 146097; n = n mod 146097;
          n100 = min 3 (n div 36524); n = n - 36524 * n100;
          n4 = n div 1461; n = n mod 1461;
          n1 = min 3 (n div 365)
      in 400 * n400 + 100 * n100 + 4 * n4 + n1 + 1)"

fun split_months :: "int \<Rightarrow> int list \<Rightarrow> int \<Rightarrow> int \<times> int" where
  "split_months m [] n = (m, n + 1)"
| "split_months m (l # ls) n = (if n < l then (m, n + 1) else split_months (m + 1) ls (n - l))"

definition fromordinal :: "int \<Rightarrow> date" where
  "fromordinal n =
     (let y = year_of (n - 1);
          (m, d) = split_months 1 (month_lengths y) (n - 1 - days_before_year y)
      in YMD y m d)"

definition max_ordinal :: int where
  "max_ordinal = 3652059"

definition date_add :: "date \<Rightarrow> int \<Rightarrow> date result" where
  "date_add d n =
     (let k = toordinal d + n
      in if 1 \<le> k \<and> k \<le> max_ordinal then Inr (fromordinal k) else Inl OverflowError)"

subsection \<open>Years\<close>

lemma div_Suc_int:
  fixes p k :: int
  assumes "1 < k"
  shows "(p + 1) div k = p div k + (if (p + 1) mod k = 0 then 1 else 0)"
proof -
  obtain q r where p: "p = k * q + r" and r: "0 \<le> r" "r < k"
    using that [of "p div k" "p mod k"] assms by simp
  have q: "p div k = q" using p r by (rule int_div_pos_eq)
  show ?thesis
  proof (cases "r + 1 = k")
    case True
    then have "p + 1 = k * (q + 1)" using p by (simp add: algebra_simps)
    with assms q show ?thesis by simp
  next
    case False
    then have s: "p + 1 = k * q + (r + 1)" "0 \<le> r + 1" "r + 1 < k" using p r by simp_all
    have "(p + 1) div k = q" "(p + 1) mod k = r + 1"
      using s by (rule int_div_pos_eq, rule int_mod_pos_eq)
    with q r show ?thesis by simp
  qed
qed

lemma leap_days:
  "(c \<Longrightarrow> b) \<Longrightarrow> (b \<Longrightarrow> a) \<Longrightarrow>
     (if a \<and> (\<not> b \<or> c) then 366 else 365 :: int) =
       365 + (if a then 1 else 0) - (if b then 1 else 0) + (if c then 1 else 0)"
  by (cases a; cases b; cases c) simp_all

lemma days_before_year_Suc: "days_before_year (y + 1) = days_before_year y + days_in_year y"
proof -
  have d: "y div k = (y - 1) div k + (if y mod k = 0 then 1 else 0)" if "1 < k" for k
    using div_Suc_int [OF that, of "y - 1"] by simp
  have m: "y mod 400 = 0 \<Longrightarrow> y mod 100 = 0" "y mod 100 = 0 \<Longrightarrow> y mod 4 = 0"
    unfolding mod_eq_0_iff_dvd
    using dvd_trans [of "100 :: int" 400 y] dvd_trans [of "4 :: int" 100 y] by simp_all
  obtain i4 i100 i400 where i: "(y - 1) div 4 = i4" "(y - 1) div 100 = i100" "(y - 1) div 400 = i400"
    by simp
  obtain e4 e100 e400 :: int where e: "(if y mod 4 = 0 then 1 else 0) = e4"
    "(if y mod 100 = 0 then 1 else 0) = e100" "(if y mod 400 = 0 then 1 else 0) = e400"
    by blast
  have q: "y div 4 = i4 + e4" "y div 100 = i100 + e100" "y div 400 = i400 + e400"
    unfolding i [symmetric] e [symmetric] by (rule d, simp)+
  have "days_before_year y = (y - 1) * 365 + i4 - i100 + i400"
    by (simp only: days_before_year_def Let_def i)
  moreover have "days_before_year (y + 1) = y * 365 + (i4 + e4) - (i100 + e100) + (i400 + e400)"
    by (simp only: days_before_year_def Let_def add_diff_cancel q)
  moreover have "days_in_year y = 365 + e4 - e100 + e400"
    unfolding e [symmetric] days_in_year_def is_leap_def by (rule leap_days) (fact m)+
  ultimately show ?thesis by (simp add: algebra_simps)
qed

lemma days_before_year_mono_add: "days_before_year y + 365 * int k \<le> days_before_year (y + int k)"
proof (induction k)
  case (Suc k)
  have "days_before_year (y + int (Suc k)) = days_before_year (y + int k) + days_in_year (y + int k)"
    using days_before_year_Suc [of "y + int k"] by (simp add: ac_simps)
  with Suc show ?case by (simp add: days_in_year_def)
qed simp

lemma days_before_year_next_le:
  assumes "y < y'"
  shows "days_before_year (y + 1) \<le> days_before_year y'"
  using days_before_year_mono_add [of "y + 1" "nat (y' - y - 1)"] assms by simp

lemma year_unique:
  assumes "days_before_year y \<le> n" "n < days_before_year (y + 1)"
    "days_before_year y' \<le> n" "n < days_before_year (y' + 1)"
  shows "y = y'"
proof (rule ccontr)
  assume "y \<noteq> y'"
  then consider "y < y'" | "y' < y" by linarith
  then show False
    using assms days_before_year_next_le [of y y'] days_before_year_next_le [of y' y]
    by cases linarith+
qed

lemma days_before_year_cycles:
  assumes "0 \<le> b" "b \<le> 3" "0 \<le> c" "c \<le> 24" "0 \<le> d" "d \<le> 3"
  shows "days_before_year (400 * a + 100 * b + 4 * c + d + 1) =
    146097 * a + 36524 * b + 1461 * c + 365 * d"
proof -
  let ?p = "400 * a + 100 * b + 4 * c + d"
  have "?p div 4 = 100 * a + 25 * b + c" using assms by (intro int_div_pos_eq [where r = d]) auto
  moreover have "?p div 100 = 4 * a + b"
    using assms by (intro int_div_pos_eq [where r = "4 * c + d"]) auto
  moreover have "?p div 400 = a"
    using assms by (intro int_div_pos_eq [where r = "100 * b + 4 * c + d"]) auto
  ultimately show ?thesis by (simp add: days_before_year_def Let_def)
qed

lemma min_div_bounds:
  fixes n k u :: int
  assumes "0 < k" "0 \<le> n" "0 \<le> u"
  shows "0 \<le> min u (n div k)" "min u (n div k) \<le> u" "k * min u (n div k) \<le> n"
    "min u (n div k) < u \<Longrightarrow> n < k * min u (n div k) + k"
proof -
  obtain q r where p: "n = k * q + r" and r: "0 \<le> r" "r < k"
    using that [of "n div k" "n mod k"] assms by simp
  have q: "n div k = q" using p r by (rule int_div_pos_eq)
  have q0: "0 \<le> q" using assms q by (auto simp: pos_imp_zdiv_nonneg_iff)
  show "0 \<le> min u (n div k)" "min u (n div k) \<le> u" using q q0 assms by simp_all
  have "k * min u q \<le> k * q" using assms by (intro mult_left_mono) simp_all
  then show "k * min u (n div k) \<le> n" unfolding q using p r by linarith
  assume "min u (n div k) < u"
  then have "min u (n div k) = q" using q by simp
  then show "n < k * min u (n div k) + k" using p r by simp
qed

lemma year_of_bounds:
  "days_before_year (year_of n) \<le> n \<and> n < days_before_year (year_of n + 1)"
proof -
  obtain a where a: "a = n div 146097" by simp
  obtain r where r: "r = n mod 146097" by simp
  obtain b where b: "b = min 3 (r div 36524)" by simp
  obtain s where s: "s = r - 36524 * b" by simp
  obtain c where c: "c = s div 1461" by simp
  obtain t where t: "t = s mod 1461" by simp
  obtain d where d: "d = min 3 (t div 365)" by simp
  have n: "n = 146097 * a + r" and r0: "0 \<le> r" "r < 146097" by (simp_all add: a r)
  have b1: "0 \<le> b" "b \<le> 3" "36524 * b \<le> r" "b < 3 \<Longrightarrow> r < 36524 * b + 36524"
    unfolding b using min_div_bounds [of 36524 r 3] r0 by simp_all
  have s0: "0 \<le> s" "s < 36525" "b < 3 \<Longrightarrow> s < 36524" using b1 r0 s by linarith+
  have c1: "s = 1461 * c + t" "0 \<le> t" "t < 1461" by (simp_all add: c t)
  then have c2: "0 \<le> c" "c \<le> 24" using s0 by linarith+
  have d1: "0 \<le> d" "d \<le> 3" "365 * d \<le> t" "d < 3 \<Longrightarrow> t < 365 * d + 365"
    unfolding d using min_div_bounds [of 365 t 3] c1 by simp_all
  have y: "year_of n = 400 * a + 100 * b + 4 * c + d + 1"
    by (simp only: year_of_def a b c d r s t Let_def)
  have lo: "days_before_year (year_of n) = 146097 * a + 36524 * b + 1461 * c + 365 * d"
    unfolding y by (rule days_before_year_cycles) (use b1 c2 d1 in simp_all)
  have hi: "n < days_before_year (year_of n + 1)"
  proof (cases "d < 3")
    case True
    then have "t < 365 * d + 365" by (rule d1)
    then show ?thesis
      using lo n s c1 days_before_year_Suc [of "year_of n"] by (simp add: days_in_year_def)
  next
    case False
    with d1 have d3: "d = 3" by simp
    show ?thesis
    proof (cases "c < 24")
      case True
      have "year_of n + 1 = 400 * a + 100 * b + 4 * (c + 1) + 0 + 1" by (simp add: y d3)
      then have "days_before_year (year_of n + 1) = 146097 * a + 36524 * b + 1461 * (c + 1)"
        using days_before_year_cycles [of b "c + 1" 0 a] True b1 c2 by simp
      then show ?thesis using n s c1 by simp
    next
      case False
      with c2 have c24: "c = 24" by simp
      show ?thesis
      proof (cases "b < 3")
        case True
        have "year_of n + 1 = 400 * a + 100 * (b + 1) + 4 * 0 + 0 + 1" by (simp add: y d3 c24)
        then have "days_before_year (year_of n + 1) = 146097 * a + 36524 * (b + 1)"
          using days_before_year_cycles [of "b + 1" 0 0 a] True b1 by simp
        then show ?thesis using n s s0 True by simp
      next
        case False
        with b1 have b3: "b = 3" by simp
        have "year_of n + 1 = 400 * (a + 1) + 100 * 0 + 4 * 0 + 0 + 1" by (simp add: y d3 c24 b3)
        then have "days_before_year (year_of n + 1) = 146097 * (a + 1)"
          using days_before_year_cycles [of 0 0 0 "a + 1"] by simp
        then show ?thesis using n r0 by simp
      qed
    qed
  qed
  from lo n s c1 d1 hi show ?thesis by simp
qed

lemma year_of_eq:
  "days_before_year y \<le> n \<Longrightarrow> n < days_before_year (y + 1) \<Longrightarrow> year_of n = y"
  using year_of_bounds [of n] year_unique by blast

subsection \<open>Months and days\<close>

lemma month_lengths_pos: "\<forall>l \<in> set (month_lengths y). 0 < l"
  by (auto simp: month_lengths_def)

lemma length_month_lengths [simp]: "length (month_lengths y) = 12"
  by (simp add: month_lengths_def)

lemma sum_month_lengths: "sum_list (month_lengths y) = days_in_year y"
  by (simp add: month_lengths_def days_in_year_def)

lemma split_months_bounds:
  assumes "0 \<le> n" "n < sum_list ls" "split_months m ls n = (m', k)"
  shows "m \<le> m' \<and> m' < m + int (length ls) \<and> 1 \<le> k \<and> k \<le> ls ! nat (m' - m) \<and>
    sum_list (take (nat (m' - m)) ls) + k = n + 1"
  using assms
proof (induction m ls n arbitrary: m' k rule: split_months.induct)
  case (2 m l ls n)
  show ?case
  proof (cases "n < l")
    case False
    with 2 have ih: "m + 1 \<le> m' \<and> m' < m + 1 + int (length ls) \<and> 1 \<le> k \<and>
        k \<le> ls ! nat (m' - (m + 1)) \<and>
        sum_list (take (nat (m' - (m + 1))) ls) + k = n - l + 1"
      by simp
    then have "nat (m' - m) = Suc (nat (m' - (m + 1)))" by linarith
    with ih show ?thesis by auto
  qed (use 2 in auto)
qed simp

lemma split_months_eq:
  assumes "\<forall>l \<in> set ls. 0 < l" "i < length ls" "1 \<le> k" "k \<le> ls ! i"
  shows "split_months m ls (sum_list (take i ls) + k - 1) = (m + int i, k)"
  using assms
proof (induction ls arbitrary: m i)
  case (Cons l ls)
  show ?case
  proof (cases i)
    case (Suc j)
    have "0 \<le> sum_list (take j ls)"
      using Cons.prems(1) by (intro sum_list_nonneg) (auto dest!: in_set_takeD)
    then have "\<not> l + sum_list (take j ls) + k - 1 < l" using Cons.prems(3) by simp
    with Cons.IH [of j "m + 1"] Cons.prems Suc show ?thesis by (simp add: algebra_simps)
  qed (use Cons.prems in simp)
qed simp

lemma toordinal_year_bounds:
  assumes "valid_date d"
  shows "days_before_year (year d) < toordinal d"
    "toordinal d \<le> days_before_year (year d + 1)"
    "split_months 1 (month_lengths (year d)) (toordinal d - 1 - days_before_year (year d)) =
      (month d, day d)"
proof -
  let ?i = "nat (month d - 1)" and ?ls = "month_lengths (year d)"
  have i: "?i < length ?ls" "1 \<le> day d" "day d \<le> ?ls ! ?i" "1 \<le> month d"
    using assms by (auto simp: valid_date_def days_in_month_def)
  have o: "toordinal d - 1 - days_before_year (year d) = sum_list (take ?i ?ls) + day d - 1"
    by (simp add: toordinal_def days_before_month_def)
  show "split_months 1 ?ls (toordinal d - 1 - days_before_year (year d)) = (month d, day d)"
    unfolding o using split_months_eq [OF month_lengths_pos i(1-3), of 1] i(4) by simp
  have nn: "0 \<le> sum_list (take ?i ?ls)" "0 \<le> sum_list (drop (Suc ?i) ?ls)"
    using month_lengths_pos [of "year d"]
    by (intro sum_list_nonneg; auto dest!: in_set_takeD in_set_dropD)+
  show "days_before_year (year d) < toordinal d" using o nn i by linarith
  have "?ls = take ?i ?ls @ ?ls ! ?i # drop (Suc ?i) ?ls" by (rule id_take_nth_drop [OF i(1)])
  then have "sum_list ?ls = sum_list (take ?i ?ls) + ?ls ! ?i + sum_list (drop (Suc ?i) ?ls)"
    by (metis add.assoc sum_list.Cons sum_list_append)
  then show "toordinal d \<le> days_before_year (year d + 1)"
    using o nn i days_before_year_Suc [of "year d"] sum_month_lengths [of "year d"] by linarith
qed

theorem fromordinal_toordinal: "valid_date d \<Longrightarrow> fromordinal (toordinal d) = d"
proof -
  assume d: "valid_date d"
  have "year_of (toordinal d - 1) = year d"
    using toordinal_year_bounds [OF d] by (intro year_of_eq) simp_all
  then show ?thesis
    using toordinal_year_bounds(3) [OF d] by (simp add: fromordinal_def Let_def)
qed

lemma days_before_year_1: "days_before_year 1 = 0"
  by (simp add: days_before_year_def)

lemma days_before_year_10000: "days_before_year 10000 = max_ordinal"
  by (simp add: days_before_year_def max_ordinal_def)

lemma year_of_range:
  assumes "0 \<le> n" "n < max_ordinal"
  shows "1 \<le> year_of n" "year_of n \<le> 9999"
proof -
  have b: "days_before_year (year_of n) \<le> n" "n < days_before_year (year_of n + 1)"
    using year_of_bounds by simp_all
  show "1 \<le> year_of n"
  proof (rule ccontr)
    assume "\<not> 1 \<le> year_of n"
    then have "days_before_year (year_of n + 1) \<le> days_before_year 1"
      using days_before_year_next_le [of "year_of n" 1] by simp
    with b assms show False by (simp add: days_before_year_1)
  qed
  show "year_of n \<le> 9999"
  proof (rule ccontr)
    assume "\<not> year_of n \<le> 9999"
    then have "days_before_year 10000 \<le> days_before_year (year_of n)"
      using days_before_year_next_le [of 9999 "year_of n"] by simp
    with b assms show False by (simp add: days_before_year_10000)
  qed
qed

lemma fromordinal_props:
  assumes "1 \<le> k" "k \<le> max_ordinal"
  shows "valid_date (fromordinal k)" "toordinal (fromordinal k) = k"
proof -
  let ?y = "year_of (k - 1)"
  obtain m' d where s: "split_months 1 (month_lengths ?y) (k - 1 - days_before_year ?y) = (m', d)"
    by (cases "split_months 1 (month_lengths ?y) (k - 1 - days_before_year ?y)") auto
  have b: "days_before_year ?y \<le> k - 1" "k - 1 < days_before_year (?y + 1)"
    using year_of_bounds [of "k - 1"] by blast+
  then have r: "0 \<le> k - 1 - days_before_year ?y"
    "k - 1 - days_before_year ?y < sum_list (month_lengths ?y)"
    using days_before_year_Suc [of ?y] by (simp_all add: sum_month_lengths)
  have f: "fromordinal k = YMD ?y m' d" by (simp add: fromordinal_def Let_def s)
  have sb: "1 \<le> m'" "m' < 13" "1 \<le> d" "d \<le> month_lengths ?y ! nat (m' - 1)"
    "sum_list (take (nat (m' - 1)) (month_lengths ?y)) + d = k - days_before_year ?y"
    using split_months_bounds [OF r s] by simp_all
  show "valid_date (fromordinal k)"
    using sb year_of_range [of "k - 1"] assms
    by (simp add: f valid_date_def days_in_month_def)
  show "toordinal (fromordinal k) = k"
    using sb by (simp add: f toordinal_def days_before_month_def)
qed

lemma toordinal_range:
  assumes "valid_date d"
  shows "1 \<le> toordinal d" "toordinal d \<le> max_ordinal"
proof -
  have y: "1 \<le> year d" "year d \<le> 9999" using assms by (auto simp: valid_date_def)
  have "days_before_year 1 \<le> days_before_year (year d)"
    using y days_before_year_mono_add [of 1 "nat (year d - 1)"] by simp
  then show "1 \<le> toordinal d"
    using toordinal_year_bounds [OF assms] by (simp add: days_before_year_1)
  have "days_before_year (year d + 1) \<le> days_before_year 10000"
    using y days_before_year_mono_add [of "year d + 1" "nat (9999 - year d)"] by simp
  then show "toordinal d \<le> max_ordinal"
    using toordinal_year_bounds [OF assms] by (simp add: days_before_year_10000)
qed

subsection \<open>Order\<close>

lemma days_before_month_mono:
  assumes "1 \<le> m" "m < m'" "m' \<le> 12"
  shows "days_before_month y m + days_in_month y m \<le> days_before_month y m'"
proof -
  let ?ls = "month_lengths y" and ?i = "nat (m - 1)" and ?j = "nat (m' - 1)"
  have ij: "Suc ?i \<le> ?j" "?i < length ?ls" using assms by auto
  have "take ?j ?ls = take (Suc ?i) ?ls @ take (?j - Suc ?i) (drop (Suc ?i) ?ls)"
    by (metis ij(1) le_add_diff_inverse take_add)
  moreover have "0 \<le> sum_list (take (?j - Suc ?i) (drop (Suc ?i) ?ls))"
    using month_lengths_pos [of y]
    by (intro sum_list_nonneg) (auto dest!: in_set_takeD in_set_dropD)
  moreover have "take (Suc ?i) ?ls = take ?i ?ls @ [?ls ! ?i]" by (rule take_Suc_conv_app_nth [OF ij(2)])
  ultimately show ?thesis by (simp add: days_before_month_def days_in_month_def)
qed

lemma toordinal_less:
  assumes "valid_date a" "valid_date b" "a < b"
  shows "toordinal a < toordinal b"
proof -
  consider "year a < year b" | "year a = year b" "month a < month b"
    | "year a = year b" "month a = month b" "day a < day b"
    using assms(3) by (auto simp: less_date_def)
  then show ?thesis
  proof cases
    case 1
    then show ?thesis
      using toordinal_year_bounds [OF assms(1)] toordinal_year_bounds [OF assms(2)]
        days_before_year_next_le [of "year a" "year b"] by linarith
  next
    case 2
    then have "days_before_month (year a) (month a) + days_in_month (year a) (month a)
        \<le> days_before_month (year a) (month b)"
      using assms by (intro days_before_month_mono) (auto simp: valid_date_def)
    with 2 assms show ?thesis by (auto simp: toordinal_def valid_date_def)
  qed (simp add: toordinal_def)
qed

lemma toordinal_less_iff:
  "valid_date a \<Longrightarrow> valid_date b \<Longrightarrow> toordinal a < toordinal b \<longleftrightarrow> a < b"
  by (metis less_irrefl linorder_less_linear order_less_asym toordinal_less)

lemma toordinal_inject:
  "valid_date a \<Longrightarrow> valid_date b \<Longrightarrow> toordinal a = toordinal b \<longleftrightarrow> a = b"
  by (metis fromordinal_toordinal)

subsection \<open>Adding days\<close>

lemma mk_date_Inr: "mk_date y m d = Inr a \<longleftrightarrow> a = YMD y m d \<and> valid_date a"
  by (auto simp: mk_date_def)

lemma date_add_Inr:
  assumes "date_add d n = Inr e"
  shows "valid_date e" "toordinal e = toordinal d + n" "toordinal d + n \<le> max_ordinal"
    "1 \<le> toordinal d + n"
  using assms fromordinal_props by (auto simp: date_add_def Let_def split: if_splits)

lemma date_add_eq:
  assumes "valid_date e" "toordinal e = toordinal d + n"
  shows "date_add d n = Inr e"
  using toordinal_range [OF assms(1)] fromordinal_toordinal [OF assms(1)]
  by (simp add: date_add_def Let_def assms(2) [symmetric])

section \<open>The ISO calendar\<close>

definition iso_week1_monday :: "int \<Rightarrow> int" where
  "iso_week1_monday y =
     (let firstday = days_before_year y + 1;
          firstweekday = (firstday + 6) mod 7;
          week1monday = firstday - firstweekday
      in if firstweekday > 3 then week1monday + 7 else week1monday)"

definition isocalendar :: "date \<Rightarrow> int \<times> int \<times> int" where
  "isocalendar d =
     (let y = year d;
          today = toordinal d;
          week = (today - iso_week1_monday y) div 7;
          weekday = (today - iso_week1_monday y) mod 7
      in if week < 0 then
           (y - 1, (today - iso_week1_monday (y - 1)) div 7 + 1,
            (today - iso_week1_monday (y - 1)) mod 7 + 1)
         else if 52 \<le> week \<and> iso_week1_monday (y + 1) \<le> today then (y + 1, 1, weekday + 1)
         else (y, week + 1, weekday + 1))"

lemma iso_week1_monday_bounds:
  "days_before_year y - 2 \<le> iso_week1_monday y" "iso_week1_monday y \<le> days_before_year y + 4"
  "iso_week1_monday y mod 7 = 1"
proof -
  obtain f q r where f: "f = days_before_year y + 1" and q: "f + 6 = 7 * q + r" and r: "0 \<le> r" "r < 7"
    using that [of "days_before_year y + 1" "(days_before_year y + 1 + 6) div 7"
        "(days_before_year y + 1 + 6) mod 7"]
    by (simp only: mult_div_mod_eq)
  have "(f + 6) mod 7 = r" using q r by (rule int_mod_pos_eq)
  then have w: "iso_week1_monday y = (if r > 3 then f - r + 7 else f - r)"
    by (simp add: iso_week1_monday_def Let_def f)
  show "days_before_year y - 2 \<le> iso_week1_monday y" "iso_week1_monday y \<le> days_before_year y + 4"
    using w f r by (auto split: if_splits)
  have fr: "f - r = 7 * (q - 1) + 1" "f - r + 7 = 7 * q + 1" using q by simp_all
  have "(f - r) mod 7 = 1" "(f - r + 7) mod 7 = 1"
    using int_mod_pos_eq [OF fr(1)] int_mod_pos_eq [OF fr(2)] by simp_all
  with w show "iso_week1_monday y mod 7 = 1" by (simp split: if_splits)
qed

lemma iso_year_length:
  "iso_week1_monday y + 364 \<le> iso_week1_monday (y + 1)"
  "iso_week1_monday (y + 1) \<le> iso_week1_monday y + 371"
proof -
  note b = iso_week1_monday_bounds [of y] iso_week1_monday_bounds [of "y + 1"]
    and s = days_before_year_Suc [of y]
  have d: "365 \<le> days_in_year y" "days_in_year y \<le> 366" by (simp_all add: days_in_year_def)
  obtain p q where p: "iso_week1_monday y = 7 * p + 1" and q: "iso_week1_monday (y + 1) = 7 * q + 1"
    using b(3,6) by (metis mult_div_mod_eq)
  have "7 * q + 1 - (7 * p + 1) \<ge> 359" "7 * q + 1 - (7 * p + 1) \<le> 372"
    using b(1,2,4,5) s d p q by linarith+
  then have "p + 52 \<le> q" "q \<le> p + 53" by linarith+
  then show "iso_week1_monday y + 364 \<le> iso_week1_monday (y + 1)"
    "iso_week1_monday (y + 1) \<le> iso_week1_monday y + 371" using p q by linarith+
qed

definition iso_coords :: "int \<Rightarrow> int \<times> int \<times> int \<Rightarrow> bool" where
  "iso_coords n c =
     (case c of (y, w, k) \<Rightarrow>
        iso_week1_monday y \<le> n \<and> n < iso_week1_monday (y + 1) \<and>
        n = iso_week1_monday y + 7 * (w - 1) + (k - 1) \<and> 1 \<le> k \<and> k \<le> 7)"

lemma iso_coords_divmod:
  assumes "iso_week1_monday y \<le> n" "n < iso_week1_monday (y + 1)"
  shows "iso_coords n (y, (n - iso_week1_monday y) div 7 + 1, (n - iso_week1_monday y) mod 7 + 1)"
proof -
  obtain q r where q: "(n - iso_week1_monday y) div 7 = q" and r: "(n - iso_week1_monday y) mod 7 = r"
    by simp
  have "n - iso_week1_monday y = 7 * q + r" unfolding q [symmetric] r [symmetric] by simp
  moreover have "0 \<le> r" "r < 7" unfolding r [symmetric] by simp_all
  ultimately show ?thesis using assms by (simp add: iso_coords_def q r)
qed

lemma iso_week1_monday_mono: "y < y' \<Longrightarrow> iso_week1_monday (y + 1) \<le> iso_week1_monday y'"
proof -
  have "iso_week1_monday (y + 1) \<le> iso_week1_monday (y + 1 + int k)" for k
  proof (induction k)
    case (Suc k)
    then show ?case using iso_year_length(1) [of "y + 1 + int k"] by (simp add: ac_simps)
  qed simp
  from this [of "nat (y' - y - 1)"] show "y < y' \<Longrightarrow> ?thesis" by simp
qed

lemma iso_coords_unique:
  assumes "iso_coords n (y, w, k)" "iso_coords n (y', w', k')"
  shows "y = y'" "w = w'" "k = k'"
proof -
  show y: "y = y'"
  proof (rule ccontr)
    assume "y \<noteq> y'"
    then consider "y < y'" | "y' < y" by linarith
    then show False
      using assms iso_week1_monday_mono [of y y'] iso_week1_monday_mono [of y' y]
      by cases (auto simp: iso_coords_def)
  qed
  have "7 * w + k = 7 * w' + k'" "1 \<le> k" "k \<le> 7" "1 \<le> k'" "k' \<le> 7"
    using assms y by (auto simp: iso_coords_def)
  then have "w = w'" by linarith
  then show "w = w'" "k = k'" using \<open>7 * w + k = 7 * w' + k'\<close> by simp_all
qed

lemma isocalendar_coords:
  assumes "valid_date d"
  shows "iso_coords (toordinal d) (isocalendar d)"
proof -
  let ?y = "year d" and ?n = "toordinal d"
  let ?week = "(?n - iso_week1_monday ?y) div 7"
  note b = toordinal_year_bounds(1,2) [OF assms]
  have w: "?week < 0 \<longleftrightarrow> ?n < iso_week1_monday ?y" by (simp add: neg_imp_zdiv_neg_iff pos_imp_zdiv_neg_iff)
  consider (before) "?week < 0" | (after) "\<not> ?week < 0" "52 \<le> ?week" "iso_week1_monday (?y + 1) \<le> ?n"
    | (within) "\<not> ?week < 0" "\<not> (52 \<le> ?week \<and> iso_week1_monday (?y + 1) \<le> ?n)" by blast
  then show ?thesis
  proof cases
    case before
    have "iso_week1_monday (?y - 1) \<le> ?n"
      using b(1) iso_week1_monday_bounds(2) [of "?y - 1"] days_before_year_Suc [of "?y - 1"]
      by (simp add: days_in_year_def split: if_splits)
    moreover have "?n < iso_week1_monday (?y - 1 + 1)" using before w by simp
    ultimately have "iso_coords ?n (?y - 1, (?n - iso_week1_monday (?y - 1)) div 7 + 1,
        (?n - iso_week1_monday (?y - 1)) mod 7 + 1)"
      by (rule iso_coords_divmod)
    with before show ?thesis by (simp add: isocalendar_def Let_def)
  next
    case after
    let ?z = "?y + 1"
    have d: "?n - iso_week1_monday ?z \<le> 2"
      using b(2) iso_week1_monday_bounds(1) [of ?z] by simp
    have n: "?n < iso_week1_monday (?z + 1)" using d iso_year_length(1) [of ?z] by linarith
    have "(?n - iso_week1_monday ?z) div 7 = 0"
      using after d by (intro div_pos_pos_trivial) simp_all
    moreover have "(?n - iso_week1_monday ?z) mod 7 = (?n - iso_week1_monday ?y) mod 7"
      using iso_week1_monday_bounds(3) [of ?y] iso_week1_monday_bounds(3) [of ?z]
      by (metis mod_diff_right_eq)
    ultimately have "iso_coords ?n (?z, 1, (?n - iso_week1_monday ?y) mod 7 + 1)"
      using iso_coords_divmod [OF after(3) n] by simp
    with after show ?thesis by (simp add: isocalendar_def Let_def)
  next
    case within
    have "?n < iso_week1_monday (?y + 1)"
    proof (rule ccontr)
      assume a: "\<not> ?n < iso_week1_monday (?y + 1)"
      then have "52 * 7 \<le> ?n - iso_week1_monday ?y" using iso_year_length(1) [of ?y] by linarith
      then have "52 \<le> ?week" by (metis zdiv_mono1 zero_less_numeral nonzero_mult_div_cancel_right zero_neq_numeral)
      with within a show False by simp
    qed
    with within w have "iso_coords ?n (?y, ?week + 1, (?n - iso_week1_monday ?y) mod 7 + 1)"
      by (intro iso_coords_divmod) simp_all
    with within show ?thesis by (auto simp: isocalendar_def Let_def)
  qed
qed

lemma isocalendar_eq_iff:
  assumes "valid_date d"
  shows "isocalendar d = (y, w, k) \<longleftrightarrow> iso_coords (toordinal d) (y, w, k)"
proof -
  obtain y' w' k' where c: "isocalendar d = (y', w', k')" by (cases "isocalendar d") auto
  then have "iso_coords (toordinal d) (y', w', k')" using isocalendar_coords [OF assms] by simp
  then show ?thesis using iso_coords_unique c by (metis prod.inject)
qed

section \<open>Formatting\<close>

definition pad2 :: "int \<Rightarrow> string" where
  "pad2 n = (if 0 \<le> n \<and> n < 10 then CHR ''0'' # int_str n else int_str n)"

text \<open>\<open>strftime\<close> with \<open>%Y\<close>, \<open>%m\<close> and \<open>%d\<close>; the C library does not pad the year.\<close>

definition strftime_Y :: "date \<Rightarrow> string" where
  "strftime_Y d = int_str (year d)"

definition strftime_Ym :: "date \<Rightarrow> string" where
  "strftime_Ym d = strftime_Y d @ ''-'' @ pad2 (month d)"

definition strftime_Ymd :: "date \<Rightarrow> string" where
  "strftime_Ymd d = strftime_Ym d @ ''-'' @ pad2 (day d)"

end
