(* ===== verification/DateIntervals.thy ===== *)
theory DateIntervals
  imports Dates
begin

text \<open>
  The date intervals of \<open>_core/utils/date_interval.py\<close>: the half-open ranges of days with their
  five classes, iteration, comparison, stepping to the neighbouring interval, parsing and
  printing.  The lemmas show that iteration enumerates exactly the days of the range, that the
  brute-force search of \<open>Week\<close> finds the week of the ISO calendar, that \<open>next\<close> and \<open>prev\<close> are
  inverse, and that printing and parsing are inverse.
\<close>

section \<open>Intervals\<close>

text \<open>One constructor per subclass of \<open>DateInterval\<close>.\<close>

datatype interval_class = Date | Week | Month | Year | Custom

record date_interval =
  cls :: interval_class
  date_a :: date
  date_b :: date

definition interval :: "interval_class \<Rightarrow> date \<Rightarrow> date \<Rightarrow> date_interval" where
  "interval c a b = \<lparr>cls = c, date_a = a, date_b = b\<rparr>"

lemma interval_sel [simp]:
  "cls (interval c a b) = c" "date_a (interval c a b) = a" "date_b (interval c a b) = b"
  by (simp_all add: interval_def)

lemma interval_inject [simp]: "interval c a b = interval c' a' b' \<longleftrightarrow> c = c' \<and> a = a' \<and> b = b'"
  by (simp add: interval_def)

subsection \<open>Constructors\<close>

definition date_init :: "int \<Rightarrow> int \<Rightarrow> int \<Rightarrow> date_interval result" where
  "date_init y m d =
     rbind (mk_date y m d) (\<lambda>a.
     rbind (date_add a 1) (\<lambda>b. Inr (interval Date a b)))"

text \<open>The loop over the day offsets, and the loop's \<open>else\<close> branch.\<close>

fun week_search :: "date \<Rightarrow> int \<Rightarrow> int \<Rightarrow> int list \<Rightarrow> date result" where
  "week_search jan1 y w [] = Inl (ValueError ''Invalid week'')"
| "week_search jan1 y w (d # ds) =
     rbind (date_add jan1 d) (\<lambda>date.
       if isocalendar date = (y, w, 1) then Inr date else week_search jan1 y w ds)"

definition week_offsets :: "int list" where
  "week_offsets = [-10..369]"

definition week_init :: "int \<Rightarrow> int \<Rightarrow> date_interval result" where
  "week_init y w =
     rbind (mk_date y 1 1) (\<lambda>jan1.
     rbind (week_search jan1 y w week_offsets) (\<lambda>a.
     rbind (date_add a 7) (\<lambda>b. Inr (interval Week a b))))"

definition month_init :: "int \<Rightarrow> int \<Rightarrow> date_interval result" where
  "month_init y m =
     rbind (mk_date y m 1) (\<lambda>a.
     rbind (mk_date (y + m div 12) (1 + m mod 12) 1) (\<lambda>b. Inr (interval Month a b)))"

definition year_init :: "int \<Rightarrow> date_interval result" where
  "year_init y =
     rbind (mk_date y 1 1) (\<lambda>a.
     rbind (mk_date (y + 1) 1 1) (\<lambda>b. Inr (interval Year a b)))"

definition from_date :: "interval_class \<Rightarrow> date \<Rightarrow> date_interval result" where
  "from_date c d =
     (case c of
        Date \<Rightarrow> date_init (year d) (month d) (day d)
      | Week \<Rightarrow> (case isocalendar d of (y, w, k) \<Rightarrow> week_init y w)
      | Month \<Rightarrow> month_init (year d) (month d)
      | Year \<Rightarrow> year_init (year d)
      | Custom \<Rightarrow> Inl (NotImplementedError ''from_date''))"

definition next_interval :: "date_interval \<Rightarrow> date_interval result" where
  "next_interval i = from_date (cls i) (date_b i)"

definition prev_interval :: "date_interval \<Rightarrow> date_interval result" where
  "prev_interval i = rbind (date_add (date_a i) (-1)) (from_date (cls i))"

subsection \<open>Iteration\<close>

function dates_between :: "date \<Rightarrow> date \<Rightarrow> date list result" where
  "dates_between d b =
     (if d < b
      then (case date_add d 1 of Inl e \<Rightarrow> Inl e | Inr d' \<Rightarrow> rmap (Cons d) (dates_between d' b))
      else Inr [])"
  by auto
termination
  by (relation "measure (\<lambda>(d, b). nat (max_ordinal + 1 - toordinal d))")
    (auto dest: date_add_Inr(2,3))

declare dates_between.simps [simp del]

definition dates :: "date_interval \<Rightarrow> date list result" where
  "dates i = dates_between (date_a i) (date_b i)"

text \<open>A moment is a date with an hour; the generator yields them in order.\<close>

definition hours :: "date_interval \<Rightarrow> (date \<times> int) list result" where
  "hours i = rmap (\<lambda>ds. concat (map (\<lambda>d. map (Pair d) [0..23]) ds)) (dates i)"

definition contains_date :: "date_interval \<Rightarrow> date \<Rightarrow> bool result" where
  "contains_date i d = rmap (\<lambda>ds. d \<in> set ds) (dates i)"

subsection \<open>Comparison\<close>

text \<open>
  \<open>isinstance(self, type(other))\<close> between the five classes means the same class; the pairs of
  dates compare lexicographically.
\<close>

definition type_mismatch :: "'a result" where
  "type_mismatch = Inl (TypeError ''Date interval type mismatch'')"

definition interval_lt :: "date_interval \<Rightarrow> date_interval \<Rightarrow> bool result" where
  "interval_lt i j =
     (if cls i \<noteq> cls j then type_mismatch
      else Inr (date_a i < date_a j \<or> date_a i = date_a j \<and> date_b i < date_b j))"

definition interval_le :: "date_interval \<Rightarrow> date_interval \<Rightarrow> bool result" where
  "interval_le i j =
     (if cls i \<noteq> cls j then type_mismatch
      else Inr (date_a i < date_a j \<or> date_a i = date_a j \<and> date_b i \<le> date_b j))"

definition interval_gt :: "date_interval \<Rightarrow> date_interval \<Rightarrow> bool result" where
  "interval_gt i j =
     (if cls i \<noteq> cls j then type_mismatch
      else Inr (date_a i > date_a j \<or> date_a i = date_a j \<and> date_b i > date_b j))"

definition interval_ge :: "date_interval \<Rightarrow> date_interval \<Rightarrow> bool result" where
  "interval_ge i j =
     (if cls i \<noteq> cls j then type_mismatch
      else Inr (date_a i > date_a j \<or> date_a i = date_a j \<and> date_b i \<ge> date_b j))"

definition interval_eq :: "date_interval \<Rightarrow> date_interval \<Rightarrow> bool result" where
  "interval_eq i j =
     (if cls i \<noteq> cls j then type_mismatch else Inr (date_a i = date_a j \<and> date_b i = date_b j))"

definition interval_ne :: "date_interval \<Rightarrow> date_interval \<Rightarrow> bool result" where
  "interval_ne i j = rmap Not (interval_eq i j)"

text \<open>\<open>(self > other) - (self < other)\<close>.\<close>

definition interval_cmp :: "date_interval \<Rightarrow> date_interval \<Rightarrow> int result" where
  "interval_cmp i j =
     rbind (interval_gt i j) (\<lambda>g. rmap (\<lambda>l. of_bool g - of_bool l) (interval_lt i j))"

subsection \<open>Printing and parsing\<close>

definition to_string :: "date_interval \<Rightarrow> string" where
  "to_string i =
     (case cls i of
        Date \<Rightarrow> strftime_Ymd (date_a i)
      | Week \<Rightarrow> (case isocalendar (date_a i) of (y, w, k) \<Rightarrow> int_str y @ ''-W'' @ pad2 w)
      | Month \<Rightarrow> strftime_Ym (date_a i)
      | Year \<Rightarrow> strftime_Y (date_a i)
      | Custom \<Rightarrow> strftime_Ymd (date_a i) @ ''-'' @ strftime_Ymd (date_b i))"

text \<open>
  \<open>re.match(p, s)\<close> for the patterns of the file, with \<open>#\<close> for \<open>\d\<close>; the closing \<open>$\<close> also
  matches before a final newline.
\<close>

fun re_match :: "string \<Rightarrow> string \<Rightarrow> bool" where
  "re_match [] s = (s = [] \<or> s = [CHR 0x0A])"
| "re_match (p # ps) [] = False"
| "re_match (p # ps) (c # cs) = ((if p = CHR ''#'' then is_digit c else c = p) \<and> re_match ps cs)"

text \<open>\<open>s.split("-W")\<close>: a two-character separator.\<close>

fun split_on2 :: "char \<Rightarrow> char \<Rightarrow> string \<Rightarrow> string list" where
  "split_on2 a b (x # y # xs) =
     (if x = a \<and> y = b then [] # split_on2 a b xs
      else (case split_on2 a b (y # xs) of [] \<Rightarrow> [[x]] | p # ps \<Rightarrow> (x # p) # ps))"
| "split_on2 a b xs = [xs]"

definition parse :: "interval_class \<Rightarrow> string \<Rightarrow> date_interval option result" where
  "parse c s =
     (case c of
        Date \<Rightarrow>
          if re_match ''####-##-##'' s then
            rbind (mapM parse_int (split_on (CHR ''-'') s)) (\<lambda>x.
              rmap Some (date_init (x ! 0) (x ! 1) (x ! 2)))
          else Inr None
      | Week \<Rightarrow>
          if re_match ''####-W##'' s then
            rbind (mapM parse_int (split_on2 (CHR ''-'') (CHR ''W'') s)) (\<lambda>x.
              rmap Some (week_init (x ! 0) (x ! 1)))
          else Inr None
      | Month \<Rightarrow>
          if re_match ''####-##'' s then
            rbind (mapM parse_int (split_on (CHR ''-'') s)) (\<lambda>x.
              rmap Some (month_init (x ! 0) (x ! 1)))
          else Inr None
      | Year \<Rightarrow>
          if re_match ''####'' s then
            rbind (parse_int s) (\<lambda>y. rmap Some (year_init y))
          else Inr None
      | Custom \<Rightarrow>
          if re_match ''####-##-##-####-##-##'' s then
            rbind (mapM parse_int (split_on (CHR ''-'') s)) (\<lambda>x.
            rbind (mk_date (x ! 0) (x ! 1) (x ! 2)) (\<lambda>a.
            rbind (mk_date (x ! 3) (x ! 4) (x ! 5)) (\<lambda>b.
              Inr (Some (interval Custom a b)))))
          else Inr None)"

section \<open>Iteration enumerates the range\<close>

lemma dates_between_eq:
  assumes "valid_date a" "valid_date b"
  shows "dates_between a b = Inr (map fromordinal [toordinal a..toordinal b - 1])"
  using assms
proof (induction a b rule: dates_between.induct)
  case (1 d b)
  show ?case
  proof (cases "d < b")
    case True
    then have o: "toordinal d < toordinal b" using 1 toordinal_less by blast
    let ?e = "fromordinal (toordinal d + 1)"
    have k: "1 \<le> toordinal d + 1" "toordinal d + 1 \<le> max_ordinal"
      using o toordinal_range 1(2,3) by fastforce+
    note e = fromordinal_props [OF k]
    have add: "date_add d 1 = Inr ?e" using e by (intro date_add_eq)
    have "[toordinal d..toordinal b - 1] = toordinal d # [toordinal d + 1..toordinal b - 1]"
      using o by (simp add: upto_rec1)
    then show ?thesis
      using 1(1) [OF True add e(1) 1(3)] True add fromordinal_toordinal [OF 1(2)] e(2)
      by (subst dates_between.simps) simp
  next
    case False
    then have "\<not> toordinal d < toordinal b" using 1 toordinal_less_iff by blast
    with False show ?thesis by (subst dates_between.simps) simp
  qed
qed

lemma dates_outcome:
  assumes "valid_date (date_a i)" "valid_date (date_b i)"
  shows "\<exists>ds. dates i = Inr ds \<and> sorted_wrt (<) ds \<and>
    length ds = nat (toordinal (date_b i) - toordinal (date_a i)) \<and>
    set ds = {d. valid_date d \<and> date_a i \<le> d \<and> d < date_b i} \<and>
    (\<forall>d. contains_date i d = Inr (d \<in> set ds))"
proof -
  let ?a = "toordinal (date_a i)" and ?b = "toordinal (date_b i)"
  let ?ds = "map fromordinal [?a..?b - 1]"
  have d: "dates i = Inr ?ds" unfolding dates_def by (rule dates_between_eq [OF assms])
  note ra = toordinal_range [OF assms(1)] and rb = toordinal_range [OF assms(2)]
  have sub: "1 \<le> k \<and> k \<le> max_ordinal" if "?a \<le> k" "k \<le> ?b - 1" for k
    using that ra rb by linarith
  have "sorted_wrt (\<lambda>x y. fromordinal x < fromordinal y) [?a..?b - 1]"
  proof (rule sorted_wrt_mono_rel [where P = "(<)"])
    fix x y :: int
    assume "x \<in> set [?a..?b - 1]" "y \<in> set [?a..?b - 1]" "x < y"
    then show "fromordinal x < fromordinal y"
      using sub [of x] sub [of y] fromordinal_props [of x] fromordinal_props [of y]
        toordinal_less_iff [of "fromordinal x" "fromordinal y"] by simp
  qed simp
  then have s: "sorted_wrt (<) ?ds" by (simp add: sorted_wrt_map)
  have "d \<in> set ?ds \<longleftrightarrow> valid_date d \<and> date_a i \<le> d \<and> d < date_b i" for d
  proof
    assume "d \<in> set ?ds"
    then obtain k where k: "?a \<le> k" "k \<le> ?b - 1" "d = fromordinal k" by auto
    note f = fromordinal_props [of k] sub [OF k(1,2)]
    then have v: "valid_date d" "toordinal d = k" using k by simp_all
    then show "valid_date d \<and> date_a i \<le> d \<and> d < date_b i"
      using k v toordinal_less_iff [OF v(1) assms(1)] toordinal_less_iff [OF v(1) assms(2)]
      by auto
  next
    assume v: "valid_date d \<and> date_a i \<le> d \<and> d < date_b i"
    then have "?a \<le> toordinal d" "toordinal d \<le> ?b - 1"
      using toordinal_less_iff [of d "date_a i"] toordinal_less_iff [of d "date_b i"] assms by auto
    then show "d \<in> set ?ds" using fromordinal_toordinal v by (force simp: image_iff)
  qed
  then have "set ?ds = {d. valid_date d \<and> date_a i \<le> d \<and> d < date_b i}" by blast
  with d s show ?thesis by (intro exI [of _ ?ds]) (simp add: contains_date_def)
qed

section \<open>The search for an ISO week\<close>

definition week_monday :: "int \<Rightarrow> int \<Rightarrow> int" where
  "week_monday y w = iso_week1_monday y + 7 * (w - 1)"

definition iso_week_exists :: "int \<Rightarrow> int \<Rightarrow> bool" where
  "iso_week_exists y w = (1 \<le> w \<and> week_monday y w < iso_week1_monday (y + 1))"

lemma isocalendar_monday_iff:
  "valid_date d \<Longrightarrow>
     isocalendar d = (y, w, 1) \<longleftrightarrow> iso_week_exists y w \<and> toordinal d = week_monday y w"
  by (auto simp: isocalendar_eq_iff iso_coords_def iso_week_exists_def week_monday_def)

lemma week_search_found:
  assumes "valid_date jan1" "iso_week_exists y w" "week_monday y w \<le> max_ordinal"
    "1 \<le> toordinal jan1 + i" "toordinal jan1 + i \<le> week_monday y w"
    "week_monday y w \<le> toordinal jan1 + j"
  shows "week_search jan1 y w [i..j] = Inr (fromordinal (week_monday y w))"
  using assms(4-6)
proof (induction "nat (week_monday y w - toordinal jan1 - i)" arbitrary: i)
  case 0
  then have m: "toordinal jan1 + i = week_monday y w" by linarith
  note f = fromordinal_props [of "week_monday y w"]
  have "date_add jan1 i = Inr (fromordinal (week_monday y w))"
    using 0 m assms(3) f by (intro date_add_eq) simp_all
  moreover have "isocalendar (fromordinal (week_monday y w)) = (y, w, 1)"
    using 0 m assms(2,3) f by (simp add: isocalendar_monday_iff)
  moreover have "[i..j] = i # [i + 1..j]" using 0 m by (simp add: upto_rec1)
  ultimately show ?case by simp
next
  case (Suc n)
  then have lt: "toordinal jan1 + i < week_monday y w" by linarith
  let ?k = "toordinal jan1 + i"
  have k: "1 \<le> ?k" "?k \<le> max_ordinal" using Suc lt assms(3) by linarith+
  note f = fromordinal_props [OF k]
  have "date_add jan1 i = Inr (fromordinal ?k)" using f by (intro date_add_eq) simp_all
  moreover have "isocalendar (fromordinal ?k) \<noteq> (y, w, 1)"
    using f lt by (simp add: isocalendar_monday_iff)
  moreover have "[i..j] = i # [i + 1..j]" using Suc lt by (simp add: upto_rec1)
  moreover have "week_search jan1 y w [i + 1..j] = Inr (fromordinal (week_monday y w))"
    using Suc lt by (intro Suc.hyps) linarith+
  ultimately show ?case by simp
qed

lemma week_search_none:
  assumes "valid_date jan1" "\<not> iso_week_exists y w"
    "\<forall>d \<in> set ds. 1 \<le> toordinal jan1 + d \<and> toordinal jan1 + d \<le> max_ordinal"
  shows "week_search jan1 y w ds = Inl (ValueError ''Invalid week'')"
  using assms(3)
proof (induction ds)
  case (Cons d ds)
  let ?k = "toordinal jan1 + d"
  have k: "1 \<le> ?k" "?k \<le> max_ordinal" using Cons by simp_all
  note f = fromordinal_props [OF k]
  have "date_add jan1 d = Inr (fromordinal ?k)" using f by (intro date_add_eq) simp_all
  moreover have "isocalendar (fromordinal ?k) \<noteq> (y, w, 1)"
    using f assms(2) by (simp add: isocalendar_monday_iff)
  ultimately show ?case using Cons by simp
qed simp

lemma week_search_Inr:
  "week_search jan1 y w ds = Inr a \<Longrightarrow> valid_date a \<and> isocalendar a = (y, w, 1)"
  by (induction ds) (auto simp: result_simps dest: date_add_Inr(1) split: if_splits)

lemma jan1:
  "1 \<le> y \<Longrightarrow> y \<le> 9999 \<Longrightarrow> valid_date (YMD y 1 1)"
  "toordinal (YMD y 1 1) = days_before_year y + 1"
  by (simp_all add: valid_date_def days_in_month_def month_lengths_def toordinal_def
      days_before_month_def)

lemma week_monday_range:
  assumes "iso_week_exists y w"
  shows "days_before_year y - 2 \<le> week_monday y w" "week_monday y w \<le> days_before_year y + 363"
proof -
  note b = iso_week1_monday_bounds [of y] iso_week1_monday_bounds [of "y + 1"]
  have e: "1 \<le> w" "week_monday y w < iso_week1_monday (y + 1)"
    using assms by (simp_all add: iso_week_exists_def)
  show "days_before_year y - 2 \<le> week_monday y w" using e b by (simp add: week_monday_def)
  obtain p q where pq: "iso_week1_monday y = 7 * p + 1" "iso_week1_monday (y + 1) = 7 * q + 1"
    using b(3,6) by (metis mult_div_mod_eq)
  then have "7 * p + 7 * w - 6 < 7 * q + 1" using e(2) by (simp add: week_monday_def)
  then have "p + w \<le> q" by linarith
  then have "week_monday y w + 7 \<le> iso_week1_monday (y + 1)"
    using pq by (simp add: week_monday_def)
  then show "week_monday y w \<le> days_before_year y + 363"
    using b(5) days_before_year_Suc [of y] by (simp add: days_in_year_def split: if_splits)
qed

lemma week_init_year1: "week_init 1 w = Inl OverflowError"
proof -
  have m: "mk_date 1 1 1 = Inr (YMD 1 1 1)" using jan1(1) [of 1] by (simp add: mk_date_def)
  obtain ds where o: "week_offsets = -10 # ds"
    using upto_rec1 [of "-10" 369] unfolding week_offsets_def by auto
  have d: "date_add (YMD 1 1 1) (-10) = Inl OverflowError"
    by (simp add: date_add_def jan1(2) days_before_year_1)
  show ?thesis by (simp only: week_init_def m o d rbind.simps week_search.simps)
qed

lemma week_init_found:
  assumes "2 \<le> y" "y \<le> 9999" "iso_week_exists y w" "week_monday y w + 7 \<le> max_ordinal"
  shows "week_init y w =
    Inr (interval Week (fromordinal (week_monday y w)) (fromordinal (week_monday y w + 7)))"
proof -
  note r = week_monday_range [OF assms(3)] and v = jan1(1) [of y] and o = jan1(2) [of y]
  have y: "365 \<le> days_before_year y"
    using days_before_year_mono_add [of 1 "nat (y - 1)"] assms(1) by (simp add: days_before_year_1)
  have "week_search (YMD y 1 1) y w week_offsets = Inr (fromordinal (week_monday y w))"
    unfolding week_offsets_def by (rule week_search_found) (use assms r v o y in simp_all)
  moreover have "date_add (fromordinal (week_monday y w)) 7 = Inr (fromordinal (week_monday y w + 7))"
    using fromordinal_props [of "week_monday y w"] fromordinal_props [of "week_monday y w + 7"]
      r y assms(4) by (intro date_add_eq) simp_all
  ultimately show ?thesis using v assms by (simp add: week_init_def mk_date_def)
qed

lemma week_init_none:
  assumes "2 \<le> y" "y \<le> 9998" "\<not> iso_week_exists y w"
  shows "week_init y w = Inl (ValueError ''Invalid week'')"
proof -
  have lo: "365 * y - 365 \<le> days_before_year y"
    using days_before_year_mono_add [of 1 "nat (y - 1)"] assms(1) by (simp add: days_before_year_1)
  have "days_before_year y + 3650000 - 365 * y \<le> max_ordinal"
    using days_before_year_mono_add [of y "nat (10000 - y)"] assms(2)
    by (simp add: days_before_year_10000)
  with lo have "days_before_year y + 1 + 369 \<le> max_ordinal" "1 \<le> days_before_year y + 1 - 10"
    using assms(1,2) by linarith+
  then have "\<forall>d \<in> set week_offsets. 1 \<le> toordinal (YMD y 1 1) + d \<and>
      toordinal (YMD y 1 1) + d \<le> max_ordinal"
    unfolding week_offsets_def set_upto jan1(2) by auto
  then have "week_search (YMD y 1 1) y w week_offsets = Inl (ValueError ''Invalid week'')"
    using assms jan1(1) [of y] by (intro week_search_none) simp_all
  then show ?thesis using jan1(1) [of y] assms by (simp add: week_init_def mk_date_def)
qed

lemma week_init_closed_form:
  assumes "2 \<le> y \<and> y \<le> 9998"
  shows "week_init y w =
    (if iso_week_exists y w
     then Inr (interval Week (fromordinal (week_monday y w)) (fromordinal (week_monday y w + 7)))
     else Inl (ValueError ''Invalid week''))"
proof (cases "iso_week_exists y w")
  case True
  have "days_before_year y + 3650000 - 365 * y \<le> max_ordinal"
    using days_before_year_mono_add [of y "nat (10000 - y)"] assms
    by (simp add: days_before_year_10000)
  then have "week_monday y w + 7 \<le> max_ordinal" using week_monday_range(2) [OF True] assms by linarith
  with True assms show ?thesis using week_init_found by simp
qed (use assms week_init_none in simp)

lemma week_init_Inr:
  "week_init y w = Inr i \<longleftrightarrow>
     2 \<le> y \<and> y \<le> 9999 \<and> iso_week_exists y w \<and> week_monday y w + 7 \<le> max_ordinal \<and>
     i = interval Week (fromordinal (week_monday y w)) (fromordinal (week_monday y w + 7))"
proof
  assume i: "week_init y w = Inr i"
  then obtain a b where a: "week_search (YMD y 1 1) y w week_offsets = Inr a" "date_add a 7 = Inr b"
    and y: "1 \<le> y" "y \<le> 9999"
    by (auto simp: week_init_def result_simps mk_date_def valid_date_def split: if_splits)
  then have m: "iso_week_exists y w" "toordinal a = week_monday y w"
    using week_search_Inr [OF a(1)] isocalendar_monday_iff by blast+
  moreover have "week_monday y w + 7 \<le> max_ordinal" using date_add_Inr(3) [OF a(2)] m by simp
  moreover have "y \<noteq> 1" using i week_init_year1 by auto
  ultimately show "2 \<le> y \<and> y \<le> 9999 \<and> iso_week_exists y w \<and> week_monday y w + 7 \<le> max_ordinal \<and>
     i = interval Week (fromordinal (week_monday y w)) (fromordinal (week_monday y w + 7))"
    using y i week_init_found [of y w] by simp
qed (use week_init_found in simp)

section \<open>The classes partition the calendar\<close>

text \<open>
  What the constructor of a class establishes.  The brute-force search of \<open>Week\<close> cannot serve
  the weeks of the ISO year 1, where its first candidate is before the first date.
\<close>

definition well_formed :: "date_interval \<Rightarrow> bool" where
  "well_formed i =
     (valid_date (date_a i) \<and> valid_date (date_b i) \<and>
      (case cls i of
         Date \<Rightarrow> toordinal (date_b i) = toordinal (date_a i) + 1
       | Week \<Rightarrow> toordinal (date_a i) mod 7 = 1 \<and> toordinal (date_b i) = toordinal (date_a i) + 7 \<and>
           iso_week1_monday 2 \<le> toordinal (date_a i)
       | Month \<Rightarrow> day (date_a i) = 1 \<and> day (date_b i) = 1 \<and>
           year (date_b i) = year (date_a i) + month (date_a i) div 12 \<and>
           month (date_b i) = 1 + month (date_a i) mod 12
       | Year \<Rightarrow> month (date_a i) = 1 \<and> day (date_a i) = 1 \<and> month (date_b i) = 1 \<and>
           day (date_b i) = 1 \<and> year (date_b i) = year (date_a i) + 1
       | Custom \<Rightarrow> True))"

definition in_interval :: "date \<Rightarrow> date_interval \<Rightarrow> bool" where
  "in_interval d i = (date_a i \<le> d \<and> d < date_b i)"

lemma date_le_toordinal:
  "valid_date a \<Longrightarrow> valid_date b \<Longrightarrow> a \<le> b \<longleftrightarrow> toordinal a \<le> toordinal b"
  using toordinal_less_iff [of b a] by auto

lemma in_interval_toordinal:
  "well_formed i \<Longrightarrow> valid_date d \<Longrightarrow>
     in_interval d i \<longleftrightarrow> toordinal (date_a i) \<le> toordinal d \<and> toordinal d < toordinal (date_b i)"
  by (auto simp: in_interval_def well_formed_def date_le_toordinal toordinal_less_iff)

lemma from_date_Date:
  assumes "valid_date d"
  shows "from_date Date d = Inr i \<longleftrightarrow> well_formed i \<and> cls i = Date \<and> in_interval d i"
proof -
  have "from_date Date d = Inr i \<longleftrightarrow> (\<exists>b. date_add d 1 = Inr b \<and> i = interval Date d b)"
    using assms by (cases d) (auto simp: from_date_def date_init_def mk_date_def result_simps)
  also have "\<dots> \<longleftrightarrow> well_formed i \<and> cls i = Date \<and> in_interval d i"
  proof
    assume "\<exists>b. date_add d 1 = Inr b \<and> i = interval Date d b"
    then obtain b where b: "date_add d 1 = Inr b" "i = interval Date d b" by blast
    then have "well_formed i" using assms date_add_Inr [OF b(1)] by (simp add: well_formed_def)
    then show "well_formed i \<and> cls i = Date \<and> in_interval d i"
      using assms b date_add_Inr [OF b(1)] in_interval_toordinal by simp
  next
    assume w: "well_formed i \<and> cls i = Date \<and> in_interval d i"
    then have "toordinal (date_a i) = toordinal d" "toordinal (date_b i) = toordinal d + 1"
      using in_interval_toordinal [of i d] assms by (auto simp: well_formed_def)
    then have "date_a i = d" "date_add d 1 = Inr (date_b i)"
      using w assms toordinal_inject date_add_eq by (auto simp: well_formed_def)
    then show "\<exists>b. date_add d 1 = Inr b \<and> i = interval Date d b"
      using w by (auto simp: interval_def)
  qed
  finally show ?thesis .
qed

lemma from_date_Month:
  assumes "valid_date d"
  shows "from_date Month d = Inr i \<longleftrightarrow> well_formed i \<and> cls i = Month \<and> in_interval d i"
proof -
  have v: "valid_date (YMD (year d) (month d) 1)" and m: "1 \<le> month d" "month d \<le> 12" "1 \<le> day d"
    using assms by (auto simp: valid_date_def)
  let ?b = "YMD (year d + month d div 12) (1 + month d mod 12) 1"
  have "from_date Month d = Inr i \<longleftrightarrow>
      valid_date ?b \<and> i = interval Month (YMD (year d) (month d) 1) ?b"
    using v by (auto simp: from_date_def month_init_def mk_date_def)
  also have "\<dots> \<longleftrightarrow> well_formed i \<and> cls i = Month \<and> in_interval d i"
  proof
    assume i: "valid_date ?b \<and> i = interval Month (YMD (year d) (month d) 1) ?b"
    have "month d mod 12 = (if month d = 12 then 0 else month d)"
      "month d div 12 = (if month d = 12 then 1 else 0)" using m by auto
    then show "well_formed i \<and> cls i = Month \<and> in_interval d i"
      using i v assms
      by (auto simp: well_formed_def in_interval_def less_date_def less_eq_date_def valid_date_def)
  next
    assume w: "well_formed i \<and> cls i = Month \<and> in_interval d i"
    obtain y n where a: "date_a i = YMD y n 1" and n: "1 \<le> n" "n \<le> 12"
      using w by (cases "date_a i") (auto simp: well_formed_def valid_date_def)
    have b: "date_b i = YMD (y + n div 12) (1 + n mod 12) 1"
      using w a by (cases "date_b i") (auto simp: well_formed_def)
    have nn: "n mod 12 = (if n = 12 then 0 else n)" "n div 12 = (if n = 12 then 1 else 0)"
      using n by auto
    have "y = year d" "n = month d"
      using w m n unfolding in_interval_def a b less_date_def less_eq_date_def nn
      by (auto split: if_splits)
    then have "i = interval Month (YMD (year d) (month d) 1) ?b"
      using a b w by (simp add: interval_def)
    then show "valid_date ?b \<and> i = interval Month (YMD (year d) (month d) 1) ?b"
      using w by (auto simp: well_formed_def)
  qed
  finally show ?thesis .
qed

lemma from_date_Year:
  assumes "valid_date d"
  shows "from_date Year d = Inr i \<longleftrightarrow> well_formed i \<and> cls i = Year \<and> in_interval d i"
proof -
  have v: "valid_date (YMD (year d) 1 1)" using assms jan1 by (simp add: valid_date_def)
  have dd: "1 \<le> month d" "1 \<le> day d" using assms by (auto simp: valid_date_def)
  have "from_date Year d = Inr i \<longleftrightarrow>
      valid_date (YMD (year d + 1) 1 1) \<and>
      i = interval Year (YMD (year d) 1 1) (YMD (year d + 1) 1 1)"
    using v by (auto simp: from_date_def year_init_def mk_date_def)
  also have "\<dots> \<longleftrightarrow> well_formed i \<and> cls i = Year \<and> in_interval d i"
  proof
    assume "valid_date (YMD (year d + 1) 1 1) \<and>
      i = interval Year (YMD (year d) 1 1) (YMD (year d + 1) 1 1)"
    then show "well_formed i \<and> cls i = Year \<and> in_interval d i"
      using v dd by (auto simp: well_formed_def in_interval_def less_date_def less_eq_date_def)
  next
    assume w: "well_formed i \<and> cls i = Year \<and> in_interval d i"
    obtain y where a: "date_a i = YMD y 1 1"
      using w by (cases "date_a i") (auto simp: well_formed_def)
    have b: "date_b i = YMD (y + 1) 1 1"
      using w a by (cases "date_b i") (auto simp: well_formed_def)
    have "y = year d"
      using w dd unfolding in_interval_def a b less_date_def less_eq_date_def by auto
    then show "valid_date (YMD (year d + 1) 1 1) \<and>
      i = interval Year (YMD (year d) 1 1) (YMD (year d + 1) 1 1)"
      using a b w by (auto simp: interval_def well_formed_def)
  qed
  finally show ?thesis .
qed

lemma mod7_eq:
  fixes a b n :: int
  assumes "a mod 7 = b mod 7" "a \<le> n" "n < a + 7" "b \<le> n" "n < b + 7"
  shows "a = b"
proof -
  obtain c where c: "a - b = 7 * c" using assms(1) by (metis mod_eq_dvd_iff dvdE)
  then have "c = 0" using assms by linarith
  with c show ?thesis by simp
qed

lemma week_monday_mod: "week_monday y w mod 7 = 1"
  using iso_week1_monday_bounds(3) [of y] by (simp only: week_monday_def mod_mult_self2)

lemma from_date_Week:
  assumes "valid_date d"
  shows "from_date Week d = Inr i \<longleftrightarrow> well_formed i \<and> cls i = Week \<and> in_interval d i"
proof -
  obtain y w k where c: "isocalendar d = (y, w, k)" by (cases "isocalendar d") auto
  let ?n = "toordinal d" and ?m = "week_monday y w"
  have co: "iso_week1_monday y \<le> ?n" "?n < iso_week1_monday (y + 1)" "?n = ?m + (k - 1)" "1 \<le> k" "k \<le> 7"
    using isocalendar_coords [OF assms] c by (auto simp: iso_coords_def week_monday_def)
  have m: "?m \<le> ?n" "?n < ?m + 7" using co by linarith+
  have "1 \<le> w" using co unfolding week_monday_def by (simp add: algebra_simps)
  then have e: "iso_week_exists y w" and my: "iso_week1_monday y \<le> ?m"
    using m co by (simp_all add: iso_week_exists_def) (simp add: week_monday_def)
  have r: "1 \<le> ?m" if "2 \<le> y"
    using week_monday_range [OF e] days_before_year_mono_add [of 1 "nat (y - 1)"] that
    by (simp add: days_before_year_1)
  have "from_date Week d = Inr i \<longleftrightarrow> week_init y w = Inr i"
    by (simp add: from_date_def c)
  also have "\<dots> \<longleftrightarrow> well_formed i \<and> cls i = Week \<and> in_interval d i"
  proof
    assume "week_init y w = Inr i"
    then have i: "2 \<le> y" "?m + 7 \<le> max_ordinal"
      "i = interval Week (fromordinal ?m) (fromordinal (?m + 7))"
      by (simp_all add: week_init_Inr)
    have f: "valid_date (fromordinal ?m)" "toordinal (fromordinal ?m) = ?m"
      "valid_date (fromordinal (?m + 7))" "toordinal (fromordinal (?m + 7)) = ?m + 7"
      using r i(1,2) fromordinal_props by simp_all
    have "iso_week1_monday 2 \<le> ?m"
      using my i(1) iso_week1_monday_mono [of 2 y] iso_year_length(1) [of 2] by (cases "y = 2") simp_all
    then have wf: "well_formed i" using f i(3) week_monday_mod by (simp add: well_formed_def)
    then show "well_formed i \<and> cls i = Week \<and> in_interval d i"
      using in_interval_toordinal [OF wf assms] f i(3) m by simp
  next
    assume w: "well_formed i \<and> cls i = Week \<and> in_interval d i"
    let ?a = "toordinal (date_a i)"
    have wi: "?a mod 7 = 1" "toordinal (date_b i) = ?a + 7" "iso_week1_monday 2 \<le> ?a"
      "valid_date (date_a i)" "valid_date (date_b i)"
      using w by (auto simp: well_formed_def)
    have an: "?a \<le> ?n" "?n < ?a + 7" using w wi(2) in_interval_toordinal [of i d] assms by auto
    have a: "?a = ?m"
      by (rule mod7_eq [OF _ an m]) (simp only: wi(1) week_monday_mod)
    have mx: "?m + 7 \<le> max_ordinal" using toordinal_range(2) [OF wi(5)] wi(2) a by simp
    have "2 \<le> y"
      using wi(3) a m(1) co(2) iso_week1_monday_mono [of y 2] by (cases "y < 2") simp_all
    moreover have "y \<le> 9999"
    proof (rule ccontr)
      assume "\<not> y \<le> 9999"
      then have "iso_week1_monday 10000 \<le> iso_week1_monday y"
        using iso_week1_monday_mono [of 9999 y] by simp
      then show False
        using my mx iso_week1_monday_bounds(1) [of 10000] days_before_year_10000 by simp
    qed
    moreover have "date_a i = fromordinal ?m" "date_b i = fromordinal (?m + 7)"
      using fromordinal_toordinal [OF wi(4)] fromordinal_toordinal [OF wi(5)] wi(2) a by simp_all
    ultimately show "week_init y w = Inr i"
      using e mx w by (simp add: week_init_Inr interval_def)
  qed
  finally show ?thesis .
qed

lemma from_date_iff:
  assumes "valid_date d" "c \<noteq> Custom"
  shows "from_date c d = Inr i \<longleftrightarrow> well_formed i \<and> cls i = c \<and> in_interval d i"
  using assms(2) from_date_Date [OF assms(1)] from_date_Week [OF assms(1)]
    from_date_Month [OF assms(1)] from_date_Year [OF assms(1)]
  by (cases c) simp_all

subsection \<open>The neighbouring intervals\<close>

definition starts_interval :: "interval_class \<Rightarrow> date \<Rightarrow> bool" where
  "starts_interval c d =
     (case c of
        Date \<Rightarrow> True
      | Week \<Rightarrow> toordinal d mod 7 = 1
      | Month \<Rightarrow> day d = 1
      | Year \<Rightarrow> month d = 1 \<and> day d = 1
      | Custom \<Rightarrow> True)"

lemma well_formed_starts:
  assumes "well_formed i" "cls i \<noteq> Custom"
  shows "starts_interval (cls i) (date_a i)" "starts_interval (cls i) (date_b i)"
    "date_a i < date_b i"
proof -
  show "starts_interval (cls i) (date_a i)"
    using assms by (cases "cls i") (auto simp: well_formed_def starts_interval_def)
  show "starts_interval (cls i) (date_b i)"
    using assms by (cases "cls i") (auto simp: well_formed_def starts_interval_def)
  have m: "month (date_a i) < 12 \<or> month (date_a i) = 12" "1 \<le> month (date_a i)"
    using assms by (auto simp: well_formed_def valid_date_def)
  have "cls i = Date \<or> cls i = Week \<Longrightarrow> toordinal (date_a i) < toordinal (date_b i)"
    using assms by (auto simp: well_formed_def)
  moreover have "cls i = Month \<Longrightarrow> date_a i < date_b i"
    using assms m by (auto simp: well_formed_def less_date_def)
  moreover have "cls i = Year \<Longrightarrow> date_a i < date_b i"
    using assms by (auto simp: well_formed_def less_date_def)
  ultimately show "date_a i < date_b i"
    using assms toordinal_less_iff [of "date_a i" "date_b i"]
    by (cases "cls i") (auto simp: well_formed_def)
qed

lemma start_is_date_a:
  assumes "well_formed i" "cls i \<noteq> Custom" "valid_date d" "starts_interval (cls i) d" "in_interval d i"
  shows "d = date_a i"
proof (cases "cls i")
  case Date
  then have "toordinal d = toordinal (date_a i)"
    using assms in_interval_toordinal [of i d] by (auto simp: well_formed_def)
  with assms show ?thesis by (auto simp: toordinal_inject well_formed_def)
next
  case Week
  then have m: "toordinal d mod 7 = 1" "toordinal (date_a i) mod 7 = 1"
    "toordinal (date_b i) = toordinal (date_a i) + 7"
    using assms(1,4) by (auto simp: well_formed_def starts_interval_def)
  have b: "toordinal (date_a i) \<le> toordinal d" "toordinal d < toordinal (date_a i) + 7"
    using in_interval_toordinal [OF assms(1,3)] assms(5) unfolding m(3) by blast+
  have "toordinal d = toordinal (date_a i)"
    by (rule mod7_eq [of _ _ "toordinal d"]) (use m b in simp_all)
  with assms show ?thesis by (auto simp: toordinal_inject well_formed_def)
next
  case Month
  then have "from_date Month d = Inr i" using assms from_date_iff by simp
  with Month assms show ?thesis
    by (cases d) (auto simp: from_date_def month_init_def result_simps mk_date_Inr starts_interval_def)
next
  case Year
  then have "from_date Year d = Inr i" using assms from_date_iff by simp
  with Year assms show ?thesis
    by (cases d) (auto simp: from_date_def year_init_def result_simps mk_date_Inr starts_interval_def)
qed (use assms in simp)

lemma next_interval_outcome:
  assumes "well_formed i" "cls i \<noteq> Custom" "next_interval i = Inr j"
  shows "well_formed j \<and> cls j = cls i \<and> date_a j = date_b i \<and> prev_interval j = Inr i"
proof -
  have v: "valid_date (date_a i)" "valid_date (date_b i)"
    using assms by (auto simp: well_formed_def)
  have j: "well_formed j" "cls j = cls i" "in_interval (date_b i) j"
    using assms v from_date_iff by (auto simp: next_interval_def)
  then have a: "date_b i = date_a j"
    using assms v well_formed_starts(2) [OF assms(1,2)] by (intro start_is_date_a) simp_all
  have o: "toordinal (date_a i) < toordinal (date_b i)"
    using well_formed_starts(3) [OF assms(1,2)] v toordinal_less_iff by blast
  let ?p = "fromordinal (toordinal (date_b i) - 1)"
  have p: "valid_date ?p" "toordinal ?p = toordinal (date_b i) - 1"
    using fromordinal_props [of "toordinal (date_b i) - 1"] o toordinal_range [OF v(1)]
      toordinal_range [OF v(2)] by simp_all
  have "date_add (date_a j) (-1) = Inr ?p" using p a by (intro date_add_eq) simp_all
  moreover have "from_date (cls j) ?p = Inr i"
    using assms p o j in_interval_toordinal [of i ?p] from_date_iff [of ?p "cls i" i] by simp
  ultimately show ?thesis using j a by (simp add: prev_interval_def)
qed

lemma prev_interval_outcome:
  assumes "well_formed i" "cls i \<noteq> Custom" "prev_interval i = Inr j"
  shows "well_formed j \<and> cls j = cls i \<and> date_b j = date_a i \<and> next_interval j = Inr i"
proof -
  have v: "valid_date (date_a i)" "valid_date (date_b i)"
    using assms by (auto simp: well_formed_def)
  obtain p where p: "date_add (date_a i) (-1) = Inr p" "from_date (cls i) p = Inr j"
    using assms(3) by (auto simp: prev_interval_def result_simps)
  have po: "valid_date p" "toordinal p = toordinal (date_a i) - 1" using date_add_Inr [OF p(1)] by simp_all
  have j: "well_formed j" "cls j = cls i" "in_interval p j"
    using assms p(2) po from_date_iff by auto
  have vj: "valid_date (date_a j)" "valid_date (date_b j)" using j by (auto simp: well_formed_def)
  have pj: "toordinal (date_a j) \<le> toordinal (date_a i) - 1"
    "toordinal (date_a i) - 1 < toordinal (date_b j)"
    using in_interval_toordinal [OF j(1) po(1)] j(3) po(2) by simp_all
  have b: "date_b j = date_a i"
  proof (rule ccontr)
    assume ne: "date_b j \<noteq> date_a i"
    then have "toordinal (date_a i) < toordinal (date_b j)"
      using pj v vj toordinal_inject by fastforce
    then have "in_interval (date_a i) j"
      using in_interval_toordinal [OF j(1) v(1)] pj by simp
    then have "date_a i = date_a j"
      using j v assms(2) well_formed_starts(1) [OF assms(1,2)] by (intro start_is_date_a) simp_all
    with pj show False by simp
  qed
  have "in_interval (date_b j) i"
    using b well_formed_starts(3) [OF assms(1,2)] by (simp add: in_interval_def)
  then have "next_interval j = Inr i"
    using from_date_iff [of "date_b j" "cls i" i] vj j(2) assms by (simp add: next_interval_def)
  with j b show ?thesis by simp
qed

section \<open>Printing and parsing are inverse\<close>

lemma nat_str_small: "n < 10 \<Longrightarrow> nat_str n = [digit_char n]"
  by (subst nat_str.simps) simp

lemma nat_str_snoc: "10 \<le> n \<Longrightarrow> nat_str n = nat_str (n div 10) @ [digit_char (n mod 10)]"
  by (subst nat_str.simps) simp

lemma parse_int_digits:
  assumes "s \<noteq> []" "list_all is_digit s"
  shows "parse_int s = Inr (int (digits_val s))"
proof -
  have d: "is_digit (hd s)" "is_digit (last s)" using assms by (auto simp: list_all_iff)
  then have "strip s = s" using assms(1) digit_not_space by (intro strip_id) simp_all
  moreover have "hd s \<noteq> CHR ''-''" "hd s \<noteq> CHR ''+''" using d by (auto simp: is_digit_def)
  ultimately show ?thesis using assms by (simp add: parse_int_def parse_digits_def)
qed

lemma year_str:
  assumes "1000 \<le> y" "y \<le> 9999"
  obtains a b c d where "int_str y = [a, b, c, d]" "list_all is_digit [a, b, c, d]"
    "parse_int [a, b, c, d] = Inr y"
proof -
  let ?n = "nat y"
  have n: "1000 \<le> ?n" "?n \<le> 9999" using assms by simp_all
  have "nat_str ?n = [digit_char (?n div 10 div 10 div 10), digit_char (?n div 10 div 10 mod 10),
      digit_char (?n div 10 mod 10), digit_char (?n mod 10)]"
    using n by (simp add: nat_str_snoc nat_str_small div_le_mono)
  then obtain a b c d where s: "int_str y = [a, b, c, d]" "nat_str ?n = [a, b, c, d]"
    using assms by (simp add: int_str_def)
  have "list_all is_digit [a, b, c, d]" using nat_str_digits [of ?n] s(2) by simp
  moreover have "parse_int [a, b, c, d] = Inr y"
    using parse_int_nat_str [of ?n] s(2) assms by simp
  ultimately show thesis using that s by blast
qed

lemma pad2_str:
  assumes "0 \<le> n" "n \<le> 99"
  obtains a b where "pad2 n = [a, b]" "list_all is_digit [a, b]" "parse_int [a, b] = Inr n"
proof (cases "n < 10")
  case True
  have d: "is_digit (CHR ''0'')" "digit_val (CHR ''0'') = 0" by (simp_all add: is_digit_def digit_val_def)
  have "pad2 n = [CHR ''0'', digit_char (nat n)]"
    using True assms by (simp add: pad2_def int_str_def nat_str_small)
  moreover have "parse_int [CHR ''0'', digit_char (nat n)] = Inr n"
    using True assms d by (subst parse_int_digits) (simp_all add: digits_val_def)
  ultimately show thesis using that True assms d by simp
next
  case False
  then have n: "10 \<le> nat n" "nat n div 10 < 10" using assms by auto
  have s: "pad2 n = [digit_char (nat n div 10), digit_char (nat n mod 10)]"
    using n False by (simp add: pad2_def int_str_def nat_str_snoc nat_str_small)
  moreover have "parse_int [digit_char (nat n div 10), digit_char (nat n mod 10)] = Inr n"
    using n assms by (subst parse_int_digits) (simp_all add: digits_val_def)
  ultimately show thesis using that n by simp
qed

lemma days_in_month_le_31:
  assumes "1 \<le> m" "m \<le> 12"
  shows "days_in_month y m \<le> 31"
proof -
  have "days_in_month y m \<in> set (month_lengths y)"
    unfolding days_in_month_def using assms by (intro nth_mem) simp
  then show ?thesis by (auto simp: month_lengths_def split: if_splits)
qed

lemma digit_not_sep:
  "is_digit c \<Longrightarrow> c \<noteq> CHR ''-''" "is_digit c \<Longrightarrow> c \<noteq> CHR ''W''"
  by (auto simp: is_digit_def)

text \<open>What parsing needs to know of a printed date.\<close>

lemma strftime_parts:
  assumes "valid_date x" "1000 \<le> year x"
  obtains a b c d e f g h where
    "strftime_Y x = [a, b, c, d]" "strftime_Ym x = [a, b, c, d, CHR ''-'', e, f]"
    "strftime_Ymd x = [a, b, c, d, CHR ''-'', e, f, CHR ''-'', g, h]"
    "list_all is_digit [a, b, c, d, e, f, g, h]"
    "parse_int [a, b, c, d] = Inr (year x)" "parse_int [e, f] = Inr (month x)"
    "parse_int [g, h] = Inr (day x)"
proof -
  have v: "year x \<le> 9999" "0 \<le> month x" "month x \<le> 99" "0 \<le> day x" "day x \<le> 99"
    using assms(1) days_in_month_le_31 [of "month x" "year x"] by (auto simp: valid_date_def)
  obtain a b c d where y: "int_str (year x) = [a, b, c, d]" "list_all is_digit [a, b, c, d]"
    "parse_int [a, b, c, d] = Inr (year x)" using year_str [OF assms(2) v(1)] .
  obtain e f where m: "pad2 (month x) = [e, f]" "list_all is_digit [e, f]"
    "parse_int [e, f] = Inr (month x)" using pad2_str [OF v(2,3)] .
  obtain g h where d: "pad2 (day x) = [g, h]" "list_all is_digit [g, h]"
    "parse_int [g, h] = Inr (day x)" using pad2_str [OF v(4,5)] .
  show thesis
    by (rule that [of a b c d e f g h])
      (use y m d in \<open>simp_all add: strftime_Y_def strftime_Ym_def strftime_Ymd_def\<close>)
qed

lemma isocalendar_year_bounds:
  assumes "valid_date d" "isocalendar d = (y, w, k)"
  shows "year d - 1 \<le> y" "y \<le> year d + 1" "1 \<le> w" "w \<le> 53"
proof -
  note c = isocalendar_coords [OF assms(1), unfolded assms(2) iso_coords_def prod.case]
    and b = toordinal_year_bounds(1,2) [OF assms(1)]
  show "year d - 1 \<le> y"
  proof (rule ccontr)
    assume "\<not> year d - 1 \<le> y"
    then have "iso_week1_monday (y + 1) \<le> iso_week1_monday (year d - 1)"
      using iso_week1_monday_mono [of y "year d - 1"] by simp
    then show False
      using c b iso_week1_monday_bounds(2) [of "year d - 1"] days_before_year_Suc [of "year d - 1"]
      by (simp add: days_in_year_def split: if_splits)
  qed
  show "y \<le> year d + 1"
  proof (rule ccontr)
    assume "\<not> y \<le> year d + 1"
    then have "iso_week1_monday (year d + 1 + 1) \<le> iso_week1_monday y"
      using iso_week1_monday_mono [of "year d + 1" y] by simp
    moreover have "days_before_year (year d + 1) + 363 \<le> iso_week1_monday (year d + 1 + 1)"
      using iso_week1_monday_bounds(1) [of "year d + 1 + 1"] days_before_year_Suc [of "year d + 1"]
      by (simp only: days_in_year_def split: if_splits)
    ultimately show False using c b by linarith
  qed
  have "7 * w + k \<ge> 8" "7 * w + k \<le> 378" using c iso_year_length(2) [of y] by auto
  with c show "1 \<le> w" "w \<le> 53" by linarith+
qed

lemma split_on2_W:
  "list_all is_digit [a, b, c, d, e, f] \<Longrightarrow>
     split_on2 (CHR ''-'') (CHR ''W'') [a, b, c, d, CHR ''-'', CHR ''W'', e, f] =
       [[a, b, c, d], [e, f]]"
  by (auto dest: digit_not_sep)

lemma mk_date_self: "valid_date d \<Longrightarrow> mk_date (year d) (month d) (day d) = Inr d"
  by (cases d) (simp add: mk_date_def)

lemma parse_to_string:
  assumes "valid_date a" "1000 < year a" "c \<noteq> Custom"
    "c = Week \<Longrightarrow> fst (isocalendar a) \<le> 9999"
  shows "parse c (to_string (interval c a b)) = rmap Some (from_date c a)"
proof -
  obtain p q r s e f g h where parts:
    "strftime_Y a = [p, q, r, s]" "strftime_Ym a = [p, q, r, s, CHR ''-'', e, f]"
    "strftime_Ymd a = [p, q, r, s, CHR ''-'', e, f, CHR ''-'', g, h]"
    and dg: "list_all is_digit [p, q, r, s, e, f, g, h]"
    and n: "parse_int [p, q, r, s] = Inr (year a)" "parse_int [e, f] = Inr (month a)"
      "parse_int [g, h] = Inr (day a)"
    using strftime_parts [OF assms(1)] assms(2) by (metis less_imp_le)
  have ne: "p \<noteq> CHR ''-''" "q \<noteq> CHR ''-''" "r \<noteq> CHR ''-''" "s \<noteq> CHR ''-''" "e \<noteq> CHR ''-''"
    "f \<noteq> CHR ''-''" "g \<noteq> CHR ''-''" "h \<noteq> CHR ''-''"
    using dg digit_not_sep by auto
  show ?thesis
  proof (cases c)
    case Week
    obtain y w k where iso: "isocalendar a = (y, w, k)" by (cases "isocalendar a") auto
    have b: "1000 \<le> y" "y \<le> 9999" "0 \<le> w" "w \<le> 99"
      using isocalendar_year_bounds [OF assms(1) iso] assms(2) iso assms(4) Week by auto
    obtain i j l n where ys: "int_str y = [i, j, l, n]" "list_all is_digit [i, j, l, n]"
      "parse_int [i, j, l, n] = Inr y" using year_str [OF b(1,2)] .
    obtain u v where ws: "pad2 w = [u, v]" "list_all is_digit [u, v]" "parse_int [u, v] = Inr w"
      using pad2_str [OF b(3,4)] .
    have "re_match ''####-W##'' [i, j, l, n, CHR ''-'', CHR ''W'', u, v]"
      using ys(2) ws(2) by simp
    moreover have "split_on2 (CHR ''-'') (CHR ''W'') [i, j, l, n, CHR ''-'', CHR ''W'', u, v] =
        [[i, j, l, n], [u, v]]"
      using ys(2) ws(2) by (intro split_on2_W) simp
    ultimately show ?thesis
      using Week iso ys ws by (simp add: parse_def to_string_def from_date_def)
  qed (use parts dg n ne in \<open>simp_all add: parse_def to_string_def from_date_def\<close>, use assms in simp)
qed

lemma parse_to_string_Custom:
  assumes "valid_date a" "valid_date b" "1000 < year a" "1000 < year b"
  shows "parse Custom (to_string (interval Custom a b)) = Inr (Some (interval Custom a b))"
proof -
  obtain p q r s e f g h where a: "strftime_Ymd a = [p, q, r, s, CHR ''-'', e, f, CHR ''-'', g, h]"
    "list_all is_digit [p, q, r, s, e, f, g, h]" "parse_int [p, q, r, s] = Inr (year a)"
    "parse_int [e, f] = Inr (month a)" "parse_int [g, h] = Inr (day a)"
    using strftime_parts [OF assms(1)] assms(3) by (metis less_imp_le)
  obtain p' q' r' s' e' f' g' h' where
    b: "strftime_Ymd b = [p', q', r', s', CHR ''-'', e', f', CHR ''-'', g', h']"
    "list_all is_digit [p', q', r', s', e', f', g', h']" "parse_int [p', q', r', s'] = Inr (year b)"
    "parse_int [e', f'] = Inr (month b)" "parse_int [g', h'] = Inr (day b)"
    using strftime_parts [OF assms(2)] assms(4) by (metis less_imp_le)
  have "c \<noteq> CHR ''-''" if "c \<in> {p, q, r, s, e, f, g, h, p', q', r', s', e', f', g', h'}" for c
    using that a(2) b(2) digit_not_sep(1) by auto
  then show ?thesis
    using a b mk_date_self [OF assms(1)] mk_date_self [OF assms(2)]
    by (simp add: parse_def to_string_def)
qed

lemma well_formed_self: "well_formed i \<Longrightarrow> cls i \<noteq> Custom \<Longrightarrow> in_interval (date_a i) i"
  using well_formed_starts(3) by (simp add: in_interval_def)

lemma well_formed_iso_year:
  assumes "well_formed i" "cls i = Week"
  shows "fst (isocalendar (date_a i)) \<le> 9999"
proof (rule ccontr)
  obtain y w k where c: "isocalendar (date_a i) = (y, w, k)" by (cases "isocalendar (date_a i)") auto
  assume "\<not> fst (isocalendar (date_a i)) \<le> 9999"
  then have y: "9999 < y" using c by simp
  have v: "valid_date (date_a i)" "valid_date (date_b i)"
    "toordinal (date_b i) = toordinal (date_a i) + 7"
    using assms by (auto simp: well_formed_def)
  have "iso_week1_monday 10000 \<le> toordinal (date_a i)"
    using isocalendar_coords [OF v(1), unfolded c iso_coords_def prod.case]
      iso_week1_monday_mono [of 9999 y] y by simp
  then show False
    using toordinal_range(2) [OF v(2)] v(3) iso_week1_monday_bounds(1) [of 10000]
      days_before_year_10000 by simp
qed

lemma parse_roundtrip_outcome:
  assumes "well_formed i" "1000 < year (date_a i)" "1000 < year (date_b i)"
  shows "parse (cls i) (to_string i) = Inr (Some i)"
proof -
  have v: "valid_date (date_a i)" "valid_date (date_b i)"
    using assms(1) by (auto simp: well_formed_def)
  have i: "i = interval (cls i) (date_a i) (date_b i)" by (simp add: interval_def)
  show ?thesis
  proof (cases "cls i = Custom")
    case True
    then show ?thesis using parse_to_string_Custom [OF v assms(2,3)] i by metis
  next
    case False
    have "parse (cls i) (to_string i) = rmap Some (from_date (cls i) (date_a i))"
      using parse_to_string [OF v(1) assms(2) False well_formed_iso_year [OF assms(1)]] i by metis
    also have "from_date (cls i) (date_a i) = Inr i"
      using from_date_iff [OF v(1) False] well_formed_self [OF assms(1) False] assms(1) by simp
    finally show ?thesis by simp
  qed
qed

section \<open>Properties\<close>

text \<open>
  Iterating over an interval between two valid dates succeeds and yields every date of the
  half-open range exactly once, in increasing order, and \<open>in\<close> decides membership in the range.
\<close>
theorem dates_enumerate_the_range:
  assumes "valid_date (date_a i)" "valid_date (date_b i)"
  shows "\<exists>ds. dates i = Inr ds \<and> sorted_wrt (<) ds \<and>
    length ds = nat (toordinal (date_b i) - toordinal (date_a i)) \<and>
    set ds = {d. valid_date d \<and> date_a i \<le> d \<and> d < date_b i} \<and>
    (\<forall>d. contains_date i d = Inr (d \<in> set ds))"
  by (rule dates_outcome [OF assms])

theorem dates_enumerate_the_range_witness:
  "\<exists>ds. dates (interval Custom (YMD 2020 2 27) (YMD 2020 3 2)) = Inr ds \<and> length ds = 4"
proof -
  have "valid_date (YMD 2020 2 27)" "valid_date (YMD 2020 3 2)"
    "toordinal (YMD 2020 3 2) - toordinal (YMD 2020 2 27) = 4"
    by code_simp+
  then show ?thesis
    using dates_enumerate_the_range [of "interval Custom (YMD 2020 2 27) (YMD 2020 3 2)"] by auto
qed

text \<open>
  C34. The intervals of a class partition the calendar: \<open>from_date\<close> of a class other than
  \<open>Custom\<close> returns an interval exactly when it is the well formed interval of the class that
  contains the date, the one the brute-force search of \<open>Week\<close> finds included.
\<close>
theorem from_date_partitions_calendar:
  assumes "valid_date d" "c \<noteq> Custom"
  shows "from_date c d = Inr i \<longleftrightarrow> well_formed i \<and> cls i = c \<and> date_a i \<le> d \<and> d < date_b i"
  using from_date_iff [OF assms] by (simp add: in_interval_def)

theorem from_date_partitions_calendar_witness:
  "from_date Month (YMD 2021 12 31) = Inr (interval Month (YMD 2021 12 1) (YMD 2022 1 1))"
proof -
  have "valid_date (YMD 2021 12 31)" by code_simp
  moreover have "well_formed (interval Month (YMD 2021 12 1) (YMD 2022 1 1))" by code_simp
  ultimately show ?thesis
    by (subst from_date_partitions_calendar) (simp_all add: less_date_def less_eq_date_def)
qed

text \<open>
  Stepping is invertible and leaves no gap: when \<open>next\<close> of an interval of a class other than
  \<open>Custom\<close> exists, it is a well formed interval of the class that starts where the interval
  ends, and its \<open>prev\<close> is the interval; and the same for \<open>prev\<close>.
\<close>
theorem next_and_prev_are_inverse:
  assumes "well_formed i" "cls i \<noteq> Custom"
  shows "(next_interval i = Inr j \<longrightarrow>
      well_formed j \<and> cls j = cls i \<and> date_a j = date_b i \<and> prev_interval j = Inr i) \<and>
    (prev_interval i = Inr k \<longrightarrow>
      well_formed k \<and> cls k = cls i \<and> date_b k = date_a i \<and> next_interval k = Inr i)"
  using next_interval_outcome [OF assms] prev_interval_outcome [OF assms] by blast

theorem next_and_prev_are_inverse_witness:
  "prev_interval (interval Week (YMD 2021 1 4) (YMD 2021 1 11)) =
     Inr (interval Week (YMD 2020 12 28) (YMD 2021 1 4))"
proof -
  have w: "well_formed (interval Week (YMD 2020 12 28) (YMD 2021 1 4))" by code_simp
  have c: "cls (interval Week (YMD 2020 12 28) (YMD 2021 1 4)) \<noteq> Custom" by simp
  have n: "next_interval (interval Week (YMD 2020 12 28) (YMD 2021 1 4)) =
      Inr (interval Week (YMD 2021 1 4) (YMD 2021 1 11))"
  proof -
    have "valid_date (YMD 2021 1 4)" "well_formed (interval Week (YMD 2021 1 4) (YMD 2021 1 11))"
      by code_simp+
    then show ?thesis
      by (simp add: next_interval_def from_date_iff in_interval_def less_date_def less_eq_date_def)
  qed
  from next_and_prev_are_inverse [OF w c] n show ?thesis by blast
qed

text \<open>
  Printing an interval and parsing the string with its class gives the interval back, for
  years of four digits.
\<close>
theorem parse_interval_roundtrip:
  assumes "well_formed i" "1000 < year (date_a i)" "1000 < year (date_b i)"
  shows "parse (cls i) (to_string i) = Inr (Some i)"
  by (rule parse_roundtrip_outcome [OF assms])

theorem parse_interval_roundtrip_witness:
  "parse Week ''2020-W53'' = Inr (Some (interval Week (YMD 2020 12 28) (YMD 2021 1 4)))"
proof -
  have "well_formed (interval Week (YMD 2020 12 28) (YMD 2021 1 4))" by code_simp
  moreover have "to_string (interval Week (YMD 2020 12 28) (YMD 2021 1 4)) = ''2020-W53''"
    by code_simp
  ultimately show ?thesis
    using parse_interval_roundtrip [of "interval Week (YMD 2020 12 28) (YMD 2021 1 4)"] by simp
qed

text \<open>
  The brute-force constructor of \<open>Week\<close> agrees with the closed form of the ISO calendar for
  the years 2 to 9998, and rejects the weeks that do not exist; in the year 1 every week, valid
  or not, raises \<open>OverflowError\<close>, because the search starts ten days before the first date.
\<close>
theorem week_constructor_is_closed_form:
  "week_init 1 w = Inl OverflowError \<and>
   (2 \<le> y \<and> y \<le> 9998 \<longrightarrow>
     week_init y w =
       (if iso_week_exists y w
        then Inr (interval Week (fromordinal (week_monday y w)) (fromordinal (week_monday y w + 7)))
        else Inl (ValueError ''Invalid week'')))"
  using week_init_year1 week_init_closed_form by blast

theorem week_constructor_is_closed_form_witness:
  "week_init 2021 53 = Inl (ValueError ''Invalid week'')"
proof -
  have "\<not> iso_week_exists 2021 53" by code_simp
  then show ?thesis using week_constructor_is_closed_form [of 53 2021] by simp
qed

end
