(* ===== verification/Retry.thy ===== *)
theory Retry
  imports Prelude Complex_Main
begin

text \<open>
  Retry loops.  The tracking stores and the API client both repeat an attempt in a
  \<open>while True\<close> loop until it succeeds or a test on the number of the attempt says to give up;
  such a loop may run forever, so it is a partial function and not returning is \<open>None\<close>.  The
  locale \<open>bounded_retry\<close> is the contract under which the loop returns.  The retry policies are
  those of \<open>_core/utils/http/retry_policy.py\<close>.
\<close>

section \<open>The loop\<close>

text \<open>
  \<open>again n e\<close> decides after the failure \<open>e\<close> of attempt \<open>n\<close>; \<open>pause n\<close> is what happens
  before the next attempt.  An attempt may itself not return.
\<close>

type_synonym ('w, 'e, 'r) retry_attempt = "'w \<Rightarrow> (('e + 'r) \<times> 'w) option"

partial_function (option) retry_from ::
  "('w, 'e, 'r) retry_attempt \<Rightarrow> (int \<Rightarrow> 'e \<Rightarrow> bool) \<Rightarrow> (int \<Rightarrow> 'w \<Rightarrow> 'w) \<Rightarrow> int \<Rightarrow>
   ('w, 'e, 'r) retry_attempt"
where
  "retry_from f again pause n w =
     Option.bind (f w) (\<lambda>(res, w').
       if \<not> isl res then Some (res, w')
       else if again n (projl res) then retry_from f again pause (n + 1) (pause n w')
       else Some (res, w'))"

declare retry_from.simps [code]

text \<open>The state before the attempt that follows \<open>k\<close> failures with a retry.\<close>

fun after_failures ::
  "('w, 'e, 'r) retry_attempt \<Rightarrow> (int \<Rightarrow> 'e \<Rightarrow> bool) \<Rightarrow> (int \<Rightarrow> 'w \<Rightarrow> 'w) \<Rightarrow> int \<Rightarrow> nat \<Rightarrow> 'w \<Rightarrow>
   'w option"
where
  "after_failures f again pause n 0 w = Some w"
| "after_failures f again pause n (Suc k) w =
     (case f w of
        Some (Inl e, w') \<Rightarrow>
          if again n e then after_failures f again pause (n + 1) k (pause n w') else None
      | _ \<Rightarrow> None)"

lemma retry_from_eq:
  "retry_from f again pause n w =
     (case f w of
        None \<Rightarrow> None
      | Some (Inr r, w') \<Rightarrow> Some (Inr r, w')
      | Some (Inl e, w') \<Rightarrow>
          if again n e then retry_from f again pause (n + 1) (pause n w') else Some (Inl e, w'))"
  by (subst retry_from.simps) (auto split: option.splits sum.splits)

definition final_attempt ::
  "('w, 'e, 'r) retry_attempt \<Rightarrow> (int \<Rightarrow> 'e \<Rightarrow> bool) \<Rightarrow> int \<Rightarrow> 'w \<Rightarrow> ('e + 'r) \<times> 'w \<Rightarrow> bool"
where
  "final_attempt f again n w out = (f w = Some out \<and> (\<forall>e. fst out = Inl e \<longrightarrow> \<not> again n e))"

lemma retry_from_Some_D:
  "retry_from f again pause n w = Some out \<Longrightarrow>
     \<exists>k w'. after_failures f again pause n k w = Some w' \<and>
       final_attempt f again (n + int k) w' out"
proof (induction f again pause n w out rule: retry_from.raw_induct [rotated 1, consumes 1, case_names body])
  case (body loop f again pause n w out)
  obtain res w' where f: "f w = Some (res, w')"
    using body(2) by (cases "f w") auto
  show ?case
  proof (cases "\<exists>e. res = Inl e \<and> again n e")
    case True
    then obtain e where e: "res = Inl e" "again n e" by blast
    then have "loop f again pause (n + 1) (pause n w') = Some out" using body(2) f by simp
    then obtain k w0 where "after_failures f again pause (n + 1) k (pause n w') = Some w0"
      "final_attempt f again (n + 1 + int k) w0 out" using body(1) by blast
    then show ?thesis
      using f e by (intro exI [of _ "Suc k"] exI [of _ w0]) (simp add: ac_simps)
  next
    case False
    then have "out = (res, w')" using body(2) f by (cases res) (auto split: if_splits)
    then show ?thesis
      using f False by (intro exI [of _ 0] exI [of _ w]) (auto simp: final_attempt_def)
  qed
qed

lemma retry_from_Some_I:
  "after_failures f again pause n k w = Some w' \<Longrightarrow> final_attempt f again (n + int k) w' out \<Longrightarrow>
     retry_from f again pause n w = Some out"
proof (induction k arbitrary: n w)
  case 0
  then show ?case
    by (cases out; cases "fst out") (auto simp: final_attempt_def retry_from_eq)
next
  case (Suc k)
  then show ?case
    by (subst retry_from_eq) (auto simp: ac_simps split: option.splits sum.splits if_splits prod.splits)
qed

text \<open>The loop returns exactly when some attempt is final, and then with its outcome.\<close>

lemma retry_from_Some_iff:
  "retry_from f again pause n w = Some out \<longleftrightarrow>
     (\<exists>k w'. after_failures f again pause n k w = Some w' \<and>
       final_attempt f again (n + int k) w' out)"
  using retry_from_Some_D retry_from_Some_I by metis

lemma retry_from_diverges:
  assumes "\<And>w. \<exists>e w'. f w = Some (Inl e, w') \<and> (\<forall>m \<ge> n. again m e)"
  shows "retry_from f again pause n w = None"
proof (rule ccontr)
  assume "retry_from f again pause n w \<noteq> None"
  then obtain out k w' where "final_attempt f again (n + int k) w' out"
    using retry_from_Some_D by fastforce
  moreover obtain e w'' where "f w' = Some (Inl e, w'')" "again (n + int k) e"
    using assms [of w'] by auto
  ultimately show False by (auto simp: final_attempt_def)
qed

section \<open>The contract of a loop that returns\<close>

locale bounded_retry =
  fixes f :: "('w, 'e, 'r) retry_attempt" and again :: "int \<Rightarrow> 'e \<Rightarrow> bool" and bound :: int
  assumes attempt_returns: "f w \<noteq> None"
    and gives_up: "\<not> again bound e"
begin

lemma returns: "n \<le> bound \<Longrightarrow> retry_from f again pause n w \<noteq> None"
proof (induction "nat (bound - n)" arbitrary: n w)
  case 0
  then have "\<not> again n e" for e using gives_up by simp
  then show ?case
    using attempt_returns [of w] by (subst retry_from_eq) (auto split: sum.splits)
next
  case (Suc k)
  then have "retry_from f again pause (n + 1) w' \<noteq> None" for w' by simp
  then show ?case
    using attempt_returns [of w] by (subst retry_from_eq) (auto split: sum.splits)
qed

lemma attempts_bounded:
  "n \<le> bound \<Longrightarrow> after_failures f again pause n k w = Some w' \<Longrightarrow> k \<le> nat (bound - n)"
proof (induction k arbitrary: n w)
  case (Suc k)
  then obtain e w'' where a: "again n e" "after_failures f again pause (n + 1) k (pause n w'') = Some w'"
    by (auto split: option.splits sum.splits if_splits)
  then have "n < bound" using gives_up [of e] Suc.prems(1) by (cases "n = bound") auto
  with Suc.IH [OF _ a(2)] show ?case by simp
qed simp

lemma returns_within_bound:
  assumes "n \<le> bound"
  shows "\<exists>k w' out. k \<le> nat (bound - n) \<and> after_failures f again pause n k w = Some w' \<and>
    final_attempt f again (n + int k) w' out \<and> retry_from f again pause n w = Some out"
proof -
  obtain out where out: "retry_from f again pause n w = Some out" using returns [OF assms] by blast
  then obtain k w' where "after_failures f again pause n k w = Some w'"
    "final_attempt f again (n + int k) w' out"
    using retry_from_Some_D [OF out] by blast
  with out show ?thesis using attempts_bounded [OF assms] by blast
qed

end

section \<open>The retry policies\<close>

text \<open>
  The three classes share \<open>max_retries\<close>; the configurable one has a list of pauses.  Seconds
  are rationals.
\<close>

datatype retry_policy =
    LinearRetryPolicy rat int
  | ConfigurableRetryPolicy "rat list" int
  | LinearRetryOnAnyError rat int

primrec max_retries :: "retry_policy \<Rightarrow> int" where
  "max_retries (LinearRetryPolicy s m) = m"
| "max_retries (ConfigurableRetryPolicy ss m) = m"
| "max_retries (LinearRetryOnAnyError s m) = m"

text \<open>\<open>ConfigurableRetryPolicy.__init__\<close>.\<close>

definition configurable_retry_policy :: "rat list \<Rightarrow> int \<Rightarrow> retry_policy result" where
  "configurable_retry_policy ss m =
     (if ss = [] then Inr (ConfigurableRetryPolicy [5] m)
      else if \<not> (\<forall>n \<in> set ss. n > 0) then
        Inl (DatabandConfigError ''All items in the list in your config need to be positive'')
      else Inr (ConfigurableRetryPolicy ss m))"

text \<open>The linear test refuses when the status code or the count is missing.\<close>

definition linear_should_retry :: "int \<Rightarrow> int option \<Rightarrow> bool \<Rightarrow> int option \<Rightarrow> bool" where
  "linear_should_retry m status_code error retry_count =
     (case (status_code, retry_count) of
        (Some c, Some n) \<Rightarrow>
          \<not> (c < 500 \<or> error) \<and> \<not> (m \<noteq> -1 \<and> m \<le> n)
      | _ \<Rightarrow> False)"

fun should_retry :: "retry_policy \<Rightarrow> int option \<Rightarrow> bool \<Rightarrow> int option \<Rightarrow> bool result" where
  "should_retry (LinearRetryPolicy s m) c e n = Inr (linear_should_retry m c e n)"
| "should_retry (ConfigurableRetryPolicy ss m) c e n = Inr (linear_should_retry m c e n)"
| "should_retry (LinearRetryOnAnyError s m) c e n =
     (if m \<noteq> -1
      then (case n of
              None \<Rightarrow> Inl (TypeError ''>= not supported between NoneType and int'')
            | Some k \<Rightarrow> Inr (\<not> m \<le> k))
      else Inr True)"

fun seconds_to_sleep :: "retry_policy \<Rightarrow> int \<Rightarrow> rat" where
  "seconds_to_sleep (LinearRetryPolicy s m) n = s"
| "seconds_to_sleep (LinearRetryOnAnyError s m) n = s"
| "seconds_to_sleep (ConfigurableRetryPolicy ss m) n =
     ss ! nat (min (max (n - 1) 0) (int (length ss) - 1))"

definition conf_retry_seconds_to_sleep_list :: "rat list" where
  "conf_retry_seconds_to_sleep_list = [1 / 5, 1 / 2, 1, 3, 5]"

definition conf_retry_policy_max_retries :: int where
  "conf_retry_policy_max_retries = 5"

definition get_retry_policy :: "string option \<Rightarrow> rat \<Rightarrow> int \<Rightarrow> retry_policy result" where
  "get_retry_policy policy s m =
     (let policy = (case policy of None \<Rightarrow> ''linear'' | Some p \<Rightarrow> if p = [] then ''linear'' else p)
      in if policy = ''linear'' then Inr (LinearRetryPolicy s m)
         else if policy = ''configurable'' then
           configurable_retry_policy conf_retry_seconds_to_sleep_list conf_retry_policy_max_retries
         else if policy = ''linear_retry_any_error'' then Inr (LinearRetryOnAnyError s m)
         else Inl (DatabandConfigError (''Retry policy '' @ policy @ '' not supported'')))"

text \<open>The index into the list of pauses is always in range.\<close>

lemma configurable_sleep_positive:
  assumes "configurable_retry_policy ss m = Inr p"
  shows "0 < seconds_to_sleep p n"
proof -
  obtain ss' where p: "p = ConfigurableRetryPolicy ss' m" "ss' \<noteq> []" "\<forall>x \<in> set ss'. 0 < x"
    using assms by (auto simp: configurable_retry_policy_def split: if_splits)
  have "nat (min (max (n - 1) 0) (int (length ss') - 1)) < length ss'"
    using p(2) by (cases ss') auto
  with p show ?thesis by (simp add: nth_mem)
qed

lemma linear_gives_up:
  "m \<noteq> -1 \<Longrightarrow> m \<le> n \<Longrightarrow> \<not> linear_should_retry m c e (Some n)"
  by (cases c) (simp_all add: linear_should_retry_def)

end
