(* ===== verification/ApiClient.thy ===== *)
theory ApiClient
  imports Retry PyStrings
begin

text \<open>
  The API client of \<open>dbnd/utils/api_client.py\<close>: its session with the expiry, the login, one
  request and the loop that repeats a request whose connection failed.  The HTTP library and the
  server are the parameter \<open>send\<close>, which may change the outside world; \<open>clock\<close> reads the time
  in seconds.  The login goes through \<open>api_request\<close> again, so the functions are indexed by the
  depth of calls left before Python's \<open>RecursionError\<close>; the lemmas show that two levels are
  enough unless the session expires at once.
\<close>

section \<open>State and environment\<close>

text \<open>What the HTTP library reports of a request.\<close>

datatype http_outcome =
    ConnectionFailed string
  | TimedOut string
  | Response int string

record request =
  req_url :: string
  req_method :: string
  req_data :: "(string, string) dict option"
  req_auth :: "string option"

record 'w api_env =
  api_base_url :: string
  credentials :: "(string, string option) dict"
  session_timeout :: int
  default_max_retry :: int
  default_retry_sleep :: rat
  send :: "request \<Rightarrow> 'w \<Rightarrow> http_outcome \<times> 'w"
  clock :: "'w \<Rightarrow> int"
  sleep :: "rat \<Rightarrow> 'w \<Rightarrow> 'w"
  json :: "string \<Rightarrow> string option"

text \<open>The client: the session is known by its creation time.\<close>

record 'w api_client =
  session :: "int option"
  authorization :: "string option"
  outside :: 'w

definition api_prefix :: string where
  "api_prefix = ''/api/v1/''"

text \<open>
  \<open>urljoin\<close> for the references the client joins: absolute paths, and relative ones without
  dots, scheme, query or fragment.
\<close>

fun after_scheme :: "string \<Rightarrow> (string \<times> string) option" where
  "after_scheme [] = None"
| "after_scheme (c # cs) =
     (if starts_with (c # cs) ''://'' then Some (''://'', drop 3 (c # cs))
      else (case after_scheme cs of None \<Rightarrow> None | Some (a, b) \<Rightarrow> Some (c # a, b)))"

definition url_origin :: "string \<Rightarrow> string \<times> string" where
  "url_origin base =
     (case after_scheme base of
        None \<Rightarrow> ([], base)
      | Some (scheme, rest) \<Rightarrow>
          (scheme @ takeWhile (\<lambda>c. c \<noteq> CHR ''/'') rest, dropWhile (\<lambda>c. c \<noteq> CHR ''/'') rest))"

definition urljoin :: "string \<Rightarrow> string \<Rightarrow> string" where
  "urljoin base url =
     (case url_origin base of (site, path) \<Rightarrow>
        if url = [] then base
        else if hd url = CHR ''/'' then site @ url
        else if path = [] \<and> site \<noteq> [] then site @ ''/'' @ url
        else site @ rev (dropWhile (\<lambda>c. c \<noteq> CHR ''/'') (rev path)) @ url)"

section \<open>Sessions\<close>

definition is_session_expired :: "'w api_env \<Rightarrow> 'w api_client \<Rightarrow> bool" where
  "is_session_expired env c =
     (case session c of
        None \<Rightarrow> True
      | Some created \<Rightarrow> clock env (outside c) - created \<ge> 60 * session_timeout env)"

definition create_session :: "'w api_env \<Rightarrow> 'w api_client \<Rightarrow> 'w api_client" where
  "create_session env c = c\<lparr>session := Some (clock env (outside c))\<rparr>"

definition remove_session :: "'w api_client \<Rightarrow> 'w api_client" where
  "remove_session c = c\<lparr>session := None\<rparr>"

definition has_credentials :: "'w api_env \<Rightarrow> bool" where
  "has_credentials env = (credentials env \<noteq> [])"

section \<open>One request\<close>

text \<open>
  A response below 400 is \<open>ok\<close>; a body that is not JSON counts as no result.
\<close>

definition request_once ::
  "'w api_env \<Rightarrow> string \<Rightarrow> string \<Rightarrow> (string, string) dict option \<Rightarrow> bool \<Rightarrow> 'w api_client \<Rightarrow>
   string option result \<times> 'w api_client"
where
  "request_once env url verb payload auth c =
     (case send env \<lparr>req_url = urljoin (api_base_url env) url, req_method = verb, req_data = payload,
         req_auth = authorization c\<rparr> (outside c) of
        (ConnectionFailed e, w) \<Rightarrow> (Inl (ConnectionError e), c\<lparr>outside := w\<rparr>)
      | (TimedOut e, w) \<Rightarrow> (Inl (Timeout e), c\<lparr>outside := w\<rparr>)
      | (Response code content, w) \<Rightarrow>
          (if code < 400 then Inr (if content = [] then None else json env content)
           else if code \<in> {403, 401} then Inl (DatabandUnauthorizedApiError code)
           else Inl (DatabandApiError code),
           c\<lparr>outside := w\<rparr>))"

definition is_connection_problem :: "py_error \<Rightarrow> bool" where
  "is_connection_problem e = (case e of ConnectionError s \<Rightarrow> True | Timeout s \<Rightarrow> True | _ \<Rightarrow> False)"

section \<open>Requests with retries\<close>

text \<open>
  The test and the pause of the loop, for a linear policy with \<open>m\<close> retries; the code passes the
  status 500 and no error.
\<close>

definition request_again :: "int \<Rightarrow> int \<Rightarrow> py_error \<Rightarrow> bool" where
  "request_again m n e = (is_connection_problem e \<and> linear_should_retry m (Some 500) False (Some n))"

definition request_pause :: "'w api_env \<Rightarrow> rat \<Rightarrow> int \<Rightarrow> 'w api_client \<Rightarrow> 'w api_client" where
  "request_pause env s n c = c\<lparr>outside := sleep env s (outside c)\<rparr>"

text \<open>The loop around an attempt, with what follows when it gives up.\<close>

definition after_loop ::
  "'w api_env \<Rightarrow> string \<Rightarrow> string option result \<times> 'w api_client \<Rightarrow> string option result \<times> 'w api_client"
where
  "after_loop env url out =
     (case out of
        (Inl e, c) \<Rightarrow>
          if is_connection_problem e
          then (Inl (DatabandConnectionException (api_base_url env @ url)), remove_session c)
          else (Inl e, c)
      | (Inr r, c) \<Rightarrow> (Inr r, c))"

definition request_loop ::
  "'w api_env \<Rightarrow> rat \<Rightarrow> int \<Rightarrow> string \<Rightarrow>
   ('w api_client, py_error, string option) retry_attempt \<Rightarrow> ('w api_client, py_error, string option) retry_attempt"
where
  "request_loop env s m url f c =
     map_option (after_loop env url) (retry_from f (request_again m) (request_pause env s) 1 c)"

fun api_request ::
  "nat \<Rightarrow> 'w api_env \<Rightarrow> rat \<Rightarrow> int \<Rightarrow> string \<Rightarrow> string \<Rightarrow> (string, string) dict option \<Rightarrow> bool \<Rightarrow>
   ('w api_client, py_error, string option) retry_attempt"
and authenticate ::
  "nat \<Rightarrow> 'w api_env \<Rightarrow> ('w api_client, py_error, unit) retry_attempt"
where
  "api_request 0 env s m url verb payload auth c = Some (Inl RecursionError, c)"
| "api_request (Suc d) env s m url verb payload auth c =
     request_loop env s m url
       (\<lambda>c. if auth \<and> (session c = None \<or> is_session_expired env c) then
              (case authenticate d env (create_session env c) of
                 None \<Rightarrow> None
               | Some (Inl e, c') \<Rightarrow> Some (Inl e, c')
               | Some (Inr u, c') \<Rightarrow> Some (request_once env url verb payload auth c'))
            else Some (request_once env url verb payload auth c))
       c"
| "authenticate d env c =
     (if \<not> has_credentials env then Some (Inr (), c)
      else case map_of (credentials env) ''token'' of
        Some (Some (t # ts)) \<Rightarrow>
          Some (Inr (), c\<lparr>authorization := Some (''Bearer '' @ t # ts)\<rparr>)
      | _ \<Rightarrow>
          if ''username'' \<in> set (dict_keys (credentials env)) \<and>
             ''password'' \<in> set (dict_keys (credentials env))
          then
            (case api_request d env (default_retry_sleep env) (default_max_retry env)
                (urljoin api_prefix ''auth/login'') ''POST''
                (Some (map (\<lambda>(k, v). (k, case v of None \<Rightarrow> ''null'' | Some x \<Rightarrow> x)) (credentials env)))
                True c of
               None \<Rightarrow> None
             | Some (Inl e, c') \<Rightarrow>
                 Some (Inl (DatabandAuthenticationError ''Failed to init a webserver session''),
                   remove_session c')
             | Some (Inr r, c') \<Rightarrow> Some (Inr (), c'))
          else Some (Inr (), c))"

text \<open>The entry point: prefix and policy default as in the code.\<close>

definition api_call ::
  "nat \<Rightarrow> 'w api_env \<Rightarrow> string \<Rightarrow> string \<Rightarrow> (string, string) dict option \<Rightarrow> bool \<Rightarrow>
   (rat \<times> int) option \<Rightarrow> bool \<Rightarrow> ('w api_client, py_error, string option) retry_attempt"
where
  "api_call d env endpoint verb payload no_prefix policy auth c =
     (let (s, m) = (case policy of
            None \<Rightarrow> (default_retry_sleep env, default_max_retry env) | Some p \<Rightarrow> p)
      in api_request d env s m (if no_prefix then endpoint else urljoin api_prefix endpoint)
           verb payload auth c)"

definition is_api_error :: "py_error \<Rightarrow> bool" where
  "is_api_error e =
     (case e of
        DatabandConnectionException s \<Rightarrow> True
      | DatabandApiError n \<Rightarrow> True
      | DatabandUnauthorizedApiError n \<Rightarrow> True
      | _ \<Rightarrow> False)"

definition api_is_ready :: "nat \<Rightarrow> 'w api_env \<Rightarrow> ('w api_client, py_error, bool) retry_attempt" where
  "api_is_ready d env c =
     (case api_call d env ''auth/ping'' ''GET'' None False (Some (0, 1)) False c of
        None \<Rightarrow> None
      | Some (Inr r, c') \<Rightarrow> Some (Inr True, c')
      | Some (Inl e, c') \<Rightarrow> if is_api_error e then Some (Inr False, c') else Some (Inl e, c'))"

section \<open>The loop gives up\<close>

text \<open>A linear policy with a number of retries keeps the contract, whatever the server does.\<close>

interpretation linear_requests:
  bounded_retry "\<lambda>c. Some (g c)" "request_again (int m)" "max 1 (int m)"
  for g :: "'w api_client \<Rightarrow> (py_error + string option) \<times> 'w api_client" and m
proof
  show "Some (g w) \<noteq> None" for w by simp
  show "\<not> request_again (int m) (max 1 (int m)) e" for e
    using linear_gives_up [of "int m" "max 1 (int m)"] by (simp add: request_again_def)
qed

lemma request_loop_total:
  assumes "0 \<le> m" "\<And>c. f c \<noteq> None"
  shows "request_loop env s m url f c \<noteq> None"
proof -
  have f: "f = (\<lambda>c. Some (the (f c)))" using assms(2) by fastforce
  have "retry_from (\<lambda>c. Some (the (f c))) (request_again (int (nat m))) (request_pause env s) 1 c \<noteq> None"
    by (rule linear_requests.returns) simp
  then have "retry_from f (request_again m) (request_pause env s) 1 c \<noteq> None"
    using f assms(1) by simp
  then show ?thesis by (simp add: request_loop_def)
qed

lemma authenticate_total:
  assumes "\<And>s m url verb payload auth c. 0 \<le> m \<Longrightarrow> api_request d env s m url verb payload auth c \<noteq> None"
    "0 \<le> default_max_retry env"
  shows "authenticate d env c \<noteq> None"
proof -
  obtain x y where "api_request d env (default_retry_sleep env) (default_max_retry env)
      (urljoin api_prefix ''auth/login'') ''POST''
      (Some (map (\<lambda>(k, v). (k, case v of None \<Rightarrow> ''null'' | Some x \<Rightarrow> x)) (credentials env)))
      True c = Some (x, y)"
    using assms(1) [OF assms(2)] by fastforce
  then show ?thesis by (auto split: option.splits list.splits sum.splits)
qed

lemma api_request_total:
  assumes "0 \<le> default_max_retry env"
  shows "0 \<le> m \<Longrightarrow> api_request d env s m url verb payload auth c \<noteq> None"
proof (induction d arbitrary: s m url verb payload auth c)
  case (Suc d)
  have "authenticate d env c \<noteq> None" for c by (rule authenticate_total [OF Suc.IH assms])
  then have a: "\<exists>r c'. authenticate d env c = Some (r, c')" for c by fastforce
  show ?case
    unfolding api_request.simps
  proof (rule request_loop_total [OF Suc.prems])
    fix c :: "'a api_client"
    obtain r c' where "authenticate d env (create_session env c) = Some (r, c')" using a by blast
    then show "(if auth \<and> (session c = None \<or> is_session_expired env c) then
        (case authenticate d env (create_session env c) of
           None \<Rightarrow> None
         | Some (Inl e, c') \<Rightarrow> Some (Inl e, c')
         | Some (Inr u, c') \<Rightarrow> Some (request_once env url verb payload auth c'))
      else Some (request_once env url verb payload auth c)) \<noteq> None"
      by (simp split: sum.splits del: authenticate.simps)
  qed
qed simp

text \<open>What comes out of the loop when it gives up.\<close>

definition drops_session :: "py_error \<Rightarrow> bool" where
  "drops_session e =
     (case e of DatabandConnectionException s \<Rightarrow> True | DatabandAuthenticationError s \<Rightarrow> True | _ \<Rightarrow> False)"

lemma request_loop_error:
  assumes "request_loop env s m url f c = Some (Inl e, c')"
    "\<And>c e c'. f c = Some (Inl e, c') \<Longrightarrow> drops_session e \<Longrightarrow> session c' = None"
  shows "\<not> is_connection_problem e" "drops_session e \<Longrightarrow> session c' = None"
proof -
  obtain e1 c1 where r: "retry_from f (request_again m) (request_pause env s) 1 c = Some (Inl e1, c1)"
    and e: "if is_connection_problem e1 then e = DatabandConnectionException (api_base_url env @ url) \<and> c' = remove_session c1
      else e = e1 \<and> c' = c1"
  proof -
    obtain res c1 where o: "retry_from f (request_again m) (request_pause env s) 1 c = Some (res, c1)"
      "after_loop env url (res, c1) = (Inl e, c')"
      using assms(1) by (auto simp: request_loop_def)
    then show thesis using that by (cases res) (auto simp: after_loop_def split: if_splits)
  qed
  show "\<not> is_connection_problem e" using e by (auto simp: is_connection_problem_def split: if_splits)
  assume d: "drops_session e"
  obtain w where "f w = Some (Inl e1, c1)"
    using retry_from_Some_D [OF r] by (auto simp: final_attempt_def)
  then show "session c' = None"
    using assms(2) e d by (auto simp: remove_session_def split: if_splits)
qed

lemma request_once_error:
  "request_once env url verb payload auth c = (Inl e, c') \<Longrightarrow> \<not> drops_session e"
  by (auto simp: request_once_def drops_session_def split: prod.splits http_outcome.splits if_splits)

lemma authenticate_error:
  "authenticate d env c = Some (Inl e, c') \<Longrightarrow>
     e = DatabandAuthenticationError ''Failed to init a webserver session'' \<and> session c' = None"
  by (auto simp: remove_session_def split: if_splits option.splits list.splits sum.splits)

lemma api_request_error:
  assumes "api_request (Suc d) env s m url verb payload auth c = Some (Inl e, c')"
  shows "\<not> is_connection_problem e" "drops_session e \<Longrightarrow> session c' = None"
proof -
  let ?f = "\<lambda>c. if auth \<and> (session c = None \<or> is_session_expired env c) then
      (case authenticate d env (create_session env c) of
         None \<Rightarrow> None
       | Some (Inl e, c') \<Rightarrow> Some (Inl e, c')
       | Some (Inr u, c') \<Rightarrow> Some (request_once env url verb payload auth c'))
    else Some (request_once env url verb payload auth c)"
  have f: "session c2 = None" if r: "?f c1 = Some (Inl e1, c2)" and d: "drops_session e1" for c1 e1 c2
  proof (cases "authenticate d env (create_session env c1) = Some (Inl e1, c2)")
    case True
    then show ?thesis by (rule authenticate_error [THEN conjunct2])
  next
    case False
    have "request_once env url verb payload auth c3 \<noteq> (Inl e1, c2)" for c3
      using d request_once_error by blast
    with r False show ?thesis
      by (simp split: if_splits option.splits sum.splits prod.splits del: authenticate.simps)
  qed
  have l: "request_loop env s m url ?f c = Some (Inl e, c')" using assms by simp
  show "\<not> is_connection_problem e" by (rule request_loop_error(1) [OF l f])
  show "drops_session e \<Longrightarrow> session c' = None" by (rule request_loop_error(2) [OF l f])
qed

lemma anonymous_request:
  assumes "0 \<le> m"
  shows "\<exists>k c0. int k < max 1 m \<and>
    after_failures (\<lambda>c. Some (request_once env url verb payload False c)) (request_again m)
      (request_pause env s) 1 k c = Some c0 \<and>
    api_request (Suc d) env s m url verb payload False c =
      Some (after_loop env url (request_once env url verb payload False c0))"
proof -
  let ?g = "request_once env url verb payload False"
  obtain k c0 out where k: "k \<le> nat (max 1 m - 1)"
    "after_failures (\<lambda>c. Some (?g c)) (request_again m) (request_pause env s) 1 k c = Some c0"
    "final_attempt (\<lambda>c. Some (?g c)) (request_again m) (1 + int k) c0 out"
    "retry_from (\<lambda>c. Some (?g c)) (request_again m) (request_pause env s) 1 c = Some out"
    using linear_requests.returns_within_bound [of 1 "nat m" ?g "request_pause env s" c] assms by auto
  then show ?thesis
    by (intro exI [of _ k] exI [of _ c0]) (auto simp: request_loop_def final_attempt_def)
qed

lemma request_loop_diverges:
  assumes "\<And>c. \<exists>e c'. f c = Some (Inl e, c') \<and> is_connection_problem e"
  shows "request_loop env s (-1) url f c = None"
proof -
  have "retry_from f (request_again (-1)) (request_pause env s) 1 c = None"
  proof (rule retry_from_diverges)
    fix c
    obtain e c' where "f c = Some (Inl e, c')" "is_connection_problem e" using assms by blast
    then show "\<exists>e c'. f c = Some (Inl e, c') \<and> (\<forall>m \<ge> 1. request_again (-1) m e)"
      by (auto simp: request_again_def linear_should_retry_def)
  qed
  then show ?thesis by (simp add: request_loop_def)
qed

section \<open>A session that expires at once\<close>

text \<open>Credentials with a user name and a password and without a token log in by a request.\<close>

definition logs_in_by_request :: "'w api_env \<Rightarrow> bool" where
  "logs_in_by_request env =
     (''username'' \<in> set (dict_keys (credentials env)) \<and>
      ''password'' \<in> set (dict_keys (credentials env)) \<and>
      map_of (credentials env) ''token'' \<in> {None, Some None, Some (Some [])})"

lemma authenticate_by_request:
  assumes "logs_in_by_request env"
    "api_request d env (default_retry_sleep env) (default_max_retry env)
      (urljoin api_prefix ''auth/login'') ''POST''
      (Some (map (\<lambda>(k, v). (k, case v of None \<Rightarrow> ''null'' | Some x \<Rightarrow> x)) (credentials env)))
      True c = Some (Inl e, c')"
  shows "authenticate d env c =
    Some (Inl (DatabandAuthenticationError ''Failed to init a webserver session''), remove_session c')"
proof -
  have "has_credentials env" using assms(1) by (auto simp: logs_in_by_request_def has_credentials_def dict_keys_def)
  with assms show ?thesis by (auto simp: logs_in_by_request_def)
qed

lemma expired_session_recursion:
  assumes "session_timeout env \<le> 0" "logs_in_by_request env"
  shows "\<exists>e c'. api_request d env s m url verb payload True (create_session env c) = Some (Inl e, c') \<and>
    (d = 0 \<or> e = DatabandAuthenticationError ''Failed to init a webserver session'' \<and> session c' = None)"
proof (induction d arbitrary: s m url verb payload c)
  case (Suc d)
  have x: "is_session_expired env (create_session env c)" for c
    using assms(1) by (simp add: is_session_expired_def create_session_def)
  obtain e c1 where "api_request d env (default_retry_sleep env) (default_max_retry env)
      (urljoin api_prefix ''auth/login'') ''POST''
      (Some (map (\<lambda>(k, v). (k, case v of None \<Rightarrow> ''null'' | Some x \<Rightarrow> x)) (credentials env)))
      True (create_session env (create_session env c)) = Some (Inl e, c1)"
    using Suc.IH by blast
  then have "authenticate d env (create_session env (create_session env c)) =
      Some (Inl (DatabandAuthenticationError ''Failed to init a webserver session''), remove_session c1)"
    by (rule authenticate_by_request [OF assms(2)])
  then show ?case
    using x [of c]
    by (simp add: request_loop_def after_loop_def retry_from_eq request_again_def is_connection_problem_def
        remove_session_def del: authenticate.simps)
qed simp

section \<open>Properties\<close>

lemma api_request_outcome:
  assumes "0 \<le> default_max_retry env" "0 \<le> m"
  shows "\<exists>res c'. api_request (Suc d) env s m url verb payload auth c = Some (res, c') \<and>
    (\<forall>e. res = Inl e \<longrightarrow> \<not> is_connection_problem e \<and> (drops_session e \<longrightarrow> session c' = None))"
proof -
  obtain res c' where r: "api_request (Suc d) env s m url verb payload auth c = Some (res, c')"
    using api_request_total [OF assms] by fastforce
  have "\<not> is_connection_problem e \<and> (drops_session e \<longrightarrow> session c' = None)" if e: "res = Inl e" for e
    using api_request_error [OF r [unfolded e]] by blast
  with r show ?thesis by blast
qed

lemma unreachable_server:
  assumes "\<And>r w. \<exists>x w'. send env r w = (ConnectionFailed x, w')"
  shows "api_request (Suc d) env s (-1) url verb payload False c = None"
  unfolding api_request.simps
proof (rule request_loop_diverges)
  fix c :: "'a api_client"
  obtain x w' where "send env \<lparr>req_url = urljoin (api_base_url env) url, req_method = verb,
      req_data = payload, req_auth = authorization c\<rparr> (outside c) = (ConnectionFailed x, w')"
    using assms by blast
  then show "\<exists>e c'. (if False \<and> (session c = None \<or> is_session_expired env c) then
      (case authenticate d env (create_session env c) of
         None \<Rightarrow> None
       | Some (Inl e, c') \<Rightarrow> Some (Inl e, c')
       | Some (Inr u, c') \<Rightarrow> Some (request_once env url verb payload False c'))
    else Some (request_once env url verb payload False c)) = Some (Inl e, c') \<and>
      is_connection_problem e"
    by (simp add: request_once_def is_connection_problem_def)
qed


definition dead_server :: "nat api_env" where
  "dead_server =
     \<lparr>api_base_url = ''http://host'', credentials = [(''username'', Some ''u''), (''password'', Some ''p'')],
      session_timeout = 5, default_max_retry = 2, default_retry_sleep = 1 / 10,
      send = (\<lambda>r n. (ConnectionFailed ''refused'', Suc n)), clock = int, sleep = (\<lambda>s n. n),
      json = Some\<rparr>"


text \<open>
  A session timeout of zero minutes makes a login by user name and password impossible: the
  session of the login request has expired before it is sent, so the login starts over until
  Python's recursion limit, and every request that needs a login fails.
\<close>
theorem zero_session_timeout_never_logs_in:
  assumes "session_timeout env \<le> 0" "logs_in_by_request env"
  shows "\<exists>c'. api_request (Suc d) env s m url verb payload True (create_session env c) =
      Some (Inl (DatabandAuthenticationError ''Failed to init a webserver session''), c') \<and>
    session c' = None"
  using expired_session_recursion [OF assms, of "Suc d"] by fastforce

theorem zero_session_timeout_never_logs_in_witness:
  "\<exists>c'. api_request 3 (dead_server\<lparr>session_timeout := 0\<rparr>) 0 1 ''/api/v1/x'' ''GET'' None True
     (create_session (dead_server\<lparr>session_timeout := 0\<rparr>)
       \<lparr>session = None, authorization = None, outside = 0\<rparr>) =
     Some (Inl (DatabandAuthenticationError ''Failed to init a webserver session''), c')"
proof -
  have "session_timeout (dead_server\<lparr>session_timeout := 0\<rparr>) \<le> 0"
    "logs_in_by_request (dead_server\<lparr>session_timeout := 0\<rparr>)"
    by (simp_all add: dead_server_def logs_in_by_request_def dict_keys_def)
  from zero_session_timeout_never_logs_in [OF this, of 2] show ?thesis
    unfolding numeral_2_eq_2 [symmetric] by (metis Suc_1 eval_nat_numeral(3))
qed

end
