(* ===== verification/TrackingStore.thy ===== *)
theory TrackingStore
  imports Retry PyStrings
begin

text \<open>
  The tracking stores of \<open>_core/tracking\<close>: the registry of backends (\<open>registry.py\<close>), the calls
  that carry state (\<open>backends/abstract_tracking_store.py\<close>), the repeated call of a handler and the
  composite that forwards every call to all of its stores and drops the ones that failed
  (\<open>backends/tracking_store_composite.py\<close>).  What a store does with a call is a parameter: a
  function of the outside world that may raise.
\<close>

section \<open>State calls\<close>

definition state_call_registry :: "string list" where
  "state_call_registry =
     [''init_scheduled_job'', ''init_run'', ''init_run_from_args'', ''set_run_state'',
      ''set_task_reused'', ''set_task_run_state'', ''set_task_run_states'',
      ''set_unfinished_tasks_state'', ''add_task_runs'', ''heartbeat'',
      ''update_task_run_attempts'', ''save_airflow_task_infos'']"

definition is_state_call :: "string \<Rightarrow> bool" where
  "is_state_call name = (name \<in> set state_call_registry)"

section \<open>The environment of a call\<close>

text \<open>The arguments of the call are fixed in \<open>call_handler\<close>.\<close>

record ('s, 'w, 'r) store_env =
  call_handler :: "'s \<Rightarrow> string \<Rightarrow> 'w \<Rightarrow> 'r result \<times> 'w"
  shutdown_store :: "'s \<Rightarrow> 'w \<Rightarrow> unit result \<times> 'w"
  store_is_ready :: "'s \<Rightarrow> 'w \<Rightarrow> bool result \<times> 'w"
  in_tracking_run :: bool

definition is_tracker_panic :: "py_error \<Rightarrow> bool" where
  "is_tracker_panic e = (case e of TrackerPanicError s \<Rightarrow> True | _ \<Rightarrow> False)"

section \<open>Calling a handler several times\<close>

text \<open>The loop stops when the number of the try equals \<open>tries\<close>, and only then.\<close>

definition try_again :: "int \<Rightarrow> int \<Rightarrow> py_error \<Rightarrow> bool" where
  "try_again tries try_num e = (try_num \<noteq> tries)"

definition try_run_handler ::
  "('s, 'w, 'r) store_env \<Rightarrow> int \<Rightarrow> 's \<Rightarrow> string \<Rightarrow> ('w, py_error, 'r) retry_attempt"
where
  "try_run_handler env tries store name w =
     retry_from (\<lambda>w. Some (call_handler env store name w)) (try_again tries) (\<lambda>n w. w) 1 w"

section \<open>The composite store\<close>

text \<open>
  \<open>_stores\<close> is a dictionary until \<open>disable_tracking_api\<close> replaces it by the list it builds.
\<close>

datatype 's stores = StoreDict "(string, 's) dict" | StoreNames "string list"

record 's composite =
  stores_of :: "'s stores"
  raise_on_error :: bool
  remove_failed_store :: bool
  max_tries :: int

definition tries_of :: "'s composite \<Rightarrow> string \<Rightarrow> int" where
  "tries_of c name = (if is_state_call name then max_tries c else 1)"

definition drops_failed :: "('s, 'w, 'r) store_env \<Rightarrow> 's composite \<Rightarrow> string \<Rightarrow> bool" where
  "drops_failed env c name =
     (remove_failed_store c \<or> (in_tracking_run env \<and> is_state_call name))"

text \<open>The loop of \<open>_invoke\<close> over the stores; \<open>res\<close> is the result of the last success.\<close>

fun invoke_loop ::
  "('s, 'w, 'r) store_env \<Rightarrow> 's composite \<Rightarrow> string \<Rightarrow> (string, 's) dict \<Rightarrow> 'r option \<Rightarrow>
   string list \<Rightarrow> 'w \<Rightarrow> (('r option \<times> string list) result \<times> 'w) option"
where
  "invoke_loop env c name [] res failed w = Some (Inr (res, failed), w)"
| "invoke_loop env c name ((n, s) # d) res failed w =
     (case try_run_handler env (tries_of c name) s name w of
        None \<Rightarrow> None
      | Some (Inr r, w') \<Rightarrow> invoke_loop env c name d (Some r) failed w'
      | Some (Inl e, w') \<Rightarrow>
          if is_tracker_panic e \<and> raise_on_error c then Some (Inl e, w')
          else invoke_loop env c name d res
                 (if drops_failed env c name then failed @ [n] else failed) w')"

text \<open>Removing the failed stores; an error of \<open>shutdown\<close> is logged.\<close>

fun remove_stores ::
  "('s, 'w, 'r) store_env \<Rightarrow> string list \<Rightarrow> (string, 's) dict \<Rightarrow> 'w \<Rightarrow> (string, 's) dict \<times> 'w"
where
  "remove_stores env [] d w = (d, w)"
| "remove_stores env (n # ns) d w =
     (case map_of d n of
        None \<Rightarrow> remove_stores env ns d w
      | Some s \<Rightarrow> remove_stores env ns (dict_del d n) (snd (shutdown_store env s w)))"

definition invoke ::
  "('s, 'w, 'r) store_env \<Rightarrow> string \<Rightarrow> 's composite \<Rightarrow> 'w \<Rightarrow>
   ('r option result \<times> 's composite \<times> 'w) option"
where
  "invoke env name c w =
     (case stores_of c of
        StoreNames ns \<Rightarrow> Some (Inl (AttributeError ''items''), c, w)
      | StoreDict d \<Rightarrow>
          (case invoke_loop env c name d None [] w of
             None \<Rightarrow> None
           | Some (Inl e, w') \<Rightarrow> Some (Inl e, c, w')
           | Some (Inr (res, failed), w') \<Rightarrow>
               (case remove_stores env failed d w' of
                  (d', w'') \<Rightarrow> Some (Inr res, c\<lparr>stores_of := StoreDict d'\<rparr>, w''))))"

text \<open>
  \<open>disable_tracking_api\<close> iterates over the dictionary itself, so \<open>store\<close> is a name; a name is
  never a \<open>TrackingStoreThroughChannel\<close>, and the list of all names replaces the stores.
\<close>

definition iterate_stores :: "'s stores \<Rightarrow> string list" where
  "iterate_stores st = (case st of StoreDict d \<Rightarrow> dict_keys d | StoreNames ns \<Rightarrow> ns)"

definition disable_tracking_api :: "'s composite \<Rightarrow> 's composite" where
  "disable_tracking_api c = c\<lparr>stores_of := StoreNames (iterate_stores (stores_of c))\<rparr>"

definition build_store_name :: "string \<Rightarrow> string option \<Rightarrow> string" where
  "build_store_name name channel =
     (case channel of None \<Rightarrow> name | Some ch \<Rightarrow> if ch = [] then name else name @ ''-'' @ ch)"

definition has_tracking_store :: "'s composite \<Rightarrow> string \<Rightarrow> string option \<Rightarrow> bool" where
  "has_tracking_store c name channel =
     (build_store_name name channel \<in> set (iterate_stores (stores_of c)))"

definition trackers_names :: "'s composite \<Rightarrow> string list result" where
  "trackers_names c =
     (case stores_of c of
        StoreDict d \<Rightarrow> Inr (dict_keys d)
      | StoreNames ns \<Rightarrow> Inl (AttributeError ''keys''))"

fun all_ready ::
  "('s, 'w, 'r) store_env \<Rightarrow> 's list \<Rightarrow> 'w \<Rightarrow> bool result \<times> 'w"
where
  "all_ready env [] w = (Inr True, w)"
| "all_ready env (s # ss) w =
     (case store_is_ready env s w of
        (Inl e, w') \<Rightarrow> (Inl e, w')
      | (Inr b, w') \<Rightarrow> if b then all_ready env ss w' else (Inr False, w'))"

definition composite_is_ready ::
  "('s, 'w, 'r) store_env \<Rightarrow> 's composite \<Rightarrow> 'w \<Rightarrow> bool result \<times> 'w"
where
  "composite_is_ready env c w =
     (case stores_of c of
        StoreDict d \<Rightarrow> all_ready env (dict_values d) w
      | StoreNames ns \<Rightarrow> (Inl (AttributeError ''values''), w))"

fun shutdown_all ::
  "('s, 'w, 'r) store_env \<Rightarrow> 's list \<Rightarrow> py_error option \<Rightarrow> 'w \<Rightarrow> py_error option \<times> 'w"
where
  "shutdown_all env [] failed w = (failed, w)"
| "shutdown_all env (s # ss) failed w =
     (case shutdown_store env s w of
        (Inl e, w') \<Rightarrow> shutdown_all env ss (Some e) w'
      | (Inr u, w') \<Rightarrow> shutdown_all env ss failed w')"

definition composite_shutdown ::
  "('s, 'w, 'r) store_env \<Rightarrow> 's composite \<Rightarrow> 'w \<Rightarrow> unit result \<times> 'w"
where
  "composite_shutdown env c w =
     (case stores_of c of
        StoreNames ns \<Rightarrow> (Inl (AttributeError ''items''), w)
      | StoreDict d \<Rightarrow>
          (case shutdown_all env (dict_values d) None w of
             (Some e, w') \<Rightarrow> (if raise_on_error c then Inl e else Inr (), w')
           | (None, w') \<Rightarrow> (Inr (), w')))"

section \<open>The registry\<close>

text \<open>A backend is known by a name or by a name and a channel.\<close>

datatype store_key = StoreName string | StoreChannel string "string option"

text \<open>The keys the program registers itself; plugins add others.\<close>

definition builtin_backends :: "store_key list" where
  "builtin_backends =
     [StoreName ''file'', StoreName ''console'', StoreName ''debug'',
      StoreChannel ''api'' (Some ''web''), StoreChannel ''api'' (Some ''async-web''),
      StoreChannel ''api'' (Some ''proto''), StoreChannel ''api'' (Some ''disabled'')]"

definition register_store ::
  "(store_key, 'b) dict \<Rightarrow> store_key \<Rightarrow> 'b \<Rightarrow> (store_key, 'b) dict result"
where
  "register_store registry key builder =
     (if key \<in> set (dict_keys registry) then Inl (UnknownError ''Already registered'')
      else Inr (dict_set registry key builder))"

definition store_key_of :: "string option \<Rightarrow> string \<Rightarrow> store_key" where
  "store_key_of channel name =
     (if name = ''api'' then StoreChannel name channel else StoreName name)"

definition key_store_name :: "store_key \<Rightarrow> string" where
  "key_store_name key =
     (case key of StoreName n \<Rightarrow> n | StoreChannel n channel \<Rightarrow> build_store_name n channel)"

text \<open>
  One name of \<open>tracking_store_names\<close>: a builder makes a store from the context \<open>ctx\<close>, and may
  raise; \<open>web\<close> is the outcome of \<open>assert_web_enabled\<close>.
\<close>

definition add_store ::
  "(store_key, 'c \<Rightarrow> 's result) dict \<Rightarrow> unit result \<Rightarrow> 'c \<Rightarrow> string option \<Rightarrow>
   (string, 's) dict \<Rightarrow> string \<Rightarrow> (string, 's) dict result"
where
  "add_store registry web ctx channel d name =
     (let key = store_key_of channel name
      in rbind (if key = StoreChannel ''api'' (Some ''db'') then web else Inr ()) (\<lambda>_.
           case map_of registry key of
             None \<Rightarrow> Inl (DatabandConfigError ''wrong store name'')
           | Some builder \<Rightarrow> rmap (dict_set d (key_store_name key)) (builder ctx)))"

definition get_tracking_store ::
  "(store_key, 'c \<Rightarrow> 's result) dict \<Rightarrow> unit result \<Rightarrow> 'c \<Rightarrow> string list \<Rightarrow> string option \<Rightarrow>
   int \<Rightarrow> bool \<Rightarrow> bool \<Rightarrow> 's composite result"
where
  "get_tracking_store registry web ctx names channel tries raises removes =
     rmap (\<lambda>d. \<lparr>stores_of = StoreDict d, raise_on_error = raises, remove_failed_store = removes,
                max_tries = tries\<rparr>)
       (foldM (add_store registry web ctx channel) [] names)"

section \<open>Repeated calls\<close>

interpretation handler_tries:
  bounded_retry "\<lambda>w. Some (call_handler env store name w)" "try_again (int (Suc m))" "int (Suc m)"
  for env :: "('s, 'w, 'r) store_env" and store name m
  by unfold_locales (simp_all add: try_again_def)

lemma after_failures_try:
  assumes "after_failures (\<lambda>w. Some (call_handler env store name w)) (try_again tries) (\<lambda>n w. w) n k w = Some w0"
    "j < k"
  shows "n + int j \<noteq> tries"
  using assms
proof (induction k arbitrary: n w j)
  case (Suc k)
  show ?case
  proof (cases j)
    case 0
    then show ?thesis using Suc.prems by (auto simp: try_again_def split: sum.splits if_splits prod.splits)
  next
    case (Suc i)
    then show ?thesis
      using Suc.prems Suc.IH [of "n + 1" _ i]
      by (auto simp: ac_simps split: sum.splits if_splits prod.splits)
  qed
qed simp

lemma try_run_handler_returns:
  assumes "1 \<le> tries"
  shows "\<exists>k w0. int k < tries \<and>
    after_failures (\<lambda>w. Some (call_handler env store name w)) (try_again tries) (\<lambda>n w. w) 1 k w = Some w0 \<and>
    try_run_handler env tries store name w = Some (call_handler env store name w0) \<and>
    (isl (fst (call_handler env store name w0)) \<longrightarrow> int k = tries - 1)"
proof -
  obtain m where m: "tries = int (Suc m)"
    using that [of "nat (tries - 1)"] assms by simp
  obtain k w0 out where k: "k \<le> nat (int (Suc m) - 1)"
    "after_failures (\<lambda>w. Some (call_handler env store name w)) (try_again tries) (\<lambda>n w. w) 1 k w = Some w0"
    "final_attempt (\<lambda>w. Some (call_handler env store name w)) (try_again tries) (1 + int k) w0 out"
    "retry_from (\<lambda>w. Some (call_handler env store name w)) (try_again tries) (\<lambda>n w. w) 1 w = Some out"
    using handler_tries.returns_within_bound [of 1 m env store name "\<lambda>n w. w" w] m by auto
  moreover have "int k = tries - 1" if "isl (fst (call_handler env store name w0))"
    using k(3) that by (auto simp: final_attempt_def try_again_def isl_def)
  ultimately show ?thesis
    using m by (intro exI [of _ k] exI [of _ w0]) (auto simp: try_run_handler_def final_attempt_def)
qed

lemma try_run_handler_diverges:
  assumes "tries \<le> 0" "\<And>w. isl (fst (call_handler env store name w))"
  shows "try_run_handler env tries store name w = None"
  unfolding try_run_handler_def
proof (rule retry_from_diverges)
  fix w
  obtain e w' where "call_handler env store name w = (Inl e, w')"
    using assms(2) [of w] by (cases "call_handler env store name w") (auto simp: isl_def)
  then show "\<exists>e w'. Some (call_handler env store name w) = Some (Inl e, w') \<and>
      (\<forall>m \<ge> 1. try_again tries m e)"
    using assms(1) by (auto simp: try_again_def)
qed

section \<open>What the composite does with the outcomes of its stores\<close>

text \<open>The specification: every store is called, in order, and its outcome is noted.\<close>

fun call_all ::
  "('s, 'w, 'r) store_env \<Rightarrow> 's composite \<Rightarrow> string \<Rightarrow> (string, 's) dict \<Rightarrow> 'w \<Rightarrow>
   ((string \<times> 'r result) list \<times> 'w) option"
where
  "call_all env c name [] w = Some ([], w)"
| "call_all env c name ((n, s) # d) w =
     (case try_run_handler env (tries_of c name) s name w of
        None \<Rightarrow> None
      | Some (r, w') \<Rightarrow>
          (case call_all env c name d w' of
             None \<Rightarrow> None
           | Some (rs, w'') \<Rightarrow> Some ((n, r) # rs, w'')))"

definition panics :: "'s composite \<Rightarrow> string \<times> 'r result \<Rightarrow> bool" where
  "panics c p = (isl (snd p) \<and> is_tracker_panic (projl (snd p)) \<and> raise_on_error c)"

definition failed_names :: "(string \<times> 'r result) list \<Rightarrow> string list" where
  "failed_names rs = map fst (filter (\<lambda>p. isl (snd p)) rs)"

definition last_success :: "(string \<times> 'r result) list \<Rightarrow> 'r option \<Rightarrow> 'r option" where
  "last_success rs res = foldl (\<lambda>a p. case snd p of Inl e \<Rightarrow> a | Inr r \<Rightarrow> Some r) res rs"

lemma call_all_returns:
  assumes "1 \<le> max_tries c"
  shows "\<exists>rs w'. call_all env c name d w = Some (rs, w') \<and> map fst rs = map fst d"
proof (induction d arbitrary: w)
  case (Cons p d)
  obtain n s where p: "p = (n, s)" by (cases p)
  have "1 \<le> tries_of c name" using assms by (simp add: tries_of_def)
  then obtain r w1 where r: "try_run_handler env (tries_of c name) s name w = Some (r, w1)"
    using try_run_handler_returns [of "tries_of c name" env s name w] by (metis surj_pair)
  obtain rs w' where "call_all env c name d w1 = Some (rs, w')" "map fst rs = map fst d"
    using Cons.IH by blast
  with p r show ?case by simp
qed simp

lemma invoke_loop_calm:
  assumes "call_all env c name d w = Some (rs, w')" "\<forall>p \<in> set rs. \<not> panics c p"
  shows "invoke_loop env c name d res failed w =
    Some (Inr (last_success rs res,
      failed @ (if drops_failed env c name then failed_names rs else [])), w')"
  using assms
proof (induction d arbitrary: w rs res failed)
  case (Cons p d)
  obtain n s where p: "p = (n, s)" by (cases p)
  from Cons.prems(1) obtain r w1 rs1 where
    r: "try_run_handler env (tries_of c name) s name w = Some (r, w1)"
    "call_all env c name d w1 = Some (rs1, w')" "rs = (n, r) # rs1"
    by (auto simp: p split: option.splits prod.splits)
  have "\<forall>p \<in> set rs1. \<not> panics c p" using Cons.prems(2) r(3) by simp
  note ih = Cons.IH [OF r(2) this]
  show ?case
  proof (cases r)
    case (Inl e)
    then have "\<not> (is_tracker_panic e \<and> raise_on_error c)"
      using Cons.prems(2) r(3) by (auto simp: panics_def)
    then show ?thesis
      using r Inl p ih by (simp add: last_success_def failed_names_def)
  next
    case (Inr x)
    then show ?thesis
      using r p ih by (simp add: last_success_def failed_names_def)
  qed
qed (simp add: last_success_def failed_names_def)

lemma invoke_loop_panic:
  assumes "call_all env c name d w = Some (rs, w')" "\<exists>p \<in> set rs. panics c p"
  shows "\<exists>e w''. is_tracker_panic e \<and> raise_on_error c \<and>
    invoke_loop env c name d res failed w = Some (Inl e, w'')"
  using assms
proof (induction d arbitrary: w rs res failed)
  case (Cons p d)
  obtain n s where p: "p = (n, s)" by (cases p)
  from Cons.prems(1) obtain r w1 rs1 where
    r: "try_run_handler env (tries_of c name) s name w = Some (r, w1)"
    "call_all env c name d w1 = Some (rs1, w')" "rs = (n, r) # rs1"
    by (auto simp: p split: option.splits prod.splits)
  show ?case
  proof (cases "panics c (n, r)")
    case True
    then show ?thesis using r p by (auto simp: panics_def isl_def)
  next
    case False
    then have "\<exists>p \<in> set rs1. panics c p" using Cons.prems(2) r(3) by simp
    note ih = Cons.IH [OF r(2) this]
    show ?thesis
      using ih r False p by (cases r) (auto simp: panics_def)
  qed
qed simp

lemma remove_stores_filter: "fst (remove_stores env ns d w) = filter (\<lambda>p. fst p \<notin> set ns) d"
proof (induction env ns d w rule: remove_stores.induct)
  case (2 env n ns d w)
  show ?case
  proof (cases "map_of d n")
    case None
    then have "\<forall>p \<in> set d. fst p \<noteq> n" by (auto simp: map_of_eq_None_iff)
    then have "filter (\<lambda>p. fst p \<notin> set (n # ns)) d = filter (\<lambda>p. fst p \<notin> set ns) d"
      by (intro filter_cong) auto
    then show ?thesis using 2(1) None by simp
  next
    case (Some s)
    have "filter (\<lambda>p. fst p \<notin> set ns) (dict_del d n) = filter (\<lambda>p. fst p \<notin> set (n # ns)) d"
      by (simp add: dict_del_def conj_commute)
    then show ?thesis using 2(2) Some by simp
  qed
qed simp

lemma invoke_outcome:
  assumes "1 \<le> max_tries c" "stores_of c = StoreDict d"
  shows "\<exists>rs w'. call_all env c name d w = Some (rs, w') \<and> map fst rs = map fst d \<and>
    (if \<exists>p \<in> set rs. panics c p
     then \<exists>e w''. is_tracker_panic e \<and> invoke env name c w = Some (Inl e, c, w'')
     else \<exists>w''. invoke env name c w =
       Some (Inr (last_success rs None),
         c\<lparr>stores_of := StoreDict (filter (\<lambda>p. \<not> (drops_failed env c name \<and> fst p \<in> set (failed_names rs))) d)\<rparr>,
         w''))"
proof -
  obtain rs w' where a: "call_all env c name d w = Some (rs, w')" "map fst rs = map fst d"
    using call_all_returns [OF assms(1), of env name d w] by blast
  have "if \<exists>p \<in> set rs. panics c p
     then \<exists>e w''. is_tracker_panic e \<and> invoke env name c w = Some (Inl e, c, w'')
     else \<exists>w''. invoke env name c w =
       Some (Inr (last_success rs None),
         c\<lparr>stores_of := StoreDict (filter (\<lambda>p. \<not> (drops_failed env c name \<and> fst p \<in> set (failed_names rs))) d)\<rparr>,
         w'')"
  proof (cases "\<exists>p \<in> set rs. panics c p")
    case True
    then show ?thesis
      using invoke_loop_panic [OF a(1), of None "[]"] assms(2) by (auto simp: invoke_def)
  next
    case False
    let ?ns = "if drops_failed env c name then failed_names rs else []"
    have l: "invoke_loop env c name d None [] w = Some (Inr (last_success rs None, ?ns), w')"
      using invoke_loop_calm [OF a(1), of None "[]"] False by simp
    obtain d' w'' where r: "remove_stores env ?ns d w' = (d', w'')" by (cases "remove_stores env ?ns d w'")
    have "d' = filter (\<lambda>p. fst p \<notin> set ?ns) d" using remove_stores_filter [of env ?ns d w'] r by simp
    then have "d' = filter (\<lambda>p. \<not> (drops_failed env c name \<and> fst p \<in> set (failed_names rs))) d"
      by (simp split: if_splits)
    then show ?thesis using False assms(2) l r by (simp add: invoke_def)
  qed
  with a show ?thesis by blast
qed

section \<open>Properties\<close>

text \<open>
  With a positive number of tries a handler is called at most that often, the outcome is that
  of its last call, and an error is raised only by the last try.  With zero or fewer tries a
  handler that keeps failing is called forever.
\<close>
theorem try_run_handler_contract:
  "(1 \<le> tries \<longrightarrow>
     (\<exists>k w0. int k < tries \<and>
       after_failures (\<lambda>w. Some (call_handler env store name w)) (try_again tries) (\<lambda>n w. w) 1 k w = Some w0 \<and>
       try_run_handler env tries store name w = Some (call_handler env store name w0) \<and>
       (isl (fst (call_handler env store name w0)) \<longrightarrow> int k = tries - 1))) \<and>
   (tries \<le> 0 \<and> (\<forall>w. isl (fst (call_handler env store name w))) \<longrightarrow>
     try_run_handler env tries store name w = None)"
  using try_run_handler_returns [of tries env store name w]
    try_run_handler_diverges [of tries env store name w] by blast

text \<open>A store that counts its calls and never answers, and one that always does.\<close>

definition counting_env :: "(bool, nat, nat) store_env" where
  "counting_env =
     \<lparr>call_handler = (\<lambda>ok name n. (if ok then Inr n else Inl (TrackerPanicError ''no answer''), Suc n)),
      shutdown_store = (\<lambda>ok n. (Inr (), n)),
      store_is_ready = (\<lambda>ok n. (Inr ok, n)),
      in_tracking_run = True\<rparr>"

theorem try_run_handler_contract_witness:
  "try_run_handler counting_env 0 False ''init_run'' 0 = None"
proof -
  have "\<forall>w. isl (fst (call_handler counting_env False ''init_run'' w))"
    by (simp add: counting_env_def)
  then show ?thesis using try_run_handler_contract [of 0 counting_env False "''init_run''" 0] by simp
qed


definition two_stores :: "bool composite" where
  "two_stores =
     \<lparr>stores_of = StoreDict [(''api-web'', False), (''console'', True)], raise_on_error = True,
      remove_failed_store = True, max_tries = 2\<rparr>"


text \<open>
  After \<open>disable_tracking_api\<close> the composite keeps the names of all its stores, the API ones
  included, but can no longer use any: every call, the shutdown, \<open>is_ready\<close> and
  \<open>trackers_names\<close> raise \<open>AttributeError\<close>.
\<close>
theorem disable_tracking_api_breaks_every_store:
  "invoke env name (disable_tracking_api c) w = Some (Inl (AttributeError ''items''), disable_tracking_api c, w) \<and>
   composite_shutdown env (disable_tracking_api c) w = (Inl (AttributeError ''items''), w) \<and>
   composite_is_ready env (disable_tracking_api c) w = (Inl (AttributeError ''values''), w) \<and>
   trackers_names (disable_tracking_api c) = Inl (AttributeError ''keys'') \<and>
   has_tracking_store (disable_tracking_api c) store channel = has_tracking_store c store channel"
  by (simp add: disable_tracking_api_def invoke_def composite_shutdown_def composite_is_ready_def
      trackers_names_def has_tracking_store_def iterate_stores_def)

end
