(* ===== verification/AsyncChannel.thy ===== *)
theory AsyncChannel
  imports TrackingStore
begin

text \<open>
  The asynchronous web channel of
  \<open>_core/tracking/backends/channels/tracking_async_web_channel.py\<close>: callers put events into a
  queue, a background thread sends them, and \<open>shutdown\<close> waits for the queue.  Callers, the
  thread and the shutdown are interleaved: \<open>chan_step\<close> has one rule per action that another
  thread can observe.  The lemmas show that no event is lost or reordered, that a shutdown that
  no caller races returns after everything was processed, and that one that is raced can hang.
\<close>

section \<open>Processing one item\<close>

text \<open>An event with what the caller read from its own context.\<close>

record queue_item =
  item_name :: string
  item_data :: string
  item_is_orchestration_run :: bool
  stop_tracking_on_failure :: bool

record channel_config =
  chan_max_retries :: int
  chan_remove_failed_store :: bool
  tracker_raise_on_error :: bool

definition build_item :: "channel_config \<Rightarrow> bool \<Rightarrow> bool \<Rightarrow> string \<Rightarrow> string \<Rightarrow> queue_item" where
  "build_item cfg tracking orchestration name payload =
     \<lparr>item_name = name, item_data = payload, item_is_orchestration_run = orchestration,
      stop_tracking_on_failure =
        chan_remove_failed_store cfg \<or> (tracking \<and> is_state_call name)\<rparr>"

text \<open>
  The handler of the background thread raises when the failure has to stop the tracking; every
  other failure of the web channel is swallowed.
\<close>

definition item_handler ::
  "channel_config \<Rightarrow> (queue_item, 'w, 'r) store_env \<Rightarrow> queue_item \<Rightarrow> 'w \<Rightarrow> (unit result \<times> 'w) option"
where
  "item_handler cfg env item w =
     (case try_run_handler env (if is_state_call (item_name item) then chan_max_retries cfg else 1)
         item (item_name item) w of
        None \<Rightarrow> None
      | Some (Inr r, w') \<Rightarrow> Some (Inr (), w')
      | Some (Inl e, w') \<Rightarrow>
          if stop_tracking_on_failure item then Some (Inl e, w')
          else if is_tracker_panic e \<and> tracker_raise_on_error cfg then Some (Inl e, w')
          else Some (Inr (), w'))"

section \<open>The channel and its threads\<close>

datatype 'i entry = Item 'i | Terminator

text \<open>
  \<open>unfinished\<close> is the counter of \<open>queue.Queue\<close> that \<open>join\<close> waits for; \<open>alive\<close> says that the
  thread runs its loop, \<open>failed_before\<close> is the local variable of that loop, \<open>joining\<close> that
  \<open>shutdown\<close> holds the lock and waits.  \<open>checked\<close> and \<open>ensured\<close> are the events of callers
  that passed the test of \<open>_handle\<close> and \<open>_ensure_thread\<close>; \<open>log\<close> is what the thread did, with
  \<open>True\<close> for an event it sent and \<open>False\<close> for one that failed or was skipped.
\<close>

record 'i chan =
  queue :: "'i entry list"
  unfinished :: nat
  alive :: bool
  failed_before :: bool
  shutting_down :: bool
  joining :: bool
  checked :: "'i list"
  ensured :: "'i list"
  submitted :: "'i list"
  log :: "('i \<times> bool) list"

definition init_chan :: "'i chan" where
  "init_chan =
     \<lparr>queue = [], unfinished = 0, alive = False, failed_before = False, shutting_down = False,
      joining = False, checked = [], ensured = [], submitted = [], log = []\<rparr>"

text \<open>The actions; \<open>ok\<close> of \<open>Work\<close> is whether the handler returned.\<close>

datatype 'i action =
    Check 'i
  | Ensure 'i
  | Put 'i
  | Work bool
  | Stop
  | Shutdown
  | Joined

inductive chan_step :: "'i chan \<Rightarrow> 'i action \<Rightarrow> 'i chan \<Rightarrow> bool" where
  check: "\<not> shutting_down s \<Longrightarrow>
     chan_step s (Check i) (s\<lparr>checked := checked s @ [i]\<rparr>)"
| ensure_alive: "i \<in> set (checked s) \<Longrightarrow> alive s \<Longrightarrow>
     chan_step s (Ensure i) (s\<lparr>checked := remove1 i (checked s), ensured := ensured s @ [i]\<rparr>)"
| ensure_start: "i \<in> set (checked s) \<Longrightarrow> \<not> alive s \<Longrightarrow> \<not> joining s \<Longrightarrow>
     chan_step s (Ensure i)
       (s\<lparr>checked := remove1 i (checked s), ensured := ensured s @ [i], alive := True,
          failed_before := False\<rparr>)"
| put: "i \<in> set (ensured s) \<Longrightarrow>
     chan_step s (Put i)
       (s\<lparr>ensured := remove1 i (ensured s), queue := queue s @ [Item i],
          unfinished := Suc (unfinished s), submitted := submitted s @ [i]\<rparr>)"
| work: "alive s \<Longrightarrow> queue s = Item i # q \<Longrightarrow> (failed_before s \<Longrightarrow> \<not> ok) \<Longrightarrow>
     chan_step s (Work ok)
       (s\<lparr>queue := q, unfinished := unfinished s - 1, log := log s @ [(i, ok)],
          failed_before := (failed_before s \<or> \<not> ok)\<rparr>)"
| stop: "alive s \<Longrightarrow> queue s = Terminator # q \<Longrightarrow>
     chan_step s Stop (s\<lparr>queue := q, unfinished := unfinished s - 1, alive := False\<rparr>)"
| shutdown: "alive s \<Longrightarrow> \<not> joining s \<Longrightarrow>
     chan_step s Shutdown
       (s\<lparr>shutting_down := True, joining := True, queue := queue s @ [Terminator],
          unfinished := Suc (unfinished s)\<rparr>)"
| joined: "joining s \<Longrightarrow> unfinished s = 0 \<Longrightarrow>
     chan_step s Joined (s\<lparr>joining := False, alive := False\<rparr>)"

inductive_cases chan_step_elims:
  "chan_step s (Check i) t" "chan_step s (Ensure i) t" "chan_step s (Put i) t"
  "chan_step s (Work ok) t" "chan_step s Stop t" "chan_step s Shutdown t" "chan_step s Joined t"

inductive chan_run :: "'i chan \<Rightarrow> 'i action list \<Rightarrow> 'i chan \<Rightarrow> bool" where
  none: "chan_run s [] s"
| more: "chan_step s a t \<Longrightarrow> chan_run t as u \<Longrightarrow> chan_run s (a # as) u"

inductive_simps chan_run_Nil [simp]: "chan_run s [] t"
inductive_simps chan_run_Cons: "chan_run s (a # as) t"

lemma chan_run_append: "chan_run s as t \<Longrightarrow> chan_run t bs u \<Longrightarrow> chan_run s (as @ bs) u"
  by (induction rule: chan_run.induct) (auto intro: chan_run.more)

section \<open>The invariant\<close>

text \<open>The events waiting in the queue.\<close>

fun items :: "'i entry list \<Rightarrow> 'i list" where
  "items [] = []"
| "items (Item i # q) = i # items q"
| "items (Terminator # q) = items q"

lemma items_append [simp]: "items (p @ q) = items p @ items q"
  by (induction p rule: items.induct) simp_all

definition chan_inv :: "'i chan \<Rightarrow> bool" where
  "chan_inv s =
     (unfinished s = length (queue s) \<and>
      map fst (log s) @ items (queue s) = submitted s \<and>
      (joining s \<longrightarrow> shutting_down s \<and> length (filter (\<lambda>e. e = Terminator) (queue s)) = of_bool (alive s)) \<and>
      (\<not> joining s \<longrightarrow> Terminator \<notin> set (queue s)))"

lemma chan_inv_init: "chan_inv init_chan"
  by (simp add: chan_inv_def init_chan_def)

lemma chan_inv_step: "chan_step s a t \<Longrightarrow> chan_inv s \<Longrightarrow> chan_inv t"
proof (induction rule: chan_step.induct)
  case (joined s)
  then show ?case by (auto simp: chan_inv_def)
next
  case (shutdown s)
  then show ?case by (auto simp: chan_inv_def filter_empty_conv)
qed (auto simp: chan_inv_def split: if_splits)

lemma chan_inv_run: "chan_run s as t \<Longrightarrow> chan_inv s \<Longrightarrow> chan_inv t"
  by (induction rule: chan_run.induct) (auto intro: chan_inv_step)

section \<open>Shutdown\<close>

text \<open>
  After the shutdown of a channel without callers in between, only the thread and \<open>join\<close> move.
\<close>

definition draining :: "'i chan \<Rightarrow> bool" where
  "draining s =
     (shutting_down s \<and> checked s = [] \<and> ensured s = [] \<and> unfinished s = length (queue s) \<and>
      (if alive s then joining s \<and> (\<exists>xs. queue s = map Item xs @ [Terminator])
       else queue s = []))"

definition work_left :: "'i chan \<Rightarrow> nat" where
  "work_left s = length (queue s) + of_bool (joining s)"

lemma items_no_terminator: "Terminator \<notin> set q \<Longrightarrow> q = map Item (items q)"
  by (induction q rule: items.induct) auto

lemma draining_step:
  "chan_step s a t \<Longrightarrow> draining s \<Longrightarrow>
     draining t \<and> work_left s = Suc (work_left t) \<and> submitted t = submitted s"
proof (induction rule: chan_step.induct)
  case (work s i q ok)
  then obtain xs where iq: "Item i # q = map Item xs @ [Terminator]" by (auto simp: draining_def)
  then obtain ys where "xs = i # ys" by (cases xs) auto
  with work iq show ?case by (auto simp: draining_def work_left_def)
next
  case (stop s q)
  then obtain xs where iq: "Terminator # q = map Item xs @ [Terminator]" by (auto simp: draining_def)
  then have "q = []" by (cases xs) auto
  with stop show ?case by (auto simp: draining_def work_left_def)
qed (auto simp: draining_def work_left_def)

lemma draining_run:
  "chan_run s as t \<Longrightarrow> draining s \<Longrightarrow>
     draining t \<and> work_left s = length as + work_left t \<and> submitted t = submitted s"
  by (induction rule: chan_run.induct) (auto dest: draining_step)

lemma draining_progress:
  assumes "draining s" "joining s"
  shows "\<exists>a t. chan_step s a t"
proof (cases "alive s")
  case True
  then obtain xs where iq: "queue s = map Item xs @ [Terminator]" using assms by (auto simp: draining_def)
  show ?thesis
  proof (cases xs)
    case Nil
    with iq True show ?thesis by (auto intro: chan_step.stop)
  next
    case (Cons i js)
    with iq have "queue s = Item i # map Item js @ [Terminator]" by simp
    with True show ?thesis using chan_step.work [of s i _ False] by blast
  qed
next
  case False
  with assms have "unfinished s = 0" by (simp add: draining_def)
  with assms(2) show ?thesis by (blast intro: chan_step.joined)
qed

lemma shutdown_drains_outcome:
  assumes "chan_run init_chan as s" "checked s = []" "ensured s = []" "chan_step s Shutdown u"
    "chan_run u bs t"
  shows "length bs \<le> length (queue s) + 2 \<and> (joining t \<longrightarrow> (\<exists>a v. chan_step t a v)) \<and>
    (\<not> joining t \<longrightarrow> map fst (log t) = submitted s)"
proof -
  have inv: "chan_inv s" using chan_inv_run [OF assms(1) chan_inv_init] .
  from assms(4) have u: "alive s" "\<not> joining s" "u = s\<lparr>shutting_down := True, joining := True,
      queue := queue s @ [Terminator], unfinished := Suc (unfinished s)\<rparr>"
    by (auto elim: chan_step_elims)
  have "queue s = map Item (items (queue s))"
    using inv u(2) by (intro items_no_terminator) (simp add: chan_inv_def)
  then have d: "draining u" using u inv assms(2,3) by (auto simp: draining_def chan_inv_def)
  have w: "work_left u = length (queue s) + 2" "submitted u = submitted s"
    using u by (simp_all add: work_left_def)
  have t: "draining t" "work_left u = length bs + work_left t" "submitted t = submitted u"
    using draining_run [OF assms(5) d] by simp_all
  have "chan_inv t"
    using chan_inv_run [OF assms(5)] chan_inv_step [OF assms(4) inv] by simp
  then have "map fst (log t) = submitted s" if "\<not> joining t"
    using that t w by (auto simp: chan_inv_def draining_def split: if_splits)
  with t w draining_progress show ?thesis by auto
qed

text \<open>A stuck shutdown: it waits, the thread is gone, and an event is left.\<close>

definition stuck :: "'i chan \<Rightarrow> bool" where
  "stuck s = (joining s \<and> \<not> alive s \<and> unfinished s = length (queue s) \<and> queue s \<noteq> [])"

lemma stuck_step: "chan_step s a t \<Longrightarrow> stuck s \<Longrightarrow> stuck t"
  by (induction rule: chan_step.induct) (auto simp: stuck_def)

lemma stuck_run: "chan_run s as t \<Longrightarrow> stuck s \<Longrightarrow> stuck t"
  by (induction rule: chan_run.induct) (auto intro: stuck_step)

text \<open>The runs of one event, in the order of the code and with the shutdown in between.\<close>

lemma start_run:
  "chan_run init_chan [Check i, Ensure i]
     \<lparr>queue = [], unfinished = 0, alive = True, failed_before = False, shutting_down = False,
      joining = False, checked = [], ensured = [i], submitted = [], log = []\<rparr>"
proof -
  let ?s1 = "\<lparr>queue = [], unfinished = 0, alive = False, failed_before = False, shutting_down = False,
      joining = False, checked = [i], ensured = [], submitted = [], log = []\<rparr>"
  have 1: "chan_step init_chan (Check i) ?s1"
    using chan_step.check [of init_chan i] by (simp add: init_chan_def)
  have 2: "chan_step ?s1 (Ensure i)
     \<lparr>queue = [], unfinished = 0, alive = True, failed_before = False, shutting_down = False,
      joining = False, checked = [], ensured = [i], submitted = [], log = []\<rparr>"
    using chan_step.ensure_start [of i ?s1] by simp
  show ?thesis by (rule chan_run.more [OF 1], rule chan_run.more [OF 2], rule chan_run.none)
qed

lemma submission_run:
  "\<exists>s. chan_run init_chan [Check i, Ensure i, Put i] s \<and> alive s \<and> \<not> joining s \<and>
     checked s = [] \<and> ensured s = []"
proof -
  let ?s = "\<lparr>queue = [], unfinished = 0, alive = True, failed_before = False, shutting_down = False,
      joining = False, checked = [], ensured = [i], submitted = [], log = []\<rparr>"
  let ?t = "\<lparr>queue = [Item i], unfinished = 1, alive = True, failed_before = False, shutting_down = False,
      joining = False, checked = [], ensured = [], submitted = [i], log = []\<rparr>"
  have 3: "chan_step ?s (Put i) ?t" using chan_step.put [of i ?s] by simp
  have "chan_run init_chan ([Check i, Ensure i] @ [Put i]) ?t"
    by (rule chan_run_append [OF start_run], rule chan_run.more [OF 3], rule chan_run.none)
  then show ?thesis by (intro exI [of _ ?t]) simp
qed

lemma late_event_run: "\<exists>s. chan_run init_chan [Check i, Ensure i, Shutdown, Put i, Stop] s \<and> stuck s"
proof -
  let ?s2 = "\<lparr>queue = [], unfinished = 0, alive = True, failed_before = False, shutting_down = False,
      joining = False, checked = [], ensured = [i], submitted = [], log = []\<rparr>"
  let ?s3 = "\<lparr>queue = [Terminator], unfinished = 1, alive = True, failed_before = False,
      shutting_down = True, joining = True, checked = [], ensured = [i], submitted = [], log = []\<rparr>"
  let ?s4 = "\<lparr>queue = [Terminator, Item i], unfinished = 2, alive = True, failed_before = False,
      shutting_down = True, joining = True, checked = [], ensured = [], submitted = [i], log = []\<rparr>"
  let ?s5 = "\<lparr>queue = [Item i], unfinished = 1, alive = False, failed_before = False,
      shutting_down = True, joining = True, checked = [], ensured = [], submitted = [i], log = []\<rparr>"
  have 3: "chan_step ?s2 Shutdown ?s3" using chan_step.shutdown [of ?s2] by simp
  have 4: "chan_step ?s3 (Put i) ?s4" using chan_step.put [of i ?s3] by (simp add: numeral_2_eq_2)
  have 5: "chan_step ?s4 Stop ?s5" using chan_step.stop [of ?s4 "[Item i]"] by simp
  have "chan_run ?s2 [Shutdown, Put i, Stop] ?s5"
    by (rule chan_run.more [OF 3], rule chan_run.more [OF 4], rule chan_run.more [OF 5], rule chan_run.none)
  then have "chan_run init_chan ([Check i, Ensure i] @ [Shutdown, Put i, Stop]) ?s5"
    by (rule chan_run_append [OF start_run])
  moreover have "stuck ?s5" by (simp add: stuck_def)
  ultimately show ?thesis by (intro exI [of _ ?s5]) simp
qed

section \<open>Properties\<close>



text \<open>
  C33. A shutdown without callers in between always returns: after it, every run has at most two
  steps more than there were waiting events, some step is possible as long as \<open>join\<close> waits, and
  when it has returned every submitted event has been processed, whatever the handler did.
\<close>
theorem shutdown_drains_the_queue:
  assumes "chan_run init_chan as s" "checked s = []" "ensured s = []" "chan_step s Shutdown u"
    "chan_run u bs t"
  shows "length bs \<le> length (queue s) + 2 \<and> (joining t \<longrightarrow> (\<exists>a v. chan_step t a v)) \<and>
    (\<not> joining t \<longrightarrow> map fst (log t) = submitted s)"
  by (rule shutdown_drains_outcome [OF assms])

theorem shutdown_drains_the_queue_witness:
  "\<exists>s u :: nat chan. chan_run init_chan [Check 7, Ensure 7, Put 7] s \<and> chan_step s Shutdown u \<and>
     (\<exists>a v. chan_step u a v)"
proof -
  obtain s :: "nat chan" where s: "chan_run init_chan [Check 7, Ensure 7, Put 7] s" "alive s"
    "\<not> joining s" "checked s = []" "ensured s = []"
    using submission_run [of "7 :: nat"] by blast
  let ?u = "s\<lparr>shutting_down := True, joining := True, queue := queue s @ [Terminator],
    unfinished := Suc (unfinished s)\<rparr>"
  have st: "chan_step s Shutdown ?u" using s by (intro chan_step.shutdown)
  have "\<exists>a v. chan_step ?u a v"
    using shutdown_drains_the_queue [OF s(1,4,5) st chan_run.none] by simp
  with s st show ?thesis by blast
qed

text \<open>
  A shutdown can hang: when a caller that has passed the tests of \<open>_handle\<close> and
  \<open>_ensure_thread\<close> puts its event after the terminator, the thread stops in front of it and
  \<open>join\<close> waits for it in every continuation.
\<close>
theorem late_event_hangs_shutdown:
  "\<exists>s :: 'i chan. chan_run init_chan [Check i, Ensure i, Shutdown, Put i, Stop] s \<and>
     \<not> (\<exists>bs t. chan_run s bs t \<and> \<not> joining t)"
  using late_event_run [of i] stuck_run by (metis stuck_def)

end
