(* ===== verification/Effects.thy ===== *)
theory Effects
  imports Prelude
begin

text \<open>
  Computations that change an outside world and may raise, with the sequencing the monitor
  components share, and the cutting of a list into chunks that the queries and the syncers do.
\<close>

section \<open>Computations\<close>

type_synonym ('a, 'w) io = "'w \<Rightarrow> 'a result \<times> 'w"

definition io_return :: "'a \<Rightarrow> ('a, 'w) io" where
  "io_return x w = (Inr x, w)"

definition io_raise :: "py_error \<Rightarrow> ('a, 'w) io" where
  "io_raise e w = (Inl e, w)"

definition io_bind :: "('a, 'w) io \<Rightarrow> ('a \<Rightarrow> ('b, 'w) io) \<Rightarrow> ('b, 'w) io" where
  "io_bind m f w = (case m w of (Inl e, w') \<Rightarrow> (Inl e, w') | (Inr x, w') \<Rightarrow> f x w')"

fun io_for :: "('a \<Rightarrow> (unit, 'w) io) \<Rightarrow> 'a list \<Rightarrow> (unit, 'w) io" where
  "io_for f [] = io_return ()"
| "io_for f (x # xs) = io_bind (f x) (\<lambda>_. io_for f xs)"

lemma io_bind_return [simp]: "io_bind (io_return x) f = f x"
  by (simp add: fun_eq_iff io_bind_def io_return_def)

lemma io_bind_raise [simp]: "io_bind (io_raise e) f = io_raise e"
  by (simp add: fun_eq_iff io_bind_def io_raise_def)

lemma io_bind_assoc: "io_bind (io_bind m f) g = io_bind m (\<lambda>x. io_bind (f x) g)"
  by (auto simp: fun_eq_iff io_bind_def split: prod.splits sum.splits)

lemma io_for_append: "io_for f (xs @ ys) = io_bind (io_for f xs) (\<lambda>_. io_for f ys)"
  by (induction xs) (simp_all add: io_bind_assoc)

text \<open>A loop that raises stopped at an element that raised, after all elements before it.\<close>

lemma io_for_error:
  "io_for f xs w = (Inl e, w') \<Longrightarrow>
     \<exists>ys x zs v. xs = ys @ x # zs \<and> io_for f ys w = (Inr (), v) \<and> f x v = (Inl e, w')"
proof (induction xs arbitrary: w)
  case (Cons x xs)
  show ?case
  proof (cases "f x w")
    case (Pair r v)
    show ?thesis
    proof (cases r)
      case (Inl e')
      then show ?thesis
        using Cons.prems Pair
        by (intro exI [of _ "[]"] exI [of _ x] exI [of _ xs] exI [of _ w])
          (simp add: io_bind_def io_return_def)
    next
      case (Inr u)
      then have "io_for f xs v = (Inl e, w')" using Cons.prems Pair by (simp add: io_bind_def)
      then obtain ys y zs u where "xs = ys @ y # zs" "io_for f ys v = (Inr (), u)" "f y u = (Inl e, w')"
        using Cons.IH by blast
      then show ?thesis
        using Pair Inr
        by (intro exI [of _ "x # ys"] exI [of _ y] exI [of _ zs] exI [of _ u])
          (simp add: io_bind_def)
    qed
  qed
qed (simp add: io_return_def)

section \<open>Chunks\<close>

text \<open>
  \<open>for i in range(0, len(xs), n): xs[i : i + n]\<close>; a step of zero raises before the loop, and a
  negative one makes the range empty.
\<close>

function chunks_of :: "nat \<Rightarrow> 'a list \<Rightarrow> 'a list list" where
  "chunks_of n xs = (if n = 0 \<or> xs = [] then [] else take n xs # chunks_of n (drop n xs))"
  by auto
termination
  by (relation "measure (\<lambda>(n, xs). length xs)") (auto simp: length_greater_0_conv [symmetric] simp del: length_greater_0_conv)

declare chunks_of.simps [simp del]

definition chunks :: "int \<Rightarrow> 'a list \<Rightarrow> 'a list list" where
  "chunks n xs = (if n < 0 then [] else chunks_of (nat n) xs)"

lemma concat_chunks_of: "0 < n \<Longrightarrow> concat (chunks_of n xs) = xs"
proof (induction n xs rule: chunks_of.induct)
  case (1 n xs)
  then show ?case by (subst chunks_of.simps) (auto simp: append_take_drop_id)
qed

lemma chunks_of_size: "c \<in> set (chunks_of n xs) \<Longrightarrow> c \<noteq> [] \<and> length c \<le> n"
proof (induction n xs rule: chunks_of.induct)
  case (1 n xs)
  then show ?case by (subst (asm) (2) chunks_of.simps) (auto split: if_splits)
qed

lemma concat_chunks: "0 < n \<Longrightarrow> concat (chunks n xs) = xs"
  by (simp add: chunks_def concat_chunks_of)

lemma chunks_size: "c \<in> set (chunks n xs) \<Longrightarrow> c \<noteq> [] \<and> length c \<le> nat n"
  using chunks_of_size [of c "nat n" xs] by (auto simp: chunks_def split: if_splits)

end
