(* ===== verification/AirflowExport.thy ===== *)
theory AirflowExport
  imports Effects
begin

text \<open>
  The part of the Airflow export plugin that answers the monitor
  (\<open>dbnd_airflow/export_plugin\<close>): the queries for new DAG runs and their logs
  (\<open>queries.py\<close>), the answer built from them and the settings the monitor writes back
  (\<open>api_functions.py\<close>).  The database is a record of its tables; a filter is a predicate on rows,
  a set of rows is a list without repetition.
\<close>

section \<open>Tables\<close>

record dag_run_row =
  run_id :: int
  run_dag :: string
  run_date :: string
  run_state :: string

record dag_model_row =
  model_dag :: string
  model_paused :: bool
  model_subdag :: bool

text \<open>
  Logs that belong to no DAG run have no DAG.  \<open>sql_like pattern text\<close> is the LIKE operator of the
  database, which the query library uses for \<open>startswith\<close>.
\<close>

record log_row =
  log_id :: int
  log_dag :: "string option"
  log_date :: "string option"
  log_event :: string

record airflow_db =
  dag_run_table :: "dag_run_row list"
  dag_model_table :: "dag_model_row list"
  log_table :: "log_row list"
  postgresql :: bool
  sql_like :: "string \<Rightarrow> string \<Rightarrow> bool"

section \<open>Queries\<close>

definition max_parameters_inside_in_clause :: nat where
  "max_parameters_inside_in_clause = 900"

definition subdag_prefixes_condition :: "airflow_db \<Rightarrow> string list \<Rightarrow> string \<Rightarrow> bool" where
  "subdag_prefixes_condition db dag_ids column =
     (column \<in> set dag_ids \<or> (\<exists>d \<in> set dag_ids. sql_like db (d @ ''.'' @ ''%'') column))"

text \<open>A row of the joined query: a DAG run and whether its DAG is paused.\<close>

type_synonym new_run = "dag_run_row \<times> bool"

definition new_dag_runs_base_query :: "airflow_db \<Rightarrow> string list option \<Rightarrow> bool \<Rightarrow> new_run list" where
  "new_dag_runs_base_query db dag_ids include_subdags =
     (let joined = [(r, m). r \<leftarrow> dag_run_table db, m \<leftarrow> dag_model_table db, model_dag m = run_dag r];
          joined = (case dag_ids of
              Some (d # ds) \<Rightarrow> filter (\<lambda>(r, m). subdag_prefixes_condition db (d # ds) (run_dag r)) joined
            | _ \<Rightarrow> joined);
          joined = (if include_subdags then joined else filter (\<lambda>(r, m). \<not> model_subdag m) joined)
      in map (\<lambda>(r, m). (r, model_paused m)) joined)"

definition new_dag_runs_filter_condition ::
  "int option \<Rightarrow> int list \<Rightarrow> (string \<times> string) list option \<Rightarrow> new_run \<Rightarrow> bool"
where
  "new_dag_runs_filter_condition last_seen extra_ids extra_tuples row =
     (case row of (r, paused) \<Rightarrow>
        run_id r \<in> set extra_ids \<or>
        (run_state r = ''running'' \<and> \<not> paused) \<or>
        (case last_seen of None \<Rightarrow> False | Some i \<Rightarrow> i < run_id r) \<or>
        (case extra_tuples of None \<Rightarrow> False | Some ts \<Rightarrow> (run_dag r, run_date r) \<in> set ts))"

definition find_dag_runs_by_list_in_chunks ::
  "new_run list \<Rightarrow> (string \<times> string) list \<Rightarrow> new_run list"
where
  "find_dag_runs_by_list_in_chunks base tuples =
     remdups (concat (map (\<lambda>chunk. filter (\<lambda>(r, p). (run_dag r, run_date r) \<in> set chunk) base)
       (chunks_of max_parameters_inside_in_clause tuples)))"

definition find_new_dag_runs ::
  "airflow_db \<Rightarrow> int option \<Rightarrow> int list \<Rightarrow> (string \<times> string) list \<Rightarrow> string list option \<Rightarrow> bool \<Rightarrow>
   new_run list"
where
  "find_new_dag_runs db last_seen extra_ids tuples dag_ids include_subdags =
     (let base = new_dag_runs_base_query db dag_ids include_subdags
      in if length tuples < max_parameters_inside_in_clause
         then remdups (filter (new_dag_runs_filter_condition last_seen extra_ids (Some tuples)) base)
         else remdups (find_dag_runs_by_list_in_chunks base tuples @
                filter (new_dag_runs_filter_condition last_seen extra_ids None) base))"

text \<open>A group of the log query; MySQL and SQLite join the events, PostgreSQL collects them.\<close>

datatype event_field = Joined string | Collected "string list"

record log_group =
  group_id :: int
  group_dag :: string
  group_date :: "string option"
  group_events :: event_field

definition logs_condition :: "airflow_db \<Rightarrow> int \<Rightarrow> string list option \<Rightarrow> log_row \<Rightarrow> bool" where
  "logs_condition db last_seen dag_ids l =
     (last_seen < log_id l \<and>
      (case log_dag l of
         None \<Rightarrow> False
       | Some d \<Rightarrow> (case dag_ids of
             Some (i # is') \<Rightarrow> subdag_prefixes_condition db (i # is') d
           | _ \<Rightarrow> True)))"

definition log_group_of :: "airflow_db \<Rightarrow> log_row list \<Rightarrow> string option \<times> string option \<Rightarrow> log_group" where
  "log_group_of db logs key =
     (let rows = filter (\<lambda>l. (log_dag l, log_date l) = key) logs;
          events = remdups (map log_event rows)
      in \<lparr>group_id = Max (set (map log_id rows)),
          group_dag = (case fst key of None \<Rightarrow> [] | Some d \<Rightarrow> d),
          group_date = snd key,
          group_events = (if postgresql db then Collected events else Joined (join_str '','' events))\<rparr>)"

definition find_all_logs_grouped_by_runs ::
  "airflow_db \<Rightarrow> int option \<Rightarrow> string list option \<Rightarrow> log_group list"
where
  "find_all_logs_grouped_by_runs db last_seen dag_ids =
     (case last_seen of
        None \<Rightarrow> []
      | Some i \<Rightarrow>
          (let logs = filter (logs_condition db i dag_ids) (log_table db)
           in map (log_group_of db logs) (remdups (map (\<lambda>l. (log_dag l, log_date l)) logs))))"

definition find_max_dag_run_id :: "airflow_db \<Rightarrow> int option" where
  "find_max_dag_run_id db =
     (if dag_run_table db = [] then None else Some (Max (set (map run_id (dag_run_table db)))))"

definition find_max_log_run_id :: "airflow_db \<Rightarrow> int option" where
  "find_max_log_run_id db =
     (if log_table db = [] then None else Some (Max (set (map log_id (log_table db)))))"

section \<open>The answer\<close>

record airflow_new_dag_run =
  new_id :: int
  new_dag :: string
  new_date :: string
  new_state :: string
  new_paused :: bool
  new_has_updated :: bool
  new_max_log_id :: "int option"
  new_events :: "string list"

record new_runs_data =
  new_dag_runs :: "airflow_new_dag_run list"
  data_last_seen_dag_run_id :: "int option"
  data_last_seen_log_id :: "int option"

definition logs_dict :: "log_group list \<Rightarrow> (string \<times> string option, log_group) dict" where
  "logs_dict logs = foldl (\<lambda>d l. dict_set d (group_dag l, group_date l) l) [] logs"

definition logs_keys :: "log_group list \<Rightarrow> (string \<times> string) list" where
  "logs_keys logs =
     concat (map (\<lambda>(d, t). case t of None \<Rightarrow> [] | Some x \<Rightarrow> [(d, x)]) (dict_keys (logs_dict logs)))"

definition events_list :: "event_field \<Rightarrow> string list" where
  "events_list e = (case e of Joined s \<Rightarrow> split_on (CHR '','') s | Collected es \<Rightarrow> es)"

definition new_dag_run_of ::
  "(string \<times> string option, log_group) dict \<Rightarrow> new_run \<Rightarrow> airflow_new_dag_run"
where
  "new_dag_run_of d row =
     (case row of (r, paused) \<Rightarrow>
        (let log = map_of d (run_dag r, Some (run_date r))
         in \<lparr>new_id = run_id r, new_dag = run_dag r, new_date = run_date r, new_state = run_state r,
             new_paused = paused, new_has_updated = (log \<noteq> None),
             new_max_log_id = map_option group_id log,
             new_events = (case log of None \<Rightarrow> [] | Some l \<Rightarrow> events_list (group_events l))\<rparr>))"

definition get_new_dag_runs ::
  "airflow_db \<Rightarrow> int option \<Rightarrow> int option \<Rightarrow> int list \<Rightarrow> string list option \<Rightarrow> bool \<Rightarrow> new_runs_data"
where
  "get_new_dag_runs db last_run last_log extra_ids dag_ids include_subdags =
     (let max_run = find_max_dag_run_id db;
          max_log = find_max_log_run_id db;
          last_run = (case last_run of None \<Rightarrow> max_run | Some i \<Rightarrow> Some i);
          last_log = (case last_log of None \<Rightarrow> max_log | Some i \<Rightarrow> Some i);
          logs = find_all_logs_grouped_by_runs db last_log dag_ids;
          runs = find_new_dag_runs db last_run extra_ids (logs_keys logs) dag_ids include_subdags
      in \<lparr>new_dag_runs = map (new_dag_run_of (logs_dict logs)) runs,
          data_last_seen_dag_run_id = max_run, data_last_seen_log_id = max_log\<rparr>)"

section \<open>Settings written back\<close>

text \<open>Nested JSON objects with text leaves.\<close>

datatype json_value = JText string | JDict "(string \<times> json_value) list"

fun deep_update_value :: "json_value option \<Rightarrow> json_value \<Rightarrow> json_value result"
and deep_update :: "(string, json_value) dict \<Rightarrow> (string \<times> json_value) list \<Rightarrow> (string, json_value) dict result"
where
  "deep_update_value old (JText s) = Inr (JText s)"
| "deep_update_value old (JDict []) = Inr (JDict [])"
| "deep_update_value None (JDict (p # ps)) = rmap JDict (deep_update [] (p # ps))"
| "deep_update_value (Some (JDict d)) (JDict (p # ps)) = rmap JDict (deep_update d (p # ps))"
| "deep_update_value (Some (JText s)) (JDict (p # ps)) =
     Inl (TypeError ''str object does not support item assignment'')"
| "deep_update source [] = Inr source"
| "deep_update source ((k, v) # rest) =
     rbind (deep_update_value (map_of source k) v) (\<lambda>new. deep_update (dict_set source k new) rest)"

definition remove_place_holders :: "(string, json_value) dict \<Rightarrow> (string, json_value) dict result" where
  "remove_place_holders d =
     (case map_of d ''core'' of
        None \<Rightarrow> Inr d
      | Some (JText s) \<Rightarrow> Inl (AttributeError ''pop'')
      | Some (JDict c) \<Rightarrow>
          (let c' = dict_del (dict_del c ''databand_access_token'') ''databand_url''
           in Inr (if c' = [] then dict_del d ''core'' else dict_set d ''core'' (JDict c'))))"

section \<open>Lemmas on the queries\<close>

lemma chunk_cover: "0 < n \<Longrightarrow> (\<Union>c \<in> set (chunks_of n xs). set c) = set xs"
  using concat_chunks_of [of n xs] by (metis set_concat)

text \<open>The result does not depend on whether the tuples were cut into chunks.\<close>

lemma filter_condition_Some:
  "new_dag_runs_filter_condition last_seen extra_ids (Some tuples) row \<longleftrightarrow>
     new_dag_runs_filter_condition last_seen extra_ids None row \<or>
     (run_dag (fst row), run_date (fst row)) \<in> set tuples"
  by (cases row) (auto simp: new_dag_runs_filter_condition_def)

lemma set_find_in_chunks:
  "set (find_dag_runs_by_list_in_chunks base tuples) =
     {row \<in> set base. (run_dag (fst row), run_date (fst row)) \<in> set tuples}"
proof -
  have n: "0 < max_parameters_inside_in_clause" by (simp add: max_parameters_inside_in_clause_def)
  have "set (find_dag_runs_by_list_in_chunks base tuples) =
      {row \<in> set base. (run_dag (fst row), run_date (fst row)) \<in>
        (\<Union>c \<in> set (chunks_of max_parameters_inside_in_clause tuples). set c)}"
    by (auto simp: find_dag_runs_by_list_in_chunks_def)
  then show ?thesis unfolding chunk_cover [OF n] .
qed

lemma find_new_dag_runs_set:
  "set (find_new_dag_runs db last_seen extra_ids tuples dag_ids subdags) =
     {row \<in> set (new_dag_runs_base_query db dag_ids subdags).
        new_dag_runs_filter_condition last_seen extra_ids (Some tuples) row}"
proof (cases "length tuples < max_parameters_inside_in_clause")
  case True
  then show ?thesis unfolding find_new_dag_runs_def Let_def by simp
next
  case False
  then show ?thesis
    unfolding find_new_dag_runs_def Let_def
    by (simp only: if_False set_remdups set_append set_filter set_find_in_chunks filter_condition_Some)
      blast
qed

lemma find_new_dag_runs_states:
  assumes "row \<in> set (find_new_dag_runs db last_seen extra_ids tuples dag_ids subdags)"
  shows "fst row \<in> set (dag_run_table db)"
  using assms
  by (auto simp: find_new_dag_runs_set new_dag_runs_base_query_def Let_def split: option.splits list.splits if_splits)

text \<open>
  Looking up the runs that have new logs in chunks of 900 finds the same set of DAG runs as one
  query with the whole condition would, for every database and every list of runs.
\<close>
theorem chunked_query_is_complete:
  "set (find_new_dag_runs db last_seen extra_ids tuples dag_ids subdags) =
     {row \<in> set (new_dag_runs_base_query db dag_ids subdags).
        new_dag_runs_filter_condition last_seen extra_ids (Some tuples) row}"
  by (rule find_new_dag_runs_set)

end
