(* ===== verification/MonitorErrors.thy ===== *)
theory MonitorErrors
  imports Effects "HOL-Library.List_Lexorder" "HOL-Library.Char_ord" "HOL-Library.Product_Lexorder"
begin

text \<open>
  How the monitor reports its errors (\<open>airflow_monitor/shared\<close>): the error aggregator
  (\<open>error_aggregator.py\<close>), its use by a tracking service (\<open>base_tracking_service.py\<close>), the
  decorator that turns every exception of a component into a report (\<open>error_handler.py\<close>), and the
  liveness probe (\<open>liveness_probe.py\<close>).  Time is a number of seconds.
\<close>

section \<open>The aggregator\<close>

text \<open>
  A dictionary with weak keys: one entry per reporting function, removed when the function is
  collected.  \<open>message_of\<close> is the newest error first.
\<close>

record error_aggregator =
  active_errors :: "(string, int \<times> string) dict"
  last_reported_errors :: nat

definition empty_aggregator :: error_aggregator where
  "empty_aggregator = \<lparr>active_errors = [], last_reported_errors = 0\<rparr>"

definition error_separator :: string where
  "error_separator = char_of (10 :: nat) # char_of (10 :: nat) # ''---------'' @
     [char_of (10 :: nat), char_of (10 :: nat)]"

definition message_of :: "(string, int \<times> string) dict \<Rightarrow> string option" where
  "message_of errors =
     (let aggregated = join_str error_separator (map snd (rev (sort (dict_values errors))))
      in if aggregated = [] then None else Some aggregated)"

record error_aggregator_result =
  res_message :: "string option"
  should_update :: bool

definition report ::
  "int \<Rightarrow> string \<Rightarrow> string option \<Rightarrow> error_aggregator \<Rightarrow> error_aggregator \<times> error_aggregator_result"
where
  "report now key message agg =
     (let update = (\<lambda>errors.
            (agg\<lparr>active_errors := errors, last_reported_errors := length errors\<rparr>,
             \<lparr>res_message = message_of errors, should_update = True\<rparr>))
      in case message of
           Some m \<Rightarrow> update (dict_set (active_errors agg) key (now, m))
         | None \<Rightarrow>
             if key \<in> set (dict_keys (active_errors agg)) then update (dict_del (active_errors agg) key)
             else if last_reported_errors agg = length (active_errors agg)
             then (agg, \<lparr>res_message = None, should_update = False\<rparr>)
             else update (active_errors agg))"

text \<open>The interpreter drops the entries of collected functions.\<close>

definition evict :: "(string \<Rightarrow> bool) \<Rightarrow> error_aggregator \<Rightarrow> error_aggregator" where
  "evict gone agg = agg\<lparr>active_errors := filter (\<lambda>(k, e). \<not> gone k) (active_errors agg)\<rparr>"

section \<open>The tracking service\<close>

text \<open>
  \<open>report_error\<close>: an update is sent when the aggregator asks for one.  The caller swallows a
  failure of the request.
\<close>

definition report_error_to_service ::
  "(string option \<Rightarrow> (unit, 'w) io) \<Rightarrow> int \<Rightarrow> string \<Rightarrow> string option \<Rightarrow>
   error_aggregator \<times> 'w \<Rightarrow> error_aggregator \<times> 'w"
where
  "report_error_to_service update_monitor_state now key message s =
     (case s of (agg, w) \<Rightarrow>
        (case report now key message agg of (agg', res) \<Rightarrow>
           (agg', if should_update res then snd (update_monitor_state (res_message res) w) else w)))"

section \<open>Capturing exceptions\<close>

text \<open>
  The decorator \<open>capture_monitor_exception\<close>: an error is logged to the server and reported, a
  success clears the report of the function; \<open>None\<close> is returned after an error.
\<close>

definition capture_exception ::
  "(py_error \<Rightarrow> 'w \<Rightarrow> 'w) \<Rightarrow> (string \<Rightarrow> py_error option \<Rightarrow> 'w \<Rightarrow> 'w) \<Rightarrow> string \<Rightarrow> ('a, 'w) io \<Rightarrow>
   'w \<Rightarrow> 'a option \<times> 'w"
where
  "capture_exception log_exc rep name m w =
     (case m w of
        (Inr x, w') \<Rightarrow> (Some x, rep name None w')
      | (Inl e, w') \<Rightarrow> (None, rep name (Some e) (log_exc e w')))"

section \<open>The liveness probe\<close>

definition max_time_diff_in_seconds :: int where
  "max_time_diff_in_seconds = 5 * 60"

text \<open>
  \<open>timedelta.seconds\<close> is the part of a difference within a day.  The content of the file is the
  time at which the last round ended.
\<close>

definition timedelta_seconds :: "int \<Rightarrow> int" where
  "timedelta_seconds d = d mod 86400"

definition check_monitor_alive :: "int option \<Rightarrow> int \<Rightarrow> int \<Rightarrow> unit result" where
  "check_monitor_alive liveness_file now max_time_diff =
     (case liveness_file of
        None \<Rightarrow> Inl (UnknownError ''Monitor is probably not alive!'')
      | Some timestamp \<Rightarrow>
          if max_time_diff < timedelta_seconds (now - timestamp)
          then Inl (UnknownError ''Monitor is probably not alive!'') else Inr ())"

section \<open>What the server shows\<close>

datatype monitor_event = Report int string "string option" | Evict "string list"

text \<open>The aggregator and the message the server shows, when every update is delivered.\<close>

fun monitor_step :: "error_aggregator \<times> string option \<Rightarrow> monitor_event \<Rightarrow> error_aggregator \<times> string option" where
  "monitor_step s (Report t k m) = report_error_to_service (\<lambda>msg _. (Inr (), msg)) t k m s"
| "monitor_step (agg, shown) (Evict ks) = (evict (\<lambda>k. k \<in> set ks) agg, shown)"

definition monitor_run :: "monitor_event list \<Rightarrow> error_aggregator \<times> string option" where
  "monitor_run es = foldl monitor_step (empty_aggregator, None) es"

definition shown_inv :: "error_aggregator \<times> string option \<Rightarrow> bool" where
  "shown_inv s =
     (\<exists>old. snd s = message_of old \<and> last_reported_errors (fst s) = length old \<and>
        length (active_errors (fst s)) \<le> length old \<and>
        (length (active_errors (fst s)) = length old \<longrightarrow> active_errors (fst s) = old))"

lemma shown_inv_current:
  "last_reported_errors agg = length (active_errors agg) \<Longrightarrow>
   shown_inv (agg, shown) \<longleftrightarrow> shown = message_of (active_errors agg)"
  by (auto simp: shown_inv_def)

lemma report_current:
  assumes "shown_inv (agg, shown)" "monitor_step (agg, shown) (Report t k m) = (agg', shown')"
  shows "shown' = message_of (active_errors agg') \<and>
     last_reported_errors agg' = length (active_errors agg')"
  using assms
  by (auto simp: report_error_to_service_def report_def Let_def shown_inv_current
      split: option.splits if_splits prod.splits)

lemma step_inv: "shown_inv s \<Longrightarrow> shown_inv (monitor_step s e)"
proof (cases e)
  case (Report t k m)
  assume inv: "shown_inv s"
  obtain agg shown where s: "s = (agg, shown)" by (cases s)
  obtain agg' shown' where s': "monitor_step s e = (agg', shown')" by (cases "monitor_step s e")
  from report_current [OF inv [unfolded s] s' [unfolded s Report]] show ?thesis
    unfolding s' by (simp add: shown_inv_current)
next
  case (Evict ks)
  assume "shown_inv s"
  then obtain agg shown old where s: "s = (agg, shown)" and old: "shown = message_of old"
      "last_reported_errors agg = length old" "length (active_errors agg) \<le> length old"
      "length (active_errors agg) = length old \<longrightarrow> active_errors agg = old"
    unfolding shown_inv_def by (cases s) auto
  let ?kept = "filter (\<lambda>(k, e). k \<notin> set ks) (active_errors agg)"
  have le: "length ?kept \<le> length (active_errors agg)" by (rule length_filter_le)
  have "?kept = old" if "length ?kept = length old"
  proof -
    from that le old(3) have eq: "length (active_errors agg) = length old" by linarith
    then have "length ?kept = length (active_errors agg)" using that by simp
    then have "?kept = active_errors agg"
      by (metis (no_types, lifting) filter_id_conv length_filter_less order_less_irrefl)
    then show ?thesis using old(4) eq by simp
  qed
  then show ?thesis
    using s old le_trans [OF le old(3)] unfolding shown_inv_def Evict
    by (intro exI [of _ old]) (simp add: evict_def)
qed

lemma run_inv: "shown_inv (monitor_run es)"
proof -
  have "shown_inv (foldl monitor_step s es)" if "shown_inv s" for s
    using that by (induction es arbitrary: s) (simp_all add: step_inv)
  moreover have "shown_inv (empty_aggregator, None)"
    by (simp add: shown_inv_def empty_aggregator_def message_of_def dict_values_def)
  ultimately show ?thesis unfolding monitor_run_def by blast
qed

lemma report_shows:
  "snd (monitor_run (es @ [Report t k m])) =
     message_of (active_errors (fst (monitor_run (es @ [Report t k m]))))"
proof -
  obtain agg shown where s: "monitor_run es = (agg, shown)" by (cases "monitor_run es")
  obtain agg' shown' where s': "monitor_step (agg, shown) (Report t k m) = (agg', shown')"
    by (cases "monitor_step (agg, shown) (Report t k m)")
  have "monitor_run (es @ [Report t k m]) = (agg', shown')"
    using s s' by (simp add: monitor_run_def)
  with report_current [OF run_inv [of es, unfolded s] s'] show ?thesis by simp
qed

text \<open>
  As long as the updates are delivered, the server shows after every report, for every history
  of reports and of collected functions, exactly the errors that are active then, the newest first.
\<close>
theorem server_shows_the_active_errors:
  "snd (monitor_run (es @ [Report t k m])) =
     message_of (active_errors (fst (monitor_run (es @ [Report t k m]))))"
  by (rule report_shows)

section \<open>A lost update\<close>

lemma ok_report_is_silent:
  assumes "active_errors agg = []" "last_reported_errors agg = 0"
  shows "report t k None agg = (agg, \<lparr>res_message = None, should_update = False\<rparr>)"
  using assms by (simp add: report_def dict_keys_def)

lemma ok_reports_are_silent:
  assumes "active_errors agg = []" "last_reported_errors agg = 0"
  shows "foldl (\<lambda>s (t, k). report_error_to_service f t k None s) (agg, w) oks = (agg, w)"
  using assms
  by (induction oks) (auto simp: report_error_to_service_def ok_report_is_silent)

lemma lost_clear:
  assumes "active_errors agg = [(k, e)]" "snd (failing None w) = w"
  shows "snd (foldl (\<lambda>s (t, k'). report_error_to_service recovered t k' None s)
     (report_error_to_service failing t0 k None (agg, w)) oks) = w"
proof -
  let ?agg = "agg\<lparr>active_errors := [], last_reported_errors := 0\<rparr>"
  have "report_error_to_service failing t0 k None (agg, w) = (?agg, w)"
    using assms
    by (simp add: report_error_to_service_def report_def Let_def dict_keys_def dict_del_def
        message_of_def dict_values_def)
  then show ?thesis by (simp add: ok_reports_are_silent)
qed

text \<open>
  When the request that clears the last error fails, no later success sends it again: the
  server goes on showing the error although every function succeeds and the service has recovered.
\<close>
theorem failed_clear_is_never_resent:
  assumes "active_errors agg = [(k, e)]" "snd (failing None w) = w"
  shows "snd (foldl (\<lambda>s (t, k'). report_error_to_service recovered t k' None s)
     (report_error_to_service failing t0 k None (agg, w)) oks) = w"
  using assms by (rule lost_clear [where agg = agg and failing = failing and w = w])

lemma failed_clear_is_never_resent_witness:
  "snd (foldl (\<lambda>s (t, k'). report_error_to_service (\<lambda>m _. (Inr (), m)) t k' None s)
     (report_error_to_service (\<lambda>m w. (Inl (ConnectionError []), w)) 2 ''f'' None
        (fst (report 1 ''f'' (Some ''down'') empty_aggregator), Some ''down''))
     [(3, ''f''), (4, ''g''), (5, ''f'')]) = Some ''down''"
  by (rule failed_clear_is_never_resent [where e = "(1, ''down'')"])
    (simp_all add: report_def empty_aggregator_def Let_def)

section \<open>The probe forgets whole days\<close>

lemma timedelta_seconds_days: "timedelta_seconds (d + 86400 * int n) = timedelta_seconds d"
  by (simp add: timedelta_seconds_def)

text \<open>
  The liveness probe only sees the part of the age of the liveness file within a day: it gives
  the same answer for a file that is any number of days older, so a monitor that stopped exactly a
  day ago passes.
\<close>
theorem liveness_probe_wraps:
  "check_monitor_alive (Some (timestamp - 86400 * int days)) now limit =
     check_monitor_alive (Some timestamp) now limit"
  using timedelta_seconds_days [of "now - timestamp" days]
  by (simp add: check_monitor_alive_def algebra_simps)

end
