(* ===== verification/AirflowSync.thy ===== *)
theory AirflowSync
  imports AirflowExport MonitorErrors "HOL-Library.Multiset"
begin

text \<open>
  The runtime syncer of the Airflow monitor (\<open>airflow_monitor/syncer/runtime_syncer.py\<close>, with
  \<open>common/airflow_data.py\<close>, \<open>shared/error_handler.py\<close>, \<open>shared/base_syncer.py\<close> and
  \<open>fixer/runtime_fixer.py\<close>): reading the plugin's answer, deciding which DAG runs are new and
  which have to be updated, and sending both in chunks.  The tracking service and the data fetcher
  are parameters that change the outside world and may raise.
\<close>

section \<open>The answer of the plugin\<close>

record airflow_dag_run =
  dr_id :: int
  dr_dag_id :: string
  dr_execution_date :: string
  dr_state :: string
  dr_is_paused :: bool
  dr_has_updated :: bool
  dr_max_log_id :: "int option"
  dr_events :: "string option"

record airflow_dag_runs_response =
  resp_dag_runs :: "airflow_dag_run list"
  resp_last_seen_dag_run_id :: "int option"
  resp_last_seen_log_id :: "int option"

text \<open>\<open>AirflowDagRunsResponse.from_dict\<close>: seven keys are read, \<open>events\<close> keeps its default.\<close>

definition dag_run_from_dict :: "airflow_new_dag_run \<Rightarrow> airflow_dag_run" where
  "dag_run_from_dict r =
     \<lparr>dr_id = new_id r, dr_dag_id = new_dag r, dr_execution_date = new_date r, dr_state = new_state r,
      dr_is_paused = new_paused r, dr_has_updated = new_has_updated r,
      dr_max_log_id = new_max_log_id r, dr_events = None\<rparr>"

definition response_from_dict :: "new_runs_data \<Rightarrow> airflow_dag_runs_response" where
  "response_from_dict d =
     \<lparr>resp_dag_runs = map dag_run_from_dict (new_dag_runs d),
      resp_last_seen_dag_run_id = data_last_seen_dag_run_id d,
      resp_last_seen_log_id = data_last_seen_log_id d\<rparr>"

section \<open>Which DAG runs to send\<close>

definition view_only_events :: "string list" where
  "view_only_events =
     [''duration'', ''elasticsearch'', ''extra_links'', ''gantt'', ''get_logs_with_metadata'', ''graph'',
      ''landing_times'', ''log'', ''rendered'', ''task'', ''task_instances'', ''tree'', ''tries'',
      ''variables'', ''varimport'', ''xcom'']"

definition is_view_only_events :: "airflow_dag_run \<Rightarrow> bool" where
  "is_view_only_events dr =
     (case dr_events dr of
        None \<Rightarrow> False
      | Some [] \<Rightarrow> False
      | Some (c # cs) \<Rightarrow> set (split_on (CHR '','') (c # cs)) - set view_only_events = {})"

fun categorize_loop ::
  "int list \<Rightarrow> airflow_dag_run list \<Rightarrow> airflow_dag_run list \<Rightarrow> airflow_dag_run list \<Rightarrow>
   airflow_dag_run list \<Rightarrow> airflow_dag_run list \<times> airflow_dag_run list \<times> airflow_dag_run list"
where
  "categorize_loop ids [] to_init to_update to_skip = (to_init, to_update, to_skip)"
| "categorize_loop ids (dr # drs) to_init to_update to_skip =
     (let is_finished = (dr_state dr \<noteq> ''RUNNING'')
      in if is_finished \<and> is_view_only_events dr
         then categorize_loop ids drs to_init (to_update @ [dr]) to_skip
         else if dr_id dr \<notin> set ids then categorize_loop ids drs (to_init @ [dr]) to_update to_skip
         else if is_finished \<or> dr_has_updated dr \<or> dr_is_paused dr
         then categorize_loop ids drs to_init (to_update @ [dr]) to_skip
         else categorize_loop ids drs to_init to_update (to_skip @ [dr]))"

definition categorize_dag_runs ::
  "airflow_dag_run list \<Rightarrow> int list \<Rightarrow> airflow_dag_run list \<times> airflow_dag_run list"
where
  "categorize_dag_runs drs ids =
     (case categorize_loop ids drs [] [] [] of (to_init, to_update, to_skip) \<Rightarrow> (to_init, to_update))"

section \<open>The services\<close>

record server_config =
  start_time_window :: int
  config_dag_ids :: "string option"
  dag_run_bulk_size :: "int option"
  include_sources :: bool
  fix_interval :: int

record dbnd_dag_runs =
  dag_run_ids :: "int list"
  last_seen_dag_run_id :: "int option"
  last_seen_log_id :: "int option"

text \<open>
  \<open>'f\<close> and \<open>'d\<close> are the full and the state data of a chunk of runs, opaque to the monitor.
\<close>

record ('f, 'd, 'w) sync_env =
  get_active_dag_runs :: "int \<Rightarrow> string option \<Rightarrow> (dbnd_dag_runs, 'w) io"
  get_all_dag_runs :: "int \<Rightarrow> string option \<Rightarrow> (dbnd_dag_runs, 'w) io"
  get_last_seen_values :: "(int option \<times> int option, 'w) io"
  update_last_seen_values :: "int \<times> int \<Rightarrow> (unit, 'w) io"
  get_airflow_dagruns_to_sync ::
    "int option \<Rightarrow> int option \<Rightarrow> int list \<Rightarrow> string option \<Rightarrow> (airflow_dag_runs_response, 'w) io"
  get_full_dag_runs :: "int list \<Rightarrow> bool \<Rightarrow> ('f, 'w) io"
  get_dag_runs_state_data :: "int list \<Rightarrow> ('d, 'w) io"
  service_init_dagruns :: "'f \<Rightarrow> int \<Rightarrow> string \<Rightarrow> (unit, 'w) io"
  service_update_dagruns :: "'d \<Rightarrow> int option \<Rightarrow> string \<Rightarrow> (unit, 'w) io"
  empty_state_data :: 'd
  fetch_config :: "(server_config, 'w) io"
  log_exception :: "py_error \<Rightarrow> 'w \<Rightarrow> 'w"
  report_error :: "string \<Rightarrow> py_error option \<Rightarrow> 'w \<Rightarrow> 'w"

text \<open>The decorator, for a component with this service.\<close>

abbreviation capture_monitor_exception ::
  "('f, 'd, 'w) sync_env \<Rightarrow> string \<Rightarrow> ('a, 'w) io \<Rightarrow> 'w \<Rightarrow> 'a option \<times> 'w"
where
  "capture_monitor_exception env \<equiv> capture_exception (log_exception env) (report_error env)"

text \<open>A captured call as a statement of another function.\<close>

definition captured ::
  "('f, 'd, 'w) sync_env \<Rightarrow> string \<Rightarrow> (unit, 'w) io \<Rightarrow> (unit, 'w) io"
where
  "captured env name m w = (Inr (), snd (capture_monitor_exception env name m w))"

section \<open>Sending in chunks\<close>

definition syncer_type :: string where
  "syncer_type = ''runtime_syncer''"

definition bulk_size :: "server_config \<Rightarrow> 'a list \<Rightarrow> int" where
  "bulk_size cfg xs =
     (case dag_run_bulk_size cfg of
        None \<Rightarrow> int (length xs)
      | Some b \<Rightarrow> if b = 0 then int (length xs) else b)"

definition init_chunks :: "server_config \<Rightarrow> airflow_dag_run list \<Rightarrow> airflow_dag_run list list" where
  "init_chunks cfg drs = (let drs = sort_key dr_id drs in chunks (bulk_size cfg drs) drs)"

definition chunk_max_id :: "airflow_dag_run list \<Rightarrow> int" where
  "chunk_max_id c = Max (set (map dr_id c))"

definition send_init_chunk ::
  "('f, 'd, 'w) sync_env \<Rightarrow> server_config \<Rightarrow> airflow_dag_run list \<Rightarrow> (unit, 'w) io"
where
  "send_init_chunk env cfg c =
     io_bind (get_full_dag_runs env (map dr_id c) (include_sources cfg)) (\<lambda>full.
       service_init_dagruns env full (chunk_max_id c) syncer_type)"

definition init_dagruns ::
  "('f, 'd, 'w) sync_env \<Rightarrow> server_config \<Rightarrow> airflow_dag_run list \<Rightarrow> (unit, 'w) io"
where
  "init_dagruns env cfg drs =
     (if drs = [] then io_return () else io_for (send_init_chunk env cfg) (init_chunks cfg drs))"

text \<open>Runs without a log come last.\<close>

definition update_key :: "airflow_dag_run \<Rightarrow> bool \<times> int" where
  "update_key dr = (dr_max_log_id dr = None, case dr_max_log_id dr of None \<Rightarrow> 0 | Some i \<Rightarrow> i)"

definition update_chunks :: "server_config \<Rightarrow> airflow_dag_run list \<Rightarrow> airflow_dag_run list list" where
  "update_chunks cfg drs = (let drs = sort_key update_key drs in chunks (bulk_size cfg drs) drs)"

definition max_logs_ids :: "airflow_dag_run list \<Rightarrow> int list" where
  "max_logs_ids c =
     concat (map (\<lambda>dr. case dr_max_log_id dr of None \<Rightarrow> [] | Some i \<Rightarrow> if i = 0 then [] else [i]) c)"

definition chunk_max_log :: "airflow_dag_run list \<Rightarrow> int option" where
  "chunk_max_log c = (if max_logs_ids c = [] then None else Some (Max (set (max_logs_ids c))))"

definition send_update_chunk ::
  "('f, 'd, 'w) sync_env \<Rightarrow> airflow_dag_run list \<Rightarrow> (unit, 'w) io"
where
  "send_update_chunk env c =
     io_bind (get_dag_runs_state_data env (map dr_id c)) (\<lambda>state_data.
       service_update_dagruns env state_data (chunk_max_log c) syncer_type)"

definition update_dagruns ::
  "('f, 'd, 'w) sync_env \<Rightarrow> server_config \<Rightarrow> airflow_dag_run list \<Rightarrow> (unit, 'w) io"
where
  "update_dagruns env cfg drs =
     (if drs = [] then service_update_dagruns env (empty_state_data env) None syncer_type
      else io_for (send_update_chunk env) (update_chunks cfg drs))"

section \<open>One round of the syncer\<close>

definition or_minus_one :: "int option \<Rightarrow> int" where
  "or_minus_one i = (case i of None \<Rightarrow> -1 | Some x \<Rightarrow> x)"

definition active_dag_runs ::
  "('f, 'd, 'w) sync_env \<Rightarrow> server_config \<Rightarrow> (dbnd_dag_runs, 'w) io"
where
  "active_dag_runs env cfg =
     io_bind (get_active_dag_runs env (start_time_window cfg) (config_dag_ids cfg)) (\<lambda>resp.
       if last_seen_dag_run_id resp = None \<or> last_seen_log_id resp = None
       then io_bind (get_last_seen_values env) (\<lambda>(run, l).
              io_bind (update_last_seen_values env (or_minus_one run, or_minus_one l)) (\<lambda>_.
                get_active_dag_runs env (start_time_window cfg) (config_dag_ids cfg)))
       else io_return resp)"

definition sync_once_body ::
  "('f, 'd, 'w) sync_env \<Rightarrow> server_config \<Rightarrow> (unit, 'w) io"
where
  "sync_once_body env cfg =
     io_bind (active_dag_runs env cfg) (\<lambda>resp.
     io_bind (get_airflow_dagruns_to_sync env (last_seen_dag_run_id resp) (last_seen_log_id resp)
         (dag_run_ids resp) (config_dag_ids cfg)) (\<lambda>airflow.
       case categorize_dag_runs (resp_dag_runs airflow) (dag_run_ids resp) of
         (to_init, to_update) \<Rightarrow>
           io_bind (captured env ''init_dagruns'' (init_dagruns env cfg to_init)) (\<lambda>_.
             captured env ''update_dagruns'' (update_dagruns env cfg to_update))))"

text \<open>\<open>sync_once\<close> of the base syncer: the settings are refreshed, or kept after an error.\<close>

definition sync_once ::
  "('f, 'd, 'w) sync_env \<Rightarrow> (('f, 'd, 'w) sync_env \<Rightarrow> server_config \<Rightarrow> (unit, 'w) io) \<Rightarrow>
   server_config \<Rightarrow> 'w \<Rightarrow> server_config \<times> 'w"
where
  "sync_once env body cfg w =
     (case capture_monitor_exception env ''refresh_config'' (fetch_config env) w of
        (r, w1) \<Rightarrow>
          (let cfg' = (case r of None \<Rightarrow> cfg | Some c \<Rightarrow> c)
           in (cfg', snd (capture_monitor_exception env ''_sync_once'' (body env cfg') w1))))"

section \<open>The fixer\<close>

definition fixer_chunks :: "server_config \<Rightarrow> int list \<Rightarrow> int list list" where
  "fixer_chunks cfg ids = (let ids = rev (sort ids) in chunks (bulk_size cfg ids) ids)"

definition fixer_update_dagruns ::
  "('f, 'd, 'w) sync_env \<Rightarrow> server_config \<Rightarrow> int list \<Rightarrow> (unit, 'w) io"
where
  "fixer_update_dagruns env cfg ids =
     (if ids = [] then io_return ()
      else io_for (\<lambda>c. io_bind (get_dag_runs_state_data env c) (\<lambda>state_data.
             service_update_dagruns env state_data None ''runtime_fixer'')) (fixer_chunks cfg ids))"

definition fixer_sync_once_body ::
  "('f, 'd, 'w) sync_env \<Rightarrow> server_config \<Rightarrow> (unit, 'w) io"
where
  "fixer_sync_once_body env cfg =
     io_bind (get_all_dag_runs env (start_time_window cfg) (config_dag_ids cfg)) (\<lambda>resp.
       if dag_run_ids resp = [] then io_return ()
       else captured env ''update_dagruns'' (fixer_update_dagruns env cfg (dag_run_ids resp)))"

section \<open>Lemmas on categories\<close>

text \<open>The three lists of the loop are the filters of the input by the branch taken.\<close>

definition goes_to_update :: "int list \<Rightarrow> airflow_dag_run \<Rightarrow> bool" where
  "goes_to_update ids dr \<longleftrightarrow>
     dr_state dr \<noteq> ''RUNNING'' \<and> (is_view_only_events dr \<or> dr_id dr \<in> set ids) \<or>
     dr_id dr \<in> set ids \<and> (dr_has_updated dr \<or> dr_is_paused dr)"

definition goes_to_init :: "int list \<Rightarrow> airflow_dag_run \<Rightarrow> bool" where
  "goes_to_init ids dr \<longleftrightarrow>
     dr_id dr \<notin> set ids \<and> \<not> (dr_state dr \<noteq> ''RUNNING'' \<and> is_view_only_events dr)"

lemma categorize_loop_filters:
  "categorize_loop ids drs i u s =
     (i @ filter (goes_to_init ids) drs, u @ filter (goes_to_update ids) drs,
      s @ filter (\<lambda>dr. \<not> goes_to_init ids dr \<and> \<not> goes_to_update ids dr) drs)"
  by (induction drs arbitrary: i u s) (auto simp: goes_to_init_def goes_to_update_def)

lemma categorize_filters:
  "categorize_dag_runs drs ids = (filter (goes_to_init ids) drs, filter (goes_to_update ids) drs)"
  by (simp add: categorize_dag_runs_def categorize_loop_filters)

lemma never_both: "\<not> (goes_to_init ids dr \<and> goes_to_update ids dr)"
  by (auto simp: goes_to_init_def goes_to_update_def)

lemma parsed_events [simp]: "is_view_only_events (dag_run_from_dict r) = False"
  by (simp add: is_view_only_events_def dag_run_from_dict_def)

lemma exported_state:
  assumes "\<forall>r \<in> set (dag_run_table db). run_state r \<noteq> ''RUNNING''"
    and "dr \<in> set (resp_dag_runs (response_from_dict (get_new_dag_runs db a b extra dag_ids subdags)))"
  shows "dr_state dr \<noteq> ''RUNNING''" "\<not> is_view_only_events dr"
  using assms
  by (auto simp: response_from_dict_def get_new_dag_runs_def Let_def new_dag_run_of_def
      is_view_only_events_def dag_run_from_dict_def dest: find_new_dag_runs_states split: prod.splits)

lemma exported_categories:
  assumes "\<forall>r \<in> set (dag_run_table db). run_state r \<noteq> ''RUNNING''"
    and "runs = resp_dag_runs (response_from_dict (get_new_dag_runs db a b extra dag_ids subdags))"
  shows "categorize_dag_runs runs ids =
     (filter (\<lambda>dr. dr_id dr \<notin> set ids) runs, filter (\<lambda>dr. dr_id dr \<in> set ids) runs)"
  using exported_state [OF assms(1)] unfolding assms(2)
  by (auto simp: categorize_filters goes_to_init_def goes_to_update_def intro!: filter_cong)

text \<open>
  No DAG run that the plugin exports is skipped when the states in Airflow's database are
  its own lower-case ones: the loop compares with \<open>RUNNING\<close>, so every run counts as finished, a
  run known to the tracker is updated in every round even if nothing changed, and the events that
  would mark a run as only viewed are lost when the answer is read.
\<close>
theorem exported_runs_are_never_skipped:
  assumes "\<forall>r \<in> set (dag_run_table db). run_state r \<noteq> ''RUNNING''"
    and "runs = resp_dag_runs (response_from_dict (get_new_dag_runs db a b extra dag_ids subdags))"
  shows "categorize_dag_runs runs ids =
     (filter (\<lambda>dr. dr_id dr \<notin> set ids) runs, filter (\<lambda>dr. dr_id dr \<in> set ids) runs)"
  by (rule exported_categories [OF assms])

definition sample_db :: airflow_db where
  "sample_db =
     \<lparr>dag_run_table = [\<lparr>run_id = 1, run_dag = ''d'', run_date = ''t1'', run_state = ''running''\<rparr>,
        \<lparr>run_id = 2, run_dag = ''d'', run_date = ''t2'', run_state = ''running''\<rparr>],
      dag_model_table = [\<lparr>model_dag = ''d'', model_paused = False, model_subdag = False\<rparr>],
      log_table = [], postgresql = False, sql_like = (\<lambda>p s. p = s)\<rparr>"

lemma exported_runs_are_never_skipped_witness:
  "map_prod (map dr_id) (map dr_id)
     (categorize_dag_runs
       (resp_dag_runs (response_from_dict (get_new_dag_runs sample_db (Some 0) None [] None True))) [1]) =
   ([2], [1])"
  using exported_runs_are_never_skipped [of sample_db
      "resp_dag_runs (response_from_dict (get_new_dag_runs sample_db (Some 0) None [] None True))"
      "Some 0" None "[]" None True "[1]"]
  by (simp add: sample_db_def response_from_dict_def get_new_dag_runs_def Let_def
      find_max_dag_run_id_def find_max_log_run_id_def find_all_logs_grouped_by_runs_def logs_dict_def
      logs_keys_def dict_keys_def find_new_dag_runs_def new_dag_runs_base_query_def
      max_parameters_inside_in_clause_def new_dag_runs_filter_condition_def new_dag_run_of_def
      dag_run_from_dict_def)

section \<open>Lemmas on chunks\<close>

lemma increasing_prefix:
  fixes f :: "'a \<Rightarrow> 'b::linorder"
  assumes "sorted_wrt (<) (map f (xs @ c @ zs))" "c \<noteq> []" "x \<in> set (xs @ c @ zs)"
  shows "x \<in> set (xs @ c) \<longleftrightarrow> f x \<le> Max (f ` set c)"
proof -
  have fin: "finite (f ` set c)" and ne: "f ` set c \<noteq> {}" using assms(2) by auto
  have "\<And>y. y \<in> set zs \<Longrightarrow> Max (f ` set c) < f y"
    using assms(1) Max_in [OF fin ne] by (auto simp: sorted_wrt_append)
  moreover have "\<And>y. y \<in> set c \<Longrightarrow> f y \<le> Max (f ` set c)" using fin by simp
  moreover have "f y \<le> Max (f ` set c)" if "y \<in> set xs" for y
  proof -
    obtain z where "z \<in> set c" using assms(2) by (cases c) auto
    then have "f y < f z" "f z \<le> Max (f ` set c)"
      using assms(1) that fin by (auto simp: sorted_wrt_append)
    then show ?thesis by simp
  qed
  ultimately show ?thesis using assms(3) by (auto simp: not_less [symmetric])
qed

lemma bulk_size_pos: "drs \<noteq> [] \<Longrightarrow> 0 \<le> bulk_size cfg drs \<Longrightarrow> 0 < bulk_size cfg drs"
  by (auto simp: bulk_size_def split: option.splits if_splits)

lemma bulk_size_sort [simp]: "bulk_size cfg (sort_key f xs) = bulk_size cfg xs"
  by (simp add: bulk_size_def split: option.split)

lemma init_chunks_empty: "bulk_size cfg drs < 0 \<Longrightarrow> init_chunks cfg drs = []"
  by (simp add: init_chunks_def chunks_def bulk_size_def split: option.splits if_splits)

lemma concat_init_chunks:
  assumes "0 \<le> bulk_size cfg drs" shows "concat (init_chunks cfg drs) = sort_key dr_id drs"
proof (cases "drs = []")
  case True
  then show ?thesis by (simp add: init_chunks_def chunks_def chunks_of.simps)
next
  case False
  then have "0 < bulk_size cfg drs" using bulk_size_pos assms by blast
  then show ?thesis by (simp add: init_chunks_def concat_chunks)
qed

lemma sorted_ids:
  "distinct (map dr_id drs) \<Longrightarrow> sorted_wrt (<) (map dr_id (sort_key dr_id drs))"
  by (simp add: strict_sorted_iff distinct_map)

lemma init_prefix:
  assumes "distinct (map dr_id drs)" "init_chunks cfg drs = pre @ post" "r \<in> set drs"
  shows "r \<in> set (concat pre) \<longleftrightarrow> pre \<noteq> [] \<and> dr_id r \<le> chunk_max_id (last pre)"
proof (cases "pre = []")
  case False
  have nn: "0 \<le> bulk_size cfg drs" using False assms(2) init_chunks_empty [of cfg drs] by fastforce
  obtain p c where pre: "pre = p @ [c]" using False by (cases pre rule: rev_cases) auto
  have c: "c \<noteq> []"
    using assms(2) pre chunks_size [of c "bulk_size cfg (sort_key dr_id drs)" "sort_key dr_id drs"]
    by (simp add: init_chunks_def Let_def)
  have split: "sort_key dr_id drs = concat p @ c @ concat post"
    using concat_init_chunks [OF nn] unfolding assms(2) pre by simp
  have "r \<in> set (concat p @ c @ concat post)" using assms(3) unfolding split [symmetric] by simp
  then show ?thesis
    using increasing_prefix [OF sorted_ids [OF assms(1), unfolded split] c] pre
    by (simp add: chunk_max_id_def)
qed simp

lemma init_dagruns_failure:
  assumes "init_dagruns env cfg drs w = (Inl e, w')"
  obtains pre c post v where "init_chunks cfg drs = pre @ c # post"
    "io_for (send_init_chunk env cfg) pre w = (Inr (), v)" "send_init_chunk env cfg c v = (Inl e, w')"
  using assms io_for_error [of "send_init_chunk env cfg" "init_chunks cfg drs" w e w']
  by (auto simp: init_dagruns_def io_return_def split: if_splits)

text \<open>
  C25. When the sending of new DAG runs fails in the middle, the runs whose chunks were delivered
  before it are exactly those with an identifier up to the highest one reported with the last
  delivered chunk, so asking later for the runs above that identifier misses none and repeats none.
\<close>
theorem failed_init_can_be_resumed:
  assumes "distinct (map dr_id drs)" "init_dagruns env cfg drs w = (Inl e, w')"
  shows "\<exists>pre c post v. init_chunks cfg drs = pre @ c # post \<and>
    io_for (send_init_chunk env cfg) pre w = (Inr (), v) \<and>
    send_init_chunk env cfg c v = (Inl e, w') \<and>
    (\<forall>r \<in> set drs. r \<in> set (concat pre) \<longleftrightarrow> pre \<noteq> [] \<and> dr_id r \<le> chunk_max_id (last pre))"
  using init_dagruns_failure [OF assms(2)] init_prefix [OF assms(1)] by metis

text \<open>A service that records the reported identifiers and refuses those above 2.\<close>

definition refusing_env :: "(int list, unit, int list) sync_env" where
  "refusing_env =
     \<lparr>get_active_dag_runs = (\<lambda>_ _. io_raise (ConnectionError [])),
      get_all_dag_runs = (\<lambda>_ _. io_raise (ConnectionError [])),
      get_last_seen_values = io_return (None, None),
      update_last_seen_values = (\<lambda>_. io_return ()),
      get_airflow_dagruns_to_sync = (\<lambda>_ _ _ _. io_raise (ConnectionError [])),
      get_full_dag_runs = (\<lambda>ids _. io_return ids),
      get_dag_runs_state_data = (\<lambda>_. io_return ()),
      service_init_dagruns = (\<lambda>_ i _ w. if i \<le> 2 then (Inr (), w @ [i]) else (Inl (ConnectionError []), w)),
      service_update_dagruns = (\<lambda>_ _ _. io_return ()),
      empty_state_data = (),
      fetch_config = io_raise (ConnectionError []),
      log_exception = (\<lambda>_ w. w),
      report_error = (\<lambda>_ _ w. w)\<rparr>"

definition sample_run :: "int \<Rightarrow> airflow_dag_run" where
  "sample_run i =
     \<lparr>dr_id = i, dr_dag_id = ''d'', dr_execution_date = ''t'', dr_state = ''running'',
      dr_is_paused = False, dr_has_updated = False, dr_max_log_id = None, dr_events = None\<rparr>"

definition sample_config :: server_config where
  "sample_config =
     \<lparr>start_time_window = 14, config_dag_ids = None, dag_run_bulk_size = Some 2,
      include_sources = False, fix_interval = 600\<rparr>"

lemma sample_init_fails:
  "init_dagruns refusing_env sample_config (map sample_run [3, 1, 2]) [] =
     (Inl (ConnectionError []), [2])"
  by (simp add: init_dagruns_def init_chunks_def Let_def chunks_def bulk_size_def sample_config_def
      sample_run_def chunks_of.simps io_bind_def send_init_chunk_def refusing_env_def chunk_max_id_def
      io_return_def)

lemma failed_init_can_be_resumed_witness:
  "init_dagruns refusing_env sample_config (map sample_run [3, 1, 2]) [] =
     (Inl (ConnectionError []), [2]) \<and>
   (\<exists>pre c post v. init_chunks sample_config (map sample_run [3, 1, 2]) = pre @ c # post \<and>
      send_init_chunk refusing_env sample_config c v = (Inl (ConnectionError []), [2]))"
proof -
  have "distinct (map dr_id (map sample_run [3, 1, 2]))" by (simp add: sample_run_def)
  from failed_init_can_be_resumed [OF this sample_init_fails] show ?thesis
    using sample_init_fails by blast
qed

end
