(* ===== verification/MonitorRunners.thy ===== *)
theory MonitorRunners
  imports MonitorErrors
begin

text \<open>
  The runners of the monitor (\<open>airflow_monitor/shared/runners\<close>): a component is run round by round
  in the process of the monitor (\<open>sequential_runner.py\<close>) or in a process of its own
  (\<open>multi_process_runner.py\<close>).  Every method is captured: an exception becomes a report and the
  method returns \<open>None\<close>.  A method maps the runner and the outside world to both after the call.
\<close>

section \<open>The interface\<close>

record ('r, 'w) runner_class =
  new_runner :: "string \<Rightarrow> string \<Rightarrow> 'r"
  runner_start :: "'r \<times> 'w \<Rightarrow> 'r \<times> 'w"
  runner_stop :: "'r \<times> 'w \<Rightarrow> 'r \<times> 'w"
  runner_heartbeat :: "'r \<times> 'w \<Rightarrow> 'r \<times> 'w"
  runner_is_alive :: "'r \<times> 'w \<Rightarrow> bool \<times> 'w"

text \<open>The reports of a method of an object leave the object alone.\<close>

definition capture_method ::
  "(py_error \<Rightarrow> 'w \<Rightarrow> 'w) \<Rightarrow> (string \<Rightarrow> py_error option \<Rightarrow> 'w \<Rightarrow> 'w) \<Rightarrow> string \<Rightarrow>
   ('a, 'r \<times> 'w) io \<Rightarrow> 'r \<times> 'w \<Rightarrow> 'a option \<times> 'r \<times> 'w"
where
  "capture_method log_exc rep name m s =
     capture_exception (\<lambda>e (r, w). (r, log_exc e w)) (\<lambda>n e (r, w). (r, rep n e w)) name m s"

section \<open>The sequential runner\<close>

text \<open>
  \<open>'s\<close> is the syncer of a component.  Creating one and a round of it may raise; refreshing its
  settings is captured by the syncer itself.
\<close>

record ('s, 'w) syncer_env =
  syncer_target :: "string \<Rightarrow> string \<Rightarrow> ('s, 'w) io"
  refresh_config :: "'s \<Rightarrow> 'w \<Rightarrow> 's \<times> 'w"
  sleep_interval :: "'s \<Rightarrow> int"
  syncer_sync_once :: "'s \<Rightarrow> ('s, 'w) io"
  current_time :: "'w \<Rightarrow> int"
  syncer_log :: "py_error \<Rightarrow> 'w \<Rightarrow> 'w"
  syncer_report :: "string \<Rightarrow> py_error option \<Rightarrow> 'w \<Rightarrow> 'w"

record 's sequential_runner =
  seq_component :: string
  seq_uid :: string
  seq_iteration :: int
  seq_running :: "'s option"
  last_heartbeat :: "int option"

definition seq_new :: "string \<Rightarrow> string \<Rightarrow> 's sequential_runner" where
  "seq_new component uid =
     \<lparr>seq_component = component, seq_uid = uid, seq_iteration = -1, seq_running = None,
      last_heartbeat = None\<rparr>"

definition seq_start_body ::
  "('s, 'w) syncer_env \<Rightarrow> (unit, 's sequential_runner \<times> 'w) io"
where
  "seq_start_body env s =
     (case s of (r, w) \<Rightarrow>
        if seq_running r \<noteq> None then (Inr (), r, w)
        else (let r = r\<lparr>seq_iteration := -1\<rparr>
              in (case syncer_target env (seq_component r) (seq_uid r) w of
                    (Inl e, w') \<Rightarrow> (Inl e, r, w')
                  | (Inr x, w') \<Rightarrow> (Inr (), r\<lparr>seq_running := Some x\<rparr>, w'))))"

definition seq_stop_body :: "(unit, 's sequential_runner \<times> 'w) io" where
  "seq_stop_body s = (case s of (r, w) \<Rightarrow> (Inr (), r\<lparr>seq_running := None\<rparr>, w))"

definition seq_is_due :: "('s, 'w) syncer_env \<Rightarrow> 's \<Rightarrow> 's sequential_runner \<Rightarrow> 'w \<Rightarrow> bool" where
  "seq_is_due env x r w =
     (case last_heartbeat r of
        None \<Rightarrow> True
      | Some t \<Rightarrow> \<not> current_time env w - t < sleep_interval env x - 1)"

definition seq_heartbeat_body ::
  "('s, 'w) syncer_env \<Rightarrow> (unit, 's sequential_runner \<times> 'w) io"
where
  "seq_heartbeat_body env s =
     (case s of (r, w) \<Rightarrow>
        (case seq_running r of
           None \<Rightarrow> (Inr (), r, w)
         | Some x \<Rightarrow>
             (case refresh_config env x w of (x, w) \<Rightarrow>
                if \<not> seq_is_due env x r w then (Inr (), r\<lparr>seq_running := Some x\<rparr>, w)
                else (let r = r\<lparr>seq_iteration := seq_iteration r + 1\<rparr>
                      in (case syncer_sync_once env x w of
                            (Inr x', w') \<Rightarrow>
                              (Inr (), r\<lparr>seq_running := Some x', last_heartbeat := Some (current_time env w')\<rparr>, w')
                          | (Inl e, w') \<Rightarrow>
                              (Inl e, r\<lparr>seq_running := None, last_heartbeat := Some (current_time env w')\<rparr>, w'))))))"

definition sequential_runner_class ::
  "('s, 'w) syncer_env \<Rightarrow> ('s sequential_runner, 'w) runner_class"
where
  "sequential_runner_class env =
     (let capture = capture_method (syncer_log env) (syncer_report env)
      in \<lparr>new_runner = seq_new,
          runner_start = (\<lambda>s. snd (capture ''start'' (seq_start_body env) s)),
          runner_stop = (\<lambda>s. snd (capture ''stop'' seq_stop_body s)),
          runner_heartbeat = (\<lambda>s. snd (capture ''heartbeat'' (seq_heartbeat_body env) s)),
          runner_is_alive = (\<lambda>(r, w). (seq_running r \<noteq> None, syncer_report env ''is_alive'' None w))\<rparr>)"

section \<open>The multi-process runner\<close>

text \<open>
  The operating system: the live processes, those that ignore a termination signal, the next
  identifier, and whether a process can be created.  A process that does not ignore the signal ends
  within the time given to \<open>join\<close>; a killed process ends.
\<close>

record os_state =
  live_processes :: "int list"
  ignoring_termination :: "int list"
  next_pid :: int
  can_fork :: bool

datatype process_handle = NotStarted | Started int

record multi_process_runner =
  mp_component :: string
  mp_uid :: string
  mp_process :: "process_handle option"

definition process_is_alive :: "process_handle \<Rightarrow> os_state \<Rightarrow> bool" where
  "process_is_alive p os = (case p of NotStarted \<Rightarrow> False | Started pid \<Rightarrow> pid \<in> set (live_processes os))"

definition process_start :: "(process_handle, os_state) io" where
  "process_start os =
     (if can_fork os
      then (Inr (Started (next_pid os)),
            os\<lparr>live_processes := next_pid os # live_processes os, next_pid := next_pid os + 1\<rparr>)
      else (Inl (RuntimeError ''cannot start a process''), os))"

definition process_kill :: "process_handle \<Rightarrow> os_state \<Rightarrow> os_state" where
  "process_kill p os =
     (case p of NotStarted \<Rightarrow> os
      | Started pid \<Rightarrow> os\<lparr>live_processes := filter (\<lambda>q. q \<noteq> pid) (live_processes os)\<rparr>)"

definition process_terminate :: "process_handle \<Rightarrow> os_state \<Rightarrow> os_state" where
  "process_terminate p os =
     (case p of NotStarted \<Rightarrow> os
      | Started pid \<Rightarrow> if pid \<in> set (ignoring_termination os) then os else process_kill p os)"

definition mp_new :: "string \<Rightarrow> string \<Rightarrow> multi_process_runner" where
  "mp_new component uid = \<lparr>mp_component = component, mp_uid = uid, mp_process = None\<rparr>"

definition mp_start_body :: "(unit, multi_process_runner \<times> os_state \<times> 'v) io" where
  "mp_start_body s =
     (case s of (r, os, v) \<Rightarrow>
        (let r = r\<lparr>mp_process := Some NotStarted\<rparr>
         in (case process_start os of
               (Inl e, os') \<Rightarrow> (Inl e, r, os', v)
             | (Inr p, os') \<Rightarrow> (Inr (), r\<lparr>mp_process := Some p\<rparr>, os', v))))"

text \<open>\<open>is_alive\<close> of a runner without a process raises, which the capture turns into \<open>None\<close>.\<close>

definition mp_is_alive_body :: "(bool, multi_process_runner \<times> os_state \<times> 'v) io" where
  "mp_is_alive_body s =
     (case s of (r, os, v) \<Rightarrow>
        (case mp_process r of
           None \<Rightarrow> (Inl (AttributeError ''is_alive''), r, os, v)
         | Some p \<Rightarrow> (Inr (process_is_alive p os), r, os, v)))"

definition mp_is_alive ::
  "(py_error \<Rightarrow> 'v \<Rightarrow> 'v) \<Rightarrow> (string \<Rightarrow> py_error option \<Rightarrow> 'v \<Rightarrow> 'v) \<Rightarrow>
   multi_process_runner \<times> os_state \<times> 'v \<Rightarrow> bool \<times> os_state \<times> 'v"
where
  "mp_is_alive log_exc rep s =
     (case capture_method (\<lambda>e (os, v). (os, log_exc e v)) (\<lambda>n e (os, v). (os, rep n e v))
         ''is_alive'' mp_is_alive_body s of
        (b, r, os, v) \<Rightarrow> (b = Some True, os, v))"

definition mp_stop_body ::
  "(py_error \<Rightarrow> 'v \<Rightarrow> 'v) \<Rightarrow> (string \<Rightarrow> py_error option \<Rightarrow> 'v \<Rightarrow> 'v) \<Rightarrow>
   (unit, multi_process_runner \<times> os_state \<times> 'v) io"
where
  "mp_stop_body log_exc rep s =
     (case s of (r, os, v) \<Rightarrow>
        (case mp_process r of
           None \<Rightarrow> (Inr (), r, os, v)
         | Some p \<Rightarrow>
             (case mp_is_alive log_exc rep (r, os, v) of (b, os, v) \<Rightarrow>
                if b
                then (let os = process_terminate p os
                      in (Inr (), r, if process_is_alive p os then process_kill p os else os, v))
                else (Inr (), r, os, v))))"

definition multi_process_runner_class ::
  "(py_error \<Rightarrow> 'v \<Rightarrow> 'v) \<Rightarrow> (string \<Rightarrow> py_error option \<Rightarrow> 'v \<Rightarrow> 'v) \<Rightarrow>
   (multi_process_runner, os_state \<times> 'v) runner_class"
where
  "multi_process_runner_class log_exc rep =
     (let capture = capture_method (\<lambda>e (os, v). (os, log_exc e v)) (\<lambda>n e (os, v). (os, rep n e v))
      in \<lparr>new_runner = mp_new,
          runner_start = (\<lambda>s. snd (capture ''start'' mp_start_body s)),
          runner_stop = (\<lambda>s. snd (capture ''stop'' (mp_stop_body log_exc rep) s)),
          runner_heartbeat = (\<lambda>s. snd (capture ''heartbeat'' (io_return ()) s)),
          runner_is_alive = mp_is_alive log_exc rep\<rparr>)"

section \<open>The contract\<close>

text \<open>
  \<open>running r w\<close>: the component of the runner is running.  A runner starts idle and is idle after a
  stop; \<open>is_alive\<close> tells whether it runs and changes nothing; stopping a runner starts no other,
  and stopping an idle one also stops no other.
\<close>

locale runner =
  fixes rc :: "('r, 'w) runner_class"
    and running :: "'r \<Rightarrow> 'w \<Rightarrow> bool"
  assumes new_idle: "\<not> running (new_runner rc c u) w"
    and alive_tells: "runner_is_alive rc (r, w) = (b, w') \<Longrightarrow> b = running r w \<and> running s w' = running s w"
    and stop_idle: "runner_stop rc (r, w) = (r', w') \<Longrightarrow> \<not> running r' w'"
    and stop_others: "runner_stop rc (r, w) = (r', w') \<Longrightarrow> running s w' \<Longrightarrow> running s w"
    and stop_quiet: "runner_stop rc (r, w) = (r', w') \<Longrightarrow> \<not> running r w \<Longrightarrow> running s w' = running s w"

text \<open>\<open>_clean_dead_components\<close> of a component manager: a component that is not alive is stopped and dropped.\<close>

fun clean_dead_components ::
  "('r, 'w) runner_class \<Rightarrow> (string, 'r) dict \<Rightarrow> 'w \<Rightarrow> (string, 'r) dict \<times> 'w"
where
  "clean_dead_components rc [] w = ([], w)"
| "clean_dead_components rc ((name, r) # rest) w =
     (case runner_is_alive rc (r, w) of (b, w1) \<Rightarrow>
        if b then (case clean_dead_components rc rest w1 of (kept, w2) \<Rightarrow> ((name, r) # kept, w2))
        else (case runner_stop rc (r, w1) of (r', w2) \<Rightarrow> clean_dead_components rc rest w2))"

context runner
begin

lemma clean_keeps_the_running:
  "clean_dead_components rc cs w = (cs', w') \<Longrightarrow>
     cs' = filter (\<lambda>(name, r). running r w) cs \<and> (\<forall>s. running s w' = running s w)"
proof (induction cs arbitrary: w cs' w')
  case (Cons c cs)
  obtain name r where c: "c = (name, r)" by (cases c)
  obtain b w1 where a: "runner_is_alive rc (r, w) = (b, w1)" by (cases "runner_is_alive rc (r, w)")
  have b: "b = running r w" and w1: "\<And>s. running s w1 = running s w"
    using alive_tells [OF a] by blast+
  show ?case
  proof (cases b)
    case True
    obtain kept w2 where k: "clean_dead_components rc cs w1 = (kept, w2)"
      by (cases "clean_dead_components rc cs w1")
    show ?thesis using Cons.prems Cons.IH [OF k] c a k True b w1 by auto
  next
    case False
    obtain r' w2 where st: "runner_stop rc (r, w1) = (r', w2)" by (cases "runner_stop rc (r, w1)")
    have w2: "\<And>s. running s w2 = running s w" using stop_quiet [OF st] False b w1 by simp
    have "clean_dead_components rc cs w2 = (cs', w')" using Cons.prems c a st False by simp
    from Cons.IH [OF this] show ?thesis using c False b w2 by simp
  qed
qed simp

lemma clean_twice:
  "clean_dead_components rc cs w = (cs', w') \<Longrightarrow> fst (clean_dead_components rc cs' w') = cs'"
  using clean_keeps_the_running [of cs w cs' w']
    clean_keeps_the_running [of cs' w' "fst (clean_dead_components rc cs' w')" "snd (clean_dead_components rc cs' w')"]
  by (auto simp: filter_id_conv)

end

section \<open>Both runners keep the contract\<close>

definition seq_is_running :: "'s sequential_runner \<Rightarrow> 'w \<Rightarrow> bool" where
  "seq_is_running r w = (seq_running r \<noteq> None)"

definition mp_is_running :: "multi_process_runner \<Rightarrow> os_state \<times> 'v \<Rightarrow> bool" where
  "mp_is_running r w = (case mp_process r of None \<Rightarrow> False | Some p \<Rightarrow> process_is_alive p (fst w))"

lemmas runner_defs = capture_method_def capture_exception_def Let_def

interpretation seq_runner: runner "sequential_runner_class env" seq_is_running
  for env :: "('s, 'w) syncer_env"
  by unfold_locales
    (auto simp: sequential_runner_class_def runner_defs seq_is_running_def seq_new_def seq_stop_body_def
      split: prod.splits sum.splits)

lemma mp_alive_cases:
  "mp_is_alive log_exc rep (r, os, v) = (b, w') \<Longrightarrow> b = mp_is_running r (os, v) \<and> fst w' = os"
  by (auto simp: mp_is_alive_def mp_is_alive_body_def runner_defs mp_is_running_def split: option.splits)

lemma kill_kills: "\<not> process_is_alive p (process_kill p os)"
  by (cases p) (simp_all add: process_is_alive_def process_kill_def)

lemma kill_others: "process_is_alive q (process_kill p os) \<Longrightarrow> process_is_alive q os"
  by (cases p; cases q) (auto simp: process_is_alive_def process_kill_def)

lemma terminate_others: "process_is_alive q (process_terminate p os) \<Longrightarrow> process_is_alive q os"
  by (cases p) (auto simp: process_terminate_def dest: kill_others split: if_splits)

text \<open>What a stop does to the processes.\<close>

lemma mp_stop_cases:
  assumes "runner_stop (multi_process_runner_class log_exc rep) (r, os, v) = (r', os', v')"
  shows "r' = r \<and>
    os' = (case mp_process r of
             None \<Rightarrow> os
           | Some p \<Rightarrow> if process_is_alive p os
               then (let os1 = process_terminate p os
                     in if process_is_alive p os1 then process_kill p os1 else os1)
               else os)"
proof -
  obtain b os1 v1 where a: "mp_is_alive log_exc rep (r, os, v) = (b, os1, v1)"
    by (cases "mp_is_alive log_exc rep (r, os, v)") auto
  then have "b = mp_is_running r (os, v)" "os1 = os" using mp_alive_cases [OF a] by simp_all
  then show ?thesis
    using assms a
    by (auto simp: multi_process_runner_class_def runner_defs mp_stop_body_def mp_is_running_def
        split: option.splits if_splits)
qed

interpretation mp_runner: runner "multi_process_runner_class log_exc rep" mp_is_running
  for log_exc :: "py_error \<Rightarrow> 'v \<Rightarrow> 'v" and rep
proof unfold_locales
  fix c u and w :: "os_state \<times> 'v"
  show "\<not> mp_is_running (new_runner (multi_process_runner_class log_exc rep) c u) w"
    by (simp add: multi_process_runner_class_def runner_defs mp_new_def mp_is_running_def)
next
  fix r b s and w w' :: "os_state \<times> 'v"
  assume "runner_is_alive (multi_process_runner_class log_exc rep) (r, w) = (b, w')"
  then have "mp_is_alive log_exc rep (r, fst w, snd w) = (b, w')"
    by (simp add: multi_process_runner_class_def Let_def)
  from mp_alive_cases [OF this] show "b = mp_is_running r w \<and> mp_is_running s w' = mp_is_running s w"
    by (simp add: mp_is_running_def split: option.split)
next
  fix r r' and w w' :: "os_state \<times> 'v"
  assume "runner_stop (multi_process_runner_class log_exc rep) (r, w) = (r', w')"
  then have "runner_stop (multi_process_runner_class log_exc rep) (r, fst w, snd w) = (r', fst w', snd w')"
    by simp
  note st = mp_stop_cases [OF this]
  show "\<not> mp_is_running r' w'"
    using st by (auto simp: mp_is_running_def Let_def kill_kills split: option.splits if_splits)
  show "mp_is_running s w' \<Longrightarrow> mp_is_running s w" for s
    using st
    by (auto simp: mp_is_running_def Let_def dest: kill_others terminate_others split: option.splits if_splits)
  show "\<not> mp_is_running r w \<Longrightarrow> mp_is_running s w' = mp_is_running s w" for s
    using st by (auto simp: mp_is_running_def Let_def split: option.splits if_splits)
qed

end
