(* ===== verification/MultiServer.thy ===== *)
theory MultiServer
  imports MonitorRunners
begin

text \<open>
  The multi-server monitor: for every monitored Airflow server a manager keeps the components that
  its settings enable running (\<open>shared/base_monitor_component_manager.py\<close>,
  \<open>multiserver/monitor_component_manager.py\<close>), and the monitor keeps one manager per enabled
  server, round after round (\<open>shared/base_multiserver.py\<close>, \<open>multiserver/multiserver.py\<close>).  The
  web services, the data fetcher and the clock are parameters that change the outside world and may
  raise.
\<close>

section \<open>Settings\<close>

record server =
  source_name :: string
  tracking_source_uid :: string
  fetcher_type :: string
  is_sync_enabled :: bool
  state_sync_enabled :: bool
  fixer_enabled :: bool
  config_updater_enabled :: bool

record monitor_config =
  syncer_name :: "string option"
  sql_alchemy_conn :: "string option"
  number_of_iterations :: "int option"
  stop_after :: "int option"

text \<open>
  A monitor state as it is sent: a field that was not set is left out, one set to \<open>None\<close> is sent.
\<close>

record monitor_state =
  st_airflow_version :: "string option option"
  st_airflow_export_version :: "string option option"
  st_airflow_monitor_version :: "string option option"
  st_monitor_status :: "string option option"
  st_monitor_error_message :: "string option option"
  st_airflow_instance_uid :: "string option option"
  st_api_mode :: "string option option"

definition nothing_set :: monitor_state where
  "nothing_set =
     \<lparr>st_airflow_version = None, st_airflow_export_version = None, st_airflow_monitor_version = None,
      st_monitor_status = None, st_monitor_error_message = None, st_airflow_instance_uid = None,
      st_api_mode = None\<rparr>"

definition monitor_state_as_dict :: "monitor_state \<Rightarrow> (string, string option) dict" where
  "monitor_state_as_dict s =
     concat (map (\<lambda>(k, v). case v of None \<Rightarrow> [] | Some x \<Rightarrow> [(k, x)])
       [(''airflow_version'', st_airflow_version s),
        (''airflow_export_version'', st_airflow_export_version s),
        (''airflow_monitor_version'', st_airflow_monitor_version s),
        (''monitor_status'', st_monitor_status s),
        (''monitor_error_message'', st_monitor_error_message s),
        (''airflow_instance_uid'', st_airflow_instance_uid s),
        (''api_mode'', st_api_mode s)])"

record plugin_metadata =
  airflow_version :: "string option"
  plugin_version :: "string option"
  airflow_instance_uid :: "string option"
  api_mode :: "string option"

section \<open>The manager of the components of a server\<close>

record 'w manager_env =
  server_is_alive :: "server \<Rightarrow> (bool, 'w) io"
  get_tracking_errors :: "(string list, 'w) io"
  get_plugin_metadata :: "server \<Rightarrow> (plugin_metadata, 'w) io"
  update_monitor_state :: "string \<Rightarrow> (string, string option) dict \<Rightarrow> (unit, 'w) io"
  manager_log :: "string \<Rightarrow> py_error \<Rightarrow> 'w \<Rightarrow> 'w"
  manager_report :: "string \<Rightarrow> string \<Rightarrow> py_error option \<Rightarrow> 'w \<Rightarrow> 'w"
  monitor_version :: string

definition services_components :: "string list" where
  "services_components = [''state_sync'', ''fixer'', ''config_updater'']"

record 'r manager =
  manager_server :: server
  active_components :: "(string, 'r) dict"
  is_stopping :: bool
  known_metadata :: "plugin_metadata option"

definition new_manager :: "server \<Rightarrow> 'r manager" where
  "new_manager cfg =
     \<lparr>manager_server = cfg, active_components = [], is_stopping = False, known_metadata = None\<rparr>"

text \<open>\<open>getattr(server_config, name + "_enabled", False)\<close>, for the names of the services.\<close>

definition is_component_enabled :: "server \<Rightarrow> string \<Rightarrow> bool" where
  "is_component_enabled cfg name =
     (if name = ''state_sync'' then state_sync_enabled cfg
      else if name = ''fixer'' then fixer_enabled cfg
      else if name = ''config_updater'' then config_updater_enabled cfg
      else False)"

definition should_stop_component :: "'r manager \<Rightarrow> string \<Rightarrow> bool" where
  "should_stop_component m name =
     (if name \<notin> set (dict_keys (active_components m)) then False
      else if is_stopping m then True
      else \<not> is_component_enabled (manager_server m) name)"

definition should_start_component :: "'r manager \<Rightarrow> string \<Rightarrow> bool" where
  "should_start_component m name =
     (is_component_enabled (manager_server m) name \<and>
      name \<notin> set (dict_keys (active_components m)) \<and> \<not> is_stopping m)"

text \<open>\<open>is_monitored_server_alive\<close> is captured: \<open>None\<close> after an exception.\<close>

definition is_monitored_server_alive :: "'w manager_env \<Rightarrow> server \<Rightarrow> 'w \<Rightarrow> bool option \<times> 'w" where
  "is_monitored_server_alive env cfg w =
     capture_exception (manager_log env (tracking_source_uid cfg)) (manager_report env (tracking_source_uid cfg))
       ''is_monitored_server_alive'' (server_is_alive env cfg) w"

text \<open>One turn of the loop; \<open>alive\<close> is what the check said, \<open>None\<close> before it.\<close>

definition component_step ::
  "('r, 'w) runner_class \<Rightarrow> 'w manager_env \<Rightarrow> string \<Rightarrow> 'r manager \<times> bool option \<times> 'w \<Rightarrow>
   'r manager \<times> bool option \<times> 'w"
where
  "component_step rc env name s =
     (case s of (m, alive, w) \<Rightarrow>
        if should_start_component m name
        then (case (if alive = None then is_monitored_server_alive env (manager_server m) w else (alive, w)) of
                (alive, w) \<Rightarrow>
                  if alive = Some True
                  then (case runner_start rc (new_runner rc name (tracking_source_uid (manager_server m)), w) of
                          (r, w) \<Rightarrow>
                            (m\<lparr>active_components := dict_set (active_components m) name r\<rparr>, alive, w))
                  else (m, alive, w))
        else if should_stop_component m name
        then (case map_of (active_components m) name of
                None \<Rightarrow> (m, alive, w)
              | Some r \<Rightarrow>
                  (case runner_stop rc (r, w) of
                     (r, w) \<Rightarrow> (m\<lparr>active_components := dict_del (active_components m) name\<rparr>, alive, w)))
        else (m, alive, w))"

definition set_running_monitor_state ::
  "'w manager_env \<Rightarrow> bool option \<Rightarrow> (unit, 'r manager \<times> 'w) io"
where
  "set_running_monitor_state env alive s =
     (case s of (m, w) \<Rightarrow>
        if alive \<noteq> Some True \<or> known_metadata m \<noteq> None then (Inr (), m, w)
        else
          (case io_bind
              (if fetcher_type (manager_server m) = ''db''
               then io_bind (get_tracking_errors env) (\<lambda>errors.
                      io_return (if errors = [] then None else Some (join_str '', '' errors)))
               else io_return None)
              (\<lambda>error_message. io_bind (get_plugin_metadata env (manager_server m)) (\<lambda>metadata.
                 io_bind (update_monitor_state env (tracking_source_uid (manager_server m))
                     (monitor_state_as_dict (nothing_set
                       \<lparr>st_monitor_status := Some (Some ''Running''),
                        st_airflow_monitor_version := Some (Some (monitor_version env @ '' v2'')),
                        st_airflow_version := Some (airflow_version metadata),
                        st_airflow_export_version := Some (plugin_version metadata),
                        st_airflow_instance_uid := Some (airflow_instance_uid metadata),
                        st_monitor_error_message := Some error_message,
                        st_api_mode := Some (api_mode metadata)\<rparr>)))
                   (\<lambda>_. io_return metadata))) w of
             (Inl e, w) \<Rightarrow> (Inl e, m, w)
           | (Inr metadata, w) \<Rightarrow> (Inr (), m\<lparr>known_metadata := Some metadata\<rparr>, w)))"

definition set_starting_monitor_state :: "'w manager_env \<Rightarrow> (unit, 'r manager \<times> 'w) io" where
  "set_starting_monitor_state env s =
     (case s of (m, w) \<Rightarrow>
        (case update_monitor_state env (tracking_source_uid (manager_server m))
            (monitor_state_as_dict (nothing_set
              \<lparr>st_monitor_status := Some (Some ''Scheduled''),
               st_airflow_monitor_version := Some (Some (monitor_version env @ '' v2'')),
               st_monitor_error_message := Some None\<rparr>)) w of
           (r, w) \<Rightarrow> (r, m, w)))"

text \<open>The part of \<open>_update_component_state\<close> before the state is sent, which cannot raise.\<close>

definition update_components ::
  "('r, 'w) runner_class \<Rightarrow> 'w manager_env \<Rightarrow> 'r manager \<times> 'w \<Rightarrow> 'r manager \<times> bool option \<times> 'w"
where
  "update_components rc env s =
     (case s of (m, w) \<Rightarrow>
        (case clean_dead_components rc (active_components m) w of (cs, w) \<Rightarrow>
           fold (component_step rc env) services_components (m\<lparr>active_components := cs\<rparr>, None, w)))"

definition update_component_state ::
  "('r, 'w) runner_class \<Rightarrow> 'w manager_env \<Rightarrow> (unit, 'r manager \<times> 'w) io"
where
  "update_component_state rc env s =
     (case update_components rc env s of (m, alive, w) \<Rightarrow> set_running_monitor_state env alive (m, w))"

definition manager_method ::
  "'w manager_env \<Rightarrow> string \<Rightarrow> (unit, 'r manager \<times> 'w) io \<Rightarrow> 'r manager \<times> 'w \<Rightarrow> 'r manager \<times> 'w"
where
  "manager_method env name body s =
     (case s of (m, w) \<Rightarrow>
        (let uid = tracking_source_uid (manager_server m)
         in snd (capture_method (manager_log env uid) (manager_report env uid) name body (m, w))))"

definition manager_start ::
  "('r, 'w) runner_class \<Rightarrow> 'w manager_env \<Rightarrow> 'r manager \<times> 'w \<Rightarrow> 'r manager \<times> 'w"
where
  "manager_start rc env =
     manager_method env ''start''
       (io_bind (set_starting_monitor_state env) (\<lambda>_. update_component_state rc env))"

definition manager_stop ::
  "('r, 'w) runner_class \<Rightarrow> 'w manager_env \<Rightarrow> 'r manager \<times> 'w \<Rightarrow> 'r manager \<times> 'w"
where
  "manager_stop rc env =
     manager_method env ''stop'' (\<lambda>(m, w). update_component_state rc env (m\<lparr>is_stopping := True\<rparr>, w))"

definition manager_update_config ::
  "('r, 'w) runner_class \<Rightarrow> 'w manager_env \<Rightarrow> server \<Rightarrow> 'r manager \<times> 'w \<Rightarrow> 'r manager \<times> 'w"
where
  "manager_update_config rc env cfg =
     manager_method env ''update_config''
       (\<lambda>(m, w). update_component_state rc env (m\<lparr>manager_server := cfg\<rparr>, w))"

fun heartbeat_components ::
  "('r, 'w) runner_class \<Rightarrow> (string, 'r) dict \<Rightarrow> 'w \<Rightarrow> (string, 'r) dict \<times> 'w"
where
  "heartbeat_components rc [] w = ([], w)"
| "heartbeat_components rc ((name, r) # cs) w =
     (case runner_heartbeat rc (r, w) of (r, w) \<Rightarrow>
        (case heartbeat_components rc cs w of (cs, w) \<Rightarrow> ((name, r) # cs, w)))"

definition manager_heartbeat ::
  "('r, 'w) runner_class \<Rightarrow> 'w manager_env \<Rightarrow> 'r manager \<times> 'w \<Rightarrow> 'r manager \<times> 'w"
where
  "manager_heartbeat rc env =
     manager_method env ''heartbeat'' (\<lambda>(m, w).
       (case heartbeat_components rc (active_components m) w of (cs, w) \<Rightarrow>
          (case clean_dead_components rc cs w of (cs, w) \<Rightarrow> (Inr (), m\<lparr>active_components := cs\<rparr>, w))))"

section \<open>The monitor\<close>

record 'w multi_env =
  get_servers_configs :: "(server list, 'w) io"
  get_tracking_service :: "string \<Rightarrow> (unit, 'w) io"
  create_liveness_file :: "(unit, 'w) io"
  send_metrics :: "'w \<Rightarrow> 'w"
  wait_interval :: "'w \<Rightarrow> 'w"
  utcnow :: "'w \<Rightarrow> int"
  for_managers :: "'w manager_env"

record 'r multi =
  active_monitors :: "(string, 'r manager) dict"
  iteration :: int

text \<open>An empty or missing syncer name selects the servers without a direct database connection.\<close>

definition falsy :: "string option \<Rightarrow> bool" where
  "falsy s = (case s of None \<Rightarrow> True | Some x \<Rightarrow> x = [])"

definition filter_servers :: "monitor_config \<Rightarrow> server list \<Rightarrow> server list result" where
  "filter_servers cfg servers =
     (let filtered = (if falsy (syncer_name cfg) then filter (\<lambda>s. fetcher_type s \<noteq> ''db'') servers
                      else filter (\<lambda>s. Some (source_name s) = syncer_name cfg) servers)
      in if \<not> falsy (syncer_name cfg) \<and> filtered = []
         then Inl (DatabandConfigError ''No syncer configuration found matching name'')
         else Inr (filter is_sync_enabled filtered))"

definition assert_valid_config :: "monitor_config \<Rightarrow> unit result" where
  "assert_valid_config cfg =
     (if \<not> falsy (sql_alchemy_conn cfg) \<and> falsy (syncer_name cfg)
      then Inl (DatabandConfigError ''Syncer name should be specified when using direct sql connection'')
      else Inr ())"

fun stop_managers ::
  "('r, 'w) runner_class \<Rightarrow> 'w manager_env \<Rightarrow> string list \<Rightarrow> (string, 'r manager) dict \<Rightarrow> 'w \<Rightarrow>
   (string, 'r manager) dict \<times> 'w"
where
  "stop_managers rc env ids [] w = ([], w)"
| "stop_managers rc env ids ((uid, m) # ms) w =
     (if uid \<in> set ids
      then (case stop_managers rc env ids ms w of (ms, w) \<Rightarrow> ((uid, m) # ms, w))
      else (case manager_stop rc env (m, w) of (m, w) \<Rightarrow> stop_managers rc env ids ms w))"

definition stop_disabled_servers ::
  "('r, 'w) runner_class \<Rightarrow> 'w manager_env \<Rightarrow> server list \<Rightarrow> 'r multi \<times> 'w \<Rightarrow> 'r multi \<times> 'w"
where
  "stop_disabled_servers rc env servers s =
     (case s of (mon, w) \<Rightarrow>
        (case stop_managers rc env (map tracking_source_uid servers) (active_monitors mon) w of
           (ms, w) \<Rightarrow> (mon\<lparr>active_monitors := ms\<rparr>, w)))"

definition ensure_server ::
  "('r, 'w) runner_class \<Rightarrow> 'w multi_env \<Rightarrow> server \<Rightarrow> (unit, 'r multi \<times> 'w) io"
where
  "ensure_server rc env cfg s =
     (case s of (mon, w) \<Rightarrow>
        (let uid = tracking_source_uid cfg
         in case map_of (active_monitors mon) uid of
              Some m \<Rightarrow>
                (case manager_update_config rc (for_managers env) cfg (m, w) of
                   (m, w) \<Rightarrow> (Inr (), mon\<lparr>active_monitors := dict_set (active_monitors mon) uid m\<rparr>, w))
            | None \<Rightarrow>
                (case get_tracking_service env uid w of
                   (Inl e, w) \<Rightarrow> (Inl e, mon, w)
                 | (Inr u, w) \<Rightarrow>
                     (case manager_start rc (for_managers env) (new_manager cfg, w) of
                        (m, w) \<Rightarrow>
                          (Inr (), mon\<lparr>active_monitors := dict_set (active_monitors mon) uid m\<rparr>, w)))))"

definition ensure_monitored_servers ::
  "('r, 'w) runner_class \<Rightarrow> 'w multi_env \<Rightarrow> server list \<Rightarrow> (unit, 'r multi \<times> 'w) io"
where
  "ensure_monitored_servers rc env servers s =
     io_for (ensure_server rc env) servers (stop_disabled_servers rc (for_managers env) servers s)"

fun heartbeat_managers ::
  "('r, 'w) runner_class \<Rightarrow> 'w manager_env \<Rightarrow> (string, 'r manager) dict \<Rightarrow> 'w \<Rightarrow>
   (string, 'r manager) dict \<times> 'w"
where
  "heartbeat_managers rc env [] w = ([], w)"
| "heartbeat_managers rc env ((uid, m) # ms) w =
     (case manager_heartbeat rc env (m, w) of (m, w) \<Rightarrow>
        (case heartbeat_managers rc env ms w of (ms, w) \<Rightarrow> ((uid, m) # ms, w)))"

text \<open>An effect on the world, as one on the monitor and the world.\<close>

definition on_world :: "('a, 'w) io \<Rightarrow> ('a, 's \<times> 'w) io" where
  "on_world m s = (case s of (x, w) \<Rightarrow> (case m w of (r, w) \<Rightarrow> (r, x, w)))"

definition run_once ::
  "('r, 'w) runner_class \<Rightarrow> 'w multi_env \<Rightarrow> monitor_config \<Rightarrow> (unit, 'r multi \<times> 'w) io"
where
  "run_once rc env cfg =
     io_bind (on_world (get_servers_configs env)) (\<lambda>servers.
       case filter_servers cfg servers of
         Inl e \<Rightarrow> io_raise e
       | Inr active \<Rightarrow>
           io_bind (ensure_monitored_servers rc env active) (\<lambda>_.
           io_bind (\<lambda>(mon, w). case heartbeat_managers rc (for_managers env) (active_monitors mon) w of
                (ms, w) \<Rightarrow> (Inr (), mon\<lparr>active_monitors := ms\<rparr>, w)) (\<lambda>_.
             on_world (create_liveness_file env))))"

text \<open>One turn of the loop of \<open>run\<close>: an exception is only logged.\<close>

definition run_iteration ::
  "('r, 'w) runner_class \<Rightarrow> 'w multi_env \<Rightarrow> monitor_config \<Rightarrow> 'r multi \<times> 'w \<Rightarrow> 'r multi \<times> 'w"
where
  "run_iteration rc env cfg s =
     (case s of (mon, w) \<Rightarrow>
        (case run_once rc env cfg (mon\<lparr>iteration := iteration mon + 1\<rparr>, w) of
           (Inl e, s) \<Rightarrow> s
         | (Inr u, mon, w) \<Rightarrow> (mon, send_metrics env w)))"

definition should_stop :: "'w multi_env \<Rightarrow> monitor_config \<Rightarrow> int option \<Rightarrow> 'r multi \<times> 'w \<Rightarrow> bool" where
  "should_stop env cfg stop_at s =
     (case s of (mon, w) \<Rightarrow>
        (case number_of_iterations cfg of None \<Rightarrow> False | Some n \<Rightarrow> n \<noteq> 0 \<and> n \<le> iteration mon) \<or>
        (case stop_at of None \<Rightarrow> False | Some t \<Rightarrow> t \<le> utcnow env w))"

partial_function (option) run_loop ::
  "('r, 'w) runner_class \<Rightarrow> 'w multi_env \<Rightarrow> monitor_config \<Rightarrow> int option \<Rightarrow> 'r multi \<times> 'w \<Rightarrow>
   ('r multi \<times> 'w) option"
where
  "run_loop rc env cfg stop_at s =
     (let s' = run_iteration rc env cfg s
      in if should_stop env cfg stop_at s' then Some (stop_disabled_servers rc (for_managers env) [] s')
         else run_loop rc env cfg stop_at (fst s', wait_interval env (snd s')))"

definition run_monitor ::
  "('r, 'w) runner_class \<Rightarrow> 'w multi_env \<Rightarrow> monitor_config \<Rightarrow> 'w \<Rightarrow> (unit result \<times> 'r multi \<times> 'w) option"
where
  "run_monitor rc env cfg w =
     (let mon = \<lparr>active_monitors = [], iteration = 0\<rparr>;
          stop_at = (case stop_after cfg of None \<Rightarrow> None
                     | Some t \<Rightarrow> if t = 0 then None else Some (utcnow env w + t))
      in case assert_valid_config cfg of
           Inl e \<Rightarrow> Some (Inl e, mon, w)
         | Inr u \<Rightarrow> map_option (\<lambda>s. (Inr (), s)) (run_loop rc env cfg stop_at (mon, w)))"

section \<open>The components follow the settings\<close>

definition component_names :: "'r manager \<Rightarrow> string set" where
  "component_names m = set (dict_keys (active_components m))"

lemma component_names_set [simp]:
  "component_names (m\<lparr>active_components := dict_set (active_components m) n r\<rparr>) = insert n (component_names m)"
  by (simp add: component_names_def dict_keys_def set_fst_dict_set)

lemma component_names_del [simp]:
  "component_names (m\<lparr>active_components := dict_del (active_components m) n\<rparr>) = component_names m - {n}"
  by (auto simp: component_names_def dict_keys_def dict_del_def)

lemma component_name_lookup: "n \<in> component_names m \<longleftrightarrow> map_of (active_components m) n \<noteq> None"
  by (simp add: component_names_def dict_keys_def map_of_eq_None_iff)

definition wanted :: "'r manager \<Rightarrow> bool option \<Rightarrow> string \<Rightarrow> bool" where
  "wanted m a n \<longleftrightarrow>
     is_component_enabled (manager_server m) n \<and> \<not> is_stopping m \<and> (n \<in> component_names m \<or> a = Some True)"

lemma component_step_outcome:
  assumes "component_step rc env n (m, alive, w) = (m', alive', w')"
    and "\<And>v. fst (is_monitored_server_alive env (manager_server m) v) = a" "alive = None \<or> alive = a"
  shows "manager_server m' = manager_server m" "is_stopping m' = is_stopping m"
    "known_metadata m' = known_metadata m" "alive' = None \<or> alive' = a"
    "k \<in> component_names m' \<longleftrightarrow> (if k = n then wanted m a n else k \<in> component_names m)"
proof -
  have a: "is_monitored_server_alive env (manager_server m) w = (a, v) \<or>
      is_monitored_server_alive env (manager_server m) w \<noteq> (b, v) \<or> a = b" for b v
    using assms(2) [of w] by auto
  have names: "n \<in> set (dict_keys (active_components m)) \<longleftrightarrow> n \<in> component_names m"
    by (simp add: component_names_def)
  note defs = component_step_def should_start_component_def should_stop_component_def names wanted_def
  note splits = if_splits prod.splits option.splits
  show "manager_server m' = manager_server m" "is_stopping m' = is_stopping m"
    "known_metadata m' = known_metadata m"
    using assms(1) by (auto simp: defs split: splits)
  obtain c v where check: "is_monitored_server_alive env (manager_server m) w = (c, v)"
    by (cases "is_monitored_server_alive env (manager_server m) w")
  then have [simp]: "c = a" using assms(2) [of w] by simp
  show "alive' = None \<or> alive' = a"
    using assms(1,3) check by (auto simp: defs split: splits)
  show "k \<in> component_names m' \<longleftrightarrow> (if k = n then wanted m a n else k \<in> component_names m)"
    using assms(1,3) check
    by (auto simp: defs component_name_lookup split: splits)
qed

lemma component_fold_outcome:
  assumes "fold (component_step rc env) ns (m, alive, w) = (m', alive', w')" "distinct ns"
    and "\<And>v. fst (is_monitored_server_alive env (manager_server m) v) = a" "alive = None \<or> alive = a"
  shows "manager_server m' = manager_server m \<and> is_stopping m' = is_stopping m \<and>
    (\<forall>k. k \<in> component_names m' \<longleftrightarrow> (if k \<in> set ns then wanted m a k else k \<in> component_names m))"
  using assms
proof (induction ns arbitrary: m alive w)
  case (Cons n ns)
  obtain m1 alive1 w1 where st: "component_step rc env n (m, alive, w) = (m1, alive1, w1)"
    by (cases "component_step rc env n (m, alive, w)") auto
  note one = component_step_outcome [OF st Cons.prems(3,4)]
  have rest: "fold (component_step rc env) ns (m1, alive1, w1) = (m', alive', w')"
    using Cons.prems(1) st by simp
  have dist: "distinct ns" and n: "n \<notin> set ns" using Cons.prems(2) by simp_all
  have check: "\<And>v. fst (is_monitored_server_alive env (manager_server m1) v) = a"
    using Cons.prems(3) one(1) by simp
  note ih = Cons.IH [OF rest dist check one(4)]
  have other: "wanted m1 a k = wanted m a k" if "k \<noteq> n" for k
    using one(1,2) one(5) [of k] that by (simp add: wanted_def)
  have names: "k \<in> component_names m' \<longleftrightarrow> (if k \<in> set (n # ns) then wanted m a k else k \<in> component_names m)" for k
    using ih n one(5) [of k] other [of k] by (cases "k = n") simp_all
  have "manager_server m' = manager_server m" "is_stopping m' = is_stopping m" using ih one(1,2) by simp_all
  then show ?case using names by blast
qed simp

lemma services_distinct: "distinct services_components"
  by (simp add: services_components_def)

lemma clean_names:
  assumes "runner rc running" "clean_dead_components rc cs w = (cs', w')"
  shows "set (dict_keys cs') = {n. \<exists>r. (n, r) \<in> set cs \<and> running r w}"
  using runner.clean_keeps_the_running [OF assms]
  by (force simp: dict_keys_def)

text \<open>
  Which components are active after an update, for a runner that keeps the contract.
\<close>

lemma update_components_names:
  assumes "runner rc running" "update_components rc env (m, w) = (m', alive, w')"
    and "\<And>v. fst (is_monitored_server_alive env (manager_server m) v) = a"
    and "component_names m \<subseteq> set services_components"
  shows "component_names m' =
    {n \<in> set services_components. is_component_enabled (manager_server m) n \<and> \<not> is_stopping m \<and>
       ((\<exists>r. (n, r) \<in> set (active_components m) \<and> running r w) \<or> a = Some True)}"
proof -
  obtain cs w0 where cl: "clean_dead_components rc (active_components m) w = (cs, w0)"
    by (cases "clean_dead_components rc (active_components m) w")
  let ?m = "m\<lparr>active_components := cs\<rparr>"
  have names: "component_names ?m = {n. \<exists>r. (n, r) \<in> set (active_components m) \<and> running r w}"
    using clean_names [OF assms(1) cl] by (simp add: component_names_def)
  have sub: "component_names ?m \<subseteq> set services_components"
    using assms(4) unfolding names by (force simp: component_names_def dict_keys_def)
  have fold: "fold (component_step rc env) services_components (?m, None, w0) = (m', alive, w')"
    using assms(2) cl by (simp add: update_components_def)
  have check: "\<And>v. fst (is_monitored_server_alive env (manager_server ?m) v) = a" using assms(3) by simp
  have "\<And>k. k \<in> component_names m' \<longleftrightarrow>
      (if k \<in> set services_components then wanted ?m a k else k \<in> component_names ?m)"
    using component_fold_outcome [OF fold services_distinct check] by simp
  then show ?thesis using sub unfolding wanted_def names by (auto split: if_splits)
qed

text \<open>
  C26. After an update of a manager with the sequential runner the active components are exactly the
  enabled ones that were still running, and, if the monitored server answers, all the enabled ones:
  disabled components are stopped, failed ones are started again, and nothing is started while the
  server does not answer or the manager is stopping.
\<close>
theorem components_match_configuration:
  assumes "update_components (sequential_runner_class senv) env (m, w) = (m', alive, w')"
    and "\<And>v. fst (is_monitored_server_alive env (manager_server m) v) = a"
    and "component_names m \<subseteq> set services_components"
  shows "component_names m' =
    {n \<in> set services_components. is_component_enabled (manager_server m) n \<and> \<not> is_stopping m \<and>
       ((\<exists>r. (n, r) \<in> set (active_components m) \<and> seq_running r \<noteq> None) \<or> a = Some True)}"
  using update_components_names [OF seq_runner.runner_axioms assms]
  unfolding seq_is_running_def .

text \<open>A server that answers, components that start, and nothing recorded of the reports.\<close>

definition quiet_manager_env :: "unit manager_env" where
  "quiet_manager_env =
     \<lparr>server_is_alive = (\<lambda>_. io_return True), get_tracking_errors = io_return [],
      get_plugin_metadata = (\<lambda>_. io_raise (ConnectionError [])),
      update_monitor_state = (\<lambda>_ _. io_return ()),
      manager_log = (\<lambda>_ _ w. w), manager_report = (\<lambda>_ _ _ w. w), monitor_version = ''1''\<rparr>"

definition quiet_syncer_env :: "(string, unit) syncer_env" where
  "quiet_syncer_env =
     \<lparr>syncer_target = (\<lambda>c u. io_return c), refresh_config = Pair, sleep_interval = (\<lambda>_. 10),
      syncer_sync_once = io_return, current_time = (\<lambda>_. 0), syncer_log = (\<lambda>_ w. w),
      syncer_report = (\<lambda>_ _ w. w)\<rparr>"

definition sample_server :: server where
  "sample_server =
     \<lparr>source_name = ''a'', tracking_source_uid = ''u'', fetcher_type = ''web'', is_sync_enabled = True,
      state_sync_enabled = True, fixer_enabled = False, config_updater_enabled = False\<rparr>"

text \<open>The fixer runs but is no longer enabled; the failed \<open>state_sync\<close> is.\<close>

definition sample_manager :: "string sequential_runner manager" where
  "sample_manager = (new_manager sample_server)\<lparr>active_components :=
     [(''state_sync'', seq_new ''state_sync'' ''u''),
      (''fixer'', (seq_new ''fixer'' ''u'')\<lparr>seq_running := Some ''fixer''\<rparr>)]\<rparr>"

lemma components_match_configuration_witness:
  "component_names (fst (update_components (sequential_runner_class quiet_syncer_env) quiet_manager_env
     (sample_manager, ()))) = {''state_sync''}"
proof -
  obtain m alive w where u: "update_components (sequential_runner_class quiet_syncer_env) quiet_manager_env
      (sample_manager, ()) = (m, alive, w)"
    by (cases "update_components (sequential_runner_class quiet_syncer_env) quiet_manager_env (sample_manager, ())") auto
  have "fst (is_monitored_server_alive quiet_manager_env (manager_server sample_manager) v) = Some True" for v
    by (simp add: is_monitored_server_alive_def capture_exception_def quiet_manager_env_def io_return_def)
  moreover have "component_names sample_manager \<subseteq> set services_components"
    by (simp add: sample_manager_def component_names_def dict_keys_def services_components_def)
  ultimately show ?thesis
    using components_match_configuration [OF u] u
    by (auto simp: services_components_def is_component_enabled_def sample_manager_def new_manager_def
        sample_server_def)
qed

section \<open>A stopped manager leaves no process\<close>

lemma stopping_step:
  assumes "component_step (multi_process_runner_class log_exc rep) env n (m, alive, w) = (m', alive', w')"
    and "is_stopping m"
  shows "is_stopping m' \<and> alive' = alive \<and>
    active_components m' = dict_del (active_components m) n \<and>
    (\<forall>s. mp_is_running s w' \<longrightarrow> mp_is_running s w) \<and>
    (\<forall>r. map_of (active_components m) n = Some r \<longrightarrow> \<not> mp_is_running r w')"
proof (cases "map_of (active_components m) n")
  case None
  then have "n \<notin> set (dict_keys (active_components m))" by (simp add: dict_keys_def map_of_eq_None_iff)
  moreover from this have "dict_del (active_components m) n = active_components m"
    by (auto simp: dict_del_def dict_keys_def filter_id_conv)
  ultimately show ?thesis
    using assms None
    by (auto simp: component_step_def should_start_component_def should_stop_component_def)
next
  case (Some r)
  then have n: "n \<in> set (dict_keys (active_components m))"
    by (metis component_name_lookup component_names_def option.distinct(1))
  obtain r' os v where st: "runner_stop (multi_process_runner_class log_exc rep) (r, w) = (r', os, v)"
    by (cases "runner_stop (multi_process_runner_class log_exc rep) (r, w)") auto
  have w': "m' = m\<lparr>active_components := dict_del (active_components m) n\<rparr>" "alive' = alive" "w' = (os, v)"
    using assms n Some st
    by (auto simp: component_step_def should_start_component_def should_stop_component_def)
  have "r' = r"
    using mp_stop_cases [of log_exc rep r "fst w" "snd w"] st by simp
  then show ?thesis
    using mp_runner.stop_idle [OF st] mp_runner.stop_others [OF st] assms(2) Some w' by auto
qed

lemma stopping_fold:
  assumes "fold (component_step (multi_process_runner_class log_exc rep) env) ns (m, alive, w) = (m', alive', w')"
    and "is_stopping m"
  shows "alive' = alive \<and>
    active_components m' = filter (\<lambda>p. fst p \<notin> set ns) (active_components m) \<and>
    (\<forall>s. mp_is_running s w' \<longrightarrow> mp_is_running s w) \<and>
    (\<forall>n \<in> set ns. \<forall>r. map_of (active_components m) n = Some r \<longrightarrow> \<not> mp_is_running r w')"
  using assms
proof (induction ns arbitrary: m alive w)
  case (Cons n ns)
  obtain m1 alive1 w1 where st:
    "component_step (multi_process_runner_class log_exc rep) env n (m, alive, w) = (m1, alive1, w1)"
    by (cases "component_step (multi_process_runner_class log_exc rep) env n (m, alive, w)") auto
  note one = stopping_step [OF st Cons.prems(2)]
  have "fold (component_step (multi_process_runner_class log_exc rep) env) ns (m1, alive1, w1) = (m', alive', w')"
    using Cons.prems(1) st by simp
  note ih = Cons.IH [OF this conjunct1 [OF one]]
  have lookup: "map_of (active_components m1) k = (if k = n then None else map_of (active_components m) k)" for k
    using one by simp
  have "active_components m' = filter (\<lambda>p. fst p \<notin> set (n # ns)) (active_components m)"
    using ih one by (auto simp: dict_del_def intro: filter_cong)
  moreover have "\<not> mp_is_running r w'"
    if "k \<in> set (n # ns)" "map_of (active_components m) k = Some r" for k r
  proof (cases "k = n")
    case True
    then show ?thesis using one ih that by blast
  next
    case False
    then show ?thesis using ih that lookup [of k] by auto
  qed
  ultimately show ?case using ih one by blast
qed simp

text \<open>
  A manager that is stopped: no component is left, and no process of one of its components lives.
  The reports of the manager touch no process.
\<close>

lemma manager_stop_outcome:
  assumes "manager_stop (multi_process_runner_class log_exc rep) env (m, os, v) = (m', os', v')"
    and "component_names m \<subseteq> set services_components" "distinct (dict_keys (active_components m))"
    and "\<And>uid n e w. fst (manager_report env uid n e w) = fst w"
  shows "active_components m' = [] \<and> ((n, r) \<in> set (active_components m) \<longrightarrow> \<not> mp_is_running r (os', v'))"
proof -
  let ?rc = "multi_process_runner_class log_exc rep"
  obtain cs w0 where cl: "clean_dead_components ?rc (active_components m) (os, v) = (cs, w0)"
    by (cases "clean_dead_components ?rc (active_components m) (os, v)")
  note clean = mp_runner.clean_keeps_the_running [OF cl]
  let ?m = "m\<lparr>is_stopping := True, active_components := cs\<rparr>"
  obtain m1 alive os1 v1 where fold:
    "fold (component_step ?rc env) services_components (?m, None, w0) = (m1, alive, os1, v1)"
    by (cases "fold (component_step ?rc env) services_components (?m, None, w0)") auto
  note out = stopping_fold [OF fold]
  have "alive = None" using out by simp
  then have body: "update_component_state ?rc env (m\<lparr>is_stopping := True\<rparr>, os, v) = (Inr (), m1, os1, v1)"
    using cl fold by (simp add: update_component_state_def update_components_def set_running_monitor_state_def)
  then have fin: "m' = m1" "os' = os1"
    using assms(1) assms(4) [of "tracking_source_uid (manager_server m)" "''stop''" None "(os1, v1)"]
    by (auto simp: manager_stop_def manager_method_def runner_defs)
  have names: "fst ` set cs \<subseteq> set services_components"
    using clean assms(2) by (auto simp: component_names_def dict_keys_def)
  then have "active_components m' = []" using out fin by (auto simp: filter_empty_conv)
  moreover have "\<not> mp_is_running r (os', v')" if mem: "(n, r) \<in> set (active_components m)"
  proof (cases "mp_is_running r (os, v)")
    case True
    then have "(n, r) \<in> set cs" using clean mem by simp
    moreover have "distinct (map fst cs)"
      using clean assms(3) by (simp add: dict_keys_def distinct_map_filter)
    ultimately have "map_of cs n = Some r" by simp
    moreover have "n \<in> set services_components" using names \<open>(n, r) \<in> set cs\<close> by force
    ultimately have "\<not> mp_is_running r (os1, v1)" using out by simp
    then show ?thesis using fin by (simp add: mp_is_running_def split: option.splits)
  next
    case False
    then have "\<not> mp_is_running r w0" using clean by simp
    then have "\<not> mp_is_running r (os1, v1)" using out by auto
    then show ?thesis using fin by (simp add: mp_is_running_def split: option.splits)
  qed
  ultimately show ?thesis by blast
qed

text \<open>
  Stopping a manager whose components run in processes leaves none of them alive, also those
  that ignore the termination signal, and drops every component, provided that its reports touch no
  process.
\<close>
theorem stopped_manager_leaves_no_process:
  assumes "manager_stop (multi_process_runner_class log_exc rep) env (m, os, v) = (m', os', v')"
    and "component_names m \<subseteq> set services_components" "distinct (dict_keys (active_components m))"
    and "\<And>uid n e w. fst (manager_report env uid n e w) = fst w"
    and "(n, r) \<in> set (active_components m)"
  shows "active_components m' = [] \<and> \<not> mp_is_running r (os', v')"
  using manager_stop_outcome [OF assms(1-4)] assms(5) by blast

definition quiet_process_env :: "(os_state \<times> unit) manager_env" where
  "quiet_process_env =
     \<lparr>server_is_alive = (\<lambda>_. io_return True), get_tracking_errors = io_return [],
      get_plugin_metadata = (\<lambda>_. io_raise (ConnectionError [])),
      update_monitor_state = (\<lambda>_ _. io_return ()),
      manager_log = (\<lambda>_ _ w. w), manager_report = (\<lambda>_ _ _ w. w), monitor_version = ''1''\<rparr>"

text \<open>The process 7 ignores the termination signal; 8 belongs to somebody else.\<close>

definition stubborn_os :: os_state where
  "stubborn_os = \<lparr>live_processes = [7, 8], ignoring_termination = [7], next_pid = 9, can_fork = True\<rparr>"

definition process_manager :: "multi_process_runner manager" where
  "process_manager = (new_manager sample_server)\<lparr>active_components :=
     [(''fixer'', (mp_new ''fixer'' ''u'')\<lparr>mp_process := Some (Started 7)\<rparr>)]\<rparr>"

lemma stopped_manager_leaves_no_process_witness:
  "7 \<in> set (live_processes stubborn_os) \<and>
   7 \<notin> set (live_processes (fst (snd (manager_stop
     (multi_process_runner_class (\<lambda>_ w. w) (\<lambda>_ _ w. w)) quiet_process_env (process_manager, stubborn_os, ())))))"
proof -
  let ?stop = "manager_stop (multi_process_runner_class (\<lambda>_ w. w) (\<lambda>_ _ w. w)) quiet_process_env
      (process_manager, stubborn_os, ())"
  let ?r = "(mp_new ''fixer'' ''u'')\<lparr>mp_process := Some (Started 7)\<rparr>"
  obtain m' os' v' where st: "?stop = (m', os', v')" by (cases ?stop) auto
  have "\<not> mp_is_running ?r (os', v')"
    using stopped_manager_leaves_no_process [OF st, of "''fixer''" ?r]
    by (simp add: process_manager_def component_names_def dict_keys_def services_components_def
        quiet_process_env_def)
  then show ?thesis
    using st by (simp add: mp_is_running_def process_is_alive_def stubborn_os_def)
qed

section \<open>The run of the monitor\<close>

lemma ensure_server_iteration:
  "ensure_server rc env cfg (mon, w) = (res, mon', w') \<Longrightarrow> iteration mon' = iteration mon"
  by (auto simp: ensure_server_def Let_def split: option.splits prod.splits sum.splits)

lemma ensure_all_iteration:
  "io_for (ensure_server rc env) cfgs (mon, w) = (res, mon', w') \<Longrightarrow> iteration mon' = iteration mon"
proof (induction cfgs arbitrary: mon w)
  case (Cons c cfgs)
  obtain r1 mon1 w1 where st: "ensure_server rc env c (mon, w) = (r1, mon1, w1)"
    by (cases "ensure_server rc env c (mon, w)") auto
  show ?case
    using Cons.prems Cons.IH [of mon1 w1] ensure_server_iteration [OF st] st
    by (auto simp: io_bind_def split: sum.splits)
qed (simp add: io_return_def)

lemma run_once_iteration:
  assumes "run_once rc env cfg (mon, w) = (res, mon', w')" shows "iteration mon' = iteration mon"
proof -
  have dis: "iteration (fst (stop_disabled_servers rc e ss (mon, v))) = iteration mon" for e ss v
    by (simp add: stop_disabled_servers_def split: prod.splits)
  have ens: "iteration mon1 = iteration mon"
    if "ensure_monitored_servers rc env ss (mon, v) = (r, mon1, v1)" for ss v r mon1 v1
  proof -
    obtain mon2 v2 where st: "stop_disabled_servers rc (for_managers env) ss (mon, v) = (mon2, v2)"
      by (cases "stop_disabled_servers rc (for_managers env) ss (mon, v)")
    from that st have "io_for (ensure_server rc env) ss (mon2, v2) = (r, mon1, v1)"
      by (simp add: ensure_monitored_servers_def)
    from ensure_all_iteration [OF this] dis [of "for_managers env" ss v] st show ?thesis by simp
  qed
  obtain servers v where get: "get_servers_configs env w = (servers, v)"
    by (cases "get_servers_configs env w")
  show ?thesis
  proof (cases "\<exists>ss active. servers = Inr ss \<and> filter_servers cfg ss = Inr active")
    case False
    then show ?thesis
      using assms get
      by (cases servers) (auto simp: run_once_def io_bind_def on_world_def io_raise_def split: sum.splits)
  next
    case True
    then obtain ss active where ss: "servers = Inr ss" "filter_servers cfg ss = Inr active" by blast
    obtain r mon1 v1 where e: "ensure_monitored_servers rc env active (mon, v) = (r, mon1, v1)"
      by (cases "ensure_monitored_servers rc env active (mon, v)") auto
    show ?thesis
    proof (cases r)
      case (Inl err)
      then show ?thesis
        using assms get ss e ens [OF e] by (simp add: run_once_def io_bind_def on_world_def)
    next
      case (Inr u)
      then show ?thesis
        using assms get ss e ens [OF e]
        by (auto simp: run_once_def io_bind_def on_world_def split: prod.splits)
    qed
  qed
qed

lemma run_iteration_counts: "iteration (fst (run_iteration rc env cfg s)) = iteration (fst s) + 1"
proof -
  obtain mon w where s: "s = (mon, w)" by (cases s)
  obtain res mon' w' where st: "run_once rc env cfg (mon\<lparr>iteration := iteration mon + 1\<rparr>, w) = (res, mon', w')"
    by (cases "run_once rc env cfg (mon\<lparr>iteration := iteration mon + 1\<rparr>, w)") auto
  from run_once_iteration [OF st] show ?thesis
    using s st by (cases res) (simp_all add: run_iteration_def)
qed

lemma stop_all_managers: "fst (stop_managers rc env [] ms w) = []"
  by (induction rc env "[] :: string list" ms w rule: stop_managers.induct) (auto split: prod.splits)

lemma stop_all_servers: "active_monitors (fst (stop_disabled_servers rc env [] s)) = []"
  using stop_all_managers [of rc env "active_monitors (fst s)" "snd s"]
  by (auto simp: stop_disabled_servers_def split: prod.splits)

lemma stop_disabled_iteration: "iteration (fst (stop_disabled_servers rc env ss s)) = iteration (fst s)"
  by (auto simp: stop_disabled_servers_def split: prod.splits)

text \<open>The loop returns after the iteration that reaches the bound, or earlier when the time is over.\<close>

lemma run_loop_returns:
  assumes "number_of_iterations cfg = Some n" "n \<noteq> 0" "nat (n - iteration (fst s)) = k"
  shows "\<exists>s'. run_loop rc env cfg stop_at s = Some s' \<and> active_monitors (fst s') = [] \<and>
    (stop_at = None \<longrightarrow> iteration (fst s') = max n (iteration (fst s) + 1))"
  using assms(3)
proof (induction k arbitrary: s)
  case 0
  let ?s = "run_iteration rc env cfg s"
  have it: "iteration (fst ?s) = iteration (fst s) + 1" by (rule run_iteration_counts)
  have "should_stop env cfg stop_at ?s"
    using 0 it assms(1,2) by (auto simp: should_stop_def split: prod.splits)
  then show ?case
    using it 0 by (subst run_loop.simps) (simp add: Let_def stop_all_servers stop_disabled_iteration)
next
  case (Suc k)
  let ?s = "run_iteration rc env cfg s"
  let ?next = "(fst ?s, wait_interval env (snd ?s))"
  have it: "iteration (fst ?s) = iteration (fst s) + 1" by (rule run_iteration_counts)
  have le: "iteration (fst s) + 1 \<le> n" using Suc.prems by linarith
  show ?case
  proof (cases "should_stop env cfg stop_at ?s")
    case True
    then have "stop_at = None \<longrightarrow> n = iteration (fst s) + 1"
      using it le assms(1) by (auto simp: should_stop_def split: prod.splits)
    then show ?thesis
      using True it by (subst run_loop.simps) (simp add: Let_def stop_all_servers stop_disabled_iteration)
  next
    case False
    have "n \<noteq> iteration (fst s) + 1"
      using False it assms(1,2) by (auto simp: should_stop_def split: prod.splits)
    moreover have "nat (n - iteration (fst ?next)) = k" using Suc.prems it by simp
    ultimately show ?thesis
      using Suc.IH [of ?next] False it le by (subst run_loop.simps) (simp add: Let_def)
  qed
qed

lemma run_monitor_outcome:
  assumes "number_of_iterations cfg = Some n" "n \<noteq> 0" "assert_valid_config cfg = Inr ()"
  shows "\<exists>mon' w'. run_monitor rc env cfg w = Some (Inr (), mon', w') \<and> active_monitors mon' = [] \<and>
    (stop_after cfg = None \<longrightarrow> iteration mon' = max n 1)"
proof -
  let ?start = "(\<lparr>active_monitors = [], iteration = 0\<rparr>, w)"
  let ?stop = "(case stop_after cfg of None \<Rightarrow> None | Some t \<Rightarrow> if t = 0 then None else Some (utcnow env w + t))"
  obtain mon' w' where "run_loop rc env cfg ?stop ?start = Some (mon', w')"
    "active_monitors mon' = []" "?stop = None \<longrightarrow> iteration mon' = max n 1"
    using run_loop_returns [OF assms(1,2) refl, of rc env ?stop ?start] by auto
  then show ?thesis
    using assms(3) by (simp add: run_monitor_def Let_def)
qed

text \<open>
  C27. With a bound on the number of iterations (not 0) and valid settings the monitor returns, for
  every behaviour of the services, whatever they raise; then no server is monitored any more, and
  without a bound on the time it made exactly that many iterations (one for a negative bound).
\<close>
theorem bounded_monitor_returns:
  assumes "number_of_iterations cfg = Some n" "n \<noteq> 0" "assert_valid_config cfg = Inr ()"
  shows "\<exists>mon' w'. run_monitor rc env cfg w = Some (Inr (), mon', w') \<and> active_monitors mon' = [] \<and>
    (stop_after cfg = None \<longrightarrow> iteration mon' = max n 1)"
  by (rule run_monitor_outcome [OF assms])

definition failing_multi_env :: "unit multi_env" where
  "failing_multi_env =
     \<lparr>get_servers_configs = io_raise (DatabandConnectionException ''no web server''),
      get_tracking_service = (\<lambda>_. io_return ()), create_liveness_file = io_return (),
      send_metrics = (\<lambda>w. w), wait_interval = (\<lambda>w. w), utcnow = (\<lambda>_. 0),
      for_managers = quiet_manager_env\<rparr>"

lemma bounded_monitor_returns_witness:
  "\<exists>mon' w'. run_monitor (sequential_runner_class quiet_syncer_env) failing_multi_env
     \<lparr>syncer_name = None, sql_alchemy_conn = None, number_of_iterations = Some 3, stop_after = None\<rparr> () =
     Some (Inr (), mon', w') \<and> iteration mon' = 3"
  using bounded_monitor_returns [where n = 3 and rc = "sequential_runner_class quiet_syncer_env" and
      env = failing_multi_env and w = "()" and
      cfg = "\<lparr>syncer_name = None, sql_alchemy_conn = None, number_of_iterations = Some 3, stop_after = None\<rparr>"]
  by (auto simp: assert_valid_config_def falsy_def)

end
