(* ===== verification/Heartbeat.thy ===== *)
theory Heartbeat
  imports Effects
begin

text \<open>
  The heartbeat sender of a run (\<open>_core/task_executor/heartbeat_sender.py\<close>): the command of the
  process, its life around the execution of the run, and its loop.  The operating system, the
  clock and the tracking store are parameters.
\<close>

section \<open>Around the run\<close>

record heartbeat_config =
  heartbeat_interval_s :: int
  heartbeat_log_to_file :: bool
  heartbeat_disable_plugins :: bool
  core_tracker :: "string list"
  core_tracker_api :: "string option"
  core_databand_url :: "string option"

record 'w sender_os =
  open_log :: "(unit, 'w) io"
  close_log :: "'w \<Rightarrow> 'w"
  popen :: "string list \<Rightarrow> bool \<Rightarrow> bool \<Rightarrow> (int, 'w) io"
  terminate :: "int \<Rightarrow> 'w \<Rightarrow> 'w"
  wait_for :: "int \<Rightarrow> (unit, 'w) io"

definition is_set :: "string option \<Rightarrow> bool" where
  "is_set s = (case s of None \<Rightarrow> False | Some x \<Rightarrow> x \<noteq> [])"

definition heartbeat_cmd :: "heartbeat_config \<Rightarrow> string \<Rightarrow> string \<Rightarrow> int \<Rightarrow> string list" where
  "heartbeat_cmd cfg executable run_uid pid =
     [executable, ''-m'', ''dbnd'', ''send-heartbeat'', ''--run-uid'', run_uid,
      ''--driver-pid'', int_str pid, ''--heartbeat-interval'', int_str (heartbeat_interval_s cfg),
      ''--tracker'', join_str '','' (core_tracker cfg),
      ''--tracker-api'', (case core_tracker_api cfg of None \<Rightarrow> ''None'' | Some s \<Rightarrow> s)] @
     (if is_set (core_databand_url cfg) then [''--databand-url'', the (core_databand_url cfg)] else [])"

text \<open>The log is opened, then the process is created with the log as output or not.\<close>

definition spawn_sender ::
  "'w sender_os \<Rightarrow> heartbeat_config \<Rightarrow> string list \<Rightarrow> 'w \<Rightarrow> int result \<times> bool \<times> 'w"
where
  "spawn_sender os cfg cmd w =
     (case (if heartbeat_log_to_file cfg then open_log os w else (Inr (), w)) of
        (Inl e, w) \<Rightarrow> (Inl e, False, w)
      | (Inr u, w) \<Rightarrow>
          (case popen os cmd (heartbeat_log_to_file cfg) (heartbeat_disable_plugins cfg) w of
             (r, w) \<Rightarrow> (r, heartbeat_log_to_file cfg, w)))"

text \<open>The clean-up: an error while waiting for the process is only logged.\<close>

definition stop_sender :: "'w sender_os \<Rightarrow> int option \<Rightarrow> bool \<Rightarrow> 'w \<Rightarrow> 'w" where
  "stop_sender os sp log_open w =
     (let w = (case sp of None \<Rightarrow> w | Some pid \<Rightarrow> snd (wait_for os pid (terminate os pid w)))
      in if log_open then close_log os w else w)"

definition with_heartbeat_sender ::
  "'w sender_os \<Rightarrow> heartbeat_config \<Rightarrow> string \<Rightarrow> string \<Rightarrow> int \<Rightarrow> ('a, 'w) io \<Rightarrow> ('a, 'w) io"
where
  "with_heartbeat_sender os cfg executable run_uid pid body w =
     (if \<not> 0 < heartbeat_interval_s cfg then body w
      else if \<not> is_set (core_tracker_api cfg) then body w
      else (case spawn_sender os cfg (heartbeat_cmd cfg executable run_uid pid) w of
              (Inl e, log_open, w) \<Rightarrow> (Inl e, stop_sender os None log_open w)
            | (Inr sp, log_open, w) \<Rightarrow>
                (case body w of (r, w) \<Rightarrow> (r, stop_sender os (Some sp) log_open w))))"

section \<open>The loop\<close>

datatype heartbeat_outcome = Sent string | Failed py_error | Interrupted

record 'w sender_env =
  driver_exists :: "'w \<Rightarrow> bool"
  store_heartbeat :: "'w \<Rightarrow> heartbeat_outcome \<times> 'w"
  kill_driver :: "'w \<Rightarrow> 'w"
  sleep_for :: "int \<Rightarrow> 'w \<Rightarrow> bool \<times> 'w"
  clock :: "'w \<Rightarrow> int"

definition time_to_sleep :: "int \<Rightarrow> int \<Rightarrow> int \<Rightarrow> int" where
  "time_to_sleep now interval loop_start = max 0 (now + interval - loop_start)"

text \<open>
  One turn while the driver exists: whether the loop goes on, and the world.  \<open>sleep_for\<close> tells
  whether it was interrupted.
\<close>

definition sender_turn :: "'w sender_env \<Rightarrow> int \<Rightarrow> 'w \<Rightarrow> bool \<times> 'w" where
  "sender_turn env interval w =
     (case store_heartbeat env w of (out, w1) \<Rightarrow>
        if out = Interrupted then (False, w1)
        else (let w2 = (if out = Sent ''shutdown'' then kill_driver env w1 else w1);
                  pause = time_to_sleep (clock env w2) interval (clock env w)
              in if 0 < pause then (case sleep_for env pause w2 of (interrupted, w3) \<Rightarrow> (\<not> interrupted, w3))
                 else (True, w2)))"

partial_function (option) send_heartbeat_continuously :: "'w sender_env \<Rightarrow> int \<Rightarrow> 'w \<Rightarrow> 'w option" where
  "send_heartbeat_continuously env interval w =
     (if \<not> driver_exists env w then Some w
      else let t = sender_turn env interval w
           in if fst t then send_heartbeat_continuously env interval (snd t) else Some (snd t))"

section \<open>Lemmas on the loop\<close>

text \<open>
  The clock under the operations: sleeping takes the time asked for unless it is interrupted, and
  nothing turns the clock back.
\<close>

definition steady_clock :: "'w sender_env \<Rightarrow> bool" where
  "steady_clock env \<longleftrightarrow>
     (\<forall>w. clock env w \<le> clock env (snd (store_heartbeat env w))) \<and>
     (\<forall>w. clock env (kill_driver env w) = clock env w) \<and>
     (\<forall>p w. 0 < p \<longrightarrow> \<not> fst (sleep_for env p w) \<longrightarrow> clock env (snd (sleep_for env p w)) = clock env w + p)"

lemma sender_turn_period:
  assumes "steady_clock env" "0 < interval" "sender_turn env interval w = (True, w')"
  shows "clock env w' - clock env w =
    interval + 2 * (clock env (snd (store_heartbeat env w)) - clock env w)"
proof -
  obtain out w1 where hb: "store_heartbeat env w = (out, w1)" by (cases "store_heartbeat env w")
  have le: "clock env w \<le> clock env w1" using assms(1) hb unfolding steady_clock_def by (metis snd_conv)
  let ?w2 = "if out = Sent ''shutdown'' then kill_driver env w1 else w1"
  let ?p = "time_to_sleep (clock env ?w2) interval (clock env w)"
  have c: "clock env ?w2 = clock env w1" using assms(1) by (simp add: steady_clock_def)
  have p: "?p = interval + (clock env w1 - clock env w)" "0 < ?p"
    using c le assms(2) by (simp_all add: time_to_sleep_def)
  obtain i w3 where sl: "sleep_for env ?p ?w2 = (i, w3)" by (cases "sleep_for env ?p ?w2")
  have fin: "\<not> i" "w' = w3"
    using assms(3) hb p(2) sl by (auto simp: sender_turn_def Let_def split: if_splits)
  have "clock env w3 = clock env ?w2 + ?p"
    using assms(1) p(2) sl fin(1) unfolding steady_clock_def by (metis fst_conv snd_conv)
  then show ?thesis using fin(2) hb c p(1) by simp
qed

text \<open>
  The sleep of the sender adds the time its request took to the interval instead of
  taking it off: from one turn to the next the clock advances by the interval and twice the time
  of the request, so heartbeats are never sent at the configured pace.
\<close>
theorem heartbeat_period_drifts:
  assumes "steady_clock env" "0 < interval" "sender_turn env interval w = (True, w')"
  shows "clock env w' - clock env w =
    interval + 2 * (clock env (snd (store_heartbeat env w)) - clock env w)"
  by (rule sender_turn_period [OF assms])

text \<open>A request takes 3 seconds; the driver exists until second 100.\<close>

definition slow_store :: "int sender_env" where
  "slow_store =
     \<lparr>driver_exists = (\<lambda>t. t < 100), store_heartbeat = (\<lambda>t. (Sent ''running'', t + 3)),
      kill_driver = (\<lambda>t. t), sleep_for = (\<lambda>p t. (False, t + p)), clock = (\<lambda>t. t)\<rparr>"

lemma slow_store_steady: "steady_clock slow_store"
  by (simp add: steady_clock_def slow_store_def)

lemma heartbeat_period_drifts_witness:
  "sender_turn slow_store 5 0 = (True, 11)"
proof -
  obtain b w' where t: "sender_turn slow_store 5 0 = (b, w')" by (cases "sender_turn slow_store 5 0")
  then have b: "b" by (auto simp: sender_turn_def slow_store_def time_to_sleep_def)
  with t have "sender_turn slow_store 5 0 = (True, w')" by simp
  from heartbeat_period_drifts [OF slow_store_steady _ this] have "w' = 11"
    by (simp add: slow_store_def)
  with t b show ?thesis by simp
qed

lemma sender_stops:
  assumes "steady_clock env" "0 < interval" "\<And>w. driver_exists env w \<Longrightarrow> clock env w < deadline"
  shows "\<exists>w'. send_heartbeat_continuously env interval w = Some w'"
proof (induction "nat (deadline - clock env w)" arbitrary: w rule: less_induct)
  case less
  let ?t = "sender_turn env interval w"
  show ?case
  proof (cases "driver_exists env w \<and> fst ?t")
    case False
    then show ?thesis by (subst send_heartbeat_continuously.simps) (auto simp: Let_def)
  next
    case True
    then have t: "?t = (True, snd ?t)" by (cases ?t) simp
    have le: "clock env w \<le> clock env (snd (store_heartbeat env w))"
      using assms(1) by (simp add: steady_clock_def)
    have "clock env w < clock env (snd ?t)"
      using sender_turn_period [OF assms(1,2) t] le assms(2)
      unfolding right_diff_distrib by linarith
    then have "nat (deadline - clock env (snd ?t)) < nat (deadline - clock env w)"
      using assms(3) [of w] True by simp
    from less [OF this] obtain w' where "send_heartbeat_continuously env interval (snd ?t) = Some w'" by blast
    then show ?thesis using True by (subst send_heartbeat_continuously.simps) (simp add: Let_def)
  qed
qed

text \<open>
  The sender does not outlive the driver: when the driver is gone from some time on, the
  loop returns, whatever the tracking store answers or raises.
\<close>
theorem heartbeat_sender_stops:
  assumes "steady_clock env" "0 < interval" "\<And>w. driver_exists env w \<Longrightarrow> clock env w < deadline"
  shows "\<exists>w'. send_heartbeat_continuously env interval w = Some w'"
  by (rule sender_stops [OF assms])

lemma heartbeat_sender_stops_witness: "send_heartbeat_continuously slow_store 40 60 \<noteq> None"
  using heartbeat_sender_stops [OF slow_store_steady, of 40 100 60] by (auto simp: slow_store_def)

end
