(* ===== verification/ValueTypes.thy ===== *)
theory ValueTypes
  imports DateIntervals
begin

text \<open>
  Value types that turn parameter text into values (\<open>targets/values\<close>): date intervals and time
  deltas (\<open>timedelta_value.py\<close>), and the simple ones of \<open>builtins_values.py\<close>.  The lemmas show
  that what a value type prints it reads back, and for which values it does not.
\<close>

section \<open>Date intervals\<close>

text \<open>The classes are tried in this order; an error of a constructor escapes.\<close>

fun try_classes :: "interval_class list \<Rightarrow> string \<Rightarrow> date_interval result" where
  "try_classes [] s = Inl (ValueError ''Invalid date interval - could not be parsed'')"
| "try_classes (c # cs) s =
     rbind (parse c s) (\<lambda>i. case i of None \<Rightarrow> try_classes cs s | Some i \<Rightarrow> Inr i)"

definition date_interval_parse_from_str :: "string \<Rightarrow> date_interval result" where
  "date_interval_parse_from_str s = try_classes [Year, Month, Week, Date, Custom] s"

section \<open>Time deltas\<close>

text \<open>\<open>datetime.timedelta\<close> without microseconds: a number of seconds, at most 999999999 days.\<close>

type_synonym timedelta = int

definition timedelta_of :: "int \<Rightarrow> int \<Rightarrow> int \<Rightarrow> int \<Rightarrow> int \<Rightarrow> timedelta result" where
  "timedelta_of weeks days hrs minutes seconds =
     (let t = weeks * 604800 + days * 86400 + hrs * 3600 + minutes * 60 + seconds
      in if \<bar>t div 86400\<bar> > 999999999 then Inl OverflowError else Inr t)"

definition td_days :: "timedelta \<Rightarrow> int" where
  "td_days t = t div 86400"

definition td_seconds :: "timedelta \<Rightarrow> int" where
  "td_seconds t = t mod 86400"

text \<open>\<open>_apply_regex\<close>: the numbers of the groups, 0 for a group that took no part in the match.\<close>

definition apply_groups :: "bool \<Rightarrow> int option list \<Rightarrow> timedelta option result" where
  "apply_groups any_group vs =
     (if \<not> any_group then Inr None
      else (case map (\<lambda>v. case v of None \<Rightarrow> 0 | Some n \<Rightarrow> n) vs of
              [w, d, h, m, s] \<Rightarrow> rmap Some (timedelta_of w d h m s)
            | _ \<Rightarrow> Inr None))"

text \<open>An optional field \<open>(\d+)X\<close> of the ISO 8601 form.\<close>

definition iso_field :: "char \<Rightarrow> string \<Rightarrow> int option \<times> string" where
  "iso_field x s =
     (let ds = takeWhile is_digit s; r = dropWhile is_digit s
      in if ds \<noteq> [] \<and> r \<noteq> [] \<and> hd r = x then (Some (int (digits_val ds)), tl r) else (None, s))"

definition parse_iso8601 :: "string \<Rightarrow> timedelta option result" where
  "parse_iso8601 s =
     (if s = [] \<or> hd s \<noteq> CHR ''P'' then Inr None
      else (case iso_field (CHR ''W'') (tl s) of
              (Some w, r) \<Rightarrow> apply_groups True [Some w, None, None, None, None]
            | (None, _) \<Rightarrow>
                (case iso_field (CHR ''D'') (tl s) of (d, r) \<Rightarrow>
                   if r = [] \<or> hd r \<noteq> CHR ''T'' then apply_groups (d \<noteq> None) [None, d, None, None, None]
                   else (case iso_field (CHR ''H'') (tl r) of (h, r) \<Rightarrow>
                          (case iso_field (CHR ''M'') r of (m, r) \<Rightarrow>
                             (case iso_field (CHR ''S'') r of (sec, r) \<Rightarrow>
                                apply_groups True [None, d, h, m, sec]))))))"

text \<open>
  A field of the simple form, \<open>(\d+) ?w(eek)?(s)? ?\<close>; nothing is required to follow it, nor
  the whole text to be read.
\<close>

definition drop_text :: "string \<Rightarrow> string \<Rightarrow> string" where
  "drop_text p s = (if starts_with s p then drop (length p) s else s)"

definition simple_field :: "string \<Rightarrow> string \<Rightarrow> int option \<times> string" where
  "simple_field k s =
     (let ds = takeWhile is_digit s; r = drop_text '' '' (dropWhile is_digit s)
      in if ds \<noteq> [] \<and> r \<noteq> [] \<and> hd r = hd k
         then (Some (int (digits_val ds)),
               drop_text '' '' (drop_text [last k] (drop_text (butlast (tl k)) (tl r))))
         else (None, s))"

fun simple_fields :: "string list \<Rightarrow> string \<Rightarrow> int option list" where
  "simple_fields [] s = []"
| "simple_fields (k # ks) s = (case simple_field k s of (v, r) \<Rightarrow> v # simple_fields ks r)"

definition time_keys :: "string list" where
  "time_keys = [''weeks'', ''days'', ''hours'', ''minutes'', ''seconds'']"

definition parse_simple :: "string \<Rightarrow> timedelta option result" where
  "parse_simple s =
     (let vs = simple_fields time_keys s in apply_groups (\<exists>v \<in> set vs. v \<noteq> None) vs)"

text \<open>A time delta of zero counts as no result of the ISO form.\<close>

definition timedelta_parse_from_str :: "string \<Rightarrow> timedelta result" where
  "timedelta_parse_from_str s =
     rbind (parse_iso8601 s) (\<lambda>r.
     rbind (if r = None \<or> r = Some 0 then parse_simple s else Inr r) (\<lambda>r.
       case r of
         None \<Rightarrow> Inl (ParameterError (''Invalid time delta - could not parse '' @ s))
       | Some t \<Rightarrow> Inr t))"

definition timedelta_to_str :: "timedelta \<Rightarrow> string" where
  "timedelta_to_str x =
     (let weeks = td_days x div 7; days = td_days x mod 7; hrs = td_seconds x div 3600;
          minutes = (td_seconds x mod 3600) div 60; seconds = (td_seconds x mod 3600) mod 60;
          text = join_str '' '' (map (\<lambda>(n, v). int_str v @ [n])
            (filter (\<lambda>(n, v). v \<noteq> 0)
              [(CHR ''w'', weeks), (CHR ''d'', days), (CHR ''h'', hrs), (CHR ''m'', minutes),
               (CHR ''s'', seconds)]))
      in if text = [] then ''0d'' else text)"

section \<open>Simple types\<close>

definition nullable_str_to_str :: "string option \<Rightarrow> string" where
  "nullable_str_to_str x = (case x of None \<Rightarrow> [] | Some s \<Rightarrow> s)"

definition nullable_str_parse_from_str :: "string \<Rightarrow> string option" where
  "nullable_str_parse_from_str x = (if x = [] then None else Some x)"

definition int_parse_from_str :: "string \<Rightarrow> int result" where
  "int_parse_from_str s = parse_int s"

definition next_int :: "int \<Rightarrow> int" where
  "next_int v = v + 1"

definition bool_parse_from_str :: "string \<Rightarrow> bool result" where
  "bool_parse_from_str s = parse_bool (Some s)"

definition str_merge_values :: "string list \<Rightarrow> string" where
  "str_merge_values vs = concat vs"

text \<open>An enumeration is the list of its names with their values; \<open>None\<close> prints as \<open>None\<close>.\<close>

definition enum_parse_from_str :: "(string \<times> 'e) list \<Rightarrow> string \<Rightarrow> 'e result" where
  "enum_parse_from_str members s =
     (case map_of members s of
        None \<Rightarrow> Inl (ValueError (''Invalid enum value '' @ s))
      | Some e \<Rightarrow> Inr e)"

section \<open>Printed intervals are read back\<close>

lemma re_match_length: "re_match p s \<Longrightarrow> length s = length p \<or> length s = length p + 1 \<and> last s = CHR 0x0A"
  by (induction p s rule: re_match.induct) (auto split: if_splits)

lemma parse_length:
  assumes "parse c s \<noteq> Inr None"
  shows "length s = (case c of Year \<Rightarrow> 4 | Month \<Rightarrow> 7 | Week \<Rightarrow> 8 | Date \<Rightarrow> 10 | Custom \<Rightarrow> 21) \<or>
    s \<noteq> [] \<and> last s = CHR 0x0A"
proof -
  let ?p = "case c of Year \<Rightarrow> ''####'' | Month \<Rightarrow> ''####-##'' | Week \<Rightarrow> ''####-W##''
    | Date \<Rightarrow> ''####-##-##'' | Custom \<Rightarrow> ''####-##-##-####-##-##''"
  have "re_match ?p s" using assms by (cases c) (auto simp: parse_def split: if_splits)
  from re_match_length [OF this] show ?thesis by (cases c) auto
qed

definition text_length :: "interval_class \<Rightarrow> nat" where
  "text_length c = (case c of Year \<Rightarrow> 4 | Month \<Rightarrow> 7 | Week \<Rightarrow> 8 | Date \<Rightarrow> 10 | Custom \<Rightarrow> 21)"

lemma text_length_inj: "text_length c = text_length d \<longleftrightarrow> c = d"
  by (cases c; cases d) (simp_all add: text_length_def)

lemma to_string_shape:
  assumes "well_formed i" "1000 < year (date_a i)" "1000 < year (date_b i)"
  shows "length (to_string i) = text_length (cls i) \<and> last (to_string i) \<noteq> CHR 0x0A"
proof -
  have v: "valid_date (date_a i)" "valid_date (date_b i)"
    using assms(1) by (auto simp: well_formed_def)
  have nl: "is_digit c \<Longrightarrow> c \<noteq> CHR 0x0A" for c by (auto simp: is_digit_def)
  obtain a b c d e f g h where A:
    "strftime_Y (date_a i) = [a, b, c, d]" "strftime_Ym (date_a i) = [a, b, c, d, CHR ''-'', e, f]"
    "strftime_Ymd (date_a i) = [a, b, c, d, CHR ''-'', e, f, CHR ''-'', g, h]"
    "list_all is_digit [a, b, c, d, e, f, g, h]"
    using strftime_parts [OF v(1)] assms(2) by (metis less_imp_le)
  obtain a' b' c' d' e' f' g' h' where B:
    "strftime_Ymd (date_b i) = [a', b', c', d', CHR ''-'', e', f', CHR ''-'', g', h']"
    "list_all is_digit [a', b', c', d', e', f', g', h']"
    using strftime_parts [OF v(2)] assms(3) by (metis less_imp_le)
  show ?thesis
  proof (cases "cls i = Week")
    case True
    obtain y w k where iso: "isocalendar (date_a i) = (y, w, k)" by (cases "isocalendar (date_a i)") auto
    have r: "1000 \<le> y" "y \<le> 9999" "0 \<le> w" "w \<le> 99"
      using isocalendar_year_bounds [OF v(1) iso] assms(2) iso well_formed_iso_year [OF assms(1) True] by auto
    obtain p q s t where ys: "int_str y = [p, q, s, t]" using year_str [OF r(1,2)] by metis
    obtain x z where ws: "pad2 w = [x, z]" "list_all is_digit [x, z]" using pad2_str [OF r(3,4)] by metis
    show ?thesis using True iso ys ws nl by (simp add: to_string_def text_length_def)
  next
    case False
    then show ?thesis using A B nl by (cases "cls i") (simp_all add: to_string_def text_length_def)
  qed
qed

lemma interval_value_outcome:
  assumes "well_formed i" "1000 < year (date_a i)" "1000 < year (date_b i)"
  shows "date_interval_parse_from_str (to_string i) = Inr i"
proof -
  note shape = to_string_shape [OF assms]
  have ne: "to_string i \<noteq> []" using shape by (auto simp: text_length_def split: interval_class.splits)
  have other: "parse c (to_string i) = Inr None" if "c \<noteq> cls i" for c
  proof (rule ccontr)
    assume "parse c (to_string i) \<noteq> Inr None"
    then have "length (to_string i) = text_length c"
      using parse_length [of c "to_string i"] shape by (auto simp: text_length_def)
    then show False using shape that text_length_inj by simp
  qed
  note same = parse_roundtrip_outcome [OF assms]
  have "try_classes cs (to_string i) = Inr i" if "cls i \<in> set cs" for cs
    using that
  proof (induction cs)
    case (Cons c cs)
    then show ?case using other [of c] same by (cases "c = cls i") simp_all
  qed simp
  moreover have "cls i \<in> set [Year, Month, Week, Date, Custom]" by (cases "cls i") simp_all
  ultimately show ?thesis unfolding date_interval_parse_from_str_def .
qed

text \<open>
  The value type of date intervals reads every printed well formed interval of the years after
  1000 back as the interval it was printed from, class included: the forms of the five
  classes do not overlap, so the order in which they are tried does not matter.
\<close>
theorem interval_value_roundtrip:
  assumes "well_formed i" "1000 < year (date_a i)" "1000 < year (date_b i)"
  shows "date_interval_parse_from_str (to_string i) = Inr i"
  by (rule interval_value_outcome [OF assms])

theorem interval_value_roundtrip_witness:
  "date_interval_parse_from_str ''2020-W53'' = Inr (interval Week (YMD 2020 12 28) (YMD 2021 1 4))"
proof -
  have "well_formed (interval Week (YMD 2020 12 28) (YMD 2021 1 4))" by code_simp
  moreover have "to_string (interval Week (YMD 2020 12 28) (YMD 2021 1 4)) = ''2020-W53''"
    by code_simp
  ultimately show ?thesis
    using interval_value_roundtrip [of "interval Week (YMD 2020 12 28) (YMD 2021 1 4)"] by simp
qed

section \<open>Printed time deltas are read back\<close>

text \<open>The printed fields: those that are not zero, with the first letter of their key.\<close>

definition show_fields :: "(string \<times> nat) list \<Rightarrow> string" where
  "show_fields kvs = join_str '' '' (map (\<lambda>(k, v). nat_str v @ [hd k]) (filter (\<lambda>(k, v). v \<noteq> 0) kvs))"

lemma takeWhile_digits: "\<not> is_digit c \<Longrightarrow> takeWhile is_digit (nat_str n @ c # r) = nat_str n"
  using nat_str_digits [of n] by (simp add: takeWhile_append2)

lemma dropWhile_digits: "\<not> is_digit c \<Longrightarrow> dropWhile is_digit (nat_str n @ c # r) = c # r"
  using nat_str_digits [of n] by (simp add: dropWhile_append2)

lemma drop_text_miss: "r = [] \<or> p = [] \<or> hd r \<noteq> hd p \<Longrightarrow> drop_text p r = r"
  by (cases r; cases p) (auto simp: drop_text_def starts_with_def)

definition time_key :: "string \<Rightarrow> bool" where
  "time_key k \<longleftrightarrow> length k > 1 \<and> (\<forall>c \<in> set k. \<not> is_digit c \<and> c \<noteq> CHR '' '')"

lemma time_key_parts:
  assumes "time_key k"
  shows "\<not> is_digit (hd k)" "hd k \<noteq> CHR '' ''" "last k \<noteq> CHR '' ''"
    "butlast (tl k) = [] \<or> hd (butlast (tl k)) \<noteq> CHR '' ''"
proof -
  have k: "k \<noteq> []" using assms by (cases k) (simp_all add: time_key_def)
  then have "hd k \<in> set k" "last k \<in> set k" by simp_all
  then show "\<not> is_digit (hd k)" "hd k \<noteq> CHR '' ''" "last k \<noteq> CHR '' ''"
    using assms unfolding time_key_def by blast+
  show "butlast (tl k) = [] \<or> hd (butlast (tl k)) \<noteq> CHR '' ''"
  proof (cases "butlast (tl k)")
    case (Cons c cs)
    then have "c \<in> set (butlast (tl k))" by simp
    then have "c \<in> set k" by (metis in_set_butlastD list.set_sel(2) tl_Nil)
    then show ?thesis using Cons assms unfolding time_key_def by (metis list.sel(1))
  qed simp
qed

text \<open>A field of the key is taken; what follows starts with a space or is empty.\<close>

lemma simple_field_hit:
  assumes "time_key k" "r = [] \<or> hd r = CHR '' ''"
  shows "simple_field k (nat_str n @ hd k # r) = (Some (int n), drop_text '' '' r)"
proof -
  note parts = time_key_parts [OF assms(1)]
  have 1: "drop_text '' '' (hd k # r) = hd k # r" using parts by (intro drop_text_miss) simp
  have 2: "drop_text (butlast (tl k)) r = r" using parts(4) assms(2) by (intro drop_text_miss) auto
  have 3: "drop_text [last k] r = r" using parts(3) assms(2) by (intro drop_text_miss) auto
  show ?thesis
    by (simp add: simple_field_def Let_def takeWhile_digits [OF parts(1)] dropWhile_digits [OF parts(1)]
        1 2 3 digits_val_nat_str)
qed

text \<open>A field of another key is left for it.\<close>

lemma simple_field_miss:
  assumes "time_key k'" "hd k' \<noteq> hd k"
  shows "simple_field k (nat_str n @ hd k' # r) = (None, nat_str n @ hd k' # r)"
proof -
  note parts = time_key_parts [OF assms(1)]
  have "drop_text '' '' (hd k' # r) = hd k' # r" using parts by (intro drop_text_miss) simp
  then show ?thesis
    using assms(2)
    by (simp add: simple_field_def Let_def takeWhile_digits [OF parts(1)] dropWhile_digits [OF parts(1)])
qed

lemma simple_field_empty: "simple_field k [] = (None, [])"
  by (simp add: simple_field_def)

lemma join_str_Cons: "join_str sep (x # xs) = x @ (if xs = [] then [] else sep @ join_str sep xs)"
  by (cases xs) simp_all

lemma join_str_Nil_iff: "\<forall>x \<in> set xs. x \<noteq> [] \<Longrightarrow> join_str sep xs = [] \<longleftrightarrow> xs = []"
  by (cases xs) (simp_all add: join_str_Cons)

lemma show_fields_Cons:
  "show_fields ((k, v) # kvs) =
     (if v = 0 then show_fields kvs
      else nat_str v @ hd k # (if show_fields kvs = [] then [] else CHR '' '' # show_fields kvs))"
  by (auto simp: show_fields_def join_str_Cons join_str_Nil_iff)

lemma show_fields_first:
  "show_fields kvs = [] \<or>
     (\<exists>k v r. (k, v) \<in> set kvs \<and> show_fields kvs = nat_str v @ hd k # r)"
proof (induction kvs)
  case (Cons kv kvs)
  obtain k v where kv: "kv = (k, v)" by (cases kv)
  show ?case
  proof (cases "v = 0")
    case True
    then show ?thesis using Cons kv by (auto simp: show_fields_Cons)
  next
    case False
    then show ?thesis using kv by (auto simp: show_fields_Cons)
  qed
qed (simp add: show_fields_def)

lemma show_fields_no_space: "show_fields kvs = [] \<or> hd (show_fields kvs) \<noteq> CHR '' ''"
proof -
  have "hd (nat_str v @ r) \<noteq> CHR '' ''" for v r
    using hd_nat_str [of v] by (auto simp: hd_append is_digit_def)
  then show ?thesis using show_fields_first [of kvs] by auto
qed

lemma simple_fields_show:
  assumes "\<forall>(k, v) \<in> set kvs. time_key k" "distinct (map (hd \<circ> fst) kvs)"
  shows "simple_fields (map fst kvs) (show_fields kvs) =
    map (\<lambda>(k, v). if v = 0 then None else Some (int v)) kvs"
  using assms
proof (induction kvs)
  case (Cons kv kvs)
  obtain k v where kv: "kv = (k, v)" by (cases kv)
  have ih: "simple_fields (map fst kvs) (show_fields kvs) =
      map (\<lambda>(k, v). if v = 0 then None else Some (int v)) kvs"
    using Cons by simp
  have k: "time_key k" using Cons.prems(1) kv by simp
  show ?case
  proof (cases "v = 0")
    case True
    have "simple_field k (show_fields kvs) = (None, show_fields kvs)"
    proof (cases "show_fields kvs = []")
      case False
      then obtain k' v' r where f: "(k', v') \<in> set kvs" "show_fields kvs = nat_str v' @ hd k' # r"
        using show_fields_first by blast
      have "time_key k'" "hd k' \<noteq> hd k" using f(1) Cons.prems kv by (auto simp: image_def)
      then show ?thesis using simple_field_miss f(2) by simp
    qed (simp add: simple_field_empty)
    then show ?thesis using True kv ih by (simp add: show_fields_Cons)
  next
    case False
    let ?r = "if show_fields kvs = [] then [] else CHR '' '' # show_fields kvs"
    have "simple_field k (nat_str v @ hd k # ?r) = (Some (int v), drop_text '' '' ?r)"
      by (rule simple_field_hit [OF k]) simp
    moreover have "drop_text '' '' ?r = show_fields kvs"
      by (auto simp: drop_text_def starts_with_def)
    ultimately show ?thesis using False kv ih by (simp add: show_fields_Cons)
  qed
qed (simp add: show_fields_def)

lemma time_keys_ok:
  "\<forall>(k, v) \<in> set (zip time_keys vs). time_key k" "length vs = 5 \<Longrightarrow> distinct (map (hd \<circ> fst) (zip time_keys vs))"
proof -
  have "\<forall>k \<in> set time_keys. time_key k" by code_simp
  then show "\<forall>(k, v) \<in> set (zip time_keys vs). time_key k" by (auto dest: set_zip_leftD)
  assume "length vs = 5"
  then have "map fst (zip time_keys vs) = time_keys" by (simp add: time_keys_def)
  moreover have "distinct (map hd time_keys)" by code_simp
  ultimately show "distinct (map (hd \<circ> fst) (zip time_keys vs))" by (metis map_map)
qed

text \<open>The fields of a time delta that is not negative.\<close>

definition td_parts :: "timedelta \<Rightarrow> int list" where
  "td_parts x =
     [td_days x div 7, td_days x mod 7, td_seconds x div 3600, (td_seconds x mod 3600) div 60,
      (td_seconds x mod 3600) mod 60]"

definition td_fields :: "timedelta \<Rightarrow> nat list" where
  "td_fields x = map nat (td_parts x)"

lemma show_fields_Nil_iff: "show_fields kvs = [] \<longleftrightarrow> (\<forall>(k, v) \<in> set kvs. v = 0)"
  by (subst show_fields_def, subst join_str_Nil_iff) (auto simp: filter_empty_conv)

lemma td_sum:
  "td_days x div 7 * 604800 + td_days x mod 7 * 86400 + td_seconds x div 3600 * 3600 +
     (td_seconds x mod 3600) div 60 * 60 + (td_seconds x mod 3600) mod 60 = x"
proof -
  have "td_days x div 7 * 604800 + td_days x mod 7 * 86400 = td_days x * 86400"
    using div_mult_mod_eq [of "td_days x" 7] by linarith
  moreover have "td_seconds x div 3600 * 3600 + (td_seconds x mod 3600) div 60 * 60 +
      (td_seconds x mod 3600) mod 60 = td_seconds x"
    using div_mult_mod_eq [of "td_seconds x mod 3600" 60] div_mult_mod_eq [of "td_seconds x" 3600] by linarith
  moreover have "td_days x * 86400 + td_seconds x = x"
    using div_mult_mod_eq [of x 86400] by (simp add: td_days_def td_seconds_def)
  ultimately show ?thesis by linarith
qed

lemma td_parts_nonneg: "0 \<le> x \<Longrightarrow> \<forall>v \<in> set (td_parts x). 0 \<le> v"
  by (simp add: td_parts_def td_days_def td_seconds_def pos_imp_zdiv_nonneg_iff)

lemma length_time_keys [simp]: "length time_keys = 5" "length (td_fields x) = 5"
  by (simp_all add: time_keys_def td_fields_def td_parts_def)

lemma td_fields_zero:
  assumes "0 \<le> x" shows "(\<forall>n \<in> set (td_fields x). n = 0) \<longleftrightarrow> x = 0"
proof
  assume z: "\<forall>n \<in> set (td_fields x). n = 0"
  have "v = 0" if "v \<in> set (td_parts x)" for v
    using z td_parts_nonneg [OF assms] that by (fastforce simp: td_fields_def)
  then have "td_days x div 7 = 0" "td_days x mod 7 = 0" "td_seconds x div 3600 = 0"
    "td_seconds x mod 3600 div 60 = 0" "td_seconds x mod 3600 mod 60 = 0"
    unfolding td_parts_def by (meson list.set_intros)+
  then show "x = 0" using td_sum [of x] by linarith
qed (simp add: td_fields_def td_parts_def td_days_def td_seconds_def)

lemma zero_fields_text:
  assumes "0 \<le> x" shows "show_fields (zip time_keys (td_fields x)) = [] \<longleftrightarrow> x = 0"
proof -
  have "map snd (zip time_keys (td_fields x)) = td_fields x" by (rule map_snd_zip) simp
  then have "set (td_fields x) = snd ` set (zip time_keys (td_fields x))" by (metis set_map)
  then show ?thesis unfolding show_fields_Nil_iff td_fields_zero [OF assms, symmetric] by auto
qed

text \<open>Printing signed fields under their letters, and natural ones under their keys.\<close>

lemma signed_fields:
  assumes "\<forall>v \<in> set vs. 0 \<le> v"
  shows "map (\<lambda>(n, v). int_str v @ [n]) (filter (\<lambda>(n, v). v \<noteq> 0) (zip (map hd ks) vs)) =
    map (\<lambda>(k, v). nat_str v @ [hd k]) (filter (\<lambda>(k, v). v \<noteq> 0) (zip ks (map nat vs)))"
  using assms
proof (induction ks vs rule: list_induct2')
  case (4 k ks v vs)
  then show ?case by (cases "v = 0") (simp_all add: int_str_def)
qed simp_all

lemma to_str_fields:
  assumes "0 \<le> x"
  shows "timedelta_to_str x = (if x = 0 then ''0d'' else show_fields (zip time_keys (td_fields x)))"
proof -
  have "map hd time_keys = [CHR ''w'', CHR ''d'', CHR ''h'', CHR ''m'', CHR ''s'']" by code_simp
  then have letters: "zip (map hd time_keys) (td_parts x) =
      [(CHR ''w'', td_days x div 7), (CHR ''d'', td_days x mod 7), (CHR ''h'', td_seconds x div 3600),
       (CHR ''m'', (td_seconds x mod 3600) div 60), (CHR ''s'', (td_seconds x mod 3600) mod 60)]"
    by (simp add: td_parts_def)
  have "timedelta_to_str x =
      (let text = show_fields (zip time_keys (td_fields x)) in if text = [] then ''0d'' else text)"
    unfolding timedelta_to_str_def Let_def letters [symmetric] signed_fields [OF td_parts_nonneg [OF assms]]
    by (simp only: show_fields_def td_fields_def)
  then show ?thesis using zero_fields_text [OF assms] by (simp add: Let_def)
qed

lemma timedelta_roundtrip_outcome:
  assumes "0 \<le> x" "td_days x \<le> 999999999"
  shows "timedelta_parse_from_str (timedelta_to_str x) = Inr x"
proof (cases "x = 0")
  case True
  have "timedelta_parse_from_str ''0d'' = Inr 0" by code_simp
  then show ?thesis using True to_str_fields [OF assms(1)] by simp
next
  case False
  let ?kvs = "zip time_keys (td_fields x)"
  let ?vs = "simple_fields time_keys (show_fields ?kvs)"
  have s: "timedelta_to_str x = show_fields ?kvs" "show_fields ?kvs \<noteq> []"
    using to_str_fields [OF assms(1)] zero_fields_text [OF assms(1)] False by simp_all
  have "hd (show_fields ?kvs) \<noteq> CHR ''P''"
  proof -
    have "hd (nat_str v @ r) \<noteq> CHR ''P''" for v r
      using hd_nat_str [of v] by (auto simp: hd_append is_digit_def)
    then show ?thesis using show_fields_first [of ?kvs] s(2) by auto
  qed
  then have iso: "parse_iso8601 (show_fields ?kvs) = Inr None" by (simp add: parse_iso8601_def)
  have keys: "map fst ?kvs = time_keys" by (rule map_fst_zip) simp
  have vs: "?vs = map (\<lambda>(k, v). if v = 0 then None else Some (int v)) ?kvs"
    using simple_fields_show [OF time_keys_ok] keys by simp
  obtain k n where kn: "(k, n) \<in> set ?kvs" "n \<noteq> 0" using s(2) unfolding show_fields_Nil_iff by blast
  then have some: "\<exists>v \<in> set ?vs. v \<noteq> None" unfolding vs by force
  have "map (\<lambda>v. case v of None \<Rightarrow> 0 | Some n \<Rightarrow> n) ?vs = map (int \<circ> snd) ?kvs"
    unfolding vs by auto
  also have "\<dots> = map int (td_fields x)"
    by (metis (no_types, lifting) length_time_keys map_map map_snd_zip)
  also have "\<dots> = td_parts x"
    using td_parts_nonneg [OF assms(1)] by (simp add: td_fields_def map_idI)
  finally have "apply_groups True ?vs = rmap Some (timedelta_of (td_days x div 7) (td_days x mod 7)
      (td_seconds x div 3600) (td_seconds x mod 3600 div 60) (td_seconds x mod 3600 mod 60))"
    by (simp add: apply_groups_def td_parts_def)
  also have "\<dots> = Inr (Some x)"
  proof -
    have "\<not> 999999999 < \<bar>x div 86400\<bar>" using assms by (simp add: td_days_def)
    then show ?thesis unfolding timedelta_of_def td_sum Let_def by simp
  qed
  finally have "parse_simple (show_fields ?kvs) = Inr (Some x)"
    using some by (simp add: parse_simple_def Let_def)
  then show ?thesis using s(1) iso by (simp add: timedelta_parse_from_str_def)
qed

text \<open>
  Every time delta that is not negative and has no microseconds is read back from its printed
  form, up to the largest one that \<open>datetime\<close> can hold.
\<close>
theorem timedelta_roundtrip:
  assumes "0 \<le> x" "td_days x \<le> 999999999"
  shows "timedelta_parse_from_str (timedelta_to_str x) = Inr x"
  by (rule timedelta_roundtrip_outcome [OF assms])

theorem timedelta_roundtrip_witness:
  "timedelta_parse_from_str ''1w 2d 3s'' = Inr 777603"
proof -
  have "timedelta_to_str 777603 = ''1w 2d 3s''" by code_simp
  then show ?thesis using timedelta_roundtrip [of 777603] by (simp add: td_days_def)
qed

text \<open>
  A duration of zero in the ISO form is refused, months are read as minutes, and the printed form
  of a negative time delta is not read back.
\<close>

lemma iso_zero_is_refused: "timedelta_parse_from_str ''P0D'' = Inl (ParameterError ''Invalid time delta - could not parse P0D'')"
  by code_simp

lemma months_are_minutes: "timedelta_parse_from_str ''3 months'' = Inr 180"
  by code_simp

lemma negative_delta_is_refused:
  "timedelta_to_str (-86400) = ''-1w 6d''"
  "timedelta_parse_from_str ''-1w 6d'' = Inl (ParameterError ''Invalid time delta - could not parse -1w 6d'')"
  by code_simp+

end
