(* ===== verification/TaskBuild.thy ===== *)
theory TaskBuild
  imports Config
begin

text \<open>
  How a task gets the values of its parameters (\<open>_core/task_build/task_factory.py\<close>, with
  \<open>_core/parameter/parameter_value.py\<close> and \<open>build_parameter_value\<close> of
  \<open>parameter_definition.py\<close>): the configuration sections of a task, the layers its class and its
  constructor add, and the order in which a value is looked for.  The value types are a parameter:
  \<open>value_ops\<close> holds what the factory asks of them.
\<close>

section \<open>Parameters and their values\<close>

record 't parameter =
  p_name :: string
  p_value_type :: 't
  p_is_output :: bool
  p_config_path :: "(string \<times> string) option"
  p_significant :: bool
  p_system :: bool
  p_scope_children :: bool
  p_from_task_env :: bool
  p_target_config :: "string option"

record ('v, 't) parameter_value =
  pv_parameter :: "'t parameter"
  pv_value :: 'v
  pv_source :: "string option"
  pv_source_value :: 'v
  pv_parsed :: bool
  pv_warnings :: "string list"

text \<open>
  \<open>py_none\<close> is \<open>None\<close>, \<open>nothing\<close> the marker of an output without a value; \<open>runtime_value_type\<close>
  is the type discovered from a value when it differs from the declared one.
\<close>

record ('v, 't) value_ops =
  py_none :: 'v
  nothing :: 'v
  is_target :: "'v \<Rightarrow> bool"
  truthy :: "'v \<Rightarrow> bool"
  text_of :: "'v \<Rightarrow> string"
  runtime_value_type :: "'t parameter \<Rightarrow> 'v \<Rightarrow> 't option"
  is_default_object :: "'t \<Rightarrow> bool"
  calc_init_value :: "'t parameter \<Rightarrow> 'v \<Rightarrow> 'v result"
  validate_value :: "'t parameter \<Rightarrow> 'v \<Rightarrow> unit result"
  support_merge :: "'t \<Rightarrow> bool"
  merge_values :: "'t \<Rightarrow> 'v \<Rightarrow> 'v \<Rightarrow> 'v"
  parse_target_config :: "'v \<Rightarrow> string result"
  config_of_value :: "'v \<Rightarrow> (string, (string, 'v raw_value) dict) dict"
  value_of_config :: "'v config_store \<Rightarrow> 'v"
  env_params :: "'v \<Rightarrow> (string, ('v, 't) parameter_value) dict"

definition build_parameter_value ::
  "('v, 't) value_ops \<Rightarrow> 't parameter \<Rightarrow> 'v config_value \<Rightarrow> ('v, 't) parameter_value result"
where
  "build_parameter_value ops p cf =
     (let v = cv_value cf;
          updated = (if v \<noteq> py_none ops \<and> \<not> p_is_output p then runtime_value_type ops p v else None);
          p' = (case updated of
                  None \<Rightarrow> p
                | Some t \<Rightarrow> if is_default_object ops (p_value_type p) then p\<lparr>p_value_type := t\<rparr> else p);
          warnings = (case updated of None \<Rightarrow> []
                      | Some t \<Rightarrow> [''type of the value at runtime doesn't match user defined type''])
      in case calc_init_value ops p' v of
           Inl e \<Rightarrow> Inl (DatabandBuildError ''Failed to calculate value'')
         | Inr pv \<Rightarrow>
             (case (if pv \<noteq> py_none ops \<and> \<not> is_target ops pv then validate_value ops p' pv else Inr ()) of
                Inl e \<Rightarrow> Inl (DatabandBuildError ''Failed to validate value'')
              | Inr u \<Rightarrow>
                  Inr \<lparr>pv_parameter = p', pv_value = pv, pv_source = cv_source cf, pv_source_value = v,
                       pv_parsed = require_parse cf, pv_warnings = warnings\<rparr>))"

definition fold_parameter_value ::
  "('v, 't) value_ops \<Rightarrow> ('v, 't) parameter_value \<Rightarrow> ('v, 't) parameter_value \<Rightarrow>
   ('v, 't) parameter_value result"
where
  "fold_parameter_value ops left right =
     (let lt = p_value_type (pv_parameter left); rt = p_value_type (pv_parameter right)
      in if pv_value right = py_none ops then Inr left
         else if \<not> support_merge ops lt then Inl (ValueError ''value type not supporting merge'')
         else if lt \<noteq> rt then Inl (ValueError ''can't merge two value with different types'')
         else Inr \<lparr>pv_parameter = pv_parameter left,
                  pv_value = merge_values ops lt (pv_value left) (pv_value right),
                  pv_source = Some (join_str '','' (map (\<lambda>s. case s of None \<Rightarrow> [] | Some x \<Rightarrow> x)
                    [pv_source left, pv_source right])),
                  pv_source_value = pv_source_value left, pv_parsed = True,
                  pv_warnings = pv_warnings left @ pv_warnings right\<rparr>)"

text \<open>The values of a stack are all built before they are folded, the lowest layer first.\<close>

definition reduce_stack ::
  "('v, 't) value_ops \<Rightarrow> 't parameter \<Rightarrow> 'v config_value list \<Rightarrow> ('v, 't) parameter_value result"
where
  "reduce_stack ops p stack =
     rbind (mapM (build_parameter_value ops p) stack) (\<lambda>vs.
       case vs of
         [] \<Rightarrow> Inl (TypeError ''reduce() of empty sequence'')
       | v # vs \<Rightarrow> foldM (fold_parameter_value ops) v vs)"

section \<open>The sections of a task\<close>

text \<open>The chain of \<open>_from\<close>: a section that names itself ends it, a longer circle does not.\<close>

partial_function (option) get_task_from_sections ::
  "(string \<Rightarrow> string option) \<Rightarrow> string \<Rightarrow> string list option"
where
  "get_task_from_sections from_of task_name =
     (if task_name = [] then Some []
      else case from_of task_name of
             None \<Rightarrow> Some []
           | Some task_from \<Rightarrow>
               if task_from = task_name \<or> task_from = [] then Some []
               else Option.bind (get_task_from_sections from_of task_from) (\<lambda>rest. Some (task_from # rest)))"

definition unique_everseen :: "'a list \<Rightarrow> 'a list" where
  "unique_everseen xs = rev (remdups (rev xs))"

text \<open>\<open>base\<close> is the section of all tasks or of all configs, if the class is one of them.\<close>

definition get_task_config_sections ::
  "(string \<Rightarrow> string option) \<Rightarrow> string \<Rightarrow> string \<Rightarrow> string \<Rightarrow> string list \<Rightarrow> string option \<Rightarrow>
   string list option"
where
  "get_task_config_sections from_of task_name family full_family extra base =
     map_option (\<lambda>froms.
       unique_everseen (map lower (filter (\<lambda>s. s \<noteq> [])
         (task_name # froms @ [family, full_family] @ extra @ (case base of None \<Rightarrow> [] | Some s \<Rightarrow> [s])))))
       (get_task_from_sections from_of task_name)"

section \<open>One parameter\<close>

text \<open>
  The state of a factory: its configuration with the layers added so far, the arguments of the
  constructor, what the parent task hands down to its children, the environment of the task and
  the defaults of its class.
\<close>

record ('v, 't) factory =
  f_config :: "'v dbnd_config"
  f_sections :: "string list"
  f_kwargs :: "(string, 'v) dict"
  f_children_scope :: "(string, ('v, 't) parameter_value) dict"
  f_task_env :: "(string, ('v, 't) parameter_value) dict option"
  f_param_defaults :: "(string, 'v) dict"
  f_source :: string

definition source_name :: "('v, 't) factory \<Rightarrow> string \<Rightarrow> string" where
  "source_name f name = f_source f @ ''['' @ name @ '']''"

definition config_value_of :: "'v \<Rightarrow> string option \<Rightarrow> 'v config_value" where
  "config_value_of v source =
     \<lparr>cv_value = v, cv_source = source, require_parse = True, priority = NORMAL, mergeable = False\<rparr>"

definition get_config_value_stack :: "('v, 't) factory \<Rightarrow> 't parameter \<Rightarrow> 'v config_value list" where
  "get_config_value_stack f p =
     (let stack = get_multisection_config_value (f_config f) (f_sections f) (p_name p)
      in if stack \<noteq> [] then stack
         else (case p_config_path p of
                 None \<Rightarrow> []
               | Some (section, key) \<Rightarrow>
                   (case get_config_value (current_config (layers (f_config f))) section key of
                      None \<Rightarrow> []
                    | Some v \<Rightarrow> [v])))"

definition calc_parameter_value ::
  "('v, 't) value_ops \<Rightarrow> ('v, 't) factory \<Rightarrow> 't parameter \<Rightarrow> ('v, 't) parameter_value result"
where
  "calc_parameter_value ops f p =
     (let stack = get_config_value_stack f p; name = p_name p
      in if \<exists>cf \<in> set stack. OVERRIDE \<le> priority cf then reduce_stack ops p stack
         else (case map_of (f_kwargs f) name of
           Some v \<Rightarrow> build_parameter_value ops p (config_value_of v (Some (source_name f ''ctor'')))
         | None \<Rightarrow>
           if stack \<noteq> [] then reduce_stack ops p stack
           else (case map_of (f_children_scope f) name of
             Some pv \<Rightarrow> build_parameter_value ops p (config_value_of (pv_value pv) (pv_source pv))
           | None \<Rightarrow>
             if p_from_task_env p
             then (case f_task_env f of
                     None \<Rightarrow> Inl (DatabandBuildError ''env is not defined'')
                   | Some env \<Rightarrow>
                       (case map_of env name of
                          None \<Rightarrow> Inl (DatabandBuildError ''it doesn't exists in the env'')
                        | Some pv \<Rightarrow>
                            build_parameter_value ops p (config_value_of (pv_value pv) (pv_source pv))))
             else (case map_of (f_param_defaults f) name of
               Some v \<Rightarrow> build_parameter_value ops p (config_value_of v (Some (source_name f ''default'')))
             | None \<Rightarrow>
               if \<not> p_is_output p then Inl (MissingParameterError name)
               else Inr \<lparr>pv_parameter = p, pv_value = nothing ops, pv_source = Some [],
                        pv_source_value = nothing ops, pv_parsed = False, pv_warnings = []\<rparr>))))"

definition update_target_config ::
  "('v, 't) value_ops \<Rightarrow> ('v, 't) factory \<Rightarrow> 't parameter \<Rightarrow> 't parameter result"
where
  "update_target_config ops f p =
     (let stack = get_multisection_config_value (f_config f) (f_sections f) (p_name p @ ''__target'')
      in if stack = [] then Inr p
         else (case parse_target_config ops (cv_value (last stack)) of
                 Inl e \<Rightarrow> Inl (DatabandBuildError ''Calculate target config'')
               | Inr t \<Rightarrow> Inr (p\<lparr>p_target_config := Some t\<rparr>)))"

section \<open>All parameters of a task\<close>

text \<open>A missing parameter is remembered, any other error ends the build.\<close>

fun build_params ::
  "('v, 't) value_ops \<Rightarrow> ('v, 't) factory \<Rightarrow> 't parameter list \<Rightarrow>
   (('v, 't) parameter_value list \<times> py_error list) result"
where
  "build_params ops f [] = Inr ([], [])"
| "build_params ops f (p # ps) =
     rbind (update_target_config ops f p) (\<lambda>p.
       case calc_parameter_value ops f p of
         Inr v \<Rightarrow> rmap (\<lambda>(vs, errors). (v # vs, errors)) (build_params ops f ps)
       | Inl (MissingParameterError n) \<Rightarrow>
           rmap (\<lambda>(vs, errors). (vs, MissingParameterError n # errors)) (build_params ops f ps)
       | Inl e \<Rightarrow> Inl e)"

record ('v, 't) task_definition =
  task_param_defs :: "(string, 't parameter) dict"
  task_defaults_store :: "'v config_store"

definition add_task_config ::
  "('v, 't) value_ops \<Rightarrow> 't parameter \<Rightarrow> ('v, 't) factory \<Rightarrow>
   (('v, 't) parameter_value \<times> ('v, 't) factory) result"
where
  "add_task_config ops p f =
     rbind (calc_parameter_value ops f p) (\<lambda>v.
       if \<not> truthy ops (pv_value v) then Inr (v, f)
       else rmap (\<lambda>store.
              (v\<lparr>pv_value := value_of_config ops store\<rparr>,
               f\<lparr>f_config := set_values store (source_name f ''task_config'') (f_config f)\<rparr>))
            (parse_and_build_config_store (source_name f ''task_config'') (config_of_value ops (pv_value v))
              None False False))"

datatype param_validation = ValidationWarn | ValidationError | ValidationDisabled

text \<open>
  The keys of the sections of the task that no parameter has; values that a parent handed down,
  \<open>_type\<close>, \<open>_from\<close> and the target settings are exempt.
\<close>

definition unknown_config_keys ::
  "('v, 't) factory \<Rightarrow> string list \<Rightarrow> string list"
where
  "unknown_config_keys f param_names =
     (let names = map lower param_names;
          items = concat (map (\<lambda>s. case map_of (current_config (layers (f_config f))) s of
              None \<Rightarrow> [] | Some sec \<Rightarrow> entries sec) (f_sections f))
      in map fst (filter (\<lambda>(key, v).
           \<not> ends_with (case cv_source v of None \<Rightarrow> [] | Some s \<Rightarrow> s) ''[children]'' \<and>
           key \<notin> {''_type'', ''_from''} \<and> \<not> ends_with key ''__target'' \<and> key \<notin> set names) items))"

definition validation_errors :: "param_validation option \<Rightarrow> string list \<Rightarrow> py_error list" where
  "validation_errors mode unknown =
     (case mode of
        Some ValidationError \<Rightarrow> map UnknownParameterError unknown
      | _ \<Rightarrow> [])"

definition raise_build_errors :: "py_error list \<Rightarrow> 'a \<Rightarrow> 'a result" where
  "raise_build_errors errors x =
     (case errors of
        [] \<Rightarrow> Inr x
      | [e] \<Rightarrow> Inl e
      | _ \<Rightarrow> Inl (DatabandBuildError ''Failed to create task''))"

text \<open>
  The layers are added from the weakest to the strongest: the defaults of the class, its
  \<open>task_config\<close>, then what the constructor overrides; \<open>mode_of\<close> reads the validation mode from
  the values.
\<close>

definition build_task_param_values ::
  "('v, 't) value_ops \<Rightarrow> ('v, 't) task_definition \<Rightarrow> (string, (string, 'v raw_value) dict) dict \<Rightarrow>
   (('v, 't) parameter_value list \<Rightarrow> param_validation option) \<Rightarrow> ('v, 't) factory \<Rightarrow>
   (('v, 't) parameter_value list \<times> ('v, 't) factory) result"
where
  "build_task_param_values ops td overrides mode_of f =
     (let f = (if task_defaults_store td = [] then f
               else f\<lparr>f_config := set_values (task_defaults_store td) (source_name f ''task.defaults'') (f_config f)\<rparr>)
      in rbind (case map_of (task_param_defs td) ''task_config'' of
                  None \<Rightarrow> Inr ([], f)
                | Some p \<Rightarrow> rmap (\<lambda>(v, f). ([v], f)) (add_task_config ops p f)) (\<lambda>(vs, f).
         rbind (if overrides = [] then Inr f
                else rmap (\<lambda>store. f\<lparr>f_config := set_values store (source_name f ''ctor[override]'') (f_config f)\<rparr>)
                       (parse_and_build_config_store (source_name f ''ctor[override]'') overrides
                         (Some OVERRIDE) False False)) (\<lambda>f.
         rbind (case map_of (task_param_defs td) ''task_env'' of
                  None \<Rightarrow> Inr (vs, f)
                | Some p \<Rightarrow> rmap (\<lambda>v. (vs @ [v], f\<lparr>f_task_env := Some (env_params ops (pv_value v))\<rparr>))
                              (calc_parameter_value ops f p)) (\<lambda>(vs, f).
         rbind (build_params ops f
                  (dict_values (dict_del (dict_del (task_param_defs td) ''task_config'') ''task_env''))) (\<lambda>(ws, errors).
           let vs = vs @ ws
           in raise_build_errors
                (errors @ validation_errors (mode_of vs) (unknown_config_keys f (dict_keys (task_param_defs td))))
                (vs, f))))))"

section \<open>Around the parameters\<close>

text \<open>Positional arguments become keyword arguments only if none of them is given by keyword too.\<close>

definition args_to_kwargs :: "string list \<Rightarrow> 'v list \<Rightarrow> (string, 'v) dict \<Rightarrow> 'v list \<times> (string, 'v) dict" where
  "args_to_kwargs arg_names args kwargs =
     (if args = [] then (args, kwargs)
      else (let zipped = dict_update [] (zip arg_names args)
            in if set (dict_keys zipped) \<inter> set (dict_keys kwargs) = {}
               then (drop (length zipped) args, dict_update kwargs zipped)
               else (args, kwargs)))"

text \<open>\<open>spec\<close> is the signature of a decorated function: its arguments, and whether it has \<open>*args\<close> and \<open>**kwargs\<close>.\<close>

definition validate_ctor_kwargs ::
  "(string list \<times> bool \<times> bool) option \<Rightarrow> string list \<Rightarrow> 'v list \<Rightarrow> (string, 'v) dict \<Rightarrow> (string, 'v) dict result"
where
  "validate_ctor_kwargs spec param_names args kwargs =
     (let (args, kwargs, varargs, varkwargs) = (case spec of
            None \<Rightarrow> (args, kwargs, False, False)
          | Some (arg_names, va, vk) \<Rightarrow>
              (case args_to_kwargs arg_names args kwargs of (a, k) \<Rightarrow> (a, k, va, vk)))
      in if args \<noteq> [] \<and> \<not> varargs then Inl (DatabandBuildError ''unknown args in task call'')
         else if varkwargs then Inr kwargs
         else (case filter (\<lambda>k. k \<notin> set param_names) (dict_keys kwargs) of
                 [] \<Rightarrow> Inr kwargs
               | k # _ \<Rightarrow> Inl (UnknownParameterError k)))"

definition task_children_scope_params ::
  "bool \<Rightarrow> (string, ('v, 't) parameter_value) dict \<Rightarrow> ('v, 't) parameter_value list \<Rightarrow>
   (string, ('v, 't) parameter_value) dict"
where
  "task_children_scope_params scoped_params parent_scope values =
     (if \<not> scoped_params then []
      else foldl (\<lambda>d v. dict_set d (p_name (pv_parameter v)) v) parent_scope
             (filter (\<lambda>v. p_scope_children (pv_parameter v)) values))"

text \<open>A task band holds values stored by an earlier run; \<open>result\<close> is never taken from it.\<close>

definition load_task_params_from_task_band ::
  "('v, 't) value_ops \<Rightarrow> (string, 'v) dict \<Rightarrow> ('v, 't) parameter_value list \<Rightarrow>
   ('v, 't) parameter_value list result"
where
  "load_task_params_from_task_band ops band values =
     mapM (\<lambda>v. let name = p_name (pv_parameter v) in
       if name = ''result'' then Inr v
       else (case map_of band name of
               None \<Rightarrow> Inr v
             | Some x \<Rightarrow> rmap (\<lambda>y. \<lparr>pv_parameter = pv_parameter v, pv_value = y, pv_source = Some ''task_band.json'',
                                   pv_source_value = y, pv_parsed = True, pv_warnings = []\<rparr>)
                         (calc_init_value ops (pv_parameter v) x))) values"

record parameter_filter =
  significant_only :: bool
  input_only :: bool
  output_only :: bool
  user_only :: bool
  scope_children_only :: bool

definition filter_params ::
  "parameter_filter \<Rightarrow> ('v, 't) parameter_value list \<Rightarrow> ('v, 't) parameter_value list"
where
  "filter_params pf values =
     filter (\<lambda>v. let p = pv_parameter v in
       (significant_only pf \<longrightarrow> p_significant p) \<and> (input_only pf \<longrightarrow> \<not> p_is_output p) \<and>
       (output_only pf \<longrightarrow> p_is_output p) \<and> (user_only pf \<longrightarrow> \<not> p_system p) \<and>
       (scope_children_only pf \<longrightarrow> p_scope_children p)) values"

section \<open>The chain of sections\<close>

text \<open>In a set of sections each of which takes from another one of the set, the chain never ends.\<close>

lemma from_sections_hang:
  assumes "\<forall>a \<in> S. a \<noteq> [] \<and> (\<exists>b \<in> S. from_of a = Some b \<and> b \<noteq> a)" "a \<in> S"
  shows "get_task_from_sections from_of a = None"
proof (rule ccontr)
  assume "get_task_from_sections from_of a \<noteq> None"
  then obtain out where "get_task_from_sections from_of a = Some out" by blast
  then show False
    using assms
  proof (induction from_of a out rule: get_task_from_sections.raw_induct [rotated 1, consumes 1, case_names body])
    case (body loop from_of a out)
    obtain b where b: "b \<in> S" "from_of a = Some b" "b \<noteq> a" "a \<noteq> []" "b \<noteq> []"
      using body.prems by blast
    then obtain rest where "loop from_of b = Some rest"
      using body(2) by (auto split: option.splits if_splits bind_split_asm)
    then show False using body(1) body.prems(1) b(1) by blast
  qed
qed

lemma from_sections_return:
  assumes "\<And>a b. from_of a = Some b \<Longrightarrow> a \<noteq> b \<Longrightarrow> rank b < (rank a :: nat)"
  shows "\<exists>out. get_task_from_sections from_of a = Some out \<and> distinct (a # out)"
proof -
  have "\<exists>out. get_task_from_sections from_of a = Some out \<and> (\<forall>b \<in> set out. rank b < rank a) \<and> distinct out"
  proof (induction "rank a" arbitrary: a rule: less_induct)
    case less
    show ?case
    proof (cases "\<exists>b. a \<noteq> [] \<and> from_of a = Some b \<and> b \<noteq> a \<and> b \<noteq> []")
      case True
      then obtain b where b: "a \<noteq> []" "from_of a = Some b" "b \<noteq> a" "b \<noteq> []" by blast
      then have r: "rank b < rank a" using assms by blast
      then obtain out where out: "get_task_from_sections from_of b = Some out"
        "\<forall>c \<in> set out. rank c < rank b" "distinct out" using less by blast
      have "get_task_from_sections from_of a = Some (b # out)"
        using b out(1) by (subst get_task_from_sections.simps) simp
      then show ?thesis using out(2,3) r by fastforce
    next
      case False
      then have "get_task_from_sections from_of a = Some []"
        by (subst get_task_from_sections.simps) (auto split: option.splits)
      then show ?thesis by simp
    qed
  qed
  then show ?thesis by fastforce
qed

text \<open>
  The chain of \<open>_from\<close> settings of a task is followed to its end when the sections can be ranked
  so that each takes from a lower one or from itself, and then names every section once; a circle of two or more sections is followed
  for ever, only a section that names itself is recognised.
\<close>
theorem from_chain_returns_unless_circular:
  "((\<forall>a b. from_of a = Some b \<and> a \<noteq> b \<longrightarrow> rank b < (rank a :: nat)) \<longrightarrow>
     (\<exists>out. get_task_from_sections from_of a = Some out \<and> distinct (a # out))) \<and>
   ((\<forall>c \<in> S. c \<noteq> [] \<and> (\<exists>b \<in> S. from_of c = Some b \<and> b \<noteq> c)) \<and> a \<in> S \<longrightarrow>
     get_task_from_sections from_of a = None)"
  using from_sections_return [of from_of rank a] from_sections_hang [of S from_of a] by blast

theorem from_chain_returns_unless_circular_witness:
  "get_task_from_sections [''a'' \<mapsto> ''b'', ''b'' \<mapsto> ''a''] ''a'' = None \<and>
   get_task_from_sections [''a'' \<mapsto> ''a''] ''a'' \<noteq> None"
proof -
  have "get_task_from_sections [''a'' \<mapsto> ''b'', ''b'' \<mapsto> ''a''] ''a'' = None"
    using from_chain_returns_unless_circular [of "[''a'' \<mapsto> ''b'', ''b'' \<mapsto> ''a'']" "\<lambda>_. 0" "''a''" "{''a'', ''b''}"]
    by auto
  moreover have "get_task_from_sections [''a'' \<mapsto> ''a''] ''a'' \<noteq> None"
    using from_chain_returns_unless_circular [of "[''a'' \<mapsto> ''a'']" "\<lambda>_. 0" "''a''" "{}"]
    by (auto split: if_splits)
  ultimately show ?thesis by blast
qed

section \<open>Which value a parameter gets\<close>

text \<open>
  The values set for a key, the newest layer first and within a layer in the order of the
  sections; the winner is the first one of the highest priority.
\<close>

definition candidates :: "'v layers \<Rightarrow> string list \<Rightarrow> string \<Rightarrow> 'v config_value list" where
  "candidates ls sections key =
     concat (map (\<lambda>l. concat (map (\<lambda>s. case get_config_value (delta l) s key of None \<Rightarrow> [] | Some v \<Rightarrow> [v])
       sections)) ls)"

fun winner :: "'v config_value list \<Rightarrow> 'v config_value option" where
  "winner [] = None"
| "winner (v # vs) =
     (case winner vs of None \<Rightarrow> Some v | Some w \<Rightarrow> if priority v < priority w then Some w else Some v)"

lemma winner_None [simp]: "winner vs = None \<longleftrightarrow> vs = []"
  by (cases vs) (auto split: option.splits)

lemma winner_mem: "winner vs = Some v \<Longrightarrow> v \<in> set vs"
  by (induction vs arbitrary: v) (auto split: option.splits if_splits)

lemma winner_ge: "winner vs = Some v \<Longrightarrow> u \<in> set vs \<Longrightarrow> priority u \<le> priority v"
  by (induction vs arbitrary: v) (force split: option.splits if_splits)+

lemma winner_first:
  assumes "\<forall>u \<in> set pre. priority u < priority v" "\<forall>u \<in> set post. priority u \<le> priority v"
  shows "winner (pre @ v # post) = Some v"
  using assms
proof (induction pre)
  case Nil
  then show ?case
    by (cases "winner post") (auto simp del: winner_None dest!: winner_mem simp: not_less [symmetric])
qed simp

lemma fold_stack_winner:
  assumes "\<forall>v \<in> set (w # vs). \<not> mergeable v"
  shows "foldl (\<lambda>st v. fold_config_value st (Some v)) [w] vs = [the (winner (w # vs))]"
  using assms
proof (induction vs arbitrary: w)
  case (Cons v vs)
  have "foldl (\<lambda>st v. fold_config_value st (Some v)) [w] (v # vs) =
      foldl (\<lambda>st v. fold_config_value st (Some v)) [if priority w < priority v then v else w] vs"
    using Cons.prems by (simp add: fold_config_value_def)
  also have "\<dots> = [the (winner ((if priority w < priority v then v else w) # vs))]"
    using Cons.prems by (intro Cons.IH) simp
  also have "\<dots> = [the (winner (w # v # vs))]" by (auto split: option.splits)
  finally show ?case .
qed simp

lemma fold_winner:
  assumes "\<forall>v \<in> set vs. \<not> mergeable v"
  shows "foldl (\<lambda>st v. fold_config_value st (Some v)) [] vs = (case winner vs of None \<Rightarrow> [] | Some v \<Rightarrow> [v])"
proof (cases vs)
  case (Cons w ws)
  have "foldl (\<lambda>st v. fold_config_value st (Some v)) [] vs = [the (winner (w # ws))]"
    using fold_stack_winner [of w ws] assms Cons by (simp add: fold_config_value_def)
  moreover obtain b where "winner (w # ws) = Some b" using winner_None [of "w # ws"] by blast
  ultimately show ?thesis unfolding Cons by simp
qed simp

lemma scan_layer_candidates:
  "scan_layer sections key st l =
     foldl (\<lambda>st v. fold_config_value st (Some v)) st
       (concat (map (\<lambda>s. case get_config_value (delta l) s key of None \<Rightarrow> [] | Some v \<Rightarrow> [v]) sections))"
  unfolding scan_layer_def
proof (induction sections arbitrary: st)
  case (Cons s ss)
  then show ?case
    by (cases "get_config_value (delta l) s key") (simp_all add: fold_config_value_def)
qed simp

lemma scan_candidates:
  "foldl (scan_layer sections key) st ls =
     foldl (\<lambda>st v. fold_config_value st (Some v)) st (candidates ls sections key)"
  by (induction ls arbitrary: st) (simp_all add: candidates_def scan_layer_candidates)

lemma built_candidates:
  assumes "built ls" "v \<in> set (candidates ls sections key)" shows "\<not> mergeable v"
  using assms(2) built_invariant [OF assms(1)]
  by (auto simp: candidates_def split: option.splits)

lemma config_stack_winner:
  assumes "built (layers c)"
  shows "get_multisection_config_value c sections key =
    (case winner (candidates (layers c) sections key) of None \<Rightarrow> [] | Some v \<Rightarrow> [v])"
proof -
  have scan: "foldl (scan_layer sections key) [] (layers c) =
      (case winner (candidates (layers c) sections key) of None \<Rightarrow> [] | Some v \<Rightarrow> [v])"
    unfolding scan_candidates using built_candidates [OF assms] by (intro fold_winner) blast
  show ?thesis
  proof (cases "length sections = 1")
    case True
    then obtain s where s: "sections = [s]" by (cases sections) auto
    have "get_multisection_config_value c [s] key = foldl (scan_layer [s] key) [] (layers c)"
      using built_invariant [OF assms, of s key]
      by (auto simp: get_multisection_config_value_def scan_one_def split: option.splits)
    then show ?thesis using scan s by simp
  qed (simp add: get_multisection_config_value_def scan)
qed

lemma reduce_one: "reduce_stack ops p [v] = build_parameter_value ops p v"
  by (cases "build_parameter_value ops p v") (simp_all add: reduce_stack_def)

lemma parameter_order:
  assumes "built (layers (f_config f))" "p_config_path p = None"
    and "cands = candidates (layers (f_config f)) (f_sections f) (p_name p)"
  shows "calc_parameter_value ops f p =
    (case winner cands of
       Some v \<Rightarrow>
         if OVERRIDE \<le> priority v then build_parameter_value ops p v
         else (case map_of (f_kwargs f) (p_name p) of
                 Some x \<Rightarrow> build_parameter_value ops p (config_value_of x (Some (source_name f ''ctor'')))
               | None \<Rightarrow> build_parameter_value ops p v)
     | None \<Rightarrow> calc_parameter_value ops (f\<lparr>f_config := \<lparr>layers = [], initialized_with_env = False\<rparr>\<rparr>) p)"
proof -
  have stack: "get_config_value_stack f p = (case winner cands of None \<Rightarrow> [] | Some v \<Rightarrow> [v])"
    using config_stack_winner [OF assms(1)] assms(2,3)
    by (simp add: get_config_value_stack_def Let_def split: option.splits)
  show ?thesis
  proof (cases "winner cands")
    case None
    have "get_config_value_stack (f\<lparr>f_config := \<lparr>layers = [], initialized_with_env = False\<rparr>\<rparr>) p = []"
      using assms(2)
      by (simp add: get_config_value_stack_def Let_def get_multisection_config_value_def current_config_def
          get_config_value_def)
    then show ?thesis
      using None stack by (simp add: calc_parameter_value_def Let_def source_name_def cong: option.case_cong)
  next
    case (Some v)
    then show ?thesis
      using stack by (simp add: calc_parameter_value_def Let_def reduce_one split: option.splits)
  qed
qed

lemma parameter_from_config:
  assumes "built (layers (f_config f))" "p_config_path p = None"
    and "candidates (layers (f_config f)) (f_sections f) (p_name p) = pre @ v # post"
    and "\<forall>u \<in> set pre. priority u < priority v" "\<forall>u \<in> set post. priority u \<le> priority v"
  shows "calc_parameter_value ops f p =
    (case (if OVERRIDE \<le> priority v then None else map_of (f_kwargs f) (p_name p)) of
       Some x \<Rightarrow> build_parameter_value ops p (config_value_of x (Some (source_name f ''ctor'')))
     | None \<Rightarrow> build_parameter_value ops p v)"
  using parameter_order [OF assms(1,2) assms(3) [symmetric]] winner_first [OF assms(4,5)]
  by (simp split: option.splits)

lemma parameter_without_config:
  assumes "built (layers (f_config f))" "p_config_path p = None"
    and "candidates (layers (f_config f)) (f_sections f) (p_name p) = []"
    and "map_of (f_kwargs f) (p_name p) = None" "map_of (f_children_scope f) (p_name p) = Some pv"
  shows "calc_parameter_value ops f p =
    build_parameter_value ops p (config_value_of (pv_value pv) (pv_source pv))"
proof -
  have "get_config_value_stack f p = []"
    using config_stack_winner [OF assms(1)] assms(2,3) by (simp add: get_config_value_stack_def Let_def)
  then show ?thesis using assms(4,5) by (simp add: calc_parameter_value_def Let_def)
qed

text \<open>
  C19. The value of a parameter without a configuration path: of the values that the layers hold
  for it in the sections of the task, newest layer and first section first, the first one of the
  highest priority counts. An override is taken before the argument of the constructor, any
  other configured value after it; only when the configuration has none is what the parent task
  hands down taken.
\<close>
theorem parameter_resolution_order:
  assumes "built (layers (f_config f))" "p_config_path p = None"
  shows "(candidates (layers (f_config f)) (f_sections f) (p_name p) = pre @ v # post \<and>
      (\<forall>u \<in> set pre. priority u < priority v) \<and> (\<forall>u \<in> set post. priority u \<le> priority v) \<longrightarrow>
      calc_parameter_value ops f p =
       (case (if OVERRIDE \<le> priority v then None else map_of (f_kwargs f) (p_name p)) of
          Some x \<Rightarrow> build_parameter_value ops p (config_value_of x (Some (source_name f ''ctor'')))
        | None \<Rightarrow> build_parameter_value ops p v)) \<and>
    (candidates (layers (f_config f)) (f_sections f) (p_name p) = [] \<and>
      map_of (f_kwargs f) (p_name p) = None \<and> map_of (f_children_scope f) (p_name p) = Some pv \<longrightarrow>
      calc_parameter_value ops f p =
        build_parameter_value ops p (config_value_of (pv_value pv) (pv_source pv)))"
  using parameter_from_config [OF assms, of pre v post ops] parameter_without_config [OF assms, of pv ops]
  by blast

text \<open>Integers as values, no type adjusts them; the configuration overrides the constructor.\<close>

definition int_ops :: "(int, unit) value_ops" where
  "int_ops = \<lparr>py_none = -1, nothing = -2, is_target = (\<lambda>_. False), truthy = (\<lambda>v. v \<noteq> 0), text_of = (\<lambda>_. []),
     runtime_value_type = (\<lambda>_ _. None), is_default_object = (\<lambda>_. False), calc_init_value = (\<lambda>_ v. Inr v),
     validate_value = (\<lambda>_ _. Inr ()), support_merge = (\<lambda>_. False), merge_values = (\<lambda>_ v _. v),
     parse_target_config = (\<lambda>_. Inr []), config_of_value = (\<lambda>_. []),
     value_of_config = (\<lambda>_. 0), env_params = (\<lambda>_. [])\<rparr>"

definition int_parameter :: "unit parameter" where
  "int_parameter = \<lparr>p_name = ''k'', p_value_type = (), p_is_output = False, p_config_path = None,
     p_significant = True, p_system = False, p_scope_children = False, p_from_task_env = False,
     p_target_config = None\<rparr>"

definition int_factory :: "int \<Rightarrow> (int, unit) factory" where
  "int_factory prio = \<lparr>f_config = set_values (one_value ''task'' ''k'' (sample_value 2 50 False)) ''top''
       (set_values (one_value ''task'' ''k'' (sample_value 1 prio False)) ''file''
         \<lparr>layers = [\<lparr>layer_name = ''empty'', merged = [], delta = []\<rparr>], initialized_with_env = False\<rparr>),
     f_sections = [''task'', ''core''], f_kwargs = [(''k'', 7)], f_children_scope = [], f_task_env = None,
     f_param_defaults = [], f_source = ''t''\<rparr>"

lemma int_factory_built: "built (layers (f_config (int_factory prio)))"
proof -
  have "plain_store (one_value ''task'' ''k'' (sample_value v p False))" for v p
    by (simp add: plain_store_def store_ok_def one_value_def sample_value_def lower_eval)
  then show ?thesis by (auto simp: int_factory_def set_values_def intro!: built.intros)
qed

theorem parameter_resolution_order_witness:
  "rmap pv_value (calc_parameter_value int_ops (int_factory 50) int_parameter) = Inr 7 \<and>
   rmap pv_value (calc_parameter_value int_ops (int_factory 100) int_parameter) = Inr 1"
proof -
  have c: "candidates (layers (f_config (int_factory 50))) (f_sections (int_factory 50)) (p_name int_parameter) =
       [] @ sample_value 2 50 False # [sample_value 1 50 False]"
    "candidates (layers (f_config (int_factory 100))) (f_sections (int_factory 100)) (p_name int_parameter) =
       [sample_value 2 50 False] @ sample_value 1 100 False # []"
    by code_simp+
  have n: "p_config_path int_parameter = None" by (simp add: int_parameter_def)
  have "rmap pv_value (calc_parameter_value int_ops (int_factory 50) int_parameter) = Inr 7"
    using parameter_resolution_order [OF int_factory_built n, of 50 "[]" "sample_value 2 50 False"
        "[sample_value 1 50 False]" int_ops undefined] c(1)
    by (simp add: sample_value_def OVERRIDE_def build_parameter_value_def int_ops_def config_value_of_def
        int_factory_def int_parameter_def Let_def)
  moreover have "rmap pv_value (calc_parameter_value int_ops (int_factory 100) int_parameter) = Inr 1"
    using parameter_resolution_order [OF int_factory_built n, of 100 "[sample_value 2 50 False]"
        "sample_value 1 100 False" "[]" int_ops undefined] c(2)
    by (simp add: sample_value_def OVERRIDE_def build_parameter_value_def int_ops_def config_value_of_def
        int_factory_def int_parameter_def Let_def)
  ultimately show ?thesis by blast
qed

end
