(* ===== verification/KubeWatcher.thy ===== *)
theory KubeWatcher
  imports PyStrings TaskStates
begin

text \<open>
  Watching the pods of a run: the event stream of \<open>DbndKubernetesJobWatcher\<close>
  (\<open>dbnd_airflow/executors/kubernetes_executor/kubernetes_watcher.py\<close>) and what the Docker plugin
  reads off a pod (\<open>dbnd_docker/kubernetes/kube_dbnd_client.py\<close>).  The watcher runs in a process of
  its own and talks to the scheduler through a queue; the Kubernetes client is the list of events
  it delivers.
\<close>

section \<open>Airflow's task states\<close>

text \<open>\<open>State.NONE\<close> is \<open>None\<close>, so a state is an option.\<close>

datatype af_state =
    AF_SUCCESS | AF_RUNNING | AF_FAILED | AF_UPSTREAM_FAILED | AF_SKIPPED | AF_UP_FOR_RETRY
  | AF_UP_FOR_RESCHEDULE | AF_QUEUED | AF_SCHEDULED | AF_SHUTDOWN | AF_REMOVED

definition AIRFLOW_TO_DBND_STATE_MAP :: "(af_state, task_run_state) dict" where
  "AIRFLOW_TO_DBND_STATE_MAP =
     [(AF_SUCCESS, SUCCESS), (AF_UP_FOR_RETRY, UP_FOR_RETRY), (AF_UP_FOR_RESCHEDULE, UP_FOR_RETRY),
      (AF_FAILED, FAILED), (AF_SHUTDOWN, FAILED), (AF_SKIPPED, SKIPPED), (AF_QUEUED, QUEUED),
      (AF_RUNNING, RUNNING), (AF_UPSTREAM_FAILED, UPSTREAM_FAILED)]"

definition dbnd_state_of :: "af_state option \<Rightarrow> task_run_state option" where
  "dbnd_state_of st = (case st of None \<Rightarrow> None | Some a \<Rightarrow> map_of AIRFLOW_TO_DBND_STATE_MAP a)"

section \<open>Pods\<close>

text \<open>What the code reads of a \<open>V1Pod\<close>: a waiting container has a reason and a message, a terminated one an exit code and a reason.\<close>

record pod_condition =
  cond_type :: string
  cond_status :: string
  cond_reason :: "string option"
  cond_message :: string

record container_status =
  cs_name :: string
  cs_image :: string
  cs_waiting :: "(string \<times> string) option"
  cs_terminated :: "(int \<times> string option) option"

record pod_data =
  pd_name :: string
  pd_labels :: "(string, string) dict option"
  pd_phase :: string
  pd_deletion_timestamp :: "string option"
  pd_resource_version :: string
  pd_node_name :: "string option"
  pd_conditions :: "pod_condition list"
  pd_container_statuses :: "container_status list"

text \<open>The settings of the engine; \<open>capacity_check\<close> compares a request with the nodes of the cluster.\<close>

record pod_config =
  check_unschedulable_condition :: bool
  check_cluster_resource_capacity :: bool
  check_image_pull_errors :: bool
  check_running_pod_errors :: bool
  keep_finished_pods :: bool
  keep_failed_pods :: bool
  retry_counts :: "(string, int) dict"
  capacity_check :: "string \<Rightarrow> unit result"

definition check_condition :: "pod_config \<Rightarrow> unit \<Rightarrow> pod_condition \<Rightarrow> unit result" where
  "check_condition cfg u c =
     (if cond_reason c \<noteq> Some ''Unschedulable'' then Inr ()
      else if contains ''Insufficient cpu'' (cond_message c) \<or> contains ''Insufficient memory'' (cond_message c)
      then (if check_cluster_resource_capacity cfg then capacity_check cfg (cond_message c) else Inr ())
      else Inl (DatabandConfigError (cond_message c)))"

definition check_deploy_errors :: "pod_config \<Rightarrow> pod_data \<Rightarrow> unit result" where
  "check_deploy_errors cfg pod =
     rbind (if check_unschedulable_condition cfg then foldM (check_condition cfg) () (pd_conditions pod) else Inr ())
       (\<lambda>_. case pd_container_statuses pod of
              [] \<Rightarrow> Inr ()
            | c # _ \<Rightarrow>
                (case (if check_image_pull_errors cfg \<and> pd_phase pod = ''Pending'' then cs_waiting c else None) of
                   None \<Rightarrow> Inr ()
                 | Some (reason, msg) \<Rightarrow>
                     if reason = ''ErrImagePull'' then Inl (KubernetesImageNotFoundError (cs_image c))
                     else if reason = ''CreateContainerConfigError'' then Inl (KubernetesPodConfigFailure msg)
                     else Inr ()))"

fun check_ready :: "string \<Rightarrow> pod_condition list \<Rightarrow> bool result" where
  "check_ready name [] = Inr False"
| "check_ready name (c # cs) =
     (if cond_type c \<noteq> ''Ready'' then check_ready name cs
      else if cond_status c = [] \<or> cond_status c = ''False'' then Inl (KubernetesRunningPodConditionFailure name)
      else Inr True)"

definition check_running_errors :: "pod_config \<Rightarrow> pod_data \<Rightarrow> bool result" where
  "check_running_errors cfg pod =
     (if \<not> check_running_pod_errors cfg then Inr False else check_ready (pd_name pod) (pd_conditions pod))"

text \<open>The last terminated container, or the first one named \<open>base\<close>.\<close>

fun terminated_container ::
  "container_status list \<Rightarrow> (int \<times> string option) option \<Rightarrow> (int \<times> string option) option" where
  "terminated_container [] found = found"
| "terminated_container (c # cs) found =
     (case cs_terminated c of
        None \<Rightarrow> terminated_container cs found
      | Some t \<Rightarrow> if cs_name c = ''base'' then Some t else terminated_container cs (Some t))"

definition try_get_pod_exit_code :: "pod_data \<Rightarrow> (int \<times> string option) option" where
  "try_get_pod_exit_code pod = terminated_container (pd_container_statuses pod) None"

section \<open>The events of the watcher\<close>

text \<open>A field of an event holds whatever was put at its position.\<close>

datatype watch_field =
    FNone | FState af_state | FLabels "(string, string) dict" | FVersion string

record watcher_pod_event =
  ev_pod_id :: string
  ev_namespace :: string
  ev_state :: watch_field
  ev_labels :: watch_field
  ev_resource_version :: watch_field

type_synonym event_tuple = "string \<times> string \<times> af_state option \<times> watch_field \<times> watch_field"

definition as_tuple_with_state :: "watcher_pod_event \<Rightarrow> af_state option \<Rightarrow> event_tuple" where
  "as_tuple_with_state ev st = (ev_pod_id ev, ev_namespace ev, st, ev_labels ev, ev_resource_version ev)"

definition from_watcher_task :: "event_tuple \<Rightarrow> watcher_pod_event" where
  "from_watcher_task t =
     (case t of (pod_id, namespace, st, labels, version) \<Rightarrow>
        \<lparr>ev_pod_id = pod_id, ev_namespace = namespace, ev_state = (case st of None \<Rightarrow> FNone | Some s \<Rightarrow> FState s),
         ev_labels = labels, ev_resource_version = version\<rparr>)"

record k8s_event =
  ke_type :: string
  ke_object :: pod_data
  ke_code :: int

text \<open>
  \<open>WatcherPodEvent(pod_id, namespace, labels, resource_version)\<close> is a call by position: the labels
  become the state, the version becomes the labels, and the version stays \<open>None\<close>.
\<close>

definition event_of_pod :: "string \<Rightarrow> pod_data \<Rightarrow> (string, string) dict \<Rightarrow> watcher_pod_event" where
  "event_of_pod namespace pod labels =
     \<lparr>ev_pod_id = pd_name pod, ev_namespace = namespace, ev_state = FLabels labels,
      ev_labels = FVersion (pd_resource_version pod), ev_resource_version = FNone\<rparr>"

text \<open>The state that an event reports, \<open>None\<close> if it reports nothing.\<close>

definition event_state :: "pod_config \<Rightarrow> k8s_event \<Rightarrow> af_state option option" where
  "event_state cfg ev =
     (let pod = ke_object ev; phase = pd_phase pod
      in if ke_type ev = ''DELETED'' \<and> phase \<notin> {''Succeeded'', ''Failed''} then Some (Some AF_FAILED)
         else if pd_deletion_timestamp pod \<noteq> None then Some (Some AF_FAILED)
         else if phase = ''Pending'' then
           (case check_deploy_errors cfg pod of Inr _ \<Rightarrow> None | Inl e \<Rightarrow> Some (Some AF_FAILED))
         else if phase = ''Running'' then
           (case check_running_errors cfg pod of Inr _ \<Rightarrow> Some (Some AF_RUNNING) | Inl e \<Rightarrow> Some (Some AF_FAILED))
         else if phase = ''Failed'' then Some (Some AF_FAILED)
         else if phase = ''Succeeded'' then Some None
         else None)"

definition extended_process_state ::
  "pod_config \<Rightarrow> string \<Rightarrow> k8s_event \<Rightarrow> event_tuple list \<Rightarrow> unit result \<times> event_tuple list" where
  "extended_process_state cfg namespace ev queue =
     (case pd_labels (ke_object ev) of
        None \<Rightarrow> (Inl (AttributeError ''get''), queue)
      | Some labels \<Rightarrow>
          (Inr (), case event_state cfg ev of
                     None \<Rightarrow> queue
                   | Some st \<Rightarrow> queue @ [as_tuple_with_state (event_of_pod namespace (ke_object ev) labels) st]))"

definition process_error :: "k8s_event \<Rightarrow> string result" where
  "process_error ev =
     (if ke_code ev = 410 then Inr ''0'' else Inl (DatabandRuntimeError ''Kubernetes failure''))"

record watcher =
  w_resource_version :: string
  w_queue :: "event_tuple list"

text \<open>
  One stream: every exception of an event is logged and the next event is taken. The version is
  given when the watch returns before the stream ends.
\<close>

fun run_stream :: "pod_config \<Rightarrow> string \<Rightarrow> k8s_event list \<Rightarrow> watcher \<Rightarrow> string option \<times> watcher" where
  "run_stream cfg namespace [] w = (None, w)"
| "run_stream cfg namespace (ev # evs) w =
     (if ke_type ev = ''ERROR'' then
        (case process_error ev of
           Inr v \<Rightarrow> (Some v, w)
         | Inl e \<Rightarrow> run_stream cfg namespace evs w)
      else
        (case extended_process_state cfg namespace ev (w_queue w) of
           (Inr _, q) \<Rightarrow>
             run_stream cfg namespace evs
               (w\<lparr>w_queue := q, w_resource_version := pd_resource_version (ke_object ev)\<rparr>)
         | (Inl e, q) \<Rightarrow> run_stream cfg namespace evs (w\<lparr>w_queue := q\<rparr>)))"

text \<open>How a stream ends: the server closes it, the watcher is terminated, or the client raises.\<close>

datatype stream_end = Closed | SigTerm | Raised py_error

text \<open>The loop of \<open>run\<close> over the streams so far: still watching, or the watcher has ended.\<close>

datatype watch_result = Watching | Stopped | Died py_error

fun watcher_run ::
  "pod_config \<Rightarrow> string \<Rightarrow> (k8s_event list \<times> stream_end) list \<Rightarrow> watcher \<Rightarrow> watch_result \<times> watcher" where
  "watcher_run cfg namespace [] w = (Watching, w)"
| "watcher_run cfg namespace ((evs, how) # streams) w =
     (case run_stream cfg namespace evs w of
        (Some version, w') \<Rightarrow> watcher_run cfg namespace streams (w'\<lparr>w_resource_version := version\<rparr>)
      | (None, w') \<Rightarrow>
          (case how of
             Closed \<Rightarrow> watcher_run cfg namespace streams w'
           | SigTerm \<Rightarrow> (Stopped, w')
           | Raised e \<Rightarrow> (Died e, w')))"

text \<open>Up to ten times \<open>terminate\<close>, then \<open>kill\<close>; \<open>alive n\<close> says whether the process lives after \<open>n\<close> signals.\<close>

fun terminate_loop :: "(nat \<Rightarrow> bool) \<Rightarrow> nat \<Rightarrow> nat \<Rightarrow> nat \<times> bool" where
  "terminate_loop alive sent 0 = (sent, True)"
| "terminate_loop alive sent (Suc n) =
     (if \<not> alive (Suc sent) then (Suc sent, False) else terminate_loop alive (Suc sent) n)"

definition safe_terminate :: "(nat \<Rightarrow> bool) \<Rightarrow> nat \<times> bool" where
  "safe_terminate alive = (if alive 0 then terminate_loop alive 0 10 else (0, False))"

section \<open>What the scheduler gets to see\<close>

text \<open>The watch ends before the first error 410 of the stream.\<close>

definition gone :: "k8s_event \<Rightarrow> bool" where
  "gone ev = (ke_type ev = ''ERROR'' \<and> ke_code ev = 410)"

definition reported_one :: "pod_config \<Rightarrow> string \<Rightarrow> k8s_event \<Rightarrow> event_tuple list" where
  "reported_one cfg namespace ev =
     (if ke_type ev = ''ERROR'' \<or> pd_labels (ke_object ev) = None then []
      else (case event_state cfg ev of
              None \<Rightarrow> []
            | Some st \<Rightarrow> [(pd_name (ke_object ev), namespace, st, FVersion (pd_resource_version (ke_object ev)), FNone)]))"

abbreviation reported :: "pod_config \<Rightarrow> string \<Rightarrow> k8s_event list \<Rightarrow> event_tuple list" where
  "reported cfg namespace evs \<equiv> concat (map (reported_one cfg namespace) evs)"

lemma extended_process_state_queue:
  "ke_type ev \<noteq> ''ERROR'' \<Longrightarrow> snd (extended_process_state cfg namespace ev q) = q @ reported_one cfg namespace ev"
  by (auto simp: extended_process_state_def reported_one_def as_tuple_with_state_def event_of_pod_def split: option.splits)

lemma run_stream_queue:
  "w_queue (snd (run_stream cfg namespace evs w)) = w_queue w @ reported cfg namespace (takeWhile (\<lambda>ev. \<not> gone ev) evs)"
proof (induction evs arbitrary: w)
  case (Cons ev evs)
  show ?case
  proof (cases "ke_type ev = ''ERROR''")
    case True
    then show ?thesis using Cons by (simp add: gone_def process_error_def reported_one_def)
  next
    case False
    obtain r q where rq: "extended_process_state cfg namespace ev (w_queue w) = (r, q)" by force
    then have "q = w_queue w @ reported_one cfg namespace ev"
      using extended_process_state_queue [OF False, of cfg namespace "w_queue w"] by simp
    then show ?thesis using False rq Cons by (cases r) (simp_all add: gone_def)
  qed
qed simp

text \<open>
  The queue of the scheduler receives, in the order of the stream, exactly one entry for every
  event that reports something, up to the first answer that the version is too old; no other error
  of the server ends the watch. The entries hold the version of the pod in place of its labels.
\<close>
theorem watcher_queue_follows_the_stream:
  "w_queue (snd (run_stream cfg namespace evs w)) =
     w_queue w @ reported cfg namespace (takeWhile (\<lambda>ev. \<not> gone ev) evs) \<and>
   fst (run_stream cfg namespace evs w) = (if list_ex gone evs then Some ''0'' else None)"
proof
  show "fst (run_stream cfg namespace evs w) = (if list_ex gone evs then Some ''0'' else None)"
    by (induction evs arbitrary: w)
      (auto simp: gone_def process_error_def split: prod.splits sum.splits)
qed (rule run_stream_queue)

text \<open>A pod that ends is always reported.\<close>

lemma finished_pod_is_reported:
  "pd_phase (ke_object ev) \<in> {''Failed'', ''Succeeded''} \<or> ke_type ev = ''DELETED'' \<or>
     pd_deletion_timestamp (ke_object ev) \<noteq> None \<Longrightarrow>
   \<exists>st. event_state cfg ev = Some st \<and> st \<noteq> Some AF_RUNNING"
  by (auto simp: event_state_def Let_def)

lemma safe_terminate_kills:
  "snd (safe_terminate alive) \<longleftrightarrow> (\<forall>n \<le> 10. alive n)"
proof -
  have loop: "snd (terminate_loop alive k n) \<longleftrightarrow> (\<forall>i. k < i \<and> i \<le> k + n \<longrightarrow> alive i)" for k n
  proof (induction n arbitrary: k)
    case (Suc n)
    then show ?case
      by (auto simp: Suc_le_eq) (metis Suc_lessI add_Suc_right add_Suc_shift less_add_Suc1)
  qed auto
  show ?thesis
    using loop [of 0 10] by (auto simp: safe_terminate_def) (metis gr0I)+
qed

end
