(* ===== verification/PodNames.thy ===== *)
theory PodNames
  imports PyStrings
begin

text \<open>
  Names and texts with a limit: \<open>clean_job_name\<close>, \<open>safe_short_string\<close> and the merge of two logs of
  \<open>_core/utils/string_utils.py\<close>, and the names of Kubernetes pods and labels that the Docker plugin
  makes from them (\<open>dbnd_docker/kubernetes/dns1123_clean_names.py\<close>, \<open>get_pod_name\<close> of
  \<open>kubernetes_engine_config.py\<close>).  Regular expressions are written out; a character class built
  from \<open>re.escape\<close> is the set of the escaped characters.  The lemmas show that a cleaned name obeys
  DNS-1123 and its length, and where the limit is passed all the same.
\<close>

section \<open>Characters\<close>

definition is_upper :: "char \<Rightarrow> bool" where
  "is_upper c = (65 \<le> (of_char c :: nat) \<and> (of_char c :: nat) \<le> 90)"

definition is_lower :: "char \<Rightarrow> bool" where
  "is_lower c = (97 \<le> (of_char c :: nat) \<and> (of_char c :: nat) \<le> 122)"

definition is_alnum :: "char \<Rightarrow> bool" where
  "is_alnum c = (is_digit c \<or> is_lower c \<or> is_upper c)"

text \<open>The characters that \<open>re.escape\<close> puts a backslash before.\<close>

definition re_special :: "char \<Rightarrow> bool" where
  "re_special c = (c \<in> set ''()[]{}?*+-|^$.&~# '' \<or> c = CHR 0x5C \<or> is_space c)"

definition re_escape :: "string \<Rightarrow> string" where
  "re_escape s = concat (map (\<lambda>c. if re_special c then [CHR 0x5C, c] else [c]) s)"

section \<open>Cleaning a name\<close>

definition camel_to_snake :: "string \<Rightarrow> string \<Rightarrow> string" where
  "camel_to_snake placeholder name =
     (case name of
        [] \<Rightarrow> []
      | c # cs \<Rightarrow> lower_char c #
          concat (map (\<lambda>c. if is_upper c then placeholder @ [lower_char c] else [c]) cs))"

text \<open>Of every run of the given characters the first one stays; in the second pattern the last one.\<close>

fun keep_first :: "char set \<Rightarrow> bool \<Rightarrow> string \<Rightarrow> string" where
  "keep_first E inside [] = []"
| "keep_first E inside (c # cs) =
     (if c \<in> E then (if inside then keep_first E True cs else c # keep_first E True cs)
      else c # keep_first E False cs)"

definition keep_last :: "char set \<Rightarrow> string \<Rightarrow> string" where
  "keep_last E s = rev (keep_first E False (rev s))"

text \<open>\<open>s[:n]\<close>; a negative bound counts from the end.\<close>

definition slice_to :: "int \<Rightarrow> 'a list \<Rightarrow> 'a list" where
  "slice_to n s = (if 0 \<le> n then take (nat n) s else take (length s - nat (- n)) s)"

definition clean_characters :: "string \<Rightarrow> string \<Rightarrow> string \<Rightarrow> string" where
  "clean_characters enabled placeholder value =
     keep_first (set enabled) False
       (concat (map (\<lambda>c. if is_lower c \<or> is_digit c \<or> c \<in> set enabled then [c] else placeholder)
         (camel_to_snake placeholder value)))"

text \<open>The postfix is cleaned with characters that were escaped already.\<close>

definition clean_job_name ::
  "string \<Rightarrow> string \<Rightarrow> string \<Rightarrow> int option \<Rightarrow> string option \<Rightarrow> string"
where
  "clean_job_name value enabled placeholder max_size postfix =
     (let p = (case postfix of None \<Rightarrow> [] | Some s \<Rightarrow> s);
          cleaned = clean_characters enabled placeholder value;
          cut = (case max_size of
                   None \<Rightarrow> cleaned
                 | Some n \<Rightarrow> if n = 0 then cleaned else slice_to (n - int (length p)) cleaned)
      in if p = [] then cut
         else keep_last (set enabled) (cut @ clean_characters (re_escape enabled) placeholder p))"

definition strip_by :: "(char \<Rightarrow> bool) \<Rightarrow> string \<Rightarrow> string" where
  "strip_by f s = rev (dropWhile f (rev (dropWhile f s)))"

definition clean_name_dns1123 :: "string \<Rightarrow> int \<Rightarrow> string option \<Rightarrow> string" where
  "clean_name_dns1123 value max_size postfix =
     strip_by (\<lambda>c. \<not> is_alnum c) (clean_job_name value ''-.'' ''-'' (Some max_size) postfix)"

definition clean_label_name_dns1123 :: "string \<Rightarrow> string option \<Rightarrow> string" where
  "clean_label_name_dns1123 value postfix = clean_name_dns1123 value 63 postfix"

definition clean_subdomain_name_dns1123 :: "string \<Rightarrow> string option \<Rightarrow> string" where
  "clean_subdomain_name_dns1123 value postfix = clean_name_dns1123 value 253 postfix"

definition create_pod_id :: "string \<Rightarrow> string \<Rightarrow> string \<Rightarrow> string" where
  "create_pod_id task_family task_name task_run_uid =
     clean_subdomain_name_dns1123 (''dbnd.'' @ task_family @ ''.'' @ task_name)
       (Some (''.'' @ take 8 task_run_uid))"

definition get_pod_name :: "string \<Rightarrow> string \<Rightarrow> string \<Rightarrow> int option \<Rightarrow> string" where
  "get_pod_name task_family task_name task_run_uid try_number =
     (let pod_name = create_pod_id task_family task_name task_run_uid
      in case try_number of None \<Rightarrow> pod_name | Some n \<Rightarrow> pod_name @ ''-'' @ int_str n)"

section \<open>Other texts\<close>

definition safe_short_string :: "string option \<Rightarrow> int \<Rightarrow> bool \<Rightarrow> string option" where
  "safe_short_string value max_value_len tail =
     (case value of
        None \<Rightarrow> None
      | Some s \<Rightarrow>
          let n = int (length s);
              placeholder = ''... ('' @ int_str max_value_len @ '' of '' @ int_str n @ '')'';
              actual_len = max 0 (max_value_len - int (length placeholder))
          in if s = [] \<or> n \<le> max_value_len then Some s
             else if tail
             then Some (''('' @ int_str actual_len @ '' of '' @ int_str n @ '') ...'' @ drop (length s - nat actual_len) s)
             else Some (take (nat actual_len) s @ ''... ('' @ int_str actual_len @ '' of '' @ int_str n @ '')''))"

definition pluralize :: "string \<Rightarrow> int \<Rightarrow> string option \<Rightarrow> string" where
  "pluralize s n plural_form =
     (if n = 1 then s else case plural_form of None \<Rightarrow> s @ ''s'' | Some p \<Rightarrow> if p = [] then s @ ''s'' else p)"

definition is_task_name_driver :: "string \<Rightarrow> bool" where
  "is_task_name_driver task_name = contains ''dbnd_driver'' task_name"

text \<open>The time stamp at the beginning of a line of a databand log.\<close>

fun match_prefix :: "(char \<Rightarrow> bool) list \<Rightarrow> string \<Rightarrow> bool" where
  "match_prefix [] s = True"
| "match_prefix (p # ps) [] = False"
| "match_prefix (p # ps) (c # cs) = (p c \<and> match_prefix ps cs)"

definition dbnd_logs_regex :: "(char \<Rightarrow> bool) list" where
  "dbnd_logs_regex =
     concat [[(=) (CHR ''['')], replicate 4 is_digit, [(=) (CHR ''-'')], replicate 2 is_digit, [(=) (CHR ''-'')],
             replicate 2 is_digit, [is_space], replicate 2 is_digit, [(=) (CHR '':'')], replicate 2 is_digit,
             [(=) (CHR '':'')], replicate 2 is_digit, [(=) (CHR '','')], replicate 3 is_digit, [(=) (CHR '']'')]]"

fun str_less :: "string \<Rightarrow> string \<Rightarrow> bool" where
  "str_less s [] = False"
| "str_less [] (c # cs) = True"
| "str_less (a # as) (c # cs) =
     ((of_char a :: nat) < of_char c \<or> (a = c \<and> str_less as cs))"

fun merge_dbnd_and_spark_logs :: "string list \<Rightarrow> string list \<Rightarrow> string list" where
  "merge_dbnd_and_spark_logs [] spark = spark"
| "merge_dbnd_and_spark_logs dbnd [] = dbnd"
| "merge_dbnd_and_spark_logs (d # dbnd) (s # spark) =
     (if starts_with d ''['' \<and> match_prefix dbnd_logs_regex d \<and> \<not> str_less d s
      then s # merge_dbnd_and_spark_logs (d # dbnd) spark
      else d # merge_dbnd_and_spark_logs dbnd (s # spark))"

section \<open>Runs of separators\<close>

abbreviation no_double :: "char set \<Rightarrow> string \<Rightarrow> bool" where
  "no_double E \<equiv> successively (\<lambda>a b. \<not> (a \<in> E \<and> b \<in> E))"

lemma keep_first_set: "set (keep_first E b s) \<subseteq> set s"
  by (induction E b s rule: keep_first.induct) auto

lemma keep_first_length: "length (keep_first E b s) \<le> length s"
  by (induction E b s rule: keep_first.induct) auto

lemma keep_first_no_double:
  "no_double E (keep_first E b s) \<and> (b \<and> keep_first E b s \<noteq> [] \<longrightarrow> hd (keep_first E b s) \<notin> E)"
  by (induction E b s rule: keep_first.induct) (auto simp: successively_Cons)

lemma keep_first_snoc: "c \<notin> E \<Longrightarrow> keep_first E b (s @ [c]) = keep_first E b s @ [c]"
  by (induction E b s rule: keep_first.induct) auto

lemma keep_last_set: "set (keep_last E s) \<subseteq> set s"
  using keep_first_set [of E False "rev s"] by (simp add: keep_last_def)

lemma keep_last_length: "length (keep_last E s) \<le> length s"
  using keep_first_length [of E False "rev s"] by (simp add: keep_last_def)

lemma keep_last_no_double: "no_double E (keep_last E s)"
proof -
  have "(\<lambda>a b. \<not> (b \<in> E \<and> a \<in> E)) = (\<lambda>a b. \<not> (a \<in> E \<and> b \<in> E))" by (auto simp: fun_eq_iff)
  then show ?thesis
    using keep_first_no_double [of E False "rev s"] by (simp only: keep_last_def successively_rev)
qed

lemma keep_last_Cons: "c \<notin> E \<Longrightarrow> keep_last E (c # s) = c # keep_last E s"
  by (simp add: keep_last_def keep_first_snoc)

lemma slice_to_take: "\<exists>k. slice_to n s = take k s \<and> (0 \<le> n \<longrightarrow> k = nat n)"
  by (auto simp: slice_to_def)

lemma no_double_append: "no_double E (a @ b) \<Longrightarrow> no_double E a \<and> no_double E b"
  by (simp add: successively_append_iff)

lemma no_double_take: "no_double E s \<Longrightarrow> no_double E (take k s)"
  using no_double_append [of E "take k s" "drop k s"] by simp

lemma strip_by_infix: "\<exists>a b. s = a @ strip_by f s @ b"
proof -
  let ?t = "dropWhile f s"
  have "rev ?t = takeWhile f (rev ?t) @ dropWhile f (rev ?t)" by simp
  then have "?t = rev (dropWhile f (rev ?t)) @ rev (takeWhile f (rev ?t))" by (metis rev_append rev_rev_ident)
  then have "s = takeWhile f s @ strip_by f s @ rev (takeWhile f (rev ?t))"
    unfolding strip_by_def by (metis takeWhile_dropWhile_id)
  then show ?thesis by blast
qed

lemma strip_by_ends:
  assumes "strip_by f s \<noteq> []"
  shows "\<not> f (hd (strip_by f s))" "\<not> f (last (strip_by f s))"
proof -
  let ?t = "dropWhile f s"
  have t: "?t \<noteq> []" using assms unfolding strip_by_def by (metis dropWhile.simps(1) rev.simps(1))
  have "\<not> f (hd (dropWhile f (rev ?t)))" using assms by (intro hd_dropWhile) (auto simp: strip_by_def dest: set_dropWhileD)
  then show "\<not> f (last (strip_by f s))" using assms by (simp add: strip_by_def last_rev)
  have "rev (dropWhile f (rev ?t)) \<noteq> []" using assms by (simp add: strip_by_def)
  moreover have "?t = rev (dropWhile f (rev ?t)) @ rev (takeWhile f (rev ?t))"
    by (metis rev_append rev_rev_ident takeWhile_dropWhile_id)
  ultimately have "hd (strip_by f s) = hd ?t" unfolding strip_by_def by (metis hd_append2)
  then show "\<not> f (hd (strip_by f s))" using hd_dropWhile [OF t] by simp
qed

lemma strip_by_Cons: "\<not> f c \<Longrightarrow> strip_by f (c # s) = c # rev (dropWhile f (rev s))"
  unfolding strip_by_def by (simp del: dropWhile_append add: dropWhile_append3)

section \<open>DNS-1123\<close>

text \<open>
  A label consists of lower-case letters, digits and inner dashes; a subdomain name is a sequence
  of such labels joined by dots.
\<close>

definition dns_alnum :: "char \<Rightarrow> bool" where
  "dns_alnum c = (is_lower c \<or> is_digit c)"

definition dns1123_label :: "string \<Rightarrow> bool" where
  "dns1123_label l = (l \<noteq> [] \<and> list_all (\<lambda>c. dns_alnum c \<or> c = CHR ''-'') l \<and>
     dns_alnum (hd l) \<and> dns_alnum (last l))"

definition dns1123_subdomain :: "string \<Rightarrow> bool" where
  "dns1123_subdomain s = list_all dns1123_label (split_on (CHR ''.'') s)"

definition separators :: "char set" where
  "separators = {CHR ''-'', CHR ''.''}"

lemma separators_eq: "set ''-.'' = separators" "set (re_escape ''-.'') = insert (CHR 0x5C) separators"
  by (auto simp: re_escape_def re_special_def separators_def)

lemma sep_not_alnum: "dns_alnum c \<Longrightarrow> c \<notin> insert (CHR 0x5C) separators"
  by (auto simp: dns_alnum_def is_lower_def is_digit_def separators_def)

lemma upper_lower: "is_upper c \<Longrightarrow> is_lower (lower_char c)"
  by (auto simp: is_upper_def is_lower_def lower_char_def)

lemma lower_char_other: "\<not> is_upper c \<Longrightarrow> lower_char c = c"
  by (auto simp: is_upper_def lower_char_def)

text \<open>Without separators side by side and at the ends, cutting at the dots gives labels.\<close>

lemma pieces_are_labels:
  assumes "s \<noteq> []" "\<forall>c \<in> set s. dns_alnum c \<or> c \<in> separators" "no_double separators s"
    and "dns_alnum (hd s)" "dns_alnum (last s)"
  shows "list_all dns1123_label (split_on (CHR ''.'') s)"
  using assms
proof (induction "length s" arbitrary: s rule: less_induct)
  case less
  let ?p = "takeWhile (\<lambda>c. c \<noteq> CHR ''.'') s" and ?r = "dropWhile (\<lambda>c. c \<noteq> CHR ''.'') s"
  have split: "s = ?p @ ?r" by simp
  have nodot: "CHR ''.'' \<notin> set ?p" by (auto dest: set_takeWhileD)
  have hd: "hd s \<noteq> CHR ''.''" using less.prems(4) sep_not_alnum by (auto simp: separators_def)
  have p: "?p \<noteq> []" "hd ?p = hd s" using hd less.prems(1) by (cases s; simp)+
  have chars: "list_all (\<lambda>c. dns_alnum c \<or> c = CHR ''-'') ?p"
    using less.prems(2) by (auto simp: list_all_iff separators_def dest: set_takeWhileD)
  show ?case
  proof (cases ?r)
    case Nil
    then have sp: "?p = s" using split by (metis append_Nil2)
    have "split_on (CHR ''.'') s = [s]" by (rule split_on_join [OF nodot [unfolded sp]])
    moreover have "dns1123_label s" using less.prems(1,4,5) chars unfolding sp dns1123_label_def by blast
    ultimately show ?thesis by simp
  next
    case (Cons d r)
    have d: "d = CHR ''.''" using hd_dropWhile [of "\<lambda>c. c \<noteq> CHR ''.''" s] Cons by simp
    have s: "s = ?p @ CHR ''.'' # r" using split Cons d by simp
    have nd: "no_double separators (?p @ CHR ''.'' # r)" using less.prems(3) s by simp
    have r: "r \<noteq> []"
    proof
      assume "r = []"
      then have "last s = CHR ''.''" using s by (metis last_snoc)
      then show False using less.prems(5) sep_not_alnum by (auto simp: separators_def)
    qed
    have last: "last r = last s" using s r by (metis last_ConsR last_appendR list.distinct(1))
    have "\<not> (last ?p \<in> separators)" "\<not> (hd r \<in> separators)"
      using nd p(1) r by (auto simp: successively_append_iff successively_Cons separators_def)
    moreover have "last ?p \<in> set s" "hd r \<in> set s"
      using p(1) r s by (metis UnCI last_in_set set_append, metis UnCI hd_in_set list.set_intros(2) set_append)
    ultimately have ends: "dns_alnum (last ?p)" "dns_alnum (hd r)" using less.prems(2) by blast+
    have label: "dns1123_label ?p" using p chars ends(1) less.prems(4) by (simp add: dns1123_label_def)
    have "list_all dns1123_label (split_on (CHR ''.'') r)"
    proof (rule less.hyps)
      show "length r < length s" using s by (metis length_append length_Cons less_add_Suc2 add.commute add_Suc_right)
      show "\<forall>c \<in> set r. dns_alnum c \<or> c \<in> separators"
        using less.prems(2) s by (metis UnCI list.set_intros(2) set_append)
      show "no_double separators r" using nd r by (auto simp: successively_append_iff successively_Cons)
      show "dns_alnum (last r)" using last less.prems(5) by simp
    qed (use r ends in auto)
    moreover have "split_on (CHR ''.'') s = ?p # split_on (CHR ''.'') r"
      using s split_on_append_sep [OF nodot, of r] by simp
    ultimately show ?thesis using label by simp
  qed
qed

section \<open>The names are valid\<close>

lemma clean_characters_no_double: "no_double (set E) (clean_characters E ph v)"
  using keep_first_no_double [of "set E" False] by (simp add: clean_characters_def)

lemma clean_characters_chars:
  assumes "c \<in> set (clean_characters E ph v)"
  shows "is_lower c \<or> is_digit c \<or> c \<in> set E \<and> c \<in> set (camel_to_snake ph v) \<or> c \<in> set ph"
  using assms keep_first_set [of "set E" False] unfolding clean_characters_def
  by (fastforce split: if_splits)

lemma camel_chars: "c \<in> set (camel_to_snake ph v) \<Longrightarrow> c \<in> set v \<or> c \<in> set ph \<or> is_lower c"
  by (auto simp: camel_to_snake_def lower_char_other upper_lower split: list.splits if_splits)
    (metis lower_char_other upper_lower)

lemma camel_no_upper: "\<forall>c \<in> set v. \<not> is_upper c \<Longrightarrow> camel_to_snake ph v = v"
proof -
  have "\<forall>c \<in> set cs. \<not> is_upper c \<Longrightarrow> concat (map (\<lambda>c. if is_upper c then ph @ [lower_char c] else [c]) cs) = cs" for cs
    by (induction cs) auto
  then show "\<forall>c \<in> set v. \<not> is_upper c \<Longrightarrow> camel_to_snake ph v = v"
    by (auto simp: camel_to_snake_def lower_char_other split: list.splits)
qed

lemma clean_characters_length:
  assumes "\<forall>c \<in> set v. \<not> is_upper c" "length ph = 1"
  shows "length (clean_characters E ph v) \<le> length v"
proof -
  let ?f = "\<lambda>c. if is_lower c \<or> is_digit c \<or> c \<in> set E then [c] else ph"
  have "length (concat (map ?f v)) = length v" using assms(2) by (induction v) auto
  then show ?thesis
    using keep_first_length [of "set E" False "concat (map ?f v)"] camel_no_upper [OF assms(1)]
    by (simp add: clean_characters_def)
qed

text \<open>The postfix may hold anything but backslashes and capitals, which its cleaning mishandles.\<close>

definition plain_postfix :: "string \<Rightarrow> bool" where
  "plain_postfix p = (\<forall>c \<in> set p. \<not> is_upper c \<and> c \<noteq> CHR 0x5C)"

lemma clean_postfix_chars:
  assumes "plain_postfix p" "c \<in> set (clean_characters (re_escape ''-.'') ''-'' p)"
  shows "dns_alnum c \<or> c \<in> separators"
  using clean_characters_chars [OF assms(2)] camel_chars [of c "''-''" p] assms(1)
  by (auto simp: separators_eq(2) separators_def plain_postfix_def dns_alnum_def is_lower_def)

lemma cut_chars:
  assumes "c \<in> set (slice_to n (clean_characters ''-.'' ''-'' v))"
  shows "dns_alnum c \<or> c \<in> separators"
proof -
  obtain k where "slice_to n (clean_characters ''-.'' ''-'' v) = take k (clean_characters ''-.'' ''-'' v)"
    using slice_to_take by blast
  then have "c \<in> set (clean_characters ''-.'' ''-'' v)" using assms in_set_takeD by metis
  then show ?thesis using clean_characters_chars [of c "''-.''" "''-''" v] by (auto simp: dns_alnum_def separators_def)
qed

lemma clean_job_name_facts:
  assumes "plain_postfix p" "int (length p) \<le> n" "0 < n"
    and "x = clean_job_name v ''-.'' ''-'' (Some n) (if p = [] then None else Some p)"
  shows "\<forall>c \<in> set x. dns_alnum c \<or> c \<in> separators" "no_double separators x" "int (length x) \<le> n"
proof -
  let ?c = "clean_characters ''-.'' ''-'' v" and ?q = "clean_characters (re_escape ''-.'') ''-'' p"
  let ?cut = "slice_to (n - int (length p)) ?c"
  have cut: "?cut = take (nat (n - int (length p))) ?c" using assms(2) by (simp add: slice_to_def)
  have nd: "no_double separators ?cut"
    unfolding cut using no_double_take clean_characters_no_double [of "''-.''"] by (metis separators_eq(1))
  have q: "length ?q \<le> length p" using assms(1) by (intro clean_characters_length) (auto simp: plain_postfix_def)
  have len: "int (length ?cut) \<le> n - int (length p)" unfolding cut using assms(2) by simp
  have x: "x = (if p = [] then ?cut else keep_last separators (?cut @ ?q))"
    using assms(1,3,4) by (auto simp: clean_job_name_def Let_def separators_def)
  show "\<forall>c \<in> set x. dns_alnum c \<or> c \<in> separators"
  proof
    fix c assume "c \<in> set x"
    then have "c \<in> set ?cut \<or> c \<in> set ?q"
      using keep_last_set [of separators "?cut @ ?q"] by (auto simp: x split: if_splits)
    then show "dns_alnum c \<or> c \<in> separators" using cut_chars clean_postfix_chars [OF assms(1)] by blast
  qed
  show "no_double separators x" using nd keep_last_no_double unfolding x by (simp only: if_split) blast
  have "length (keep_last separators (?cut @ ?q)) \<le> length ?cut + length ?q"
    using keep_last_length [of separators "?cut @ ?q"] by simp
  then show "int (length x) \<le> n" using len q by (cases "p = []") (simp_all add: x)
qed

lemma dns_alnum_iff: "dns_alnum c \<or> c \<in> separators \<Longrightarrow> is_alnum c = dns_alnum c"
  by (auto simp: separators_def dns_alnum_def is_alnum_def is_digit_def is_lower_def is_upper_def)

lemma clean_name_valid:
  assumes "plain_postfix p" "int (length p) \<le> n" "0 < n"
    and "y = clean_name_dns1123 v n (if p = [] then None else Some p)"
  shows "int (length y) \<le> n" "y \<noteq> [] \<Longrightarrow> dns1123_subdomain y"
proof -
  note facts = clean_job_name_facts [OF assms(1-3) refl, of v]
  let ?x = "clean_job_name v ''-.'' ''-'' (Some n) (if p = [] then None else Some p)"
  have y: "y = strip_by (\<lambda>c. \<not> is_alnum c) ?x" using assms(4) by (simp add: clean_name_dns1123_def)
  obtain a b where x: "?x = a @ y @ b" using strip_by_infix [of ?x "\<lambda>c. \<not> is_alnum c"] y by metis
  then show "int (length y) \<le> n" using facts(3) by simp
  assume ne: "y \<noteq> []"
  have chars: "\<forall>c \<in> set y. dns_alnum c \<or> c \<in> separators" using facts(1) x by (metis UnCI set_append)
  have "no_double separators (a @ y @ b)" using facts(2) x by simp
  then have "no_double separators y" using no_double_append by metis
  moreover have "dns_alnum (hd y)" "dns_alnum (last y)"
    using strip_by_ends [of "\<lambda>c. \<not> is_alnum c" ?x] ne y chars dns_alnum_iff hd_in_set last_in_set by metis+
  ultimately show "dns1123_subdomain y"
    using pieces_are_labels [OF ne chars] by (simp add: dns1123_subdomain_def)
qed

text \<open>The first character of a name that begins with a letter is kept.\<close>

lemma clean_name_first:
  assumes "is_lower c" "int (length p) < n"
  shows "clean_name_dns1123 (c # v) n (if p = [] then None else Some p) \<noteq> []"
proof -
  have c: "\<not> is_upper c" "c \<notin> separators" "is_alnum c" "lower_char c = c"
    using assms(1) by (auto simp: is_lower_def is_upper_def separators_def is_alnum_def lower_char_def)
  have "\<exists>r. clean_characters ''-.'' ''-'' (c # v) = c # r"
    using c assms(1) by (simp add: clean_characters_def camel_to_snake_def separators_def)
  then obtain r where r: "clean_characters ''-.'' ''-'' (c # v) = c # r" ..
  then obtain k where k: "nat (n - int (length p)) = Suc k" using assms(2) by (metis Suc_pred' diff_gt_0_iff_gt zero_less_nat_eq)
  then have cut: "slice_to (n - int (length p)) (c # r) = c # take k r" using assms(2) by (simp add: slice_to_def)
  have "\<exists>t. clean_job_name (c # v) ''-.'' ''-'' (Some n) (if p = [] then None else Some p) = c # t"
  proof (cases "p = []")
    case True
    then show ?thesis using cut r assms(2) by (simp add: clean_job_name_def)
  next
    case False
    then show ?thesis
      using cut r assms(2) c(2) keep_last_Cons [of c separators]
      by (simp add: clean_job_name_def Let_def separators_eq(1) del: set_simps)
  qed
  then show ?thesis using c(3) by (auto simp: clean_name_dns1123_def strip_by_Cons)
qed

lemma create_pod_id_valid:
  assumes "list_all (\<lambda>c. is_digit c \<or> is_lower c \<or> c = CHR ''-'') uid"
  shows "dns1123_subdomain (create_pod_id f t uid)" "length (create_pod_id f t uid) \<le> 253"
proof -
  let ?p = "''.'' @ take 8 uid"
  have p: "plain_postfix ?p"
    using assms by (auto simp: plain_postfix_def list_all_iff is_digit_def is_lower_def is_upper_def dest!: in_set_takeD)
  have l: "int (length ?p) \<le> 253" "int (length ?p) < 253" by simp_all
  have "create_pod_id f t uid =
      clean_name_dns1123 (''dbnd.'' @ f @ ''.'' @ t) 253 (if ?p = [] then None else Some ?p)"
    by (simp add: create_pod_id_def clean_subdomain_name_dns1123_def)
  moreover have "is_lower CHR ''d''" by (simp add: is_lower_def)
  ultimately show "dns1123_subdomain (create_pod_id f t uid)" "length (create_pod_id f t uid) \<le> 253"
    using clean_name_valid [OF p l(1)] clean_name_first [OF _ l(2), of "CHR ''d''" "''bnd.'' @ f @ ''.'' @ t"] by simp_all
qed

lemma label_valid:
  "length (clean_label_name_dns1123 v None) \<le> 63"
  "clean_label_name_dns1123 v None \<noteq> [] \<Longrightarrow> dns1123_subdomain (clean_label_name_dns1123 v None)"
  using clean_name_valid [of "[]" 63 _ v] by (simp_all add: plain_postfix_def clean_label_name_dns1123_def)

text \<open>
  Pod ids and label values obey DNS-1123: whatever the family and the name of a task, its pod
  id is a subdomain name of at most 253 characters, and a cleaned label value has at most 63
  characters and is empty or made of valid labels.
\<close>
theorem cleaned_names_are_valid:
  assumes "list_all (\<lambda>c. is_digit c \<or> is_lower c \<or> c = CHR ''-'') task_run_uid"
  shows "dns1123_subdomain (create_pod_id task_family task_name task_run_uid) \<and>
    length (create_pod_id task_family task_name task_run_uid) \<le> 253 \<and>
    length (clean_label_name_dns1123 value None) \<le> 63 \<and>
    (clean_label_name_dns1123 value None = [] \<or> dns1123_subdomain (clean_label_name_dns1123 value None))"
  using create_pod_id_valid [OF assms] label_valid by blast

theorem cleaned_names_are_valid_witness:
  "dns1123_subdomain (create_pod_id ''My.Task'' ''run__It!'' ''0a1b2c3d-77'') \<and>
   create_pod_id ''My.Task'' ''run__It!'' ''0a1b2c3d-77'' = ''dbnd.my.task.run-it.0a1b2c3d''"
proof
  have "list_all (\<lambda>c. is_digit c \<or> is_lower c \<or> c = CHR ''-'') ''0a1b2c3d-77''" by code_simp
  from cleaned_names_are_valid [OF this] show "dns1123_subdomain (create_pod_id ''My.Task'' ''run__It!'' ''0a1b2c3d-77'')"
    by blast
qed code_simp

text \<open>The number of the try is put behind the pod id after it was cut, which passes the limit again.\<close>

lemma pod_name_passes_the_limit:
  "252 \<le> length (create_pod_id f t uid) \<Longrightarrow> 253 < length (get_pod_name f t uid (Some n))"
proof -
  have "0 < length (int_str n)" by (simp add: int_str_def)
  then show "252 \<le> length (create_pod_id f t uid) \<Longrightarrow> ?thesis"
    by (simp add: get_pod_name_def del: length_greater_0_conv)
qed

lemma backslash_survives: "clean_job_name (''a'' @ [CHR 0x5C] @ ''b'') ([CHR 0x5C] @ ''-_'') ''_'' None None = ''a'' @ [CHR 0x5C] @ ''b''"
  by code_simp

section \<open>Shortened texts and merged logs\<close>

lemma length_nat_str_mono: "m \<le> n \<Longrightarrow> length (nat_str m) \<le> length (nat_str n)"
proof (induction n arbitrary: m rule: nat_str.induct)
  case (1 n)
  show ?case
  proof (cases "m < 10")
    case True
    then have "length (nat_str m) = 1" by (subst nat_str.simps) simp
    moreover have "0 < length (nat_str n)" by simp
    ultimately show ?thesis by linarith
  next
    case False
    then have n: "\<not> n < 10" using 1 by linarith
    moreover have "length (nat_str (m div 10)) \<le> length (nat_str (n div 10))"
      using 1 n by (simp add: div_le_mono)
    ultimately show ?thesis using False by (subst (1 2) nat_str.simps) simp
  qed
qed

lemma length_int_str: "0 \<le> a \<Longrightarrow> a \<le> b \<Longrightarrow> length (int_str a) \<le> length (int_str b)"
  by (simp add: int_str_def length_nat_str_mono nat_mono)

lemma safe_short_string_bound:
  assumes "safe_short_string (Some s) n tail = Some r" "n < int (length s)"
  shows "int (length r) \<le> max n (int (11 + length (nat_str (length s))))"
proof -
  let ?l = "int_str (int (length s))"
  let ?a = "max 0 (n - int (10 + length (int_str n) + length ?l))"
  have l: "length ?l = length (nat_str (length s))" by (simp add: int_str_def)
  show ?thesis
  proof (cases "s = [] \<or> ?a = 0")
    case True
    have "length (int_str 0) = 1" by code_simp
    then show ?thesis using assms l True
      by (auto simp: safe_short_string_def Let_def add.assoc split: if_splits)
  next
    case False
    obtain a where a: "a = ?a" by blast
    have "safe_short_string (Some s) n tail =
        Some (if tail then ''('' @ int_str a @ '' of '' @ ?l @ '') ...'' @ drop (length s - nat a) s
              else take (nat a) s @ ''... ('' @ int_str a @ '' of '' @ ?l @ '')'')"
      using False assms(2) by (simp add: safe_short_string_def Let_def a add.assoc)
    moreover have "nat a \<le> length s" using assms(2) a by linarith
    ultimately have len: "length r = nat ?a + 10 + length (int_str ?a) + length ?l"
      using assms(1) unfolding a [symmetric] by auto
    have "?a \<le> n" "0 \<le> ?a" using False by linarith+
    then have "length (int_str ?a) \<le> length (int_str n)" by (rule length_int_str [rotated])
    moreover have "int (nat ?a) = n - int (10 + length (int_str n) + length ?l)" using False by linarith
    ultimately have "int (length r) \<le> n" unfolding len by linarith
    then show ?thesis by linarith
  qed
qed

lemma short_enough_unchanged: "int (length s) \<le> n \<Longrightarrow> safe_short_string (Some s) n tail = Some s"
  by (simp add: safe_short_string_def)

lemma merged_logs_keep_order: "merge_dbnd_and_spark_logs dbnd spark \<in> shuffles dbnd spark"
  by (induction dbnd spark rule: merge_dbnd_and_spark_logs.induct) (auto intro: Cons_in_shuffles_leftI Cons_in_shuffles_rightI)

end
