(* ===== verification/KubeScheduler.thy ===== *)
theory KubeScheduler
  imports KubeWatcher PodNames Effects
begin

text \<open>
  The pods of a run: \<open>DbndKubernetesScheduler\<close>, the parts of \<open>DbndKubernetesExecutor\<close> that do not
  come from Airflow, and the search for pending zombies
  (\<open>dbnd_airflow/executors/kubernetes_executor\<close>).  The cluster, the tracking and Airflow's database
  with its way to handle a failure are parameters that change the outside world; calls of
  \<open>set_task_run_state\<close> are recorded in order in \<open>reports\<close>.
\<close>

section \<open>State\<close>

text \<open>The key of a task instance: dag, task, execution date and try number.\<close>

type_synonym ti_key = "string \<times> string \<times> string \<times> int"

record submitted_pod =
  sp_pod_name :: string
  sp_submitted_at :: int
  sp_scheduler_key :: ti_key
  sp_task_run :: string
  sp_processed :: bool
  sp_node_name :: "string option"

text \<open>Key, state, pod, namespace and resource version.\<close>

type_synonym pod_result = "ti_key \<times> af_state option \<times> string \<times> string \<times> watch_field"

record 'w k8s =
  submitted_pods :: "(string, submitted_pod) dict"
  result_queue :: "pod_result list"
  reports :: "(string \<times> task_run_state option \<times> bool) list"
  cluster :: 'w

record 'w kube_env =
  read_pod :: "string \<Rightarrow> 'w \<Rightarrow> pod_data option result"
  delete_request :: "string \<Rightarrow> 'w \<Rightarrow> unit result \<times> 'w"
  create_request :: "string \<Rightarrow> 'w \<Rightarrow> unit result \<times> 'w"
  log_metric :: "string \<Rightarrow> string \<Rightarrow> 'w \<Rightarrow> unit result \<times> 'w"
  save_task_run_log :: "string \<Rightarrow> 'w \<Rightarrow> unit result \<times> 'w"
  ti_state :: "string \<Rightarrow> 'w \<Rightarrow> af_state option"
  is_finished :: "af_state option \<Rightarrow> bool"
  set_retries :: "string \<Rightarrow> int \<Rightarrow> 'w \<Rightarrow> 'w"
  next_try :: "string \<Rightarrow> 'w \<Rightarrow> 'w"
  handle_failure :: "string \<Rightarrow> 'w \<Rightarrow> 'w"
  kube_now :: "'w \<Rightarrow> int"
  kube_namespace :: string
  kube_config :: pod_config

section \<open>Steps\<close>

definition on_cluster :: "(unit, 'w) io \<Rightarrow> (unit, 'w k8s) io" where
  "on_cluster m s = (case m (cluster s) of (r, w) \<Rightarrow> (r, s\<lparr>cluster := w\<rparr>))"

definition get_pod_status :: "'w kube_env \<Rightarrow> string \<Rightarrow> (pod_data option, 'w k8s) io" where
  "get_pod_status env name s = (read_pod env name (cluster s), s)"

definition report_state :: "string \<Rightarrow> task_run_state option \<Rightarrow> bool \<Rightarrow> (unit, 'w k8s) io" where
  "report_state task st track s = (Inr (), s\<lparr>reports := reports s @ [(task, st, track)]\<rparr>)"

definition change_pod :: "string \<Rightarrow> (submitted_pod \<Rightarrow> submitted_pod) \<Rightarrow> 'w k8s \<Rightarrow> 'w k8s" where
  "change_pod name f s =
     (case map_of (submitted_pods s) name of
        None \<Rightarrow> s
      | Some p \<Rightarrow> s\<lparr>submitted_pods := dict_set (submitted_pods s) name (f p)\<rparr>)"

definition get_retry_count :: "(string, int) dict \<Rightarrow> string option \<Rightarrow> int option" where
  "get_retry_count counts reason = (case reason of None \<Rightarrow> None | Some r \<Rightarrow> map_of counts r)"

definition find_pod_failure_reason :: "pod_config \<Rightarrow> pod_data option \<Rightarrow> string option" where
  "find_pod_failure_reason cfg pod =
     (case pod of
        None \<Rightarrow> Some ''err_pod_deleted''
      | Some p \<Rightarrow>
          if pd_phase p = ''Pending'' then
            (case check_deploy_errors cfg p of
               Inl (KubernetesImageNotFoundError m) \<Rightarrow> Some ''err_image_pull''
             | Inl (KubernetesPodConfigFailure m) \<Rightarrow> Some ''err_config_error''
             | _ \<Rightarrow> None)
          else if pd_deletion_timestamp p \<noteq> None then Some ''err_pod_deleted''
          else (case try_get_pod_exit_code p of
                  None \<Rightarrow> None
                | Some (code, reason) \<Rightarrow>
                    if code \<noteq> 0 \<or> reason \<noteq> None then Some (int_str code) else None))"

definition handle_crashed_task_instance :: "'w kube_env \<Rightarrow> string \<Rightarrow> string option \<Rightarrow> (unit, 'w k8s) io" where
  "handle_crashed_task_instance env task reason s =
     (let w = cluster s;
          w = (case get_retry_count (retry_counts (kube_config env)) reason of None \<Rightarrow> w | Some n \<Rightarrow> set_retries env task n w);
          w = (if ti_state env task w = Some AF_QUEUED then next_try env task w else w);
          w = handle_failure env task w
      in report_state task
           (Some (if ti_state env task w = Some AF_UP_FOR_RETRY then UP_FOR_RETRY else FAILED)) True
           (s\<lparr>cluster := w\<rparr>))"

definition process_pod_failed :: "'w kube_env \<Rightarrow> submitted_pod \<Rightarrow> string option \<Rightarrow> (unit, 'w k8s) io" where
  "process_pod_failed env sp known_fail_reason s =
     (let task = sp_task_run sp; st = ti_state env task (cluster s)
      in io_bind (get_pod_status env (sp_pod_name sp)) (\<lambda>pod.
           let failure_reason = find_pod_failure_reason (kube_config env) pod
           in if is_finished env st then report_state task (dbnd_state_of st) False
              else io_bind (on_cluster (save_task_run_log env task)) (\<lambda>_.
                     handle_crashed_task_instance env task
                       (case known_fail_reason of None \<Rightarrow> failure_reason | Some r \<Rightarrow> Some r))) s)"

definition process_pod_success :: "'w kube_env \<Rightarrow> submitted_pod \<Rightarrow> (unit, 'w k8s) io" where
  "process_pod_success env sp s =
     (if sp_processed sp then (Inr (), s)
      else (let task = sp_task_run sp
            in (case ti_state env task (cluster s) of
                  Some AF_SUCCESS \<Rightarrow> report_state task (Some SUCCESS) False s
                | Some AF_UP_FOR_RETRY \<Rightarrow> report_state task (Some UP_FOR_RETRY) False s
                | Some AF_UP_FOR_RESCHEDULE \<Rightarrow> report_state task (Some UP_FOR_RETRY) False s
                | Some AF_FAILED \<Rightarrow> report_state task (Some FAILED) False s
                | Some AF_SHUTDOWN \<Rightarrow> report_state task (Some FAILED) False s
                | _ \<Rightarrow> process_pod_failed env sp (Some ''err_pod_evicted'') s)))"

definition process_pod_running :: "'w kube_env \<Rightarrow> submitted_pod \<Rightarrow> (unit, 'w k8s) io" where
  "process_pod_running env sp s =
     (if sp_node_name sp \<noteq> None then (Inr (), s)
      else io_bind (get_pod_status env (sp_pod_name sp)) (\<lambda>pod.
             let node = (case pod of None \<Rightarrow> None | Some p \<Rightarrow> pd_node_name p)
             in io_bind (case node of
                           None \<Rightarrow> io_return ()
                         | Some n \<Rightarrow> on_cluster (log_metric env ''node_name'' n)) (\<lambda>_ s.
                  report_state (sp_task_run sp) (Some RUNNING) False
                    (change_pod (sp_pod_name sp)
                      (\<lambda>p. p\<lparr>sp_node_name := Some (case node of None \<Rightarrow> ''failed_to_find'' | Some n \<Rightarrow> n)\<rparr>) s))) s)"

definition put_result :: "submitted_pod \<Rightarrow> event_tuple \<Rightarrow> (unit, 'w k8s) io" where
  "put_result sp ev s =
     (case ev of (pod_id, namespace, st, labels, version) \<Rightarrow>
        (Inr (), s\<lparr>result_queue := result_queue s @ [(sp_scheduler_key sp, st, pod_id, namespace, version)]\<rparr>))"

text \<open>A final event marks the pod as processed, even when its handling raises.\<close>

definition process_watcher_task :: "'w kube_env \<Rightarrow> event_tuple \<Rightarrow> (unit, 'w k8s) io" where
  "process_watcher_task env ev s =
     (case ev of (pod_id, namespace, st, labels, version) \<Rightarrow>
        (case map_of (submitted_pods s) pod_id of
           None \<Rightarrow> (Inr (), s)
         | Some sp \<Rightarrow>
             if sp_processed sp then (Inr (), s)
             else if st = Some AF_RUNNING then process_pod_running env sp s
             else
               (case io_bind (if st = None then process_pod_success env sp
                              else if st = Some AF_FAILED then process_pod_failed env sp None
                              else io_return ()) (\<lambda>_. put_result sp ev) s of
                  (r, s') \<Rightarrow> (r, change_pod pod_id (\<lambda>p. p\<lparr>sp_processed := True\<rparr>) s'))))"

text \<open>A pod is removed from \<open>submitted_pods\<close> before anything else; every error is logged only.\<close>

definition pod_delete :: "'w kube_env \<Rightarrow> string \<Rightarrow> 'w k8s \<Rightarrow> 'w k8s" where
  "pod_delete env name s =
     (let cfg = kube_config env; w = cluster s
      in if keep_finished_pods cfg then s
         else if keep_failed_pods cfg then
           (case read_pod env name w of
              Inl e \<Rightarrow> s
            | Inr p \<Rightarrow>
                if (case p of None \<Rightarrow> False | Some d \<Rightarrow> pd_phase d \<in> {''Running'', ''Succeeded''})
                then s\<lparr>cluster := snd (delete_request env name w)\<rparr> else s)
         else s\<lparr>cluster := snd (delete_request env name w)\<rparr>)"

definition delete_pod :: "'w kube_env \<Rightarrow> string \<Rightarrow> 'w k8s \<Rightarrow> 'w k8s" where
  "delete_pod env pod_id s =
     (case map_of (submitted_pods s) pod_id of
        None \<Rightarrow> s
      | Some sp \<Rightarrow>
          pod_delete env pod_id
            (snd (on_cluster (log_metric env ''pod_finished_at'' (sp_task_run sp))
              (s\<lparr>submitted_pods := dict_del (submitted_pods s) pod_id\<rparr>))))"

text \<open>
  A job is a key, the task run and the name that \<open>build_pod\<close> gave its pod; the pod runs detached.
\<close>

record kube_job =
  job_key :: ti_key
  job_task_run :: string
  job_pod_name :: string

definition run_pod :: "'w kube_env \<Rightarrow> kube_job \<Rightarrow> (unit, 'w k8s) io" where
  "run_pod env job =
     io_bind (report_state (job_task_run job) (Some QUEUED) True) (\<lambda>_ s.
       case on_cluster (create_request env (job_pod_name job)) s of
         (Inl (ApiException n), s') \<Rightarrow>
           io_bind (report_state (job_task_run job) (Some FAILED) True) (\<lambda>_. io_raise (ApiException n)) s'
       | (r, s') \<Rightarrow> (r, s'))"

definition run_next :: "'w kube_env \<Rightarrow> kube_job \<Rightarrow> (unit, 'w k8s) io" where
  "run_next env job s =
     io_bind (run_pod env job) (\<lambda>_. on_cluster (log_metric env ''pod_submitted_at'' (job_pod_name job)))
       (s\<lparr>submitted_pods := dict_set (submitted_pods s) (job_pod_name job)
            \<lparr>sp_pod_name = job_pod_name job, sp_submitted_at = kube_now env (cluster s),
             sp_scheduler_key = job_key job, sp_task_run = job_task_run job, sp_processed = False,
             sp_node_name = None\<rparr>\<rparr>)"

definition handle_zombie_task_instance ::
  "'w kube_env \<Rightarrow> ti_key \<Rightarrow> (submitted_pod option, 'w k8s) io" where
  "handle_zombie_task_instance env key s =
     (case filter (\<lambda>p. sp_scheduler_key p = key) (dict_values (submitted_pods s)) of
        [] \<Rightarrow> (Inr None, s)
      | sp # _ \<Rightarrow> io_bind (process_pod_failed env sp None) (\<lambda>_. io_return (Some sp)) s)"

text \<open>Pods that are not running, older than the timeout and no longer in the cluster.\<close>

definition find_pending_zombies :: "'w kube_env \<Rightarrow> int \<Rightarrow> (string list, 'w k8s) io" where
  "find_pending_zombies env pending_timeout s =
     (foldM (\<lambda>zombies (name, sp).
        if sp_node_name sp = None \<and> pending_timeout \<le> kube_now env (cluster s) - sp_submitted_at sp
        then rmap (\<lambda>pod. if pod = None then zombies @ [sp_task_run sp] else zombies) (read_pod env name (cluster s))
        else Inr zombies) [] (submitted_pods s), s)"

text \<open>The end of the run: all pods are deleted, then every task run that is not finished is cancelled.\<close>

fun insert_pod :: "submitted_pod \<Rightarrow> submitted_pod list \<Rightarrow> submitted_pod list" where
  "insert_pod p [] = [p]"
| "insert_pod p (q # ps) = (if str_less (sp_pod_name q) (sp_pod_name p) then q # insert_pod p ps else p # q # ps)"

definition terminated_state ::
  "'w kube_env \<Rightarrow> (string \<Rightarrow> task_run_state option) \<Rightarrow> 'w \<Rightarrow> string \<Rightarrow> task_run_state option" where
  "terminated_state env current w task =
     (let st = ti_state env task w
      in if is_finished env st
         then (case current task of
                 Some c \<Rightarrow> if c \<in> final_states then None
                           else Some (case dbnd_state_of st of None \<Rightarrow> CANCELLED | Some d \<Rightarrow> d)
               | None \<Rightarrow> Some (case dbnd_state_of st of None \<Rightarrow> CANCELLED | Some d \<Rightarrow> d))
         else Some CANCELLED)"

definition terminate_all_running_pods ::
  "'w kube_env \<Rightarrow> ('w k8s \<Rightarrow> string \<Rightarrow> task_run_state option) \<Rightarrow> 'w k8s \<Rightarrow> 'w k8s" where
  "terminate_all_running_pods env current s =
     (let pods = foldr insert_pod (dict_values (submitted_pods s)) [];
          s = foldl (\<lambda>s p. delete_pod env (sp_pod_name p) s) s pods
      in foldl (\<lambda>s p. case terminated_state env (current s) (cluster s) (sp_task_run p) of
                        None \<Rightarrow> s
                      | Some st \<Rightarrow> snd (report_state (sp_task_run p) (Some st) True s)) s pods)"

section \<open>The executor\<close>

text \<open>
  Results are taken from the queue until it is empty; a result whose state change raises is put
  back at its end. Airflow's \<open>_change_state\<close> is the parameter.
\<close>

partial_function (option) drain_results ::
  "(pod_result \<Rightarrow> 'w k8s \<Rightarrow> unit result \<times> 'w k8s) \<Rightarrow> 'w k8s \<Rightarrow> watch_field \<Rightarrow> ('w k8s \<times> watch_field) option"
where
  "drain_results change s last_version =
     (case result_queue s of
        [] \<Rightarrow> Some (s, last_version)
      | r # rs \<Rightarrow>
          (case change r (s\<lparr>result_queue := rs\<rparr>) of
             (Inr u, s') \<Rightarrow> drain_results change s' (snd (snd (snd (snd r))))
           | (Inl e, s') \<Rightarrow>
               drain_results change (s'\<lparr>result_queue := result_queue s' @ [r]\<rparr>) (snd (snd (snd (snd r))))))"

text \<open>At most \<open>batch\<close> jobs are started; two kinds of errors put the job back at the end of the queue.\<close>

fun start_jobs :: "'w kube_env \<Rightarrow> nat \<Rightarrow> kube_job list \<Rightarrow> (kube_job list, 'w k8s) io" where
  "start_jobs env 0 jobs = io_return jobs"
| "start_jobs env (Suc n) [] = io_return []"
| "start_jobs env (Suc n) (j # js) = (\<lambda>s.
     case run_next env j s of
       (Inr u, s') \<Rightarrow> start_jobs env n js s'
     | (Inl (ApiException c), s') \<Rightarrow>
         if c \<in> {403, 404} then (Inl (ApiException c), s') else start_jobs env n (js @ [j]) s'
     | (Inl (HTTPError m), s') \<Rightarrow> start_jobs env n (js @ [j]) s'
     | (Inl e, s') \<Rightarrow> (Inl e, s'))"

definition clear_zombie_task_instance ::
  "'w kube_env \<Rightarrow> (pod_result \<Rightarrow> 'w k8s \<Rightarrow> unit result \<times> 'w k8s) \<Rightarrow> ti_key set \<Rightarrow> ti_key \<Rightarrow> (unit, 'w k8s) io"
where
  "clear_zombie_task_instance env change running key =
     (if key \<notin> running then io_return ()
      else io_bind (handle_zombie_task_instance env key) (\<lambda>sp.
        case sp of
          None \<Rightarrow> io_return ()
        | Some p \<Rightarrow> change (sp_scheduler_key p, None, sp_pod_name p, kube_namespace env, FNone)))"

section \<open>One result per pod\<close>

datatype 'w kube_op =
    OpEvent event_tuple
  | OpDelete string
  | OpSubmit kube_job
  | OpZombie ti_key
  | OpOutside "'w \<Rightarrow> 'w"

fun kube_step :: "'w kube_env \<Rightarrow> 'w kube_op \<Rightarrow> 'w k8s \<Rightarrow> 'w k8s" where
  "kube_step env (OpEvent ev) s = snd (process_watcher_task env ev s)"
| "kube_step env (OpDelete pod) s = delete_pod env pod s"
| "kube_step env (OpSubmit job) s = snd (run_next env job s)"
| "kube_step env (OpZombie key) s = snd (handle_zombie_task_instance env key s)"
| "kube_step env (OpOutside f) s = s\<lparr>cluster := f (cluster s)\<rparr>"

definition count_results :: "string \<Rightarrow> pod_result list \<Rightarrow> nat" where
  "count_results pod q = length (filter (\<lambda>(key, st, p, rest). p = pod) q)"

definition unprocessed :: "string \<Rightarrow> 'w k8s \<Rightarrow> nat" where
  "unprocessed pod s = (case map_of (submitted_pods s) pod of None \<Rightarrow> 0 | Some sp \<Rightarrow> if sp_processed sp then 0 else 1)"

fun submits :: "string \<Rightarrow> 'w kube_op \<Rightarrow> bool" where
  "submits pod (OpSubmit job) = (job_pod_name job = pod)"
| "submits pod op = False"

text \<open>Nothing but the pods and the queue matters for the count; most steps leave both alone.\<close>

definition same_pods :: "'w k8s \<Rightarrow> 'w k8s \<Rightarrow> bool" where
  "same_pods s t = (submitted_pods t = submitted_pods s \<and> result_queue t = result_queue s)"

named_theorems keeps_pods \<open>steps that leave the pods and the queue alone\<close>

lemma same_pods_refl [keeps_pods]: "same_pods s s"
  by (simp add: same_pods_def)

lemma same_pods_trans: "same_pods s t \<Longrightarrow> same_pods t u \<Longrightarrow> same_pods s u"
  by (simp add: same_pods_def)

lemma same_pods_cluster [keeps_pods]: "same_pods s (s\<lparr>cluster := w\<rparr>)"
  by (simp add: same_pods_def)

lemma same_pods_on_cluster [keeps_pods]: "same_pods s (snd (on_cluster m s))"
  by (simp add: on_cluster_def same_pods_def split: prod.splits)

lemma same_pods_state [keeps_pods]: "same_pods s (snd (report_state t st tr s))"
  by (simp add: report_state_def same_pods_def)

lemma same_pods_status [keeps_pods]: "same_pods s (snd (get_pod_status env n s))"
  by (simp add: get_pod_status_def same_pods_def)

lemma bind_related:
  assumes "\<And>s t u. R s t \<Longrightarrow> R t u \<Longrightarrow> R s u" "R s (snd (m s))" "\<And>x t. R t (snd (f x t))"
  shows "R s (snd (io_bind m f s))"
proof -
  obtain r t where m: "m s = (r, t)" by force
  then have st: "R s t" using assms(2) by simp
  show ?thesis
  proof (cases r)
    case (Inr x)
    then show ?thesis using m assms(1) [OF st assms(3) [of t x]] by (simp add: io_bind_def)
  qed (simp add: io_bind_def m st)
qed

lemmas same_pods_bind = bind_related [of same_pods, OF same_pods_trans]

lemma same_pods_crashed [keeps_pods]: "same_pods s (snd (handle_crashed_task_instance env t r s))"
  by (simp add: handle_crashed_task_instance_def Let_def report_state_def same_pods_def)

lemma same_pods_failed [keeps_pods]: "same_pods s (snd (process_pod_failed env sp k s))"
  unfolding process_pod_failed_def Let_def by (auto intro!: same_pods_bind keeps_pods)

lemma same_pods_success [keeps_pods]: "same_pods s (snd (process_pod_success env sp s))"
  unfolding process_pod_success_def Let_def
  by (auto intro!: keeps_pods split: option.split af_state.split)

lemma same_pods_zombie [keeps_pods]: "same_pods s (snd (handle_zombie_task_instance env key s))"
  unfolding handle_zombie_task_instance_def
  by (auto intro!: same_pods_bind keeps_pods simp: io_return_def split: list.split)

lemma same_pods_count:
  "same_pods s t \<Longrightarrow> count_results p (result_queue t) = count_results p (result_queue s) \<and> unprocessed p t = unprocessed p s"
  by (simp add: same_pods_def unprocessed_def)

lemma unprocessed_change_pod:
  "unprocessed p (change_pod name f s) =
     (if name = p then (case map_of (submitted_pods s) p of None \<Rightarrow> 0 | Some sp \<Rightarrow> if sp_processed (f sp) then 0 else 1)
      else unprocessed p s)"
  by (auto simp: unprocessed_def change_pod_def split: option.splits)

lemma queue_change_pod [simp]: "result_queue (change_pod name f s) = result_queue s"
  by (simp add: change_pod_def split: option.splits)

definition same_count :: "'w k8s \<Rightarrow> 'w k8s \<Rightarrow> bool" where
  "same_count s t = (result_queue t = result_queue s \<and> (\<forall>p. unprocessed p t = unprocessed p s))"

lemma same_count_trans: "same_count s t \<Longrightarrow> same_count t u \<Longrightarrow> same_count s u"
  by (simp add: same_count_def)

lemmas same_count_bind = bind_related [of same_count, OF same_count_trans]

lemma same_pods_same_count: "same_pods s t \<Longrightarrow> same_count s t"
  by (simp add: same_pods_def same_count_def unprocessed_def)

lemma same_count_node: "same_count s (change_pod n (\<lambda>p. p\<lparr>sp_node_name := x\<rparr>) s)"
  by (auto simp: same_count_def unprocessed_change_pod unprocessed_def [of _ s] split: option.split)

lemma running_count: "same_count s (snd (process_pod_running env sp s))"
proof -
  have state: "same_count u (snd (report_state t st tr (change_pod n (\<lambda>p. p\<lparr>sp_node_name := x\<rparr>) u)))"
    for u t st tr n x
    using same_count_trans [OF same_count_node same_pods_same_count [OF same_pods_state]] .
  have metric: "same_count u (snd ((case m of None \<Rightarrow> io_return () | Some n \<Rightarrow> on_cluster (log_metric env k n)) u))"
    for u m k
    by (auto simp: io_return_def intro: same_pods_same_count keeps_pods split: option.split)
  show ?thesis
    unfolding process_pod_running_def Let_def
    by (auto intro!: same_count_bind same_pods_same_count [OF same_pods_refl]
        same_pods_same_count [OF same_pods_status] metric state)
qed

lemma event_count:
  assumes "t = snd (process_watcher_task env ev s)"
  shows "count_results p (result_queue t) + unprocessed p t \<le> count_results p (result_queue s) + unprocessed p s"
proof -
  obtain pod ns st l v where ev: "ev = (pod, ns, st, l, v)" by (metis prod_cases5)
  show ?thesis
  proof (cases "map_of (submitted_pods s) pod")
    case None
    then show ?thesis using assms ev by (simp add: process_watcher_task_def)
  next
    case (Some sp)
    consider (skip) "sp_processed sp" | (running) "\<not> sp_processed sp" "st = Some AF_RUNNING"
      | (final) "\<not> sp_processed sp" "st \<noteq> Some AF_RUNNING" by blast
    then show ?thesis
    proof cases
      case skip
      then show ?thesis using assms ev Some by (simp add: process_watcher_task_def)
    next
      case running
      then have "t = snd (process_pod_running env sp s)" using assms ev Some by (simp add: process_watcher_task_def)
      then show ?thesis using running_count [of s env sp] by (simp add: same_count_def)
    next
      case final
      let ?m = "if st = None then process_pod_success env sp
          else if st = Some AF_FAILED then process_pod_failed env sp None else io_return ()"
      obtain r u where m: "?m s = (r, u)" by force
      have "same_pods s (snd (?m s))" by (auto simp: io_return_def intro: keeps_pods)
      then have su: "same_pods s u" using m by simp
      have "t = change_pod pod (\<lambda>p. p\<lparr>sp_processed := True\<rparr>)
          (if isl r then u else snd (put_result sp ev u))"
        using assms ev Some final m
        by (cases r) (simp_all add: process_watcher_task_def io_bind_def put_result_def)
      moreover have "submitted_pods (snd (put_result sp ev u)) = submitted_pods u"
        "count_results p (result_queue (snd (put_result sp ev u))) =
           count_results p (result_queue u) + (if p = pod then 1 else 0)"
        by (simp_all add: put_result_def ev count_results_def)
      moreover have "submitted_pods u = submitted_pods s" "result_queue u = result_queue s"
        using su by (simp_all add: same_pods_def)
      moreover from this have "unprocessed q u = unprocessed q s" "unprocessed q (snd (put_result sp ev u)) = unprocessed q s" for q
        by (simp_all add: unprocessed_def put_result_def ev)
      moreover have "unprocessed pod s = 1" using Some final(1) by (simp add: unprocessed_def)
      ultimately show ?thesis using Some
        by (cases "isl r"; cases "p = pod") (simp_all add: unprocessed_change_pod)
    qed
  qed
qed

lemma same_pods_pod_delete [keeps_pods]: "same_pods s (pod_delete env n s)"
  by (auto simp: pod_delete_def Let_def intro!: keeps_pods split: sum.split)

lemma delete_count:
  assumes "t = delete_pod env pod s"
  shows "result_queue t = result_queue s \<and> unprocessed p t \<le> unprocessed p s"
proof (cases "map_of (submitted_pods s) pod")
  case None
  then show ?thesis using assms by (simp add: delete_pod_def)
next
  case (Some sp)
  let ?s = "s\<lparr>submitted_pods := dict_del (submitted_pods s) pod\<rparr>"
  have "same_pods ?s t" using assms Some
    by (auto simp: delete_pod_def intro!: same_pods_trans [OF same_pods_on_cluster same_pods_pod_delete])
  then show ?thesis by (auto simp: same_pods_def unprocessed_def split: option.split)
qed

lemma same_pods_run_pod: "same_pods s (snd (run_pod env job s))"
  unfolding run_pod_def
  by (rule same_pods_bind)
    (auto intro: keeps_pods simp: on_cluster_def io_bind_def report_state_def io_raise_def same_pods_def
      split: prod.split sum.split py_error.split)

lemma submit_count:
  assumes "t = snd (run_next env job s)"
  shows "result_queue t = result_queue s \<and>
    unprocessed p t \<le> unprocessed p s + (if job_pod_name job = p then 1 else 0)"
proof -
  let ?sp = "\<lparr>sp_pod_name = job_pod_name job, sp_submitted_at = kube_now env (cluster s),
      sp_scheduler_key = job_key job, sp_task_run = job_task_run job, sp_processed = False, sp_node_name = None\<rparr>"
  let ?s = "s\<lparr>submitted_pods := dict_set (submitted_pods s) (job_pod_name job) ?sp\<rparr>"
  have "same_pods ?s t" using assms unfolding run_next_def
    by (auto intro!: same_pods_bind same_pods_run_pod keeps_pods)
  then show ?thesis by (auto simp: same_pods_def unprocessed_def split: option.split)
qed

lemma kube_step_count:
  "count_results p (result_queue (kube_step env op s)) + unprocessed p (kube_step env op s) \<le>
     count_results p (result_queue s) + unprocessed p s + (if submits p op then 1 else 0)"
proof (cases op)
  case (OpEvent ev)
  then show ?thesis using event_count [of _ env ev s p] by simp
next
  case (OpDelete pod)
  then show ?thesis using delete_count [of _ env pod s p] by simp
next
  case (OpSubmit job)
  then show ?thesis using submit_count [of _ env job s p] by simp
next
  case (OpZombie key)
  then show ?thesis using same_pods_count [OF same_pods_zombie, of p env key s] by simp
qed (simp add: unprocessed_def)

lemma kube_steps_count:
  "count_results p (result_queue (foldl (\<lambda>s op. kube_step env op s) s ops)) +
     unprocessed p (foldl (\<lambda>s op. kube_step env op s) s ops) \<le>
   count_results p (result_queue s) + unprocessed p s + length (filter (submits p) ops)"
proof (induction ops arbitrary: s)
  case (Cons op ops)
  show ?case using Cons [of "kube_step env op s"] kube_step_count [of p env op s] by (auto split: if_splits)
qed simp

text \<open>
  C30. Whatever events, deletions, zombies and changes of the cluster arrive in whatever order, the
  scheduler puts at most one result into the queue of the executor for every time it submitted a
  pod: an event of a pod that was processed, deleted or never submitted puts none.
\<close>
theorem each_submission_gives_one_result:
  "count_results p (result_queue (foldl (\<lambda>s op. kube_step env op s) s ops)) \<le>
     count_results p (result_queue s) + unprocessed p s + length (filter (submits p) ops)"
  using kube_steps_count [of p env s ops] by linarith

section \<open>What is reported of a finished pod\<close>

text \<open>Airflow leaves a failed task instance either waiting for its next try or failed.\<close>

definition failure_decided :: "'w kube_env \<Rightarrow> bool" where
  "failure_decided env =
     (\<forall>task w. ti_state env task (handle_failure env task w) \<in> {Some AF_UP_FOR_RETRY, Some AF_FAILED})"

definition reports_airflow_state :: "'w kube_env \<Rightarrow> string \<Rightarrow> 'w k8s \<Rightarrow> 'w k8s \<Rightarrow> bool" where
  "reports_airflow_state env task s t =
     (\<exists>track. reports t = reports s @ [(task, dbnd_state_of (ti_state env task (cluster t)), track)])"

lemma dbnd_state_simps [simp]:
  "dbnd_state_of (Some AF_SUCCESS) = Some SUCCESS" "dbnd_state_of (Some AF_UP_FOR_RETRY) = Some UP_FOR_RETRY"
  "dbnd_state_of (Some AF_UP_FOR_RESCHEDULE) = Some UP_FOR_RETRY" "dbnd_state_of (Some AF_FAILED) = Some FAILED"
  "dbnd_state_of (Some AF_SHUTDOWN) = Some FAILED"
  by (simp_all add: dbnd_state_of_def AIRFLOW_TO_DBND_STATE_MAP_def)

lemma crashed_report:
  assumes "failure_decided env"
  shows "reports_airflow_state env task s (snd (handle_crashed_task_instance env task reason s))"
proof -
  have "Some (if ti_state env task (handle_failure env task w) = Some AF_UP_FOR_RETRY then UP_FOR_RETRY else FAILED) =
      dbnd_state_of (ti_state env task (handle_failure env task w))" for w
    using assms by (fastforce simp: failure_decided_def)
  then show ?thesis
    by (simp add: reports_airflow_state_def handle_crashed_task_instance_def Let_def report_state_def) blast
qed

lemma failed_report:
  assumes "failure_decided env" "process_pod_failed env sp known s = (Inr (), t)"
  shows "reports_airflow_state env (sp_task_run sp) s t"
proof -
  obtain pod where pod: "read_pod env (sp_pod_name sp) (cluster s) = Inr pod"
    using assms(2) by (auto simp: process_pod_failed_def io_bind_def get_pod_status_def Let_def split: sum.splits)
  show ?thesis
  proof (cases "is_finished env (ti_state env (sp_task_run sp) (cluster s))")
    case True
    then have "t = snd (report_state (sp_task_run sp) (dbnd_state_of (ti_state env (sp_task_run sp) (cluster s))) False s)"
      using assms(2) pod by (auto simp: process_pod_failed_def io_bind_def get_pod_status_def Let_def)
    then show ?thesis by (auto simp: reports_airflow_state_def report_state_def)
  next
    case False
    let ?reason = "case known of None \<Rightarrow> find_pod_failure_reason (kube_config env) pod | Some r \<Rightarrow> Some r"
    obtain r w where save: "save_task_run_log env (sp_task_run sp) (cluster s) = (r, w)" by force
    then have "handle_crashed_task_instance env (sp_task_run sp) ?reason (s\<lparr>cluster := w\<rparr>) = (Inr (), t)"
      using assms(2) pod False
      by (cases r) (simp_all add: process_pod_failed_def io_bind_def get_pod_status_def on_cluster_def Let_def)
    then have "t = snd (handle_crashed_task_instance env (sp_task_run sp) ?reason (s\<lparr>cluster := w\<rparr>))" by simp
    then show ?thesis
      using crashed_report [OF assms(1), of "sp_task_run sp" "s\<lparr>cluster := w\<rparr>" ?reason]
      by (simp add: reports_airflow_state_def)
  qed
qed

lemma success_report:
  assumes "failure_decided env" "\<not> sp_processed sp" "process_pod_success env sp s = (Inr (), t)"
  shows "reports_airflow_state env (sp_task_run sp) s t"
  using assms(2,3) failed_report [OF assms(1), of sp "Some ''err_pod_evicted''" s t]
  by (auto simp: process_pod_success_def Let_def reports_airflow_state_def report_state_def
      split: option.splits af_state.splits)

lemma reports_change_pod [simp]: "reports (change_pod n f s) = reports s" "cluster (change_pod n f s) = cluster s"
  by (simp_all add: change_pod_def split: option.split)

lemma final_event_outcome:
  assumes "failure_decided env" "map_of (submitted_pods s) pod = Some sp" "\<not> sp_processed sp"
    and "st \<in> {None, Some AF_FAILED}" "process_watcher_task env (pod, ns, st, l, v) s = (Inr (), t)"
  shows "reports_airflow_state env (sp_task_run sp) s t \<and>
    result_queue t = result_queue s @ [(sp_scheduler_key sp, st, pod, ns, v)] \<and>
    map_of (submitted_pods t) pod = Some (sp\<lparr>sp_processed := True\<rparr>)"
proof -
  let ?m = "if st = None then process_pod_success env sp else process_pod_failed env sp None"
  obtain r u where m: "?m s = (r, u)" by force
  have "same_pods s (snd (?m s))" by (auto intro: keeps_pods)
  then have su: "submitted_pods u = submitted_pods s" "result_queue u = result_queue s"
    using m by (simp_all add: same_pods_def)
  have r: "r = Inr ()" and t: "t = change_pod pod (\<lambda>p. p\<lparr>sp_processed := True\<rparr>) (snd (put_result sp (pod, ns, st, l, v) u))"
    using assms(2-5) m by (auto simp: process_watcher_task_def io_bind_def put_result_def split: if_splits sum.splits)
  have "reports_airflow_state env (sp_task_run sp) s u"
    using m r success_report [OF assms(1,3), of s u] failed_report [OF assms(1), of sp None s u] by (auto split: if_splits)
  then show ?thesis
    using su assms(2) by (simp add: t reports_airflow_state_def put_result_def) (simp add: change_pod_def)
qed

text \<open>
  C31. When the scheduler has handled the last event of a pod, success or failure, without an error,
  the one state it has reported for the task run is the image of the state that Airflow's database
  then holds for the task, the pod counts as processed and the executor finds exactly one result.
\<close>
theorem final_event_reports_airflow_state:
  assumes "failure_decided env" "map_of (submitted_pods s) pod = Some sp" "\<not> sp_processed sp"
    and "st \<in> {None, Some AF_FAILED}" "process_watcher_task env (pod, ns, st, l, v) s = (Inr (), t)"
  shows "(\<exists>track. reports t =
      reports s @ [(sp_task_run sp, dbnd_state_of (ti_state env (sp_task_run sp) (cluster t)), track)]) \<and>
    result_queue t = result_queue s @ [(sp_scheduler_key sp, st, pod, ns, v)] \<and>
    map_of (submitted_pods t) pod = Some (sp\<lparr>sp_processed := True\<rparr>)"
  using final_event_outcome [OF assms] by (simp add: reports_airflow_state_def)

text \<open>A cluster that has lost a pod while its task was running; the world is the state of the task.\<close>

definition lost_pod_env :: "af_state option kube_env" where
  "lost_pod_env = \<lparr>read_pod = (\<lambda>_ _. Inr None), delete_request = (\<lambda>_ w. (Inr (), w)), create_request = (\<lambda>_ w. (Inr (), w)),
     log_metric = (\<lambda>_ _ w. (Inr (), w)), save_task_run_log = (\<lambda>_ w. (Inr (), w)), ti_state = (\<lambda>_ w. w),
     is_finished = (\<lambda>st. st \<in> {Some AF_SUCCESS, Some AF_FAILED}), set_retries = (\<lambda>_ _ w. w), next_try = (\<lambda>_ w. w),
     handle_failure = (\<lambda>_ _. Some AF_UP_FOR_RETRY), kube_now = (\<lambda>_. 0), kube_namespace = ''ns'',
     kube_config = \<lparr>check_unschedulable_condition = True, check_cluster_resource_capacity = False,
       check_image_pull_errors = True, check_running_pod_errors = False, keep_finished_pods = False,
       keep_failed_pods = False, retry_counts = [(''err_pod_deleted'', 3)], capacity_check = (\<lambda>_. Inr ())\<rparr>\<rparr>"

definition lost_pod :: submitted_pod where
  "lost_pod = \<lparr>sp_pod_name = ''p'', sp_submitted_at = 0, sp_scheduler_key = (''d'', ''t'', ''today'', 1),
     sp_task_run = ''t'', sp_processed = False, sp_node_name = Some ''n''\<rparr>"

definition lost_pod_state :: "af_state option k8s" where
  "lost_pod_state = \<lparr>submitted_pods = [(''p'', lost_pod)], result_queue = [], reports = [], cluster = Some AF_RUNNING\<rparr>"

theorem final_event_reports_airflow_state_witness:
  "reports (snd (process_watcher_task lost_pod_env (''p'', ''ns'', Some AF_FAILED, FNone, FNone) lost_pod_state)) =
     [(''t'', Some UP_FOR_RETRY, True)]"
proof -
  obtain t where t: "process_watcher_task lost_pod_env (''p'', ''ns'', Some AF_FAILED, FNone, FNone) lost_pod_state = (Inr (), t)"
    and track: "reports t = [(''t'', Some UP_FOR_RETRY, True)]"
    by (simp add: process_watcher_task_def lost_pod_state_def lost_pod_env_def lost_pod_def process_pod_failed_def
        io_bind_def get_pod_status_def on_cluster_def handle_crashed_task_instance_def Let_def report_state_def
        put_result_def change_pod_def)
  have "failure_decided lost_pod_env" by (simp add: failure_decided_def lost_pod_env_def)
  from final_event_reports_airflow_state [OF this _ _ _ t, of lost_pod]
  have "\<exists>track. reports t = [(''t'', dbnd_state_of (ti_state lost_pod_env ''t'' (cluster t)), track)]"
    by (simp add: lost_pod_state_def lost_pod_def)
  then show ?thesis using t track by auto
qed

section \<open>Taking the results\<close>

text \<open>A result whose state change always raises is taken out and put back for ever.\<close>

lemma drain_results_hang:
  assumes "\<And>x s. result_queue (snd (change x s)) = result_queue s" "\<And>s. isl (fst (change r s))"
    and "r \<in> set (result_queue s)"
  shows "drain_results change s v = None"
proof (rule ccontr)
  assume "drain_results change s v \<noteq> None"
  then obtain out where "drain_results change s v = Some out" by blast
  then show False
    using assms
  proof (induction change s v out rule: drain_results.raw_induct [rotated 1, consumes 1, case_names body])
    case (body loop change s v out)
    obtain x rs where q: "result_queue s = x # rs" using body.prems(3) by (cases "result_queue s") auto
    obtain a t where c: "change x (s\<lparr>result_queue := rs\<rparr>) = (a, t)" by force
    have tq: "result_queue t = rs" using body.prems(1) [of x "s\<lparr>result_queue := rs\<rparr>"] c by simp
    show False
    proof (cases a)
      case (Inl e)
      then have l: "loop change (t\<lparr>result_queue := result_queue t @ [x]\<rparr>) (snd (snd (snd (snd x)))) = Some out"
        using body(2) q c by simp
      have "r \<in> set (result_queue (t\<lparr>result_queue := result_queue t @ [x]\<rparr>))"
        using body.prems(3) q tq by auto
      then show False using body(1) [OF l body.prems(1,2)] by blast
    next
      case (Inr u)
      then have l: "loop change t (snd (snd (snd (snd x)))) = Some out" using body(2) q c by simp
      have "x \<noteq> r" using body.prems(2) [of "s\<lparr>result_queue := rs\<rparr>"] c Inr by auto
      then have "r \<in> set (result_queue t)" using body.prems(3) q tq by auto
      then show False using body(1) [OF l body.prems(1,2)] by blast
    qed
  qed
qed

lemma drain_results_empties:
  assumes "\<And>x s. fst (change x s) = Inr () \<and> result_queue (snd (change x s)) = result_queue s"
  shows "\<exists>t v'. drain_results change s v = Some (t, v') \<and> result_queue t = []"
proof (induction "result_queue s" arbitrary: s v)
  case Nil
  then show ?case by (subst drain_results.simps) (simp flip: Nil)
next
  case (Cons x q)
  obtain u t where c: "change x (s\<lparr>result_queue := q\<rparr>) = (u, t)" by force
  then have "u = Inr ()" "result_queue t = q" using assms [of x "s\<lparr>result_queue := q\<rparr>"] by auto
  then show ?case
    using Cons.hyps(1) [of t] by (subst drain_results.simps) (simp flip: Cons.hyps(2) add: c)
qed

end
