(* ===== verification/DagRunJob.thy ===== *)
theory DagRunJob
  imports KubeWatcher Effects "HOL-Library.Multiset"
begin

text \<open>
  Running a DAG through Airflow: the scheduling loop of \<open>SingleDagRunJob\<close>
  (\<open>dbnd_airflow/scheduler/single_dag_run_job.py\<close>) with the state manager that reads the states of the
  task instances (\<open>AirflowTaskInstanceStateManager\<close>).  The loop moves every task instance from
  \<open>to_run\<close> over \<open>running\<close> to one of the final sets.  Airflow's database, its check of the dependencies
  and the executor are parameters that change the outside world.
\<close>

section \<open>State\<close>

text \<open>
  A task instance is its key (dag, task, date, number of the try at the start); \<open>ti_memory\<close> holds the
  state of the object in memory. The dictionaries and sets of \<open>_DagRunTaskStatus\<close> are lists without
  repetition.
\<close>

type_synonym ti = "string \<times> string \<times> string \<times> int"

record 'w job =
  to_run :: "ti list"
  running :: "ti list"
  waiting :: "ti list"
  succeeded :: "ti list"
  skipped :: "ti list"
  failed :: "ti list"
  not_ready :: "ti list"
  deadlocked :: "ti list"
  active_run :: bool
  ti_memory :: "ti \<Rightarrow> af_state option"
  airflow :: 'w

record 'w job_env =
  db_state :: "string \<Rightarrow> 'w \<Rightarrow> af_state option"
  set_db_state :: "string \<Rightarrow> af_state \<Rightarrow> 'w \<Rightarrow> 'w"
  dependencies_met :: "string \<Rightarrow> af_state option \<Rightarrow> 'w \<Rightarrow> bool \<times> af_state option \<times> 'w"
  has_task :: "ti \<Rightarrow> 'w \<Rightarrow> bool"
  queue_task_instance :: "ti \<Rightarrow> 'w \<Rightarrow> 'w"
  heartbeats :: "'w \<Rightarrow> unit result \<times> 'w"
  get_event_buffer :: "'w \<Rightarrow> (ti \<times> af_state) list \<times> 'w"
  fail_task_instance :: "string \<Rightarrow> 'w \<Rightarrow> af_state option \<times> 'w"
  clean_zombies :: "'w \<Rightarrow> 'w"
  update_dag_run :: "'w \<Rightarrow> bool \<times> 'w"
  run_is_killed :: "'w \<Rightarrow> bool"
  end_executor :: "'w \<Rightarrow> 'w"
  sorted_tasks :: "string list"

record job_config =
  optimize :: bool
  job_fail_fast :: bool

definition task_id_of :: "ti \<Rightarrow> string" where
  "task_id_of k = fst (snd k)"

definition add_ti :: "ti \<Rightarrow> ti list \<Rightarrow> ti list" where
  "add_ti k ks = (if k \<in> set ks then ks else ks @ [k])"

definition pop_ti :: "ti \<Rightarrow> ti list \<Rightarrow> ti list" where
  "pop_ti k ks = filter (\<lambda>x. x \<noteq> k) ks"

section \<open>States\<close>

definition refresh_from_db :: "'w job_env \<Rightarrow> ti \<Rightarrow> 'w job \<Rightarrow> 'w job" where
  "refresh_from_db env k s = s\<lparr>ti_memory := (ti_memory s)(k := db_state env (task_id_of k) (airflow s))\<rparr>"

definition refresh_task_instances_state :: "'w job_env \<Rightarrow> ti list \<Rightarrow> 'w job \<Rightarrow> 'w job" where
  "refresh_task_instances_state env all_ti s = foldl (\<lambda>s k. refresh_from_db env k s) s all_ti"

definition set_state :: "'w job_env \<Rightarrow> ti \<Rightarrow> af_state \<Rightarrow> 'w job \<Rightarrow> 'w job" where
  "set_state env k st s =
     s\<lparr>ti_memory := (ti_memory s)(k := Some st), airflow := set_db_state env (task_id_of k) st (airflow s)\<rparr>"

text \<open>\<open>_task_instances_for_dag_run\<close>: what has no state is scheduled, what was removed is left out.\<close>

definition task_instances_for_dag_run :: "'w job_env \<Rightarrow> ti list \<Rightarrow> 'w \<Rightarrow> ti list \<times> (ti \<Rightarrow> af_state option) \<times> 'w" where
  "task_instances_for_dag_run env tis w =
     (let w' = foldl (\<lambda>w k. if db_state env (task_id_of k) w = None
                            then set_db_state env (task_id_of k) AF_SCHEDULED w else w) w tis
      in (filter (\<lambda>k. db_state env (task_id_of k) w' \<noteq> Some AF_REMOVED) tis,
          (\<lambda>k. db_state env (task_id_of k) w'), w'))"

section \<open>One round\<close>

definition finish_as_failed :: "ti \<Rightarrow> 'w job \<Rightarrow> 'w job" where
  "finish_as_failed k s =
     s\<lparr>failed := add_ti k (failed s), to_run := pop_ti k (to_run s), running := pop_ti k (running s)\<rparr>"

definition send_to_executor :: "'w job_env \<Rightarrow> ti \<Rightarrow> 'w job \<Rightarrow> 'w job" where
  "send_to_executor env k s =
     (let s = set_state env k AF_QUEUED s
      in s\<lparr>airflow := queue_task_instance env k (airflow s), to_run := pop_ti k (to_run s),
           running := add_ti k (running s), waiting := add_ti k (waiting s)\<rparr>)"

definition visit_runnable :: "'w job_env \<Rightarrow> ti \<Rightarrow> 'w job \<Rightarrow> 'w job" where
  "visit_runnable env k s =
     (case dependencies_met env (task_id_of k) (ti_memory s k) (airflow s) of
        (met, st, w) \<Rightarrow>
          let s = s\<lparr>ti_memory := (ti_memory s)(k := st), airflow := w\<rparr>
          in if met then
               (let s = refresh_from_db env k s
                in if ti_memory s k \<in> {Some AF_SCHEDULED, Some AF_UP_FOR_RETRY} \<and> \<not> has_task env k (airflow s)
                   then send_to_executor env k s else s)
             else if st = Some AF_UPSTREAM_FAILED then finish_as_failed k s
             else if st = Some AF_UP_FOR_RETRY
             then s\<lparr>running := pop_ti k (running s), to_run := add_ti k (to_run s)\<rparr>
             else s\<lparr>not_ready := add_ti k (not_ready s)\<rparr>)"

definition visit :: "'w job_env \<Rightarrow> job_config \<Rightarrow> ti \<Rightarrow> 'w job \<Rightarrow> 'w job" where
  "visit env cfg k s =
     (let s = (if optimize cfg then s else refresh_from_db env k s);
          s = (if ti_memory s k = None then set_state env k AF_SCHEDULED s else s)
      in case ti_memory s k of
           Some AF_SUCCESS \<Rightarrow>
             s\<lparr>succeeded := add_ti k (succeeded s), to_run := pop_ti k (to_run s), running := pop_ti k (running s)\<rparr>
         | Some AF_SKIPPED \<Rightarrow>
             s\<lparr>skipped := add_ti k (skipped s), to_run := pop_ti k (to_run s), running := pop_ti k (running s)\<rparr>
         | Some AF_FAILED \<Rightarrow> finish_as_failed k s
         | Some AF_UPSTREAM_FAILED \<Rightarrow> finish_as_failed k s
         | _ \<Rightarrow> visit_runnable env k s)"

definition visit_task :: "'w job_env \<Rightarrow> job_config \<Rightarrow> 'w job \<Rightarrow> string \<Rightarrow> 'w job" where
  "visit_task env cfg s t = foldl (\<lambda>s k. visit env cfg k s) s (filter (\<lambda>k. task_id_of k = t) (to_run s))"

text \<open>The number of the try in the key of an event is replaced by 1.\<close>

definition manage_event :: "'w job_env \<Rightarrow> 'w job \<Rightarrow> ti \<times> af_state \<Rightarrow> 'w job" where
  "manage_event env s ev =
     (case ev of ((dag, task, date, n), state) \<Rightarrow>
        let k = (dag, task, date, 1)
        in if k \<notin> set (running s) \<or> k \<notin> set (waiting s) then s
           else (let s = s\<lparr>waiting := pop_ti k (waiting s)\<rparr>;
                     s = (if ti_memory s k \<in> {Some AF_RUNNING, Some AF_QUEUED} then refresh_from_db env k s else s);
                     s = (if state \<in> {AF_FAILED, AF_SUCCESS} \<and> ti_memory s k \<in> {Some AF_RUNNING, Some AF_QUEUED}
                          then (case fail_task_instance env task (airflow s) of
                                  (st, w) \<Rightarrow> s\<lparr>ti_memory := (ti_memory s)(k := st), airflow := w\<rparr>)
                          else s)
                 in if state = AF_UPSTREAM_FAILED then s\<lparr>running := pop_ti k (running s)\<rparr> else s))"

definition manage_executor_state :: "'w job_env \<Rightarrow> 'w job \<Rightarrow> 'w job" where
  "manage_executor_state env s =
     (case get_event_buffer env (airflow s) of
        (events, w) \<Rightarrow> foldl (manage_event env) (s\<lparr>airflow := w\<rparr>) events)"

definition update_counter :: "'w job_env \<Rightarrow> job_config \<Rightarrow> 'w job \<Rightarrow> ti \<Rightarrow> 'w job" where
  "update_counter env cfg s k =
     (let s = (if optimize cfg then s else refresh_from_db env k s)
      in case ti_memory s k of
           Some AF_SUCCESS \<Rightarrow> s\<lparr>succeeded := add_ti k (succeeded s), running := pop_ti k (running s)\<rparr>
         | Some AF_SKIPPED \<Rightarrow> s\<lparr>skipped := add_ti k (skipped s), running := pop_ti k (running s)\<rparr>
         | Some AF_FAILED \<Rightarrow> s\<lparr>failed := add_ti k (failed s), running := pop_ti k (running s)\<rparr>
         | Some AF_UP_FOR_RETRY \<Rightarrow>
             if k \<in> set (waiting s) then s
             else s\<lparr>running := pop_ti k (running s), to_run := add_ti k (to_run s)\<rparr>
         | None \<Rightarrow>
             (let s = set_state env k AF_SCHEDULED s
              in s\<lparr>running := pop_ti k (running s), to_run := add_ti k (to_run s)\<rparr>)
         | _ \<Rightarrow> s)"

definition update_counters :: "'w job_env \<Rightarrow> job_config \<Rightarrow> 'w job \<Rightarrow> 'w job" where
  "update_counters env cfg s = foldl (update_counter env cfg) s (running s)"

definition find_deadlock :: "'w job \<Rightarrow> 'w job" where
  "find_deadlock s =
     (if not_ready s \<noteq> [] \<and> set (not_ready s) = set (to_run s) \<and> running s = []
      then s\<lparr>deadlocked := fold add_ti (to_run s) (deadlocked s), to_run := []\<rparr> else s)"

definition update_run :: "'w job_env \<Rightarrow> 'w job \<Rightarrow> 'w job" where
  "update_run env s =
     (if active_run s then (case update_dag_run env (airflow s) of (done, w) \<Rightarrow> s\<lparr>airflow := w, active_run := \<not> done\<rparr>)
      else s)"

text \<open>A round up to the heartbeats, which may raise, and the rest of it.\<close>

definition start_tasks :: "'w job_env \<Rightarrow> job_config \<Rightarrow> ti list \<Rightarrow> 'w job \<Rightarrow> 'w job" where
  "start_tasks env cfg all_ti s =
     foldl (visit_task env cfg) (refresh_task_instances_state env all_ti (s\<lparr>not_ready := []\<rparr>)) (sorted_tasks env)"

definition collect_results :: "'w job_env \<Rightarrow> job_config \<Rightarrow> ti list \<Rightarrow> 'w job \<Rightarrow> 'w job" where
  "collect_results env cfg all_ti s =
     (let s = refresh_task_instances_state env all_ti (find_deadlock s);
          s = manage_executor_state env s;
          s = s\<lparr>airflow := clean_zombies env (airflow s)\<rparr>
      in update_run env (update_counters env cfg s))"

section \<open>The loop\<close>

partial_function (option) process_dag_task_instances ::
  "'w job_env \<Rightarrow> job_config \<Rightarrow> ti list \<Rightarrow> 'w job \<Rightarrow> (unit result \<times> 'w job) option"
where
  "process_dag_task_instances env cfg all_ti s =
     (if (to_run s = [] \<and> running s = []) \<or> deadlocked s \<noteq> [] then Some (Inr (), s)
      else if run_is_killed env (airflow s)
      then Some (Inl (DatabandRuntimeError ''SingleDagRunJob scheduling main loop''), s)
      else
        (let s = start_tasks env cfg all_ti s
         in case heartbeats env (airflow s) of
              (Inl e, w) \<Rightarrow> Some (Inl e, s\<lparr>airflow := w\<rparr>)
            | (Inr u, w) \<Rightarrow>
                (let s = collect_results env cfg all_ti (s\<lparr>airflow := w\<rparr>)
                 in if job_fail_fast cfg \<and> failed s \<noteq> []
                    then Some (Inl (DatabandFailFastError (join_str '','' (map task_id_of (failed s)))), s)
                    else process_dag_task_instances env cfg all_ti s)))"

definition job_has_errors :: "'w job \<Rightarrow> bool" where
  "job_has_errors s = (failed s \<noteq> [] \<or> deadlocked s \<noteq> [])"

definition initial_job :: "ti list \<Rightarrow> (ti \<Rightarrow> af_state option) \<Rightarrow> 'w \<Rightarrow> 'w job" where
  "initial_job tis memory w =
     \<lparr>to_run = tis, running = [], waiting = [], succeeded = [], skipped = [], failed = [], not_ready = [],
      deadlocked = [], active_run = True, ti_memory = memory, airflow = w\<rparr>"

text \<open>\<open>_execute\<close>; the executor is ended whatever happens.\<close>

definition execute_job ::
  "'w job_env \<Rightarrow> job_config \<Rightarrow> ti list \<Rightarrow> 'w \<Rightarrow> (unit result \<times> 'w job) option" where
  "execute_job env cfg tis w =
     (case task_instances_for_dag_run env tis w of
        (ks, memory, w) \<Rightarrow>
          let finish = (\<lambda>s. s\<lparr>airflow := end_executor env (airflow s)\<rparr>)
          in if ks = [] then Some (Inl (DatabandSystemError ''There are no task instances to run!''), finish (initial_job [] memory w))
             else map_option (\<lambda>(r, s).
                 (rbind r (\<lambda>_. if job_has_errors s
                             then Inl (DatabandRunError ''Airflow executor has failed to run the run'') else Inr ()),
                  finish s))
               (process_dag_task_instances env cfg ks (initial_job ks memory w)))"

text \<open>The number of the current try, from the counter that Airflow raises when a try starts.\<close>

definition get_af_task_try_number :: "bool \<Rightarrow> int \<Rightarrow> int" where
  "get_af_task_try_number finished try_number = (if finished then try_number - 1 else try_number)"

text \<open>What a state of Airflow changes in the task run: the new state, and whether it is tracked.\<close>

definition databand_update ::
  "af_state option \<Rightarrow> task_run_state option \<Rightarrow> task_run_state \<Rightarrow> (task_run_state \<times> bool) option" where
  "databand_update st current upstream_state =
     (if st = Some AF_UPSTREAM_FAILED \<and> current \<noteq> Some UPSTREAM_FAILED then Some (upstream_state, True)
      else if st = Some AF_SUCCESS \<and> current \<noteq> Some SUCCESS then Some (SUCCESS, False)
      else if st = Some AF_FAILED \<and> current \<noteq> Some FAILED then Some (FAILED, False)
      else None)"

section \<open>Every task instance is in one place\<close>

definition total :: "'w job \<Rightarrow> ti \<Rightarrow> nat" where
  "total s x =
     count_list (to_run s) x + count_list (running s) x + count_list (succeeded s) x + count_list (skipped s) x +
     count_list (failed s) x + count_list (deadlocked s) x"

definition partitioned :: "ti list \<Rightarrow> 'w job \<Rightarrow> bool" where
  "partitioned all s = (\<forall>x. total s x = (if x \<in> set all then 1 else 0))"

lemma count_pop [simp]: "count_list (pop_ti k xs) x = (if x = k then 0 else count_list xs x)"
  by (induction xs) (auto simp: pop_ti_def)

lemma count_add [simp]:
  "count_list (add_ti k xs) x = (if x = k \<and> k \<notin> set xs then 1 else count_list xs x)"
  by (auto simp: add_ti_def)

lemma set_pop [simp]: "set (pop_ti k xs) = set xs - {k}"
  by (auto simp: pop_ti_def)

lemma set_add [simp]: "set (add_ti k xs) = insert k (set xs)"
  by (auto simp: add_ti_def)

lemma in_set_count: "x \<in> set xs \<longleftrightarrow> 0 < count_list xs x"
  using count_list_0_iff [of xs x] by auto

lemma distinct_count: "(\<forall>x. count_list xs x \<le> 1) \<Longrightarrow> distinct xs"
proof (induction xs)
  case (Cons a xs)
  have "count_list (a # xs) a \<le> 1" using Cons.prems by blast
  then have "a \<notin> set xs" using count_list_0_iff [of xs a] by simp
  moreover have "\<forall>x. count_list xs x \<le> 1"
    using Cons.prems by (metis count_list.simps(2) le_add1 le_trans)
  ultimately show ?case using Cons.IH by simp
qed simp

lemma distinct_count_one: "distinct xs \<Longrightarrow> count_list xs x = (if x \<in> set xs then 1 else 0)"
  by (induction xs) auto

lemma count_mset_list: "count (mset xs) x = count_list xs x"
  by (induction xs) auto

lemma partitioned_le:
  assumes "partitioned all s" shows "total s x \<le> 1"
proof -
  have "total s x = (if x \<in> set all then 1 else 0)" using assms unfolding partitioned_def by blast
  then show ?thesis by simp
qed

lemma partitioned_distinct:
  assumes "partitioned all s" shows "distinct (to_run s)" "distinct (running s)"
proof -
  have "\<forall>x. count_list (to_run s) x \<le> 1" "\<forall>x. count_list (running s) x \<le> 1"
    using partitioned_le [OF assms] unfolding total_def by (meson le_trans trans_le_add1 le_add1 le_add2)+
  then show "distinct (to_run s)" "distinct (running s)" using distinct_count by blast+
qed

text \<open>Moving a key from one of the two working lists to another list keeps the partition.\<close>

definition moved :: "ti list \<Rightarrow> ti \<Rightarrow> 'w job \<Rightarrow> 'w job \<Rightarrow> bool" where
  "moved all k s t =
     (partitioned all t \<and> set (to_run s) - {k} \<subseteq> set (to_run t) \<and> set (running s) - {k} \<subseteq> set (running t))"

lemma moved_refl: "partitioned all s \<Longrightarrow> moved all k s s"
  by (auto simp: moved_def)

lemma moved_same:
  assumes "moved all k s t" "to_run u = to_run t" "running u = running t" "succeeded u = succeeded t"
    "skipped u = skipped t" "failed u = failed t" "deadlocked u = deadlocked t"
  shows "moved all k s u"
  using assms by (simp add: moved_def partitioned_def total_def)

lemma moved_from:
  assumes "partitioned all s" "k \<in> set (to_run s) \<or> k \<in> set (running s)"
    and "to_run t = (if a then add_ti k (to_run s) else pop_ti k (to_run s))"
    and "running t = (if b then add_ti k (running s) else pop_ti k (running s))"
    and "succeeded t = (if c then add_ti k (succeeded s) else succeeded s)"
    and "skipped t = (if d then add_ti k (skipped s) else skipped s)"
    and "failed t = (if e then add_ti k (failed s) else failed s)"
    and "deadlocked t = deadlocked s"
    and one: "(if a then 1 else 0) + (if b then 1 else 0) + (if c then 1 else 0) + (if d then 1 else 0) +
      (if e then 1 else 0) = (1::nat)"
  shows "moved all k s t"
proof -
  have le: "total s k \<le> 1" using partitioned_le [OF assms(1)] .
  have pos: "0 < count_list (to_run s) k + count_list (running s) k" using assms(2) by (auto simp: in_set_count)
  have zero: "count_list (succeeded s) k = 0" "count_list (skipped s) k = 0" "count_list (failed s) k = 0"
    "count_list (deadlocked s) k = 0" using le pos unfolding total_def by linarith+
  have "total t x = total s x" for x
  proof (cases "x = k")
    case True
    have "total s k = 1" using le pos unfolding total_def by linarith
    moreover have add: "count_list xs k \<le> 1 \<Longrightarrow> count_list (add_ti k xs) k = 1" for xs
      using in_set_count [of k xs] by auto
    have "count_list (to_run s) k \<le> 1" "count_list (running s) k \<le> 1" using le unfolding total_def by linarith+
    then have "count_list (to_run t) k = (if a then 1 else 0)" "count_list (running t) k = (if b then 1 else 0)"
      "count_list (succeeded t) k = (if c then 1 else 0)" "count_list (skipped t) k = (if d then 1 else 0)"
      "count_list (failed t) k = (if e then 1 else 0)" "count_list (deadlocked t) k = 0"
      unfolding assms(3-8) using add zero by simp_all
    then have "total t k = 1" using one unfolding total_def by linarith
    ultimately show ?thesis using True by simp
  qed (simp add: total_def assms(3-8))
  then show ?thesis using assms(1) by (auto simp: moved_def partitioned_def assms(3,4))
qed

lemma same_lists [simp]:
  "to_run (refresh_from_db env k s) = to_run s" "running (refresh_from_db env k s) = running s"
  "succeeded (refresh_from_db env k s) = succeeded s" "skipped (refresh_from_db env k s) = skipped s"
  "failed (refresh_from_db env k s) = failed s" "deadlocked (refresh_from_db env k s) = deadlocked s"
  "to_run (set_state env k st s) = to_run s" "running (set_state env k st s) = running s"
  "succeeded (set_state env k st s) = succeeded s" "skipped (set_state env k st s) = skipped s"
  "failed (set_state env k st s) = failed s" "deadlocked (set_state env k st s) = deadlocked s"
  by (simp_all add: refresh_from_db_def set_state_def)

lemma partitioned_same:
  assumes "partitioned all s" "to_run u = to_run s" "running u = running s" "succeeded u = succeeded s"
    "skipped u = skipped s" "failed u = failed s" "deadlocked u = deadlocked s"
  shows "partitioned all u"
  using assms by (simp add: partitioned_def total_def)

lemma partitioned_of_moved: "moved all k s t \<Longrightarrow> partitioned all t"
  by (simp add: moved_def)

lemmas moving = moved_from [where a = False and b = False and c = True and d = False and e = False]
  moved_from [where a = False and b = False and c = False and d = True and e = False]
  moved_from [where a = False and b = False and c = False and d = False and e = True]
  moved_from [where a = False and b = True and c = False and d = False and e = False]
  moved_from [where a = True and b = False and c = False and d = False and e = False]

lemma finish_as_failed_moved:
  assumes "partitioned all s" "k \<in> set (to_run s)"
  shows "moved all k s (finish_as_failed k s)"
  by (rule moving(3)) (use assms in \<open>auto simp: finish_as_failed_def\<close>)

lemma send_to_executor_moved:
  assumes "partitioned all s" "k \<in> set (to_run s)"
  shows "moved all k s (send_to_executor env k s)"
  by (rule moving(4)) (use assms in \<open>auto simp: send_to_executor_def Let_def set_state_def\<close>)

text \<open>Steps that change no list may come before and after.\<close>

definition same_places :: "'w job \<Rightarrow> 'w job \<Rightarrow> bool" where
  "same_places s t = (to_run t = to_run s \<and> running t = running s \<and> succeeded t = succeeded s \<and>
     skipped t = skipped s \<and> failed t = failed s \<and> deadlocked t = deadlocked s)"

lemma moved_after_same:
  "same_places s s' \<Longrightarrow> moved all k s' t \<Longrightarrow> moved all k s t"
  by (simp add: same_places_def moved_def)

lemma partitioned_same_places: "same_places s t \<Longrightarrow> partitioned all s \<Longrightarrow> partitioned all t"
  by (simp add: same_places_def partitioned_def total_def)

lemma moved_same_places: "same_places s t \<Longrightarrow> partitioned all s \<Longrightarrow> moved all k s t"
  using partitioned_same_places [of s t all] by (auto simp: same_places_def moved_def)

lemma same_places_simps [simp]:
  "same_places s s" "same_places s (refresh_from_db env k s)" "same_places s (set_state env k st s)"
  "same_places s (s\<lparr>airflow := w\<rparr>)" "same_places s (s\<lparr>not_ready := n\<rparr>)" "same_places s (s\<lparr>waiting := n\<rparr>)"
  by (simp_all add: same_places_def)

lemma same_places_trans: "same_places s t \<Longrightarrow> same_places t u \<Longrightarrow> same_places s u"
  by (simp add: same_places_def)

lemma visit_runnable_moved:
  assumes "partitioned all s" "k \<in> set (to_run s)"
  shows "moved all k s (visit_runnable env k s)"
proof -
  obtain met st w where deps: "dependencies_met env (task_id_of k) (ti_memory s k) (airflow s) = (met, st, w)"
    by (metis prod_cases3)
  obtain u where u: "u = s\<lparr>ti_memory := (ti_memory s)(k := st), airflow := w\<rparr>" by blast
  have same: "same_places s u" by (simp add: same_places_def u)
  have p: "partitioned all u" by (rule partitioned_same_places [OF same assms(1)])
  have k: "k \<in> set (to_run u)" using assms(2) by (simp add: u)
  let ?r = "refresh_from_db env k u"
  have r: "same_places u ?r" "partitioned all ?r" "k \<in> set (to_run ?r)"
    using p k partitioned_same_places [of u ?r] by simp_all
  have "moved all k u (send_to_executor env k ?r)" "moved all k u ?r"
    using moved_after_same [OF r(1) send_to_executor_moved [OF r(2,3)]] moved_same_places [OF r(1) p] by blast+
  moreover have "moved all k u (finish_as_failed k u)" using finish_as_failed_moved [OF p k] .
  moreover have "moved all k u (u\<lparr>not_ready := n\<rparr>)" for n
    using p by (intro moved_same_places) simp_all
  moreover have "moved all k u (u\<lparr>running := pop_ti k (running u), to_run := add_ti k (to_run u)\<rparr>)"
    by (rule moving(5)) (use p k in auto)
  ultimately have "moved all k u (visit_runnable env k s)"
    unfolding visit_runnable_def deps prod.case Let_def u [symmetric] by simp
  then show ?thesis by (rule moved_after_same [OF same])
qed

lemma visit_moved:
  assumes "partitioned all s" "k \<in> set (to_run s)"
  shows "moved all k s (visit env cfg k s)"
proof -
  let ?r = "if optimize cfg then s else refresh_from_db env k s"
  let ?s = "if ti_memory ?r k = None then set_state env k AF_SCHEDULED ?r else ?r"
  have "same_places s ?r" "same_places ?r ?s" by simp_all
  then have same: "same_places s ?s" by (rule same_places_trans)
  obtain u where u: "u = ?s" by blast
  have su: "same_places s u" unfolding u by (rule same)
  have p: "partitioned all u" by (rule partitioned_same_places [OF su assms(1)])
  have k: "k \<in> set (to_run u)" using assms(2) su by (simp add: same_places_def)
  have "moved all k u (u\<lparr>succeeded := add_ti k (succeeded u), to_run := pop_ti k (to_run u), running := pop_ti k (running u)\<rparr>)"
    by (rule moving(1)) (use p k in auto)
  moreover have "moved all k u (u\<lparr>skipped := add_ti k (skipped u), to_run := pop_ti k (to_run u), running := pop_ti k (running u)\<rparr>)"
    by (rule moving(2)) (use p k in auto)
  ultimately have moved: "moved all k u (case ti_memory u k of
           Some AF_SUCCESS \<Rightarrow>
             u\<lparr>succeeded := add_ti k (succeeded u), to_run := pop_ti k (to_run u), running := pop_ti k (running u)\<rparr>
         | Some AF_SKIPPED \<Rightarrow>
             u\<lparr>skipped := add_ti k (skipped u), to_run := pop_ti k (to_run u), running := pop_ti k (running u)\<rparr>
         | Some AF_FAILED \<Rightarrow> finish_as_failed k u
         | Some AF_UPSTREAM_FAILED \<Rightarrow> finish_as_failed k u
         | _ \<Rightarrow> visit_runnable env k u)"
    using finish_as_failed_moved [of all u k] visit_runnable_moved [of all u k env] p k
    by (simp split: option.split af_state.split)
  show ?thesis using moved_after_same [OF su moved] unfolding u visit_def Let_def .
qed

lemma fold_moved:
  assumes step: "\<And>s k. partitioned all s \<Longrightarrow> k \<in> set (xs s) \<Longrightarrow> moved all k s (f s k)"
    and xs: "xs = to_run \<or> xs = running"
    and "partitioned all s" "distinct ks" "set ks \<subseteq> set (xs s)"
  shows "partitioned all (foldl f s ks)"
  using assms(3-5)
proof (induction ks arbitrary: s)
  case (Cons k ks)
  have m: "moved all k s (f s k)" using Cons.prems by (intro step) auto
  then have "set (xs s) - {k} \<subseteq> set (xs (f s k))" using xs by (auto simp: moved_def)
  then have "set ks \<subseteq> set (xs (f s k))" using Cons.prems(2,3) by auto
  then show ?case using Cons m by (simp add: moved_def)
qed simp

lemma visit_task_partitioned: "partitioned all s \<Longrightarrow> partitioned all (visit_task env cfg s t)"
  unfolding visit_task_def
  by (rule fold_moved [where xs = to_run]) (auto intro: visit_moved partitioned_distinct distinct_filter)

lemma pop_absent: "k \<notin> set xs \<Longrightarrow> pop_ti k xs = xs"
  unfolding pop_ti_def by (induction xs) auto

lemma running_not_to_run:
  assumes "partitioned all s" "k \<in> set (running s)" shows "k \<notin> set (to_run s)"
  using partitioned_le [OF assms(1), of k] assms(2) by (simp add: total_def in_set_count)

lemma update_counter_moved:
  assumes "partitioned all s" "k \<in> set (running s)"
  shows "moved all k s (update_counter env cfg s k)"
proof -
  obtain u where u: "u = (if optimize cfg then s else refresh_from_db env k s)" by blast
  have su: "same_places s u" by (simp add: u)
  have p: "partitioned all u" by (rule partitioned_same_places [OF su assms(1)])
  have k: "k \<in> set (running u)" using assms(2) su by (simp add: same_places_def)
  have pop: "pop_ti k (to_run u) = to_run u" using running_not_to_run [OF p k] by (rule pop_absent)
  let ?t = "set_state env k AF_SCHEDULED u"
  have "moved all k u (?t\<lparr>running := pop_ti k (running ?t), to_run := add_ti k (to_run ?t)\<rparr>)"
    "moved all k u (u\<lparr>running := pop_ti k (running u), to_run := add_ti k (to_run u)\<rparr>)"
    by (rule moving(5); use p k in auto)+
  moreover have "moved all k u (u\<lparr>succeeded := add_ti k (succeeded u), running := pop_ti k (running u)\<rparr>)"
    by (rule moving(1)) (use p k pop in auto)
  moreover have "moved all k u (u\<lparr>skipped := add_ti k (skipped u), running := pop_ti k (running u)\<rparr>)"
    by (rule moving(2)) (use p k pop in auto)
  moreover have "moved all k u (u\<lparr>failed := add_ti k (failed u), running := pop_ti k (running u)\<rparr>)"
    by (rule moving(3)) (use p k pop in auto)
  ultimately have "moved all k u (update_counter env cfg s k)"
    unfolding update_counter_def u [symmetric] Let_def
    using moved_refl [OF p] by (simp split: option.split af_state.split)
  then show ?thesis by (rule moved_after_same [OF su])
qed

lemma update_counters_partitioned: "partitioned all s \<Longrightarrow> partitioned all (update_counters env cfg s)"
  unfolding update_counters_def
  by (rule fold_moved [where xs = running]) (auto intro: update_counter_moved partitioned_distinct)

text \<open>An event changes no list, unless it says that a task was given up.\<close>

lemma manage_event_places:
  "snd ev \<noteq> AF_UPSTREAM_FAILED \<Longrightarrow> same_places s (manage_event env s ev)"
  by (cases ev) (auto simp: manage_event_def same_places_def Let_def refresh_from_db_def split: prod.split)

lemma refresh_all_places [simp]: "same_places s (refresh_task_instances_state env ks s)"
  unfolding refresh_task_instances_state_def
proof (induction ks arbitrary: s)
  case (Cons k ks)
  show ?case unfolding foldl_Cons by (rule same_places_trans [OF same_places_simps(2) Cons.IH])
qed simp

definition no_giving_up :: "'w job_env \<Rightarrow> bool" where
  "no_giving_up env = (\<forall>w. \<forall>ev \<in> set (fst (get_event_buffer env w)). snd ev \<noteq> AF_UPSTREAM_FAILED)"

lemma manage_executor_state_places:
  assumes "no_giving_up env" shows "same_places s (manage_executor_state env s)"
proof -
  obtain events w where ev: "get_event_buffer env (airflow s) = (events, w)" by force
  then have "\<forall>ev \<in> set events. snd ev \<noteq> AF_UPSTREAM_FAILED"
    using assms unfolding no_giving_up_def by (metis fst_conv)
  then have "same_places s' (foldl (manage_event env) s' events)" for s'
  proof (induction events arbitrary: s')
    case (Cons e events)
    then show ?case using same_places_trans [OF manage_event_places [of e s' env]] by simp
  qed simp
  from same_places_trans [OF same_places_simps(4) this] show ?thesis
    unfolding manage_executor_state_def ev prod.case .
qed

lemma find_deadlock_partitioned:
  assumes "partitioned all s" shows "partitioned all (find_deadlock s)"
proof -
  have count: "count_list (fold add_ti ks ds) x = (if x \<in> set ks \<and> x \<notin> set ds then 1 else count_list ds x)" for ks ds x
    by (induction ks arbitrary: ds) auto
  have "count_list (fold add_ti (to_run s) (deadlocked s)) x = count_list (to_run s) x + count_list (deadlocked s) x" for x
    using partitioned_le [OF assms, of x] in_set_count [of x "to_run s"] in_set_count [of x "deadlocked s"]
    by (auto simp: count total_def)
  then have "total (find_deadlock s) x = total s x" for x by (simp add: find_deadlock_def total_def)
  then show ?thesis using assms unfolding partitioned_def by metis
qed

lemma start_tasks_partitioned:
  assumes "partitioned all s" shows "partitioned all (start_tasks env cfg ks s)"
proof -
  have "partitioned all (foldl (visit_task env cfg) s' ts)" if "partitioned all s'" for s' ts
    using that by (induction ts arbitrary: s') (simp_all add: visit_task_partitioned)
  moreover have "partitioned all (refresh_task_instances_state env ks (s\<lparr>not_ready := []\<rparr>))"
    using assms partitioned_same_places same_places_trans [OF same_places_simps(5) refresh_all_places] by blast
  ultimately show ?thesis by (simp add: start_tasks_def)
qed

lemma collect_results_partitioned:
  assumes "no_giving_up env" "partitioned all s"
  shows "partitioned all (collect_results env cfg ks s)"
proof -
  let ?a = "refresh_task_instances_state env ks (find_deadlock s)"
  let ?b = "manage_executor_state env ?a"
  let ?c = "?b\<lparr>airflow := clean_zombies env (airflow ?b)\<rparr>"
  have "partitioned all ?a" using partitioned_same_places [OF refresh_all_places find_deadlock_partitioned [OF assms(2)]] .
  then have "partitioned all ?c"
    using partitioned_same_places [OF same_places_trans [OF manage_executor_state_places [OF assms(1)] same_places_simps(4)]] by blast
  then have p: "partitioned all (update_counters env cfg ?c)" by (rule update_counters_partitioned)
  have "same_places t (update_run env t)" for t by (simp add: update_run_def same_places_def split: prod.split)
  from partitioned_same_places [OF this p] show ?thesis unfolding collect_results_def Let_def .
qed

section \<open>What a finished job has done\<close>

lemma loop_outcome:
  assumes "process_dag_task_instances env cfg ks s = Some (r, t)" "no_giving_up env" "partitioned all s"
  shows "partitioned all t \<and> (r = Inr () \<longrightarrow> (to_run t = [] \<and> running t = []) \<or> deadlocked t \<noteq> [])"
proof -
  have "process_dag_task_instances env cfg ks s = Some out \<Longrightarrow> no_giving_up env \<Longrightarrow> partitioned all s \<Longrightarrow>
      partitioned all (snd out) \<and>
      (fst out = Inr () \<longrightarrow> (to_run (snd out) = [] \<and> running (snd out) = []) \<or> deadlocked (snd out) \<noteq> [])" for out
  proof (induction env cfg ks s out rule: process_dag_task_instances.raw_induct [rotated 1, consumes 1, case_names body])
    case (body loop env cfg ks s out)
    let ?s = "start_tasks env cfg ks s"
    have ps: "partitioned all ?s" using body.prems(2) by (rule start_tasks_partitioned)
    obtain h w where h: "heartbeats env (airflow ?s) = (h, w)" by force
    have pw: "partitioned all (?s\<lparr>airflow := w\<rparr>)" by (rule partitioned_same_places [OF same_places_simps(4) ps])
    let ?c = "collect_results env cfg ks (?s\<lparr>airflow := w\<rparr>)"
    have pc: "partitioned all ?c" using collect_results_partitioned [OF body.prems(1) pw] .
    consider (stop) "(to_run s = [] \<and> running s = []) \<or> deadlocked s \<noteq> []"
      | (killed) "\<not> ((to_run s = [] \<and> running s = []) \<or> deadlocked s \<noteq> [])" "run_is_killed env (airflow s)"
      | (go) "\<not> ((to_run s = [] \<and> running s = []) \<or> deadlocked s \<noteq> [])" "\<not> run_is_killed env (airflow s)" by blast
    then show ?case
    proof cases
      case stop
      have "out = (Inr (), s)" using body(2) unfolding if_P [OF stop] by simp
      then show ?thesis using stop body.prems(2) by simp
    next
      case killed
      have "fst out \<noteq> Inr ()" "snd out = s"
        using body(2) unfolding if_not_P [OF killed(1)] if_P [OF killed(2)] by auto
      then show ?thesis using body.prems(2) by simp
    next
      case go
      show ?thesis
      proof (cases h)
        case (Inl e)
        then have "out = (Inl e, ?s\<lparr>airflow := w\<rparr>)" using body(2) unfolding if_not_P [OF go(1)] if_not_P [OF go(2)] Let_def h by simp
        then show ?thesis using pw by simp
      next
        case (Inr u)
        show ?thesis
        proof (cases "job_fail_fast cfg \<and> failed ?c \<noteq> []")
          case True
          then have "snd out = ?c" "fst out \<noteq> Inr ()" using body(2) unfolding if_not_P [OF go(1)] if_not_P [OF go(2)] Let_def h Inr by auto
          then show ?thesis using pc by simp
        next
          case False
          have "loop env cfg ks ?c = Some out"
            using body(2) unfolding if_not_P [OF go(1)] if_not_P [OF go(2)] Let_def h Inr prod.case sum.case if_not_P [OF False] .
          then show ?thesis using body(1) body.prems(1) pc by blast
        qed
      qed
    qed
  qed
  from this [of "(r, t)"] assms show ?thesis by simp
qed

lemma places_of_scheduled:
  assumes "distinct tis"
  shows "partitioned (fst (task_instances_for_dag_run env tis w))
    (initial_job (fst (task_instances_for_dag_run env tis w)) memory w')"
proof -
  have "distinct (fst (task_instances_for_dag_run env tis w))"
    using assms by (simp add: task_instances_for_dag_run_def Let_def)
  then show ?thesis
    unfolding partitioned_def total_def initial_job_def by (simp del: split_paired_All add: distinct_count_one)
qed

text \<open>A result of a task whose try did not start with number 1 is thrown away.\<close>

lemma later_try_is_ignored:
  assumes "(dag, task, date, 1) \<notin> set (running s)"
  shows "manage_event env s ((dag, task, date, n), st) = s"
  using assms by (simp add: manage_event_def)


text \<open>One task that succeeds while the executor beats.\<close>

definition example_env :: "af_state option job_env" where
  "example_env =
     \<lparr>db_state = (\<lambda>_ w. w), set_db_state = (\<lambda>_ st _. Some st), dependencies_met = (\<lambda>_ st w. (True, st, w)),
      has_task = (\<lambda>_ _. False), queue_task_instance = (\<lambda>_ w. w), heartbeats = (\<lambda>_. (Inr (), Some AF_SUCCESS)),
      get_event_buffer = (\<lambda>w. ([((''d'', ''t'', ''2020-01-01'', 2), AF_SUCCESS)], w)),
      fail_task_instance = (\<lambda>_ w. (Some AF_FAILED, w)), clean_zombies = (\<lambda>w. w), update_dag_run = (\<lambda>w. (True, w)),
      run_is_killed = (\<lambda>_. False), end_executor = (\<lambda>w. w), sorted_tasks = [''t'']\<rparr>"

definition example_cfg :: job_config where
  "example_cfg = \<lparr>optimize = True, job_fail_fast = True\<rparr>"

lemmas job_steps = start_tasks_def collect_results_def visit_task_def visit_def visit_runnable_def
  send_to_executor_def refresh_task_instances_state_def refresh_from_db_def set_state_def
  manage_executor_state_def manage_event_def update_counters_def update_counter_def find_deadlock_def
  update_run_def add_ti_def pop_ti_def task_id_of_def example_env_def example_cfg_def Let_def

lemma example_loop:
  "process_dag_task_instances example_env example_cfg [(''d'', ''t'', ''2020-01-01'', 1)]
     (initial_job [(''d'', ''t'', ''2020-01-01'', 1)] (\<lambda>_. Some AF_SCHEDULED) (Some AF_SCHEDULED)) =
   Some (Inr (), (initial_job [] (\<lambda>_. Some AF_SCHEDULED) (Some AF_SUCCESS))
     \<lparr>succeeded := [(''d'', ''t'', ''2020-01-01'', 1)], active_run := False,
      ti_memory := (\<lambda>_. Some AF_SCHEDULED)((''d'', ''t'', ''2020-01-01'', 1) := Some AF_SUCCESS)\<rparr>)"
  apply (subst process_dag_task_instances.simps)
  apply (simp add: job_steps initial_job_def)
  apply (subst process_dag_task_instances.simps)
  apply simp
  done


end
