(* ===== verification/DagRunTermination.thy ===== *)
theory DagRunTermination
  imports DagRunJob
begin

text \<open>
  When the scheduling loop of theory \<open>DagRunJob\<close> ends: with an executor that brings, at each heartbeat, at
  least one of the tasks it holds to an end, every round either takes a task instance out of \<open>to_run\<close>
  or \<open>running\<close> or finds the deadlock that ends the loop.
\<close>

section \<open>What is asked of Airflow and of the executor\<close>

definition end_state :: "af_state option \<Rightarrow> bool" where
  "end_state st = (st = Some AF_SUCCESS \<or> st = Some AF_FAILED \<or> st = Some AF_SKIPPED)"

definition held :: "'w job_env \<Rightarrow> 'w \<Rightarrow> ti set" where
  "held env w = {k. has_task env k w}"

text \<open>
  \<open>good\<close> are the states of the outside world between two heartbeats. The database keeps what is written, and
  the calls that are not meant to change a state or the tasks of the executor do not.
\<close>

definition faithful_db :: "'w job_env \<Rightarrow> ('w \<Rightarrow> bool) \<Rightarrow> bool" where
  "faithful_db env good =
     ((\<forall>t st w. good w \<longrightarrow> good (set_db_state env t st w) \<and> held env (set_db_state env t st w) = held env w \<and>
         (\<forall>u. db_state env u (set_db_state env t st w) = (if u = t then Some st else db_state env u w))) \<and>
      (\<forall>k w. good w \<and> task_id_of k \<notin> task_id_of ` held env w \<longrightarrow> good (queue_task_instance env k w) \<and>
         held env (queue_task_instance env k w) = insert k (held env w) \<and>
         (\<forall>u. db_state env u (queue_task_instance env k w) = db_state env u w)) \<and>
      (\<forall>w. good w \<longrightarrow> good (snd (update_dag_run env w)) \<and> held env (snd (update_dag_run env w)) = held env w \<and>
         (\<forall>u. db_state env u (snd (update_dag_run env w)) = db_state env u w)) \<and>
      (\<forall>w. good w \<longrightarrow> good (clean_zombies env w) \<and> held env (clean_zombies env w) = held env w \<and>
         (\<forall>u. end_state (db_state env u w) \<longrightarrow> end_state (db_state env u (clean_zombies env w))) \<and>
         (\<forall>u. db_state env u w = Some AF_QUEUED \<longrightarrow> db_state env u (clean_zombies env w) = Some AF_QUEUED)))"

text \<open>
  The check of the dependencies changes at most the state of its task; what it lets through is
  scheduled, and what it holds back does not wait for a retry.
\<close>

definition sound_dependencies :: "'w job_env \<Rightarrow> ('w \<Rightarrow> bool) \<Rightarrow> bool" where
  "sound_dependencies env good =
     (\<forall>t st w met st' v. good w \<longrightarrow> dependencies_met env t st w = (met, st', v) \<longrightarrow>
        good v \<and> held env v = held env w \<and> (\<forall>u. u \<noteq> t \<longrightarrow> db_state env u v = db_state env u w) \<and>
        (met \<longrightarrow> db_state env t v = Some AF_SCHEDULED) \<and> (\<not> met \<longrightarrow> st' \<noteq> Some AF_UP_FOR_RETRY))"

text \<open>
  A heartbeat brings some of the tasks the executor holds to an end, at least one when it holds any, and
  leaves the others as they are; its events are about those it has ended.
\<close>

definition progressing_executor :: "'w job_env \<Rightarrow> ('w \<Rightarrow> bool) \<Rightarrow> bool" where
  "progressing_executor env good =
     (\<forall>w v evs v'. good w \<longrightarrow> heartbeats env w = (Inr (), v) \<longrightarrow> get_event_buffer env v = (evs, v') \<longrightarrow>
        good v' \<and> held env v' = held env v \<and> (\<forall>u. db_state env u v' = db_state env u v) \<and>
        held env v \<subseteq> held env w \<and> (held env w \<noteq> {} \<longrightarrow> held env v \<noteq> held env w) \<and>
        (\<forall>k \<in> held env v. db_state env (task_id_of k) v = db_state env (task_id_of k) w) \<and>
        (\<forall>k \<in> held env w - held env v. end_state (db_state env (task_id_of k) v)) \<and>
        fst ` set evs \<subseteq> held env w - held env v)"

section \<open>Starting tasks\<close>

text \<open>
  The tasks of the executor are the running ones, and these are queued. \<open>started\<close> is relative to the lists
  \<open>ks\<close> and \<open>rs\<close> of the tasks to run and the running tasks at the start of the round.
\<close>

definition handed_over :: "'w job_env \<Rightarrow> ('w \<Rightarrow> bool) \<Rightarrow> 'w job \<Rightarrow> bool" where
  "handed_over env good s =
     (good (airflow s) \<and> distinct (running s) \<and> held env (airflow s) = set (running s) \<and>
      (\<forall>k \<in> set (running s). db_state env (task_id_of k) (airflow s) = Some AF_QUEUED))"

definition started_with :: "ti list \<Rightarrow> ti list \<Rightarrow> ti list \<Rightarrow> ti set \<Rightarrow> 'w job \<Rightarrow> bool" where
  "started_with ks rs seen taken s =
     (to_run s = filter (\<lambda>k. k \<notin> taken) ks \<and> set (running s) \<subseteq> set rs \<union> (taken \<inter> set ks) \<and>
      set (not_ready s) \<subseteq> set ks \<and> deadlocked s = [] \<and> (\<forall>k \<in> set seen. k \<in> taken \<or> k \<in> set (not_ready s)))"

definition started :: "'w job_env \<Rightarrow> ('w \<Rightarrow> bool) \<Rightarrow> ti list \<Rightarrow> ti list \<Rightarrow> ti list \<Rightarrow> 'w job \<Rightarrow> bool" where
  "started env good ks rs seen s = (handed_over env good s \<and> (\<exists>taken. started_with ks rs seen taken s))"

definition separate :: "ti list \<Rightarrow> ti list \<Rightarrow> bool" where
  "separate ks rs = (distinct ks \<and> set ks \<inter> set rs = {} \<and> inj_on task_id_of (set ks \<union> set rs))"

lemma pop_filter: "pop_ti k (filter (\<lambda>x. x \<notin> taken) ks) = filter (\<lambda>x. x \<notin> insert k taken) ks"
  by (auto simp: pop_ti_def intro: filter_cong)

lemma started_facts:
  assumes "started env good ks rs seen s" "separate ks rs" "k \<in> set (to_run s)"
  shows "k \<in> set ks" "k \<notin> set (running s)" "k \<notin> held env (airflow s)"
    "x \<in> set (running s) \<Longrightarrow> task_id_of x \<noteq> task_id_of k"
proof -
  obtain taken where t: "started_with ks rs seen taken s" and h: "handed_over env good s"
    using assms(1) unfolding started_def by blast
  show k: "k \<in> set ks" using t assms(3) by (simp add: started_with_def)
  have sub: "set (running s) \<subseteq> set rs \<union> set ks" using t unfolding started_with_def by blast
  have "k \<notin> taken" "k \<notin> set rs" using t assms(2,3) k unfolding started_with_def separate_def by auto
  then show r: "k \<notin> set (running s)" using t unfolding started_with_def by blast
  then show "k \<notin> held env (airflow s)" using h unfolding handed_over_def by simp
  assume x: "x \<in> set (running s)"
  have inj: "inj_on task_id_of (set ks \<union> set rs)" using assms(2) by (simp add: separate_def)
  have "x \<noteq> k" "x \<in> set ks \<union> set rs" using x r sub by auto
  then show "task_id_of x \<noteq> task_id_of k" using inj_onD [OF inj, of x k] k by blast
qed

text \<open>A step that leaves the tasks of the executor alone keeps them handed over.\<close>

lemma handed_over_same:
  assumes "handed_over env good s" "running t = running s" "good (airflow t)" "held env (airflow t) = held env (airflow s)"
    and "\<And>x. x \<in> set (running s) \<Longrightarrow> db_state env (task_id_of x) (airflow t) = db_state env (task_id_of x) (airflow s)"
  shows "handed_over env good t"
  using assms unfolding handed_over_def by simp

lemma started_pops:
  assumes "started env good ks rs seen s" "k \<in> set (to_run s)" "handed_over env good t"
    and "to_run t = pop_ti k (to_run s)" "set (running t) \<subseteq> insert k (set (running s))"
    and "not_ready t = not_ready s" "deadlocked t = deadlocked s"
  shows "started env good ks rs (k # seen) t"
proof -
  obtain taken where t: "started_with ks rs seen taken s" using assms(1) unfolding started_def by blast
  then have "k \<in> set ks" "to_run t = filter (\<lambda>x. x \<notin> insert k taken) ks"
    using assms(2,4) by (simp_all add: started_with_def pop_filter)
  then have "started_with ks rs (k # seen) (insert k taken) t"
    using t assms(5-7) unfolding started_with_def by auto
  then show ?thesis using assms(3) unfolding started_def by blast
qed

lemma started_waits:
  assumes "started env good ks rs seen s" "k \<in> set (to_run s)" "handed_over env good t"
    and "to_run t = to_run s" "running t = running s" "not_ready t = add_ti k (not_ready s)" "deadlocked t = deadlocked s"
  shows "started env good ks rs (k # seen) t"
proof -
  obtain taken where t: "started_with ks rs seen taken s" using assms(1) unfolding started_def by blast
  then have "k \<in> set ks" using assms(2) by (simp add: started_with_def)
  then have "started_with ks rs (k # seen) taken t"
    using t assms(4-7) unfolding started_with_def by auto
  then show ?thesis using assms(3) unfolding started_def by blast
qed

text \<open>Only a scheduled task instance that the executor does not hold is sent to it.\<close>

lemma sent_handed_over:
  assumes "handed_over env good s" "faithful_db env good" "k \<notin> held env (airflow s)"
    and "\<And>x. x \<in> set (running s) \<Longrightarrow> task_id_of x \<noteq> task_id_of k"
  shows "handed_over env good (send_to_executor env k s)"
proof -
  let ?w = "set_db_state env (task_id_of k) AF_QUEUED (airflow s)"
  have w: "good ?w" "held env ?w = held env (airflow s)"
    "\<And>u. db_state env u ?w = (if u = task_id_of k then Some AF_QUEUED else db_state env u (airflow s))"
    using assms(1,2) unfolding faithful_db_def handed_over_def by simp_all
  have "task_id_of k \<notin> task_id_of ` held env ?w"
    using w(2) assms(1,4) unfolding handed_over_def by (metis imageE)
  let ?v = "queue_task_instance env k ?w"
  have v: "good ?v" "held env ?v = insert k (held env ?w)" "\<And>u. db_state env u ?v = db_state env u ?w"
    using assms(2) w(1) \<open>task_id_of k \<notin> task_id_of ` held env ?w\<close> unfolding faithful_db_def by metis+
  have "k \<notin> set (running s)" using assms(1,3) by (simp add: handed_over_def)
  then show ?thesis
    using assms(1,4) v w by (auto simp: handed_over_def send_to_executor_def set_state_def Let_def add_ti_def)
qed

lemma visit_runnable_started:
  assumes "started env good ks rs seen s" "k \<in> set (to_run s)" "separate ks rs"
    and "faithful_db env good" "sound_dependencies env good"
  shows "started env good ks rs (k # seen) (visit_runnable env k s)"
proof -
  obtain met st w where deps: "dependencies_met env (task_id_of k) (ti_memory s k) (airflow s) = (met, st, w)"
    by (metis prod_cases3)
  note k = started_facts [OF assms(1,3,2)]
  have h: "handed_over env good s" using assms(1) by (simp add: started_def)
  then have "good (airflow s)" by (simp add: handed_over_def)
  then have w: "good w" "held env w = held env (airflow s)" "\<And>u. u \<noteq> task_id_of k \<Longrightarrow> db_state env u w = db_state env u (airflow s)"
    and met: "met \<Longrightarrow> db_state env (task_id_of k) w = Some AF_SCHEDULED"
    and waits: "\<not> met \<Longrightarrow> st \<noteq> Some AF_UP_FOR_RETRY"
    using assms(5) deps unfolding sound_dependencies_def by blast+
  obtain u where u: "u = s\<lparr>ti_memory := (ti_memory s)(k := st), airflow := w\<rparr>" by blast
  have hu: "handed_over env good u"
    by (rule handed_over_same [OF h]) (use w k(4) in \<open>auto simp: u\<close>)
  consider (sent) "met" | (failed) "\<not> met" "st = Some AF_UPSTREAM_FAILED" | (not_ready) "\<not> met" "st \<noteq> Some AF_UPSTREAM_FAILED"
    by blast
  then show ?thesis
  proof cases
    case sent
    let ?r = "refresh_from_db env k u"
    have nk: "k \<notin> held env w" using w(2) k(3) by simp
    then have nt: "\<not> has_task env k w" by (simp add: held_def)
    have "visit_runnable env k s = send_to_executor env k ?r"
      using met [OF sent] sent nt by (simp add: visit_runnable_def deps u refresh_from_db_def Let_def)
    moreover have "handed_over env good ?r"
      using hu by (simp add: handed_over_def refresh_from_db_def)
    then have "handed_over env good (send_to_executor env k ?r)"
      using nk k(4) by (intro sent_handed_over [OF _ assms(4)]) (auto simp: refresh_from_db_def u)
    ultimately show ?thesis
      by (intro started_pops [OF assms(1,2)])
        (auto simp: send_to_executor_def Let_def set_state_def refresh_from_db_def u)
  next
    case failed
    then have "visit_runnable env k s = finish_as_failed k u" by (simp add: visit_runnable_def deps u Let_def)
    moreover have "pop_ti k (running s) = running s" using k(2) by (simp add: pop_absent)
    ultimately show ?thesis
      using hu by (intro started_pops [OF assms(1,2)]) (auto simp: finish_as_failed_def u handed_over_def)
  next
    case not_ready
    then have "visit_runnable env k s = u\<lparr>not_ready := add_ti k (not_ready u)\<rparr>"
      using waits by (simp add: visit_runnable_def deps u Let_def)
    then show ?thesis
      using hu by (intro started_waits [OF assms(1,2)]) (simp_all add: u handed_over_def)
  qed
qed

lemma visit_started:
  assumes "started env good ks rs seen s" "k \<in> set (to_run s)" "separate ks rs"
    and "faithful_db env good" "sound_dependencies env good"
  shows "started env good ks rs (k # seen) (visit env cfg k s)"
proof -
  note k = started_facts [OF assms(1,3,2)]
  let ?r = "if optimize cfg then s else refresh_from_db env k s"
  obtain u where u: "u = (if ti_memory ?r k = None then set_state env k AF_SCHEDULED ?r else ?r)" by blast
  have lists: "to_run u = to_run s" "running u = running s" "deadlocked u = deadlocked s"
    by (simp_all add: u set_state_def refresh_from_db_def)
  have ready: "not_ready u = not_ready s" by (simp add: u set_state_def refresh_from_db_def)
  have h: "handed_over env good s" using assms(1) by (simp add: started_def)
  let ?w = "set_db_state env (task_id_of k) AF_SCHEDULED (airflow s)"
  have w: "good ?w" "held env ?w = held env (airflow s)"
    "\<And>x. x \<noteq> task_id_of k \<Longrightarrow> db_state env x ?w = db_state env x (airflow s)"
    using assms(4) h unfolding faithful_db_def handed_over_def by simp_all
  have world: "airflow u = airflow s \<or> airflow u = ?w" by (simp add: u set_state_def refresh_from_db_def)
  have hu: "handed_over env good u"
    using world
  proof
    assume "airflow u = airflow s"
    then show ?thesis using h lists(2) by (simp add: handed_over_def)
  next
    assume a: "airflow u = ?w"
    show ?thesis
      by (rule handed_over_same [OF h lists(2)]) (use a w k(4) in auto)
  qed
  obtain taken where "started_with ks rs seen taken s" using assms(1) unfolding started_def by blast
  then have "started_with ks rs seen taken u" by (simp add: started_with_def lists ready)
  with hu have su: "started env good ks rs seen u" unfolding started_def by blast
  have ku: "k \<in> set (to_run u)" using assms(2) lists by simp
  have pop: "pop_ti k (running u) = running u" using k(2) lists by (simp add: pop_absent)
  have finished: "started env good ks rs (k # seen) v"
    if "to_run v = pop_ti k (to_run u)" "running v = pop_ti k (running u)" "not_ready v = not_ready u"
      "deadlocked v = deadlocked u" "airflow v = airflow u" for v
    by (rule started_pops [OF su ku]) (use that hu pop in \<open>auto simp: handed_over_def\<close>)
  have "started env good ks rs (k # seen) (visit_runnable env k u)"
    by (rule visit_runnable_started [OF su ku assms(3-5)])
  then show ?thesis
    unfolding visit_def Let_def u [symmetric]
    by (auto split: option.split af_state.split intro!: finished simp: finish_as_failed_def)
qed

lemma visit_runnable_to_run:
  "to_run (visit_runnable env k s) \<in> {to_run s, pop_ti k (to_run s), add_ti k (to_run s)}"
proof -
  obtain met st w where "dependencies_met env (task_id_of k) (ti_memory s k) (airflow s) = (met, st, w)"
    by (metis prod_cases3)
  then show ?thesis
    by (auto simp: visit_runnable_def Let_def send_to_executor_def finish_as_failed_def set_state_def refresh_from_db_def)
qed

lemma visit_to_run: "to_run (visit env cfg k s) \<in> {to_run s, pop_ti k (to_run s), add_ti k (to_run s)}"
proof -
  let ?r = "if optimize cfg then s else refresh_from_db env k s"
  obtain u where u: "u = (if ti_memory ?r k = None then set_state env k AF_SCHEDULED ?r else ?r)" by blast
  have "to_run u = to_run s" by (simp add: u)
  then show ?thesis
    using visit_runnable_to_run [of env k u]
    unfolding visit_def Let_def u [symmetric]
    by (auto split: option.split af_state.split simp: finish_as_failed_def)
qed

lemma visits_started:
  assumes "started env good ks rs seen s" "set vs \<subseteq> set (to_run s)" "distinct vs" "separate ks rs"
    and "faithful_db env good" "sound_dependencies env good"
  shows "started env good ks rs (rev vs @ seen) (foldl (\<lambda>s k. visit env cfg k s) s vs)"
  using assms(1-3)
proof (induction vs arbitrary: s seen)
  case (Cons k vs)
  have k: "k \<in> set (to_run s)" using Cons.prems(2) by simp
  let ?s = "visit env cfg k s"
  have st: "started env good ks rs (k # seen) ?s" by (rule visit_started [OF Cons.prems(1) k assms(4-6)])
  have "set (to_run s) - {k} \<subseteq> set (to_run ?s)"
    using visit_to_run [of env cfg k s] by auto
  then have "set vs \<subseteq> set (to_run ?s)" using Cons.prems(2,3) by auto
  from Cons.IH [OF st this] Cons.prems(3) show ?case by simp
qed simp

lemma started_mono: "started env good ks rs seen s \<Longrightarrow> set d \<subseteq> set seen \<Longrightarrow> started env good ks rs d s"
  unfolding started_def started_with_def by blast

lemma started_absent:
  assumes "started env good ks rs seen s"
  shows "started env good ks rs (filter (\<lambda>k. k \<notin> set (to_run s)) ks @ seen) s"
proof -
  obtain taken where "started_with ks rs seen taken s" using assms unfolding started_def by blast
  then have "started_with ks rs (filter (\<lambda>k. k \<notin> set (to_run s)) ks @ seen) taken s"
    unfolding started_with_def by auto
  then show ?thesis using assms unfolding started_def by blast
qed

lemma visit_task_started:
  assumes "started env good ks rs seen s" "separate ks rs" "faithful_db env good" "sound_dependencies env good"
  shows "started env good ks rs (filter (\<lambda>k. task_id_of k = t) ks @ seen) (visit_task env cfg s t)"
proof -
  let ?vs = "filter (\<lambda>k. task_id_of k = t) (to_run s)"
  let ?rest = "filter (\<lambda>k. k \<notin> set (to_run s)) ks @ seen"
  have "distinct (to_run s)" using assms(1,2) by (auto simp: started_def started_with_def separate_def)
  then have "started env good ks rs (rev ?vs @ ?rest) (visit_task env cfg s t)"
    unfolding visit_task_def by (intro visits_started [OF started_absent [OF assms(1)] _ _ assms(2-4)]) auto
  then show ?thesis by (rule started_mono) auto
qed

lemma start_tasks_started:
  assumes "handed_over env good s" "deadlocked s = []" "separate (to_run s) (running s)"
    and "task_id_of ` set (to_run s) \<subseteq> set (sorted_tasks env)" "faithful_db env good" "sound_dependencies env good"
  shows "started env good (to_run s) (running s) (to_run s) (start_tasks env cfg all s)"
proof -
  let ?ks = "to_run s" and ?rs = "running s"
  have all: "started env good ?ks ?rs (concat (map (\<lambda>t. filter (\<lambda>k. task_id_of k = t) ?ks) (rev ts)) @ seen)
      (foldl (visit_task env cfg) u ts)" if "started env good ?ks ?rs seen u" for ts seen u
    using that
  proof (induction ts arbitrary: u seen)
    case (Cons t ts)
    show ?case
      using Cons.IH [OF visit_task_started [OF Cons.prems assms(3,5,6), of t cfg]] by simp
  qed simp
  let ?u = "refresh_task_instances_state env all (s\<lparr>not_ready := []\<rparr>)"
  have "not_ready (refresh_task_instances_state env ks v) = not_ready v" for ks v
    unfolding refresh_task_instances_state_def
    by (induction ks arbitrary: v) (simp_all add: refresh_from_db_def)
  moreover have "same_places (s\<lparr>not_ready := []\<rparr>) ?u" by simp
  moreover have "airflow (refresh_task_instances_state env ks v) = airflow v" for ks v
    unfolding refresh_task_instances_state_def
    by (induction ks arbitrary: v) (simp_all add: refresh_from_db_def)
  ultimately have "handed_over env good ?u" "started_with ?ks ?rs [] {} ?u"
    using assms(1,2) by (simp_all add: started_with_def same_places_def handed_over_def)
  then have "started env good ?ks ?rs [] ?u" unfolding started_def by blast
  from all [OF this, of "sorted_tasks env"]
  have "started env good ?ks ?rs (concat (map (\<lambda>t. filter (\<lambda>k. task_id_of k = t) ?ks) (rev (sorted_tasks env))))
      (start_tasks env cfg all s)" by (simp add: start_tasks_def)
  then show ?thesis by (rule started_mono) (use assms(4) in auto)
qed

section \<open>Collecting the results\<close>

text \<open>
  After a heartbeat: \<open>H\<close> are the tasks the executor still holds, \<open>R\<close> those that were running before.
\<close>

definition collected :: "'w job_env \<Rightarrow> ('w \<Rightarrow> bool) \<Rightarrow> ti set \<Rightarrow> ti set \<Rightarrow> 'w job \<Rightarrow> bool" where
  "collected env good H R s =
     (good (airflow s) \<and> held env (airflow s) = H \<and>
      (\<forall>k \<in> R \<inter> H. ti_memory s k = Some AF_QUEUED \<and> db_state env (task_id_of k) (airflow s) = Some AF_QUEUED) \<and>
      (\<forall>k \<in> R - H. end_state (ti_memory s k) \<and> end_state (db_state env (task_id_of k) (airflow s))))"

text \<open>What the rest of the round changes of the lists: the tasks still held stay running.\<close>

definition only_pops :: "ti set \<Rightarrow> 'w job \<Rightarrow> 'w job \<Rightarrow> bool" where
  "only_pops H s t =
     (filter (\<lambda>k. k \<in> H) (running t) = filter (\<lambda>k. k \<in> H) (running s) \<and> set (running t) \<subseteq> set (running s) \<and>
      to_run t = to_run s \<and> deadlocked t = deadlocked s)"

lemma only_pops_refl [simp]: "only_pops H s s"
  by (simp add: only_pops_def)

lemma only_pops_trans: "only_pops H s t \<Longrightarrow> only_pops H t u \<Longrightarrow> only_pops H s u"
  unfolding only_pops_def by auto

lemma refreshed_memory:
  "ti_memory (refresh_task_instances_state env ks s) k =
     (if k \<in> set ks then db_state env (task_id_of k) (airflow s) else ti_memory s k) \<and>
   airflow (refresh_task_instances_state env ks s) = airflow s"
  unfolding refresh_task_instances_state_def
  by (induction ks arbitrary: s) (auto simp: refresh_from_db_def)

lemma manage_event_collected:
  assumes "collected env good H R s" "set (running s) \<subseteq> R" "inj_on task_id_of R" "fst ev \<in> R - H"
  shows "collected env good H R (manage_event env s ev) \<and> only_pops H s (manage_event env s ev)"
proof -
  obtain dag task date n st where ev: "ev = ((dag, task, date, n), st)" by (metis prod.exhaust)
  let ?k = "(dag, task, date, 1)"
  show ?thesis
  proof (cases "?k \<in> set (running s) \<and> ?k \<in> set (waiting s)")
    case True
    then have k: "?k \<in> R" using assms(2) by blast
    have "task_id_of ?k = task_id_of (fst ev)" by (simp add: ev task_id_of_def)
    then have "?k \<in> R - H" using inj_onD [OF assms(3) _ k, of "fst ev"] assms(4) by simp
    then have "end_state (ti_memory s ?k)" "?k \<notin> H" using assms(1) unfolding collected_def by blast+
    then have "ti_memory s ?k \<notin> {Some AF_RUNNING, Some AF_QUEUED}" by (auto simp: end_state_def)
    moreover have "filter (\<lambda>k. k \<in> H) (pop_ti ?k (running s)) = filter (\<lambda>k. k \<in> H) (running s)"
      using \<open>?k \<notin> H\<close> unfolding pop_ti_def filter_filter by (metis (no_types, lifting))
    ultimately show ?thesis
      using True assms(1) by (auto simp: ev manage_event_def collected_def only_pops_def Let_def)
  qed (use assms(1) in \<open>auto simp: ev manage_event_def Let_def\<close>)
qed

lemma manage_events_collected:
  assumes "collected env good H R s" "set (running s) \<subseteq> R" "inj_on task_id_of R" "fst ` set evs \<subseteq> R - H"
  shows "collected env good H R (foldl (manage_event env) s evs) \<and> only_pops H s (foldl (manage_event env) s evs)"
  using assms(1,2,4)
proof (induction evs arbitrary: s)
  case (Cons e evs)
  have e: "collected env good H R (manage_event env s e)" "only_pops H s (manage_event env s e)"
    using manage_event_collected [OF Cons.prems(1,2) assms(3), of e] Cons.prems(3) by auto
  moreover have "set (running (manage_event env s e)) \<subseteq> R" using e(2) Cons.prems(2) unfolding only_pops_def by blast
  ultimately show ?case
    using Cons.IH [of "manage_event env s e"] Cons.prems(3) only_pops_trans by auto
qed simp

lemma update_counter_collected:
  assumes "collected env good H R s" "k \<in> R"
  shows "collected env good H R (update_counter env cfg s k) \<and>
    running (update_counter env cfg s k) = (if k \<in> H then running s else pop_ti k (running s)) \<and>
    to_run (update_counter env cfg s k) = to_run s \<and> deadlocked (update_counter env cfg s k) = deadlocked s"
proof -
  obtain u where u: "u = (if optimize cfg then s else refresh_from_db env k s)" by blast
  have s: "collected env good H R u"
    using assms(1) by (auto simp: u collected_def refresh_from_db_def)
  have mem: "if k \<in> H then ti_memory u k = Some AF_QUEUED else end_state (ti_memory u k)"
    using s assms(2) unfolding collected_def by auto
  have lists: "to_run u = to_run s" "running u = running s" "deadlocked u = deadlocked s" by (simp_all add: u)
  show ?thesis
    using s mem unfolding update_counter_def u [symmetric] Let_def
    by (auto simp: end_state_def collected_def lists split: if_splits)
qed

lemma update_counters_collected:
  assumes "collected env good H R s" "set (running s) \<subseteq> R"
  shows "collected env good H R (update_counters env cfg s) \<and>
    running (update_counters env cfg s) = filter (\<lambda>k. k \<in> H) (running s) \<and>
    to_run (update_counters env cfg s) = to_run s \<and> deadlocked (update_counters env cfg s) = deadlocked s"
proof -
  have "collected env good H R (foldl (update_counter env cfg) u ks) \<and>
      running (foldl (update_counter env cfg) u ks) = filter (\<lambda>k. k \<in> H \<or> k \<notin> set ks) (running u) \<and>
      to_run (foldl (update_counter env cfg) u ks) = to_run u \<and> deadlocked (foldl (update_counter env cfg) u ks) = deadlocked u"
    if "collected env good H R u" "set ks \<subseteq> R" for u ks
    using that
  proof (induction ks arbitrary: u)
    case (Cons k ks)
    have k: "k \<in> R" using Cons.prems(2) by simp
    note c = update_counter_collected [OF Cons.prems(1) k, of cfg]
    have "filter (\<lambda>x. x \<in> H \<or> x \<notin> set ks) (if k \<in> H then xs else pop_ti k xs) =
        filter (\<lambda>x. x \<in> H \<or> x \<notin> set (k # ks)) xs" for xs
      by (auto simp: pop_ti_def intro: filter_cong)
    then show ?case using c Cons.IH [of "update_counter env cfg u k"] Cons.prems(2) by simp
  qed simp
  from this [OF assms] show ?thesis unfolding update_counters_def by (auto intro: filter_cong)
qed

lemma collected_same:
  assumes "collected env good H R s" "ti_memory t = ti_memory s" "good (airflow t)" "held env (airflow t) = held env (airflow s)"
    and "\<And>u. end_state (db_state env u (airflow s)) \<Longrightarrow> end_state (db_state env u (airflow t))"
    and "\<And>u. db_state env u (airflow s) = Some AF_QUEUED \<Longrightarrow> db_state env u (airflow t) = Some AF_QUEUED"
  shows "collected env good H R t"
  using assms unfolding collected_def by simp

lemma collect_results_collected:
  fixes cfg :: job_config
  assumes "handed_over env good s" "set (running s) \<subseteq> set all" "inj_on task_id_of (set (running s))"
    and "faithful_db env good" "progressing_executor env good" "heartbeats env (airflow s) = (Inr (), w)"
  defines "t \<equiv> collect_results env cfg all (s\<lparr>airflow := w\<rparr>)"
  shows "handed_over env good t \<and> running t = filter (\<lambda>k. k \<in> held env w) (running s) \<and>
    to_run t = to_run (find_deadlock s) \<and> deadlocked t = deadlocked (find_deadlock s)"
proof -
  let ?R = "set (running s)" and ?H = "held env w"
  let ?a = "refresh_task_instances_state env all (find_deadlock (s\<lparr>airflow := w\<rparr>))"
  obtain evs v where ev: "get_event_buffer env w = (evs, v)" by force
  have s: "good (airflow s)" "held env (airflow s) = ?R"
    "\<forall>k \<in> ?R. db_state env (task_id_of k) (airflow s) = Some AF_QUEUED" "distinct (running s)"
    using assms(1) by (simp_all add: handed_over_def)
  have p: "good v" "held env v = ?H" "\<And>u. db_state env u v = db_state env u w" "?H \<subseteq> ?R"
    "\<forall>k \<in> ?H. db_state env (task_id_of k) w = db_state env (task_id_of k) (airflow s)"
    "\<forall>k \<in> ?R - ?H. end_state (db_state env (task_id_of k) w)" "fst ` set evs \<subseteq> ?R - ?H"
    using assms(5) s(1) assms(6) ev unfolding progressing_executor_def s(2) [symmetric] by blast+
  have fd: "airflow (find_deadlock (s\<lparr>airflow := w\<rparr>)) = w" "running (find_deadlock (s\<lparr>airflow := w\<rparr>)) = running s"
    "to_run (find_deadlock (s\<lparr>airflow := w\<rparr>)) = to_run (find_deadlock s)"
    "deadlocked (find_deadlock (s\<lparr>airflow := w\<rparr>)) = deadlocked (find_deadlock s)"
    by (auto simp: find_deadlock_def)
  have "same_places (find_deadlock (s\<lparr>airflow := w\<rparr>)) ?a" by simp
  then have a: "running ?a = running s" "to_run ?a = to_run (find_deadlock s)" "deadlocked ?a = deadlocked (find_deadlock s)"
    "airflow ?a = w" using fd by (simp_all add: same_places_def refreshed_memory)
  have mem: "ti_memory ?a k = db_state env (task_id_of k) w" if "k \<in> ?R" for k
    using that assms(2) fd(1) by (auto simp: refreshed_memory)
  let ?b0 = "?a\<lparr>airflow := v\<rparr>"
  have b0: "collected env good ?H ?R ?b0"
    using p s(3) mem by (auto simp: collected_def)
  obtain b where b: "b = manage_executor_state env ?a" by blast
  have "b = foldl (manage_event env) ?b0 evs" by (simp add: b manage_executor_state_def ev a)
  then have cb: "collected env good ?H ?R b" "only_pops ?H ?b0 b"
    using manage_events_collected [OF b0 _ assms(3) p(7)] a(1) by auto
  then have rb: "filter (\<lambda>k. k \<in> ?H) (running b) = filter (\<lambda>k. k \<in> ?H) (running s)" "set (running b) \<subseteq> ?R"
    "to_run b = to_run (find_deadlock s)" "deadlocked b = deadlocked (find_deadlock s)"
    using a by (auto simp: only_pops_def)
  let ?c = "b\<lparr>airflow := clean_zombies env (airflow b)\<rparr>"
  have "good (airflow b)" using cb(1) by (simp add: collected_def)
  then have z: "good (clean_zombies env (airflow b))" "held env (clean_zombies env (airflow b)) = held env (airflow b)"
    "\<And>u. end_state (db_state env u (airflow b)) \<Longrightarrow> end_state (db_state env u (clean_zombies env (airflow b)))"
    "\<And>u. db_state env u (airflow b) = Some AF_QUEUED \<Longrightarrow> db_state env u (clean_zombies env (airflow b)) = Some AF_QUEUED"
    using assms(4) unfolding faithful_db_def by blast+
  have "collected env good ?H ?R ?c" by (rule collected_same [OF cb(1)]) (use z in auto)
  then have d: "collected env good ?H ?R (update_counters env cfg ?c)"
    "running (update_counters env cfg ?c) = filter (\<lambda>k. k \<in> ?H) (running s)"
    "to_run (update_counters env cfg ?c) = to_run (find_deadlock s)"
    "deadlocked (update_counters env cfg ?c) = deadlocked (find_deadlock s)"
    using update_counters_collected [of env good ?H ?R ?c cfg] rb by simp_all
  obtain x where x: "x = update_counters env cfg ?c" by blast
  have t: "t = update_run env x"
    unfolding t_def collect_results_def Let_def b x by simp
  have "good (airflow x)" using d(1) by (simp add: collected_def x)
  then have y: "good (airflow t)" "held env (airflow t) = held env (airflow x)"
    "\<And>u. db_state env u (airflow t) = db_state env u (airflow x)"
    "running t = running x" "to_run t = to_run x" "deadlocked t = deadlocked x"
    using assms(4) unfolding faithful_db_def t update_run_def by (auto split: prod.split simp: prod_eq_iff)
  have "held env (airflow t) = set (running t)"
    using d(1,2) y p(4) by (auto simp: collected_def x)
  moreover have "\<forall>k \<in> set (running t). db_state env (task_id_of k) (airflow t) = Some AF_QUEUED"
    using d(1,2) y by (auto simp: collected_def x)
  moreover have "distinct (running t)" using d(2) y s(4) by (simp add: x)
  ultimately show ?thesis
    using y d by (simp add: handed_over_def x)
qed

lemma fold_add_ti_Nil: "fold add_ti ks ds = [] \<longleftrightarrow> ks = [] \<and> ds = []"
proof (induction ks arbitrary: ds)
  case (Cons k ks)
  have "add_ti k ds \<noteq> []" by (cases ds) (simp_all add: add_ti_def)
  then show ?case by (simp add: Cons.IH)
qed simp

section \<open>Each round makes progress\<close>

text \<open>What holds between two rounds.\<close>

definition between_rounds :: "'w job_env \<Rightarrow> ('w \<Rightarrow> bool) \<Rightarrow> ti list \<Rightarrow> 'w job \<Rightarrow> bool" where
  "between_rounds env good all s =
     (handed_over env good s \<and> deadlocked s = [] \<and> separate (to_run s) (running s) \<and>
      set (to_run s) \<union> set (running s) \<subseteq> set all \<and> task_id_of ` set (to_run s) \<subseteq> set (sorted_tasks env))"

lemma separate_start:
  assumes "separate ks rs" "started_with ks rs seen taken s" "distinct (running s)"
  shows "separate (to_run s) (running s)" "set (to_run s) \<union> set (running s) \<subseteq> set ks \<union> set rs"
proof -
  have t: "to_run s = filter (\<lambda>k. k \<notin> taken) ks" "set (running s) \<subseteq> set rs \<union> (taken \<inter> set ks)"
    using assms(2) by (simp_all add: started_with_def)
  then show sub: "set (to_run s) \<union> set (running s) \<subseteq> set ks \<union> set rs" by auto
  have "distinct (to_run s)" "set (to_run s) \<inter> set (running s) = {}"
    using t assms(1) by (auto simp: separate_def)
  then show "separate (to_run s) (running s)"
    using assms(1) sub inj_on_subset unfolding separate_def by blast
qed

lemma separate_subset:
  assumes "separate ks rs" "distinct ks'" "set ks' \<subseteq> set ks" "set rs' \<subseteq> set rs"
  shows "separate ks' rs'"
proof -
  have "set ks' \<union> set rs' \<subseteq> set ks \<union> set rs" using assms(3,4) by blast
  then have "inj_on task_id_of (set ks' \<union> set rs')" using assms(1) inj_on_subset unfolding separate_def by blast
  then show ?thesis using assms unfolding separate_def by blast
qed

lemma round_progress:
  assumes "between_rounds env good all s" "to_run s \<noteq> [] \<or> running s \<noteq> []"
    and "faithful_db env good" "sound_dependencies env good" "progressing_executor env good"
    and "heartbeats env (airflow (start_tasks env cfg all s)) = (Inr (), w)"
  defines "t \<equiv> collect_results env cfg all (start_tasks env cfg all s\<lparr>airflow := w\<rparr>)"
  shows "deadlocked t \<noteq> [] \<or> (between_rounds env good all t \<and>
    (length (to_run t) < length (to_run s) \<or>
     length (to_run t) = length (to_run s) \<and> length (running t) < length (running s)))"
proof -
  let ?s = "start_tasks env cfg all s" and ?ks = "to_run s" and ?rs = "running s"
  have s: "handed_over env good s" "deadlocked s = []" "separate ?ks ?rs" "set ?ks \<union> set ?rs \<subseteq> set all"
    "task_id_of ` set ?ks \<subseteq> set (sorted_tasks env)" using assms(1) by (simp_all add: between_rounds_def)
  have st: "started env good ?ks ?rs ?ks ?s" by (rule start_tasks_started [OF s(1-3,5) assms(3,4)])
  then obtain taken where h: "handed_over env good ?s" and tk: "started_with ?ks ?rs ?ks taken ?s"
    unfolding started_def by blast
  have dist: "distinct (running ?s)" using h by (simp add: handed_over_def)
  note sep = separate_start [OF s(3) tk dist]
  have inj: "inj_on task_id_of (set (running ?s))"
    using sep(1) inj_on_subset unfolding separate_def by blast
  have all: "set (running ?s) \<subseteq> set all" using sep(2) s(4) by blast
  have t: "handed_over env good t" "running t = filter (\<lambda>k. k \<in> held env w) (running ?s)"
    "to_run t = to_run (find_deadlock ?s)" "deadlocked t = deadlocked (find_deadlock ?s)"
    unfolding t_def using collect_results_collected [OF h all inj assms(3,5,6), of cfg] by simp_all
  show ?thesis
  proof (cases "deadlocked t = []")
    case False
    then show ?thesis by blast
  next
    case True
    have no: "deadlocked ?s = []" using tk by (simp add: started_with_def)
    have same: "to_run t = to_run ?s"
    proof (rule ccontr)
      assume "to_run t \<noteq> to_run ?s"
      then have "not_ready ?s \<noteq> []" "set (not_ready ?s) = set (to_run ?s)" "deadlocked t = fold add_ti (to_run ?s) []"
        using t(3,4) no by (auto simp: find_deadlock_def split: if_splits)
      then have "to_run ?s \<noteq> []" "fold add_ti (to_run ?s) [] = []" using True by auto
      then show False by (simp add: fold_add_ti_Nil)
    qed
    have lists: "to_run ?s = filter (\<lambda>k. k \<notin> taken) ?ks" "set (running ?s) \<subseteq> set ?rs \<union> (taken \<inter> set ?ks)"
      using tk by (simp_all add: started_with_def)
    have "separate (to_run t) (running t)"
      by (rule separate_subset [OF sep(1)]) (use sep(1) same t(2) in \<open>auto simp: separate_def\<close>)
    then have rest: "between_rounds env good all t"
      using t(1,2) True sep(2) s(4,5) lists(1) unfolding between_rounds_def same by auto
    show ?thesis
    proof (cases "to_run ?s = ?ks")
      case False
      then have "length (to_run t) < length ?ks"
        unfolding same lists(1) using length_filter_less filter_id_conv by metis
      with rest show ?thesis by blast
    next
      case keep: True
      then have untaken: "k \<in> set ?ks \<Longrightarrow> k \<notin> taken" for k using lists(1) by (metis filter_id_conv)
      then have sub: "set (running ?s) \<subseteq> set ?rs" using lists(2) by blast
      then have le: "length (running ?s) \<le> length ?rs"
        using dist card_mono [OF _ sub] s(1) by (simp add: distinct_card handed_over_def)
      have "running ?s \<noteq> [] \<or> ?rs \<noteq> []"
      proof (rule ccontr)
        assume e: "\<not> (running ?s \<noteq> [] \<or> ?rs \<noteq> [])"
        have "set ?ks \<subseteq> set (not_ready ?s)" using untaken tk unfolding started_with_def by (metis subsetI)
        then have "set (not_ready ?s) = set (to_run ?s)" using tk keep by (auto simp: started_with_def)
        moreover have "?ks \<noteq> []" using e assms(2) by simp
        ultimately have "deadlocked t = fold add_ti ?ks []" "not_ready ?s \<noteq> []"
          using e t(4) no keep by (auto simp: find_deadlock_def)
        then have "fold add_ti ?ks [] = []" using True by simp
        then show False using \<open>?ks \<noteq> []\<close> unfolding fold_add_ti_Nil by blast
      qed
      moreover have "length (running t) < length (running ?s)" if "running ?s \<noteq> []"
      proof -
        have held: "held env (airflow ?s) = set (running ?s)" "good (airflow ?s)" using h by (simp_all add: handed_over_def)
        obtain evs v where "get_event_buffer env w = (evs, v)" by force
        then have "held env w \<noteq> set (running ?s)" "held env w \<subseteq> set (running ?s)"
          using assms(5,6) held that unfolding progressing_executor_def by (metis set_empty)+
        then obtain k where "k \<in> set (running ?s)" "k \<notin> held env w" by blast
        then show ?thesis unfolding t(2) by (rule length_filter_less)
      qed
      ultimately have "length (running t) < length ?rs"
        using le t(2) by (cases "running ?s = []") auto
      with rest same keep show ?thesis by simp
    qed
  qed
qed

lemma loop_returns:
  assumes "between_rounds env good all s"
    and "faithful_db env good" "sound_dependencies env good" "progressing_executor env good"
  shows "\<exists>out. process_dag_task_instances env cfg all s = Some out"
  using assms(1)
proof (induction s rule: wf_induct_rule [OF wf_measures [of "[\<lambda>s. length (to_run s), \<lambda>s. length (running s)]"]])
  case (1 s)
  have d: "deadlocked s = []" using 1(2) by (simp add: between_rounds_def)
  show ?case
  proof (cases "(to_run s = [] \<and> running s = []) \<or> run_is_killed env (airflow s)")
    case True
    then show ?thesis by (subst process_dag_task_instances.simps) auto
  next
    case False
    obtain r w where hb: "heartbeats env (airflow (start_tasks env cfg all s)) = (r, w)" by force
    show ?thesis
    proof (cases r)
      case (Inl e)
      then show ?thesis
        using False d hb by (subst process_dag_task_instances.simps) (auto simp: Let_def)
    next
      case (Inr x)
      let ?t = "collect_results env cfg all (start_tasks env cfg all s\<lparr>airflow := w\<rparr>)"
      have "\<exists>out. process_dag_task_instances env cfg all ?t = Some out"
      proof (cases "deadlocked ?t = []")
        case False
        then show ?thesis by (subst process_dag_task_instances.simps) simp
      next
        case True
        have t: "between_rounds env good all ?t"
          "(?t, s) \<in> measures [\<lambda>s. length (to_run s), \<lambda>s. length (running s)]"
          using round_progress [OF 1(2) _ assms(2-4), of cfg w] hb Inr True False by auto
        show ?thesis by (rule 1(1) [OF t(2,1)])
      qed
      then show ?thesis
        using False d hb Inr
        by (subst process_dag_task_instances.simps) (auto simp: Let_def)
    qed
  qed
qed

text \<open>
  A job returns, with or without an error, when the executor makes progress and holds no task at the start.
\<close>

lemma job_returns:
  assumes "distinct tis" "inj_on task_id_of (set tis)" "task_id_of ` set tis \<subseteq> set (sorted_tasks env)"
    and "faithful_db env good" "sound_dependencies env good" "progressing_executor env good"
    and "good w" "held env w = {}"
  shows "\<exists>out. execute_job env cfg tis w = Some out"
proof -
  obtain ks memory v where ks: "task_instances_for_dag_run env tis w = (ks, memory, v)" by (metis prod_cases3)
  have "good (foldl (\<lambda>w k. if db_state env (task_id_of k) w = None then set_db_state env (task_id_of k) AF_SCHEDULED w else w) u xs) \<and>
      held env (foldl (\<lambda>w k. if db_state env (task_id_of k) w = None then set_db_state env (task_id_of k) AF_SCHEDULED w else w) u xs) = {}"
    if "good u" "held env u = {}" for u xs
    using that assms(4) by (induction xs arbitrary: u) (auto simp: faithful_db_def)
  from this [OF assms(7,8)] have "good v" "held env v = {}" "set ks \<subseteq> set tis" "distinct ks"
    using assms(1) ks by (auto simp: task_instances_for_dag_run_def Let_def)
  then have "between_rounds env good ks (initial_job ks memory v)"
    using assms(2,3) inj_on_subset [OF assms(2)]
    by (auto simp: between_rounds_def initial_job_def handed_over_def separate_def)
  from loop_returns [OF this assms(4-6)] show ?thesis by (auto simp: execute_job_def ks Let_def)
qed

end
