(* ===== verification/InProcess.thy ===== *)
theory InProcess
  imports DagRunTermination Execution
begin

text \<open>
  The executor that runs the tasks of an Airflow DAG in its own process
  (\<open>dbnd_airflow/executors/simple_executor.py\<close>): its queue, its \<open>sync\<close> with failing fast, the killed run and
  the interrupts, and the proof that the scheduling loop of theory \<open>DagRunJob\<close> returns with it.
\<close>

section \<open>State\<close>

text \<open>
  A task instance stands for its key; \<open>outside\<close> is the rest of the world, with Airflow's database.
  \<open>queued_tasks\<close>, \<open>running\<close> and \<open>event_buffer\<close> are dictionaries of Airflow's \<open>BaseExecutor\<close>.
\<close>

record 'w executor =
  queued_tasks :: "ti list"
  ex_running :: "ti list"
  tasks_to_run :: "ti list"
  event_buffer :: "(ti \<times> af_state) list"
  outside :: 'w

text \<open>
  \<open>run_raw_task\<close> is Airflow's run of the task, \<open>save_try\<close> saves the task instance as running with the next
  number of its tries, and \<open>chosen\<close> are the tasks a heartbeat of \<open>BaseExecutor\<close> takes from the queue.
\<close>

record 'w executor_env =
  ex_fail_fast :: bool
  save_try :: "string \<Rightarrow> 'w \<Rightarrow> 'w"
  run_raw_task :: "string \<Rightarrow> 'w \<Rightarrow> (raised + unit) \<times> 'w"
  set_ti_state :: "string \<Rightarrow> af_state \<Rightarrow> 'w \<Rightarrow> 'w"
  context_is_killed :: "'w \<Rightarrow> bool"
  chosen :: "'w executor \<Rightarrow> ti list"

type_synonym ('a, 'w) action = "'w executor \<Rightarrow> (raised + 'a) \<times> 'w executor"

definition before :: "('a, 'w) action \<Rightarrow> 'b \<Rightarrow> ('b, 'w) action" where
  "before m y ex = (case m ex of (Inl e, ex') \<Rightarrow> (Inl e, ex') | (Inr _, ex') \<Rightarrow> (Inr y, ex'))"

section \<open>Operations\<close>

fun put_event :: "ti \<Rightarrow> af_state \<Rightarrow> (ti \<times> af_state) list \<Rightarrow> (ti \<times> af_state) list" where
  "put_event k st [] = [(k, st)]"
| "put_event k st ((x, old) # es) = (if x = k then (k, st) # es else (x, old) # put_event k st es)"

definition change_state :: "ti \<Rightarrow> af_state \<Rightarrow> (unit, 'w) action" where
  "change_state k st ex =
     (if k \<notin> set (ex_running ex) then (Inl (RaisedError (KeyError (task_id_of k))), ex)
      else (Inr (), ex\<lparr>ex_running := pop_ti k (ex_running ex), event_buffer := put_event k st (event_buffer ex)\<rparr>))"

definition execute_async :: "ti \<Rightarrow> 'w executor \<Rightarrow> 'w executor" where
  "execute_async k ex = ex\<lparr>tasks_to_run := tasks_to_run ex @ [k]\<rparr>"

definition queue_command :: "ti \<Rightarrow> 'w executor \<Rightarrow> 'w executor" where
  "queue_command k ex =
     (if k \<notin> set (queued_tasks ex) \<and> k \<notin> set (ex_running ex)
      then ex\<lparr>queued_tasks := queued_tasks ex @ [k]\<rparr> else ex)"

definition run_task_instance :: "'w executor_env \<Rightarrow> ti \<Rightarrow> 'w \<Rightarrow> (raised + unit) \<times> 'w" where
  "run_task_instance env k w = run_raw_task env (task_id_of k) (save_try env (task_id_of k) w)"

definition write_and_change :: "'w executor_env \<Rightarrow> ti \<Rightarrow> af_state \<Rightarrow> (unit, 'w) action" where
  "write_and_change env k st ex = change_state k st (ex\<lparr>outside := set_ti_state env (task_id_of k) st (outside ex)\<rparr>)"

text \<open>
  One task; the result is the new value of \<open>task_failed\<close>.  An interrupt counts as a failure and no more: the
  handler sets a local \<open>fail_fast\<close>.  Only \<open>SystemExit\<close> is left to the caller.
\<close>

definition sync_task :: "'w executor_env \<Rightarrow> bool \<Rightarrow> ti \<Rightarrow> (bool, 'w) action" where
  "sync_task env task_failed k ex =
     (if ex_fail_fast env \<and> task_failed then before (write_and_change env k AF_UPSTREAM_FAILED) task_failed ex
      else if context_is_killed env (outside ex) then before (write_and_change env k AF_FAILED) task_failed ex
      else (case run_task_instance env k (outside ex) of
              (Inr _, w) \<Rightarrow>
                (case change_state k AF_SUCCESS (ex\<lparr>outside := w\<rparr>) of
                   (Inr _, ex') \<Rightarrow> (Inr task_failed, ex')
                 | (Inl e, ex') \<Rightarrow> before (change_state k AF_FAILED) True ex')
            | (Inl e, w) \<Rightarrow>
                if e = RaisedSystemExit then (Inl e, ex\<lparr>outside := w\<rparr>)
                else before (change_state k AF_FAILED) True (ex\<lparr>outside := w\<rparr>)))"

fun sync_loop :: "'w executor_env \<Rightarrow> bool \<Rightarrow> ti list \<Rightarrow> (bool, 'w) action" where
  "sync_loop env task_failed [] ex = (Inr task_failed, ex)"
| "sync_loop env task_failed (k # ks) ex =
     (case sync_task env task_failed k ex of
        (Inl e, ex') \<Rightarrow> (Inl e, ex') | (Inr bad, ex') \<Rightarrow> sync_loop env bad ks ex')"

definition sync :: "'w executor_env \<Rightarrow> (unit, 'w) action" where
  "sync env ex =
     (case sync_loop env False (tasks_to_run ex) ex of
        (Inl e, ex') \<Rightarrow> (Inl e, ex') | (Inr _, ex') \<Rightarrow> (Inr (), ex'\<lparr>tasks_to_run := []\<rparr>))"

text \<open>\<open>end\<close> gives up what was not run, and leaves it in \<open>tasks_to_run\<close>.\<close>

fun end_loop :: "'w executor_env \<Rightarrow> ti list \<Rightarrow> (unit, 'w) action" where
  "end_loop env [] ex = (Inr (), ex)"
| "end_loop env (k # ks) ex =
     (case write_and_change env k AF_UPSTREAM_FAILED ex of
        (Inl e, ex') \<Rightarrow> (Inl e, ex') | (Inr _, ex') \<Rightarrow> end_loop env ks ex')"

definition end_execution :: "'w executor_env \<Rightarrow> (unit, 'w) action" where
  "end_execution env ex = end_loop env (tasks_to_run ex) ex"

text \<open>A heartbeat of \<open>BaseExecutor\<close>: some of the queued tasks are started, then \<open>sync\<close>.\<close>

definition start_chosen :: "'w executor_env \<Rightarrow> 'w executor \<Rightarrow> 'w executor" where
  "start_chosen env ex =
     foldl (\<lambda>ex k. execute_async k (ex\<lparr>queued_tasks := pop_ti k (queued_tasks ex), ex_running := ex_running ex @ [k]\<rparr>))
       ex (chosen env ex)"

definition executor_heartbeat :: "'w executor_env \<Rightarrow> (unit, 'w) action" where
  "executor_heartbeat env ex = sync env (start_chosen env ex)"

section \<open>What \<open>sync\<close> does\<close>

definition no_exit :: "'w executor_env \<Rightarrow> bool" where
  "no_exit env = (\<forall>t w. fst (run_raw_task env t w) \<noteq> Inl RaisedSystemExit)"

text \<open>A task that is tried changes the outside world by its run, or by its failure in a killed run.\<close>

definition tried :: "'w executor_env \<Rightarrow> 'w \<Rightarrow> ti \<Rightarrow> 'w" where
  "tried env w k = (if context_is_killed env w then set_ti_state env (task_id_of k) AF_FAILED w
                    else snd (run_task_instance env k w))"

definition skipped_fast :: "'w executor_env \<Rightarrow> 'w \<Rightarrow> ti \<Rightarrow> 'w" where
  "skipped_fast env w k = set_ti_state env (task_id_of k) AF_UPSTREAM_FAILED w"

text \<open>The tasks up to the first one whose run raises, this one included.\<close>

definition run_fails :: "'w executor_env \<Rightarrow> 'w \<Rightarrow> ti \<Rightarrow> bool" where
  "run_fails env w k = (\<not> context_is_killed env w \<and> isl (fst (run_task_instance env k w)))"

fun until_failure :: "'w executor_env \<Rightarrow> 'w \<Rightarrow> ti list \<Rightarrow> ti list" where
  "until_failure env w [] = []"
| "until_failure env w (k # ks) = k # (if run_fails env w k then [] else until_failure env (tried env w k) ks)"

lemma map_of_put_event: "map_of (put_event k st es) = (map_of es)(k \<mapsto> st)"
  by (induction k st es rule: put_event.induct) auto

lemma change_state_running:
  "k \<in> set (ex_running ex) \<Longrightarrow> change_state k st ex =
     (Inr (), ex\<lparr>ex_running := pop_ti k (ex_running ex), event_buffer := put_event k st (event_buffer ex)\<rparr>)"
  by (simp add: change_state_def)

text \<open>A task that was handed over is answered, and leaves \<open>running\<close>.\<close>

lemma sync_task_tried:
  assumes "\<not> (ex_fail_fast env \<and> bad)" "k \<in> set (ex_running ex)" "no_exit env"
  shows "\<exists>st. sync_task env bad k ex =
      (Inr (bad \<or> run_fails env (outside ex) k), ex\<lparr>ex_running := pop_ti k (ex_running ex), event_buffer := put_event k st (event_buffer ex),
                       outside := tried env (outside ex) k\<rparr>) \<and>
    (st = AF_SUCCESS \<or> st = AF_FAILED) \<and> (run_fails env (outside ex) k \<longrightarrow> st = AF_FAILED)"
proof (cases "context_is_killed env (outside ex)")
  case True
  then have "sync_task env bad k ex = (Inr bad, ex\<lparr>ex_running := pop_ti k (ex_running ex),
      event_buffer := put_event k AF_FAILED (event_buffer ex), outside := tried env (outside ex) k\<rparr>)"
    unfolding sync_task_def if_not_P [OF assms(1)] using assms(2)
    by (cases ex) (simp add: before_def write_and_change_def change_state_running tried_def)
  then show ?thesis using True by (auto simp: run_fails_def)
next
  case False
  obtain r w where r: "run_task_instance env k (outside ex) = (r, w)" by force
  then have "r \<noteq> Inl RaisedSystemExit" using assms(3) unfolding no_exit_def run_task_instance_def by (metis fst_conv)
  then show ?thesis
    using assms(1,2) False r
    by (cases ex; cases r) (auto simp: sync_task_def before_def change_state_running tried_def run_fails_def)
qed

lemma sync_loop_skips:
  assumes "ex_fail_fast env" "distinct ks" "set ks \<subseteq> set (ex_running ex)"
  shows "\<exists>ex'. sync_loop env True ks ex = (Inr True, ex') \<and> queued_tasks ex' = queued_tasks ex \<and>
    ex_running ex' = filter (\<lambda>k. k \<notin> set ks) (ex_running ex) \<and> outside ex' = foldl (skipped_fast env) (outside ex) ks \<and>
    map_of (event_buffer ex') = (\<lambda>k. if k \<in> set ks then Some AF_UPSTREAM_FAILED else map_of (event_buffer ex) k)"
  using assms(2,3)
proof (induction ks arbitrary: ex)
  case (Cons k ks)
  let ?ex = "ex\<lparr>ex_running := pop_ti k (ex_running ex), event_buffer := put_event k AF_UPSTREAM_FAILED (event_buffer ex),
    outside := skipped_fast env (outside ex) k\<rparr>"
  have "sync_task env True k ex = (Inr True, ?ex)"
    using assms(1) Cons.prems by (simp add: sync_task_def before_def write_and_change_def change_state_running skipped_fast_def)
  moreover have "set ks \<subseteq> set (ex_running ?ex)" "distinct ks" using Cons.prems by auto
  from Cons.IH [OF this(2,1)] obtain ex' where ex': "sync_loop env True ks ?ex = (Inr True, ex')"
    "queued_tasks ex' = queued_tasks ?ex" "ex_running ex' = filter (\<lambda>k. k \<notin> set ks) (ex_running ?ex)"
    "outside ex' = foldl (skipped_fast env) (outside ?ex) ks"
    "map_of (event_buffer ex') = (\<lambda>k. if k \<in> set ks then Some AF_UPSTREAM_FAILED else map_of (event_buffer ?ex) k)" by blast
  moreover have "filter (\<lambda>k. k \<notin> set ks) (pop_ti k (ex_running ex)) = filter (\<lambda>x. x \<notin> set (k # ks)) (ex_running ex)"
    by (auto simp: pop_ti_def intro: filter_cong)
  ultimately show ?case
    using Cons.prems(1) by (intro exI [of _ ex']) (auto simp: map_of_put_event fun_eq_iff)
qed (simp add: fun_eq_iff)

text \<open>The tasks are tried up to the first failure, the rest is skipped if the executor fails fast.\<close>

definition answers_split :: "'w executor_env \<Rightarrow> bool \<Rightarrow> ti list \<Rightarrow> 'w executor \<Rightarrow> 'w executor \<Rightarrow> ti list \<Rightarrow> ti list \<Rightarrow> bool" where
  "answers_split env bad ks ex ex' ys zs =
     (ks = ys @ zs \<and> queued_tasks ex' = queued_tasks ex \<and> ex_running ex' = filter (\<lambda>k. k \<notin> set ks) (ex_running ex) \<and>
      outside ex' = foldl (skipped_fast env) (foldl (tried env) (outside ex) ys) zs \<and>
      map_of (event_buffer ex') |` (- set ks) = map_of (event_buffer ex) |` (- set ks) \<and>
      (\<forall>k \<in> set ys. map_of (event_buffer ex') k = Some AF_SUCCESS \<or> map_of (event_buffer ex') k = Some AF_FAILED) \<and>
      (\<forall>k \<in> set zs. map_of (event_buffer ex') k = Some AF_UPSTREAM_FAILED) \<and>
      (ex_fail_fast env \<longrightarrow> ys = (if bad then [] else until_failure env (outside ex) ks)) \<and>
      (zs \<noteq> [] \<longrightarrow> ex_fail_fast env \<and> (if ys = [] then bad else map_of (event_buffer ex') (last ys) = Some AF_FAILED)))"

lemma answers_splitD:
  assumes "answers_split env bad ks ex ex' ys zs"
  shows "ks = ys @ zs" "queued_tasks ex' = queued_tasks ex" "ex_running ex' = filter (\<lambda>k. k \<notin> set ks) (ex_running ex)"
    "outside ex' = foldl (skipped_fast env) (foldl (tried env) (outside ex) ys) zs"
    "map_of (event_buffer ex') |` (- set ks) = map_of (event_buffer ex) |` (- set ks)"
    "\<forall>k \<in> set ys. map_of (event_buffer ex') k = Some AF_SUCCESS \<or> map_of (event_buffer ex') k = Some AF_FAILED"
    "\<forall>k \<in> set zs. map_of (event_buffer ex') k = Some AF_UPSTREAM_FAILED"
    "ex_fail_fast env \<longrightarrow> ys = (if bad then [] else until_failure env (outside ex) ks)"
    "zs \<noteq> [] \<longrightarrow> ex_fail_fast env \<and> (if ys = [] then bad else map_of (event_buffer ex') (last ys) = Some AF_FAILED)"
  by (insert assms, unfold answers_split_def, (elim conjE, assumption)+)

lemma sync_loop_outcome:
  assumes "distinct ks" "set ks \<subseteq> set (ex_running ex)" "no_exit env"
  shows "\<exists>bad' ex' ys zs. sync_loop env bad ks ex = (Inr bad', ex') \<and> answers_split env bad ks ex ex' ys zs"
  using assms(1,2)
proof (induction ks arbitrary: bad ex)
  case Nil
  have "answers_split env bad [] ex ex [] []" by (simp add: answers_split_def)
  then show ?case by auto
next
  case (Cons k ks)
  show ?case
  proof (cases "ex_fail_fast env \<and> bad")
    case True
    from sync_loop_skips [OF _ Cons.prems] True obtain ex' where
      ex': "sync_loop env True (k # ks) ex = (Inr True, ex')" "queued_tasks ex' = queued_tasks ex"
      "ex_running ex' = filter (\<lambda>x. x \<notin> set (k # ks)) (ex_running ex)"
      "outside ex' = foldl (skipped_fast env) (outside ex) (k # ks)"
      "map_of (event_buffer ex') = (\<lambda>x. if x \<in> set (k # ks) then Some AF_UPSTREAM_FAILED else map_of (event_buffer ex) x)"
      by blast
    have "answers_split env bad (k # ks) ex ex' [] (k # ks)"
      unfolding answers_split_def ex'(5) using True ex'(2-4) by (auto simp: restrict_map_def)
    moreover have "sync_loop env bad (k # ks) ex = (Inr True, ex')" using ex'(1) True by metis
    ultimately show ?thesis by blast
  next
    case False
    have k: "k \<in> set (ex_running ex)" "k \<notin> set ks" using Cons.prems by auto
    obtain bad' where bad': "bad' = (bad \<or> run_fails env (outside ex) k)" by blast
    from sync_task_tried [OF False k(1) assms(3)] obtain st where
      task: "sync_task env bad k ex =
        (Inr bad', ex\<lparr>ex_running := pop_ti k (ex_running ex), event_buffer := put_event k st (event_buffer ex),
                   outside := tried env (outside ex) k\<rparr>)"
      and st: "st = AF_SUCCESS \<or> st = AF_FAILED" "bad' \<longrightarrow> bad \<or> st = AF_FAILED" unfolding bad' by blast
    obtain u where u: "u = ex\<lparr>ex_running := pop_ti k (ex_running ex), event_buffer := put_event k st (event_buffer ex),
                   outside := tried env (outside ex) k\<rparr>" by blast
    have "distinct ks" "set ks \<subseteq> set (ex_running u)" using Cons.prems by (auto simp: u)
    from Cons.IH [OF this] obtain b ex' ys zs where
      rest: "sync_loop env bad' ks u = (Inr b, ex')" "answers_split env bad' ks u ex' ys zs" by blast
    have eq: "map_of (event_buffer ex') |` (- set ks) = map_of (event_buffer u) |` (- set ks)"
      using rest(2) unfolding answers_split_def by blast
    have after: "map_of (event_buffer ex') x = map_of (event_buffer u) x" if "x \<notin> set ks" for x
      using fun_cong [OF eq, of x] that by (simp add: restrict_map_def)
    have kev: "map_of (event_buffer ex') k = Some st"
      unfolding after [OF k(2)] by (simp add: u map_of_put_event)
    have "filter (\<lambda>x. x \<notin> set ks) (pop_ti k xs) = filter (\<lambda>x. x \<notin> set (k # ks)) xs" for xs
      by (auto simp: pop_ti_def intro: filter_cong)
    then have lists: "k # ks = (k # ys) @ zs" "queued_tasks ex' = queued_tasks ex"
      "ex_running ex' = filter (\<lambda>x. x \<notin> set (k # ks)) (ex_running ex)"
      "outside ex' = foldl (skipped_fast env) (foldl (tried env) (outside ex) (k # ys)) zs"
      using rest(2) by (simp_all add: answers_split_def u)
    have others: "map_of (event_buffer ex') |` (- set (k # ks)) = map_of (event_buffer ex) |` (- set (k # ks))"
    proof
      fix x
      show "(map_of (event_buffer ex') |` (- set (k # ks))) x = (map_of (event_buffer ex) |` (- set (k # ks))) x"
      proof (cases "x \<in> set (k # ks)")
        case False
        then have "map_of (event_buffer ex') x = map_of (event_buffer u) x"
          by (intro after) simp
        then show ?thesis using False by (simp add: u map_of_put_event restrict_map_def)
      qed (auto simp: restrict_map_def)
    qed
    have ends: "zs \<noteq> [] \<longrightarrow> ex_fail_fast env \<and> map_of (event_buffer ex') (last (k # ys)) = Some AF_FAILED"
    proof
      assume z: "zs \<noteq> []"
      then have e: "ex_fail_fast env" "if ys = [] then bad' else map_of (event_buffer ex') (last ys) = Some AF_FAILED"
        using answers_splitD(9) [OF rest(2)] by simp_all
      moreover have "bad' \<longrightarrow> st = AF_FAILED" using st(2) False e(1) by blast
      ultimately show "ex_fail_fast env \<and> map_of (event_buffer ex') (last (k # ys)) = Some AF_FAILED"
        using kev by (auto split: if_splits)
    qed
    have fast: "ex_fail_fast env \<longrightarrow> k # ys = (if bad then [] else until_failure env (outside ex) (k # ks))"
      using answers_splitD(8) [OF rest(2)] False by (simp add: bad' u)
    have "answers_split env bad (k # ks) ex ex' (k # ys) zs"
      unfolding answers_split_def
    proof (intro conjI)
      show "\<forall>x \<in> set (k # ys). map_of (event_buffer ex') x = Some AF_SUCCESS \<or> map_of (event_buffer ex') x = Some AF_FAILED"
        using kev st(1) rest(2) by (simp add: answers_split_def)
      show "\<forall>x \<in> set zs. map_of (event_buffer ex') x = Some AF_UPSTREAM_FAILED"
        using rest(2) by (simp add: answers_split_def)
      show "zs \<noteq> [] \<longrightarrow> ex_fail_fast env \<and> (if k # ys = [] then bad else map_of (event_buffer ex') (last (k # ys)) = Some AF_FAILED)"
        using ends by simp
    qed (rule lists others fast)+
    moreover have "sync_loop env bad (k # ks) ex = (Inr b, ex')" by (simp add: task u [symmetric] rest(1))
    ultimately show ?thesis by blast
  qed
qed

lemma answers_split_cleared:
  "answers_split env bad ks ex (ex'\<lparr>tasks_to_run := []\<rparr>) ys zs = answers_split env bad ks ex ex' ys zs"
  by (simp add: answers_split_def)

lemma sync_outcome:
  assumes "distinct (tasks_to_run ex)" "set (tasks_to_run ex) \<subseteq> set (ex_running ex)" "no_exit env"
  shows "\<exists>ex' ys zs. sync env ex = (Inr (), ex') \<and> tasks_to_run ex' = [] \<and> answers_split env False (tasks_to_run ex) ex ex' ys zs"
proof -
  from sync_loop_outcome [OF assms] obtain bad' ex' ys zs where
    "sync_loop env False (tasks_to_run ex) ex = (Inr bad', ex')" "answers_split env False (tasks_to_run ex) ex ex' ys zs"
    by blast
  then have "sync env ex = (Inr (), ex'\<lparr>tasks_to_run := []\<rparr>)"
    and "answers_split env False (tasks_to_run ex) ex (ex'\<lparr>tasks_to_run := []\<rparr>) ys zs"
    and "tasks_to_run (ex'\<lparr>tasks_to_run := []\<rparr>) = []"
    by (simp_all add: sync_def answers_split_cleared)
  then show ?thesis by blast
qed

section \<open>The scheduling loop with this executor\<close>

definition job_error :: "raised \<Rightarrow> py_error" where
  "job_error e = (case e of RaisedError x \<Rightarrow> x | _ \<Rightarrow> RuntimeError (raised_str e))"

text \<open>
  \<open>base\<close> gives what concerns the database and the dependencies; what concerns the executor is this one.
\<close>

definition in_process_env :: "'w job_env \<Rightarrow> 'w executor_env \<Rightarrow> 'w executor job_env" where
  "in_process_env base env =
     \<lparr>db_state = (\<lambda>t ex. db_state base t (outside ex)),
      set_db_state = (\<lambda>t st ex. ex\<lparr>outside := set_db_state base t st (outside ex)\<rparr>),
      dependencies_met = (\<lambda>t st ex. case dependencies_met base t st (outside ex) of
                            (met, st', w) \<Rightarrow> (met, st', ex\<lparr>outside := w\<rparr>)),
      has_task = (\<lambda>k ex. k \<in> set (queued_tasks ex) \<or> k \<in> set (ex_running ex)),
      queue_task_instance = queue_command,
      heartbeats = (\<lambda>ex. case executor_heartbeat env ex of (r, ex') \<Rightarrow> (map_sum job_error id r, ex')),
      get_event_buffer = (\<lambda>ex. (event_buffer ex, ex\<lparr>event_buffer := []\<rparr>)),
      fail_task_instance = (\<lambda>t ex. case fail_task_instance base t (outside ex) of (st, w) \<Rightarrow> (st, ex\<lparr>outside := w\<rparr>)),
      clean_zombies = (\<lambda>ex. ex\<lparr>outside := clean_zombies base (outside ex)\<rparr>),
      update_dag_run = (\<lambda>ex. case update_dag_run base (outside ex) of (d, w) \<Rightarrow> (d, ex\<lparr>outside := w\<rparr>)),
      run_is_killed = (\<lambda>ex. run_is_killed base (outside ex)),
      end_executor = (\<lambda>ex. snd (end_execution env ex)),
      sorted_tasks = sorted_tasks base\<rparr>"

text \<open>
  What is asked of Airflow: its database keeps what is written, a task that was run has an end state, and a
  heartbeat takes tasks from a queue that is not empty when none is running.
\<close>

definition keeps_states :: "'w job_env \<Rightarrow> bool" where
  "keeps_states base =
     ((\<forall>t st w u. db_state base u (set_db_state base t st w) = (if u = t then Some st else db_state base u w)) \<and>
      (\<forall>w u. db_state base u (snd (update_dag_run base w)) = db_state base u w) \<and>
      (\<forall>w u. end_state (db_state base u w) \<longrightarrow> end_state (db_state base u (clean_zombies base w))) \<and>
      (\<forall>w u. db_state base u w = Some AF_QUEUED \<longrightarrow> db_state base u (clean_zombies base w) = Some AF_QUEUED))"

definition checks_dependencies :: "'w job_env \<Rightarrow> bool" where
  "checks_dependencies base =
     (\<forall>t st w met st' v. dependencies_met base t st w = (met, st', v) \<longrightarrow>
        (\<forall>u. u \<noteq> t \<longrightarrow> db_state base u v = db_state base u w) \<and>
        (met \<longrightarrow> db_state base t v = Some AF_SCHEDULED) \<and> (\<not> met \<longrightarrow> st' \<noteq> Some AF_UP_FOR_RETRY))"

definition ends_tasks :: "'w job_env \<Rightarrow> 'w executor_env \<Rightarrow> bool" where
  "ends_tasks base env =
     (set_ti_state env = set_db_state base \<and> no_exit env \<and>
      (\<forall>t w. end_state (db_state base t (snd (run_raw_task env t (save_try env t w))))) \<and>
      (\<forall>t w u. u \<noteq> t \<longrightarrow> db_state base u (snd (run_raw_task env t (save_try env t w))) = db_state base u w))"

definition takes_from_queue :: "'w executor_env \<Rightarrow> bool" where
  "takes_from_queue env =
     (\<forall>ex. ex_running ex = [] \<longrightarrow> distinct (chosen env ex) \<and> set (chosen env ex) \<subseteq> set (queued_tasks ex) \<and>
        (queued_tasks ex \<noteq> [] \<longrightarrow> chosen env ex \<noteq> []))"

definition resting :: "'w executor \<Rightarrow> bool" where
  "resting ex = (tasks_to_run ex = [] \<and> ex_running ex = [] \<and> event_buffer ex = [] \<and> inj_on task_id_of (set (queued_tasks ex)))"

lemma held_in_process: "held (in_process_env base env) ex = set (queued_tasks ex) \<union> set (ex_running ex)"
  by (auto simp: held_def in_process_env_def)

lemma tried_states:
  assumes "ends_tasks base env" "keeps_states base"
  shows "(u \<in> task_id_of ` set ks \<longrightarrow> end_state (db_state base u (foldl (tried env) w ks))) \<and>
    (u \<notin> task_id_of ` set ks \<longrightarrow> db_state base u (foldl (tried env) w ks) = db_state base u w)"
proof (induction ks rule: rev_induct)
  case (snoc k ks)
  let ?v = "foldl (tried env) w ks"
  have "end_state (db_state base (task_id_of k) (tried env ?v k))"
    and "u \<noteq> task_id_of k \<Longrightarrow> db_state base u (tried env ?v k) = db_state base u ?v"
    using assms by (simp_all add: tried_def ends_tasks_def keeps_states_def run_task_instance_def end_state_def [of "Some AF_FAILED"])
  then show ?case using snoc by (cases "u = task_id_of k") simp_all
qed simp

lemma start_chosen_lists:
  "start_chosen env ex = ex\<lparr>queued_tasks := filter (\<lambda>k. k \<notin> set (chosen env ex)) (queued_tasks ex),
     ex_running := ex_running ex @ chosen env ex, tasks_to_run := tasks_to_run ex @ chosen env ex\<rparr>"
proof -
  have "foldl (\<lambda>ex k. execute_async k (ex\<lparr>queued_tasks := pop_ti k (queued_tasks ex), ex_running := ex_running ex @ [k]\<rparr>)) ex cs =
      ex\<lparr>queued_tasks := filter (\<lambda>k. k \<notin> set cs) (queued_tasks ex),
         ex_running := ex_running ex @ cs, tasks_to_run := tasks_to_run ex @ cs\<rparr>" for cs
  proof (induction cs rule: rev_induct)
    case (snoc c cs)
    have "pop_ti c (filter (\<lambda>k. k \<notin> set cs) (queued_tasks ex)) = filter (\<lambda>k. k \<notin> set (cs @ [c])) (queued_tasks ex)"
      by (auto simp: pop_ti_def intro: filter_cong)
    then show ?case unfolding foldl_append foldl.simps snoc by (simp add: execute_async_def)
  qed simp
  then show ?thesis by (simp add: start_chosen_def)
qed

text \<open>A heartbeat from a resting executor brings all the tasks it takes to an end.\<close>

lemma heartbeat_outcome:
  assumes "resting ex" "\<not> ex_fail_fast env" "ends_tasks base env" "takes_from_queue env"
  shows "\<exists>ex'. executor_heartbeat env ex = (Inr (), ex') \<and> tasks_to_run ex' = [] \<and> ex_running ex' = [] \<and>
    queued_tasks ex' = filter (\<lambda>k. k \<notin> set (chosen env ex)) (queued_tasks ex) \<and>
    outside ex' = foldl (tried env) (outside ex) (chosen env ex) \<and> fst ` set (event_buffer ex') \<subseteq> set (chosen env ex)"
proof -
  let ?c = "chosen env ex" and ?s = "start_chosen env ex"
  have c: "distinct ?c" "set ?c \<subseteq> set (queued_tasks ex)"
    using assms(1,4) by (auto simp: takes_from_queue_def resting_def)
  have s: "tasks_to_run ?s = ?c" "ex_running ?s = ?c" "event_buffer ?s = []" "outside ?s = outside ex"
    "queued_tasks ?s = filter (\<lambda>k. k \<notin> set ?c) (queued_tasks ex)"
    using assms(1) by (simp_all add: start_chosen_lists resting_def)
  have exit: "no_exit env" using assms(3) by (simp add: ends_tasks_def)
  obtain ex' ys zs where o: "sync env ?s = (Inr (), ex')" "tasks_to_run ex' = []" "answers_split env False ?c ?s ex' ys zs"
    using sync_outcome [of ?s env] c(1) exit unfolding s(1,2) by blast
  then have zs: "zs = []" "ys = ?c" using assms(2) by (auto simp: answers_split_def)
  have eq: "map_of (event_buffer ex') |` (- set ?c) = Map.empty"
    using o(3) unfolding answers_split_def s(3) by (elim conjE) simp
  have "map_of (event_buffer ex') k = None" if "k \<notin> set ?c" for k
    using fun_cong [OF eq, of k] that by (simp add: restrict_map_def)
  then have "dom (map_of (event_buffer ex')) \<subseteq> set ?c" by (metis domIff subsetI)
  then have "fst ` set (event_buffer ex') \<subseteq> set ?c" by (simp add: dom_map_of_conv_image_fst)
  then show ?thesis
    using o zs s by (simp add: executor_heartbeat_def answers_split_def filter_id_conv)
qed

lemma in_process_keeps_db:
  assumes "keeps_states base" shows "faithful_db (in_process_env base env) resting"
proof -
  have queue: "resting (queue_command k ex) \<and> set (queued_tasks (queue_command k ex)) = insert k (set (queued_tasks ex)) \<and>
      ex_running (queue_command k ex) = ex_running ex \<and> outside (queue_command k ex) = outside ex"
    if "resting ex" "task_id_of k \<notin> task_id_of ` (set (queued_tasks ex) \<union> set (ex_running ex))" for k ex
  proof -
    have "k \<notin> set (queued_tasks ex)" "k \<notin> set (ex_running ex)" using that(2) by blast+
    then show ?thesis using that by (simp add: queue_command_def resting_def)
  qed
  have resting: "resting (ex\<lparr>outside := w\<rparr>) = resting ex" for ex :: "'a executor" and w by (simp add: resting_def)
  let ?e = "in_process_env base env" and ?h = "\<lambda>ex :: 'a executor. set (queued_tasks ex) \<union> set (ex_running ex)"
  have k: "\<And>t st w u. db_state base u (set_db_state base t st w) = (if u = t then Some st else db_state base u w)"
    "\<And>w u. db_state base u (snd (update_dag_run base w)) = db_state base u w"
    "\<And>w u. end_state (db_state base u w) \<Longrightarrow> end_state (db_state base u (clean_zombies base w))"
    "\<And>w u. db_state base u w = Some AF_QUEUED \<Longrightarrow> db_state base u (clean_zombies base w) = Some AF_QUEUED"
    using assms by (simp_all add: keeps_states_def)
  have "\<forall>t st ex. resting ex \<longrightarrow> resting (set_db_state ?e t st ex) \<and> ?h (set_db_state ?e t st ex) = ?h ex \<and>
      (\<forall>u. db_state ?e u (set_db_state ?e t st ex) = (if u = t then Some st else db_state ?e u ex))"
    by (simp add: in_process_env_def resting k)
  moreover have "\<forall>k ex. resting ex \<and> task_id_of k \<notin> task_id_of ` ?h ex \<longrightarrow> resting (queue_task_instance ?e k ex) \<and>
      ?h (queue_task_instance ?e k ex) = insert k (?h ex) \<and>
      (\<forall>u. db_state ?e u (queue_task_instance ?e k ex) = db_state ?e u ex)"
  proof (intro allI impI)
    fix k ex assume "resting ex \<and> task_id_of k \<notin> task_id_of ` ?h ex"
    then show "resting (queue_task_instance ?e k ex) \<and> ?h (queue_task_instance ?e k ex) = insert k (?h ex) \<and>
      (\<forall>u. db_state ?e u (queue_task_instance ?e k ex) = db_state ?e u ex)"
      using queue [of ex k] by (simp add: in_process_env_def)
  qed
  moreover have "\<forall>ex. resting ex \<longrightarrow> resting (snd (update_dag_run ?e ex)) \<and> ?h (snd (update_dag_run ?e ex)) = ?h ex \<and>
      (\<forall>u. db_state ?e u (snd (update_dag_run ?e ex)) = db_state ?e u ex)"
    using k(2) by (simp add: in_process_env_def resting case_prod_beta)
  moreover have "\<forall>ex. resting ex \<longrightarrow> resting (clean_zombies ?e ex) \<and> ?h (clean_zombies ?e ex) = ?h ex \<and>
      (\<forall>u. end_state (db_state ?e u ex) \<longrightarrow> end_state (db_state ?e u (clean_zombies ?e ex))) \<and>
      (\<forall>u. db_state ?e u ex = Some AF_QUEUED \<longrightarrow> db_state ?e u (clean_zombies ?e ex) = Some AF_QUEUED)"
    using k(3,4) by (simp add: in_process_env_def resting)
  ultimately show ?thesis unfolding faithful_db_def held_in_process by (intro conjI)
qed

lemma in_process_checks:
  assumes "checks_dependencies base" shows "sound_dependencies (in_process_env base env) resting"
proof -
  have resting: "resting (ex\<lparr>outside := w\<rparr>) = resting ex" for ex :: "'a executor" and w by (simp add: resting_def)
  show ?thesis
    unfolding sound_dependencies_def held_in_process
  proof (intro allI impI)
    fix t st and ex ex' :: "'a executor" and met st'
    assume good: "resting ex" and d: "dependencies_met (in_process_env base env) t st ex = (met, st', ex')"
    obtain w where w: "dependencies_met base t st (outside ex) = (met, st', w)" "ex' = ex\<lparr>outside := w\<rparr>"
      using d by (auto simp: in_process_env_def split: prod.splits)
    have "(\<forall>u. u \<noteq> t \<longrightarrow> db_state base u w = db_state base u (outside ex)) \<and>
        (met \<longrightarrow> db_state base t w = Some AF_SCHEDULED) \<and> (\<not> met \<longrightarrow> st' \<noteq> Some AF_UP_FOR_RETRY)"
      using assms w(1) unfolding checks_dependencies_def by blast
    then show "resting ex' \<and> set (queued_tasks ex') \<union> set (ex_running ex') = set (queued_tasks ex) \<union> set (ex_running ex) \<and>
        (\<forall>u. u \<noteq> t \<longrightarrow> db_state (in_process_env base env) u ex' = db_state (in_process_env base env) u ex) \<and>
        (met \<longrightarrow> db_state (in_process_env base env) t ex' = Some AF_SCHEDULED) \<and> (\<not> met \<longrightarrow> st' \<noteq> Some AF_UP_FOR_RETRY)"
      using good by (simp add: w(2) resting in_process_env_def)
  qed
qed

lemma in_process_progresses:
  assumes "\<not> ex_fail_fast env" "ends_tasks base env" "takes_from_queue env" "keeps_states base"
  shows "progressing_executor (in_process_env base env) resting"
  unfolding progressing_executor_def held_in_process
proof (intro allI impI)
  fix ex v v' :: "'a executor" and evs
  assume good: "resting ex" and beat: "heartbeats (in_process_env base env) ex = (Inr (), v)"
    and got: "get_event_buffer (in_process_env base env) v = (evs, v')"
  let ?c = "chosen env ex"
  have c: "set ?c \<subseteq> set (queued_tasks ex)" "queued_tasks ex \<noteq> [] \<Longrightarrow> ?c \<noteq> []"
    and q: "ex_running ex = []" "inj_on task_id_of (set (queued_tasks ex))"
    using assms(3) good by (simp_all add: takes_from_queue_def resting_def)
  from heartbeat_outcome [OF good assms(1-3)] obtain ex' where ex': "executor_heartbeat env ex = (Inr (), ex')"
    "tasks_to_run ex' = []" "ex_running ex' = []" "queued_tasks ex' = filter (\<lambda>k. k \<notin> set ?c) (queued_tasks ex)"
    "outside ex' = foldl (tried env) (outside ex) ?c" "fst ` set (event_buffer ex') \<subseteq> set ?c" by blast
  have v: "v = ex'" "evs = event_buffer ex'" "v' = ex'\<lparr>event_buffer := []\<rparr>"
    using beat got ex'(1) by (auto simp: in_process_env_def)
  have left: "set (queued_tasks ex') = set (queued_tasks ex) - set ?c" by (auto simp: ex'(4))
  have rest: "resting v'" using q(2) left by (auto simp: v resting_def ex'(2,3) intro: inj_on_subset)
  have states: "(u \<in> task_id_of ` set ?c \<longrightarrow> end_state (db_state base u (outside ex'))) \<and>
      (u \<notin> task_id_of ` set ?c \<longrightarrow> db_state base u (outside ex') = db_state base u (outside ex))" for u
    unfolding ex'(5) by (rule tried_states [OF assms(2,4)])
  have kept: "db_state base (task_id_of k) (outside ex') = db_state base (task_id_of k) (outside ex)"
    if "k \<in> set (queued_tasks ex')" for k
  proof -
    have "task_id_of k \<notin> task_id_of ` set ?c"
    proof
      assume "task_id_of k \<in> task_id_of ` set ?c"
      then obtain x where x: "x \<in> set ?c" "task_id_of x = task_id_of k" by (metis imageE)
      then show False using inj_onD [OF q(2) x(2)] c(1) that left by blast
    qed
    then show ?thesis using states by blast
  qed
  have "set (queued_tasks ex') \<noteq> set (queued_tasks ex)" if "queued_tasks ex \<noteq> []"
    using c that left by (metis Diff_disjoint inf.absorb_iff2 inf_commute set_empty)
  then show "resting v' \<and>
      set (queued_tasks v') \<union> set (ex_running v') = set (queued_tasks v) \<union> set (ex_running v) \<and>
      (\<forall>u. db_state (in_process_env base env) u v' = db_state (in_process_env base env) u v) \<and>
      set (queued_tasks v) \<union> set (ex_running v) \<subseteq> set (queued_tasks ex) \<union> set (ex_running ex) \<and>
      (set (queued_tasks ex) \<union> set (ex_running ex) \<noteq> {} \<longrightarrow>
         set (queued_tasks v) \<union> set (ex_running v) \<noteq> set (queued_tasks ex) \<union> set (ex_running ex)) \<and>
      (\<forall>k \<in> set (queued_tasks v) \<union> set (ex_running v).
         db_state (in_process_env base env) (task_id_of k) v = db_state (in_process_env base env) (task_id_of k) ex) \<and>
      (\<forall>k \<in> set (queued_tasks ex) \<union> set (ex_running ex) - (set (queued_tasks v) \<union> set (ex_running v)).
         end_state (db_state (in_process_env base env) (task_id_of k) v)) \<and>
      fst ` set evs \<subseteq> set (queued_tasks ex) \<union> set (ex_running ex) - (set (queued_tasks v) \<union> set (ex_running v))"
    using rest left c(1) q(1) ex'(3,6) kept states
    by (intro conjI) (auto simp: v in_process_env_def)
qed

text \<open>
  Without failing fast every task is tried, whatever the tasks before it raised, an interrupt of the user
  (\<open>KeyboardInterrupt\<close>) included.
\<close>

lemma interrupted_sync_goes_on:
  assumes "distinct (tasks_to_run ex)" "set (tasks_to_run ex) \<subseteq> set (ex_running ex)" "no_exit env" "\<not> ex_fail_fast env"
  shows "outside (snd (sync env ex)) = foldl (tried env) (outside ex) (tasks_to_run ex)"
  using sync_outcome [OF assms(1-3)] assms(4) by (auto simp: answers_split_def)


text \<open>
  C18. \<open>sync\<close> answers every task it was given once, and none is left running: the tasks are tried one after the
  other. When the executor fails fast the rest after the first one whose run raises is marked as
  upstream-failed without being run; otherwise all are tried.
\<close>
theorem failing_fast_skips_the_rest:
  assumes "distinct (tasks_to_run ex)" "set (tasks_to_run ex) \<subseteq> set (ex_running ex)" "no_exit env"
  shows "\<exists>ex' ys zs. sync env ex = (Inr (), ex') \<and> tasks_to_run ex' = [] \<and> tasks_to_run ex = ys @ zs \<and>
    ys = (if ex_fail_fast env then until_failure env (outside ex) (tasks_to_run ex) else tasks_to_run ex) \<and>
    ex_running ex' = filter (\<lambda>k. k \<notin> set (ys @ zs)) (ex_running ex) \<and>
    outside ex' = foldl (skipped_fast env) (foldl (tried env) (outside ex) ys) zs \<and>
    set (map (map_of (event_buffer ex')) ys) \<subseteq> {Some AF_SUCCESS, Some AF_FAILED} \<and>
    map (map_of (event_buffer ex')) zs = replicate (length zs) (Some AF_UPSTREAM_FAILED)"
proof -
  obtain ex' ys zs where o: "sync env ex = (Inr (), ex')" "tasks_to_run ex' = []"
    "answers_split env False (tasks_to_run ex) ex ex' ys zs" using sync_outcome [OF assms] by blast
  have "map (map_of (event_buffer ex')) zs = replicate (length zs) (Some AF_UPSTREAM_FAILED)"
    using answers_splitD(7) [OF o(3)] by (simp add: map_eq_conv map_replicate_const [symmetric] cong: map_cong)
  moreover have "set (map (map_of (event_buffer ex')) ys) \<subseteq> {Some AF_SUCCESS, Some AF_FAILED}"
    using answers_splitD(6) [OF o(3)] by auto
  moreover have "ys = (if ex_fail_fast env then until_failure env (outside ex) (tasks_to_run ex) else tasks_to_run ex)"
  proof (cases "ex_fail_fast env")
    case False
    then have "zs = []" using answers_splitD(9) [OF o(3)] by blast
    then show ?thesis using False answers_splitD(1) [OF o(3)] by simp
  qed (use answers_splitD(8) [OF o(3)] in simp)
  moreover have "ex_running ex' = filter (\<lambda>k. k \<notin> set (ys @ zs)) (ex_running ex)"
    using answers_splitD(3) [OF o(3)] unfolding answers_splitD(1) [OF o(3)] .
  moreover note answers_splitD(1,4) [OF o(3)]
  ultimately show ?thesis
    using o(1,2) by - (rule exI [of _ ex'], rule exI [of _ ys], rule exI [of _ zs], intro conjI)
qed

section \<open>A small Airflow\<close>

text \<open>
  The outside world is the map of the states of the tasks. A task that is not scheduled is held back as one
  whose upstream failed; task \<open>b\<close> is interrupted, and a heartbeat takes one task.
\<close>

definition map_base :: "(string \<Rightarrow> af_state option) job_env" where
  "map_base =
     \<lparr>db_state = (\<lambda>t w. w t), set_db_state = (\<lambda>t st w. w(t := Some st)),
      dependencies_met = (\<lambda>t st w. if w t = Some AF_SCHEDULED then (True, st, w)
                                   else (False, Some AF_UPSTREAM_FAILED, w(t := Some AF_UPSTREAM_FAILED))),
      has_task = (\<lambda>_ _. False), queue_task_instance = (\<lambda>_ w. w), heartbeats = (\<lambda>w. (Inr (), w)),
      get_event_buffer = (\<lambda>w. ([], w)), fail_task_instance = (\<lambda>t w. (Some AF_FAILED, w(t := Some AF_FAILED))),
      clean_zombies = (\<lambda>w. w), update_dag_run = (\<lambda>w. (True, w)), run_is_killed = (\<lambda>_. False),
      end_executor = (\<lambda>w. w), sorted_tasks = [''a'', ''b'', ''c'']\<rparr>"

definition map_executor :: "bool \<Rightarrow> (string \<Rightarrow> af_state option) executor_env" where
  "map_executor fast =
     \<lparr>ex_fail_fast = fast, save_try = (\<lambda>t w. w(t := Some AF_RUNNING)),
      run_raw_task = (\<lambda>t w. if t = ''b'' then (Inl RaisedInterrupt, w(t := Some AF_FAILED)) else (Inr (), w(t := Some AF_SUCCESS))),
      set_ti_state = (\<lambda>t st w. w(t := Some st)), context_is_killed = (\<lambda>_. False), chosen = (\<lambda>ex. take 1 (queued_tasks ex))\<rparr>"

lemma map_airflow:
  "keeps_states map_base" "checks_dependencies map_base" "ends_tasks map_base (map_executor fast)"
  "takes_from_queue (map_executor fast)" "no_exit (map_executor fast)"
proof -
  have "distinct (take 1 xs)" for xs :: "ti list" by (cases xs) simp_all
  then show "takes_from_queue (map_executor fast)"
    by (simp add: takes_from_queue_def map_executor_def set_take_subset)
qed (auto simp: keeps_states_def checks_dependencies_def ends_tasks_def no_exit_def end_state_def
    map_base_def map_executor_def fun_eq_iff)


theorem failing_fast_skips_the_rest_witness:
  "\<exists>ex'. sync (map_executor True)
     \<lparr>queued_tasks = [], ex_running = [(''d'', ''b'', ''x'', 1), (''d'', ''c'', ''x'', 1)],
      tasks_to_run = [(''d'', ''b'', ''x'', 1), (''d'', ''c'', ''x'', 1)], event_buffer = [], outside = (\<lambda>_. Some AF_QUEUED)\<rparr> = (Inr (), ex') \<and>
     ex_running ex' = [] \<and> outside ex' ''c'' = Some AF_UPSTREAM_FAILED"
proof -
  let ?ks = "[(''d'', ''b'', ''x'', 1), (''d'', ''c'', ''x'', 1)] :: ti list"
  let ?ex = "\<lparr>queued_tasks = [], ex_running = ?ks, tasks_to_run = ?ks, event_buffer = [], outside = (\<lambda>_. Some AF_QUEUED)\<rparr>"
  have "distinct (tasks_to_run ?ex)" "set (tasks_to_run ?ex) \<subseteq> set (ex_running ?ex)" by simp_all
  from failing_fast_skips_the_rest [OF this map_airflow(5) [of True]] show ?thesis
  proof (elim exE conjE)
    fix ex' ys zs
    assume o: "sync (map_executor True) ?ex = (Inr (), ex')" "tasks_to_run ?ex = ys @ zs"
      "ex_running ex' = filter (\<lambda>k. k \<notin> set (ys @ zs)) (ex_running ?ex)"
    then have "ex_running ex' = []" unfolding o(2) [symmetric] by simp
    moreover have "outside ex' ''c'' = Some AF_UPSTREAM_FAILED"
      using arg_cong [OF o(1), of "\<lambda>x. outside (snd x) ''c''"]
      by (simp add: sync_def sync_task_def before_def write_and_change_def change_state_def run_task_instance_def
          map_executor_def pop_ti_def task_id_of_def)
    ultimately show ?thesis using o(1) by blast
  qed
qed

end
