(* ===== verification/LogPreview.thy ===== *)
theory LogPreview
  imports PodNames "HOL-Library.Sublist"
begin

text \<open>
  The preview of the log of a task run (\<open>_core/task_run/log_preview.py\<close>): the head and the tail of a file
  within limits of bytes, whole lines only, and the merge with the log of a Spark job.  A \<open>char\<close> is a
  byte; decoded text is represented by its encoding in UTF-8, and decoding checks it.
\<close>

section \<open>Reading lines\<close>

text \<open>The lines of a file that is open for reading bytes end after the byte 10.\<close>

fun split_lines :: "string \<Rightarrow> string list" where
  "split_lines [] = []"
| "split_lines (b # bs) =
     (if b = CHR 0x0A then [b] # split_lines bs
      else (case split_lines bs of [] \<Rightarrow> [[b]] | l # ls \<Rightarrow> (b # l) # ls))"

text \<open>\<open>readlines(hint)\<close> reads lines until their total size exceeds the hint.\<close>

fun lines_until :: "nat \<Rightarrow> nat \<Rightarrow> string list \<Rightarrow> string list" where
  "lines_until hint n [] = []"
| "lines_until hint n (l # ls) = l # (if hint < n + length l then [] else lines_until hint (n + length l) ls)"

definition readlines :: "nat \<Rightarrow> string \<Rightarrow> string list" where
  "readlines hint content = (if hint = 0 then split_lines content else lines_until hint 0 (split_lines content))"

fun adjust_loop :: "nat \<Rightarrow> nat \<Rightarrow> string list \<Rightarrow> string list" where
  "adjust_loop limit current [] = []"
| "adjust_loop limit current (l # ls) =
     (if current + length l \<le> limit then l # adjust_loop limit (current + length l) ls else [])"

definition adjust_log_lines_to_size :: "string list \<Rightarrow> nat \<Rightarrow> bool \<Rightarrow> string list" where
  "adjust_log_lines_to_size log_lines limit backwards =
     (if backwards then rev (adjust_loop limit 0 (rev log_lines)) else adjust_loop limit 0 log_lines)"

section \<open>Decoding\<close>

definition in_range :: "nat \<Rightarrow> nat \<Rightarrow> char \<Rightarrow> bool" where
  "in_range a b c = (a \<le> (of_char c :: nat) \<and> (of_char c :: nat) \<le> b)"

text \<open>
  The well-formed sequences of UTF-8: the range of the second byte after a first byte, and the number of
  the bytes that follow it.
\<close>

definition first_byte :: "char \<Rightarrow> (nat \<times> nat \<times> nat) option" where
  "first_byte c =
     (if in_range 0xC2 0xDF c then Some (0x80, 0xBF, 0)
      else if in_range 0xE0 0xE0 c then Some (0xA0, 0xBF, 1)
      else if in_range 0xED 0xED c then Some (0x80, 0x9F, 1)
      else if in_range 0xE1 0xEF c then Some (0x80, 0xBF, 1)
      else if in_range 0xF0 0xF0 c then Some (0x90, 0xBF, 2)
      else if in_range 0xF1 0xF3 c then Some (0x80, 0xBF, 2)
      else if in_range 0xF4 0xF4 c then Some (0x80, 0x8F, 2)
      else None)"

text \<open>\<open>pending\<close> is what has to come: the range of the next byte and how many follow it.\<close>

fun utf8_valid :: "(nat \<times> nat \<times> nat) option \<Rightarrow> string \<Rightarrow> bool" where
  "utf8_valid pending [] = (pending = None)"
| "utf8_valid None (c # cs) =
     (if in_range 0 0x7F c then utf8_valid None cs
      else (case first_byte c of None \<Rightarrow> False | Some p \<Rightarrow> utf8_valid (Some p) cs))"
| "utf8_valid (Some (a, b, n)) (c # cs) =
     (in_range a b c \<and> utf8_valid (case n of 0 \<Rightarrow> None | Suc m \<Rightarrow> Some (0x80, 0xBF, m)) cs)"

definition decode :: "string \<Rightarrow> string result" where
  "decode s = (if utf8_valid None s then Inr s else Inl (ValueError ''UnicodeDecodeError''))"

definition strip_line_end :: "string \<Rightarrow> string" where
  "strip_line_end s = rev (dropWhile (\<lambda>c. c = CHR 0x0D \<or> c = CHR 0x0A) (rev s))"

definition decode_lines :: "string list \<Rightarrow> string list result" where
  "decode_lines ls = rmap (map strip_line_end) (mapM decode ls)"

section \<open>The head and the tail\<close>

text \<open>
  \<open>seekable\<close> tells whether the file can seek; when it cannot, the tail is read from where the reading of
  the head has stopped.
\<close>

definition read_head_and_tail :: "bool \<Rightarrow> string \<Rightarrow> int \<Rightarrow> int \<Rightarrow> string list list result" where
  "read_head_and_tail seekable content head_size tail_size =
     (if head_size < 0 \<or> tail_size < 0 then Inl (ValueError ''tail and head max size has to be non negative integers'')
      else if head_size + tail_size < int (length content) then
        (let hs = nat head_size; ts = nat tail_size;
             head_read = (if hs = 0 then [] else readlines hs content);
             pos = (if seekable then length content - ts else length (concat head_read));
             tail_content = adjust_log_lines_to_size (drop 1 (readlines ts (drop pos content))) ts True
         in rbind (decode_lines (adjust_log_lines_to_size head_read hs False)) (\<lambda>h.
            rmap (\<lambda>t. [h, t]) (decode_lines tail_content)))
      else rmap (\<lambda>ls. [ls]) (decode_lines (split_lines content)))"

fun zip_longest :: "'a list list \<Rightarrow> 'a list list \<Rightarrow> ('a list \<times> 'a list) list" where
  "zip_longest [] [] = []"
| "zip_longest (x # xs) [] = (x, []) # zip_longest xs []"
| "zip_longest [] (y # ys) = ([], y) # zip_longest [] ys"
| "zip_longest (x # xs) (y # ys) = (x, y) # zip_longest xs ys"

text \<open>A failure to read the second log, and to read it only, leaves the first one.\<close>

definition merge_read_log_files ::
  "(string \<Rightarrow> string result) \<Rightarrow> bool \<Rightarrow> string \<Rightarrow> string \<Rightarrow> int \<Rightarrow> int \<Rightarrow> string list list result"
where
  "merge_read_log_files file seekable dbnd_log_path spark_log_path head_size tail_size =
     rbind (rbind (file dbnd_log_path) (\<lambda>c. read_head_and_tail seekable c head_size tail_size)) (\<lambda>dbnd_log.
       case rbind (file spark_log_path) (\<lambda>c. read_head_and_tail seekable c head_size tail_size) of
         Inl _ \<Rightarrow> Inr dbnd_log
       | Inr spark_log \<Rightarrow> Inr (map (\<lambda>(d, s). merge_dbnd_and_spark_logs d s) (zip_longest dbnd_log spark_log)))"

text \<open>\<open>merge_msg\<close> is the coloured text of the message between head and tail.\<close>

definition read_dbnd_log_preview ::
  "(string \<Rightarrow> string result) \<Rightarrow> bool \<Rightarrow> string \<Rightarrow> int \<Rightarrow> int \<Rightarrow> string \<Rightarrow> string option \<Rightarrow> string result"
where
  "read_dbnd_log_preview file seekable merge_msg max_head_size max_tail_size log_path spark_log_path =
     (if max_head_size = 0 \<and> max_tail_size = 0 then Inr ''Log truncated to empty''
      else rmap (\<lambda>parts. if \<not> list_ex (\<lambda>p. p \<noteq> []) parts then ''Log truncated to empty''
                         else join_str merge_msg (map (join_str [CHR 0x0D, CHR 0x0A]) parts))
        (case spark_log_path of
           Some spark \<Rightarrow>
             if spark = [] then rbind (file log_path) (\<lambda>c. read_head_and_tail seekable c max_head_size max_tail_size)
             else merge_read_log_files file seekable log_path spark (max_head_size div 2) (max_tail_size div 2)
         | None \<Rightarrow> rbind (file log_path) (\<lambda>c. read_head_and_tail seekable c max_head_size max_tail_size)))"

section \<open>Whole lines within the limits\<close>

abbreviation total_size :: "string list \<Rightarrow> nat" where
  "total_size ls \<equiv> length (concat ls)"

lemma concat_split_lines [simp]: "concat (split_lines c) = c"
  by (induction c rule: split_lines.induct) (auto split: list.splits)

lemma split_lines_nonempty: "l \<in> set (split_lines c) \<Longrightarrow> l \<noteq> []"
  by (induction c arbitrary: l rule: split_lines.induct) (auto split: list.splits if_splits)

lemma lines_until_prefix: "prefix (lines_until hint n ls) ls"
  by (induction hint n ls rule: lines_until.induct) auto

lemma readlines_prefix: "prefix (readlines hint c) (split_lines c)"
  by (simp add: readlines_def lines_until_prefix)

lemma adjust_loop_prefix: "prefix (adjust_loop limit n ls) ls"
  by (induction limit n ls rule: adjust_loop.induct) auto

lemma adjust_loop_size: "n \<le> limit \<Longrightarrow> n + total_size (adjust_loop limit n ls) \<le> limit"
  by (induction limit n ls rule: adjust_loop.induct) (auto simp: add.assoc)

text \<open>The lines of the rest of a file, without the first one, are lines of the file.\<close>

lemma tl_split_lines_Cons:
  "tl (split_lines (b # bs)) = (if b = CHR 0x0A then split_lines bs else tl (split_lines bs))"
  by (auto split: list.split)

lemma lines_after_seek: "suffix (tl (split_lines (drop n c))) (tl (split_lines c))"
proof (induction n arbitrary: c)
  case (Suc n)
  show ?case
  proof (cases c)
    case (Cons b bs)
    then show ?thesis
      using Suc.IH [of bs] suffix_order.trans [OF Suc.IH [of bs] suffix_tl]
      by (simp add: tl_split_lines_Cons del: split_lines.simps)
  qed simp
qed simp

lemma adjusted_head:
  "prefix (adjust_log_lines_to_size (if hs = 0 then [] else readlines hs c) hs False) (split_lines c) \<and>
   total_size (adjust_log_lines_to_size (if hs = 0 then [] else readlines hs c) hs False) \<le> hs"
proof -
  have "prefix (adjust_loop hs 0 (if hs = 0 then [] else readlines hs c)) (split_lines c)"
    using prefix_order.trans [OF adjust_loop_prefix readlines_prefix] by simp
  then show ?thesis using adjust_loop_size [of 0 hs] by (simp add: adjust_log_lines_to_size_def)
qed

lemma adjusted_tail:
  "suffix (adjust_log_lines_to_size ls ts True) ls \<and> total_size (adjust_log_lines_to_size ls ts True) \<le> ts"
proof -
  have "suffix (rev (adjust_loop ts 0 (rev ls))) ls"
    using adjust_loop_prefix [of ts 0 "rev ls"] by (simp add: suffix_to_prefix)
  moreover have "total_size (rev xs) = total_size xs" for xs :: "string list"
    by (simp add: length_concat rev_map [symmetric])
  ultimately show ?thesis using adjust_loop_size [of 0 ts "rev ls"] by (simp add: adjust_log_lines_to_size_def)
qed

text \<open>A prefix and a suffix that are together smaller than the whole do not overlap.\<close>

lemma no_overlap:
  assumes "prefix h ls" "suffix t ls" "total_size h + total_size t < total_size ls"
  shows "\<exists>mid. ls = h @ mid @ t"
proof -
  obtain q where q: "ls = h @ q" using assms(1) by (auto simp: prefix_def)
  obtain p where p: "ls = p @ t" using assms(2) by (auto simp: suffix_def)
  have "h @ q = p @ t" using q p by simp
  then consider us where "h @ us = p" "q = us @ t" | us where "h = p @ us" "us @ q = t"
    by (auto simp: append_eq_append_conv2)
  then show ?thesis
  proof cases
    case 1
    then show ?thesis using q by blast
  next
    case 2
    then have "total_size ls \<le> total_size h + total_size t" using q by simp
    then show ?thesis using assms(3) by simp
  qed
qed

text \<open>The head is as long as the limit allows.\<close>

lemma adjust_lines_until: "n \<le> hint \<Longrightarrow> adjust_loop hint n (lines_until hint n ls) = adjust_loop hint n ls"
  by (induction hint n ls rule: lines_until.induct) auto

lemma adjust_loop_maximal:
  "adjust_loop limit n ls @ r = ls \<Longrightarrow> r \<noteq> [] \<Longrightarrow> limit < n + total_size (adjust_loop limit n ls) + length (hd r)"
  by (induction limit n ls arbitrary: r rule: adjust_loop.induct) (auto simp: add.assoc split: if_splits)

lemma head_is_maximal:
  assumes "adjust_log_lines_to_size (if hs = 0 then [] else readlines hs c) hs False @ r = split_lines c" "r \<noteq> []"
  shows "hs < total_size (adjust_log_lines_to_size (if hs = 0 then [] else readlines hs c) hs False) + length (hd r)"
proof (cases "hs = 0")
  case True
  then have "hd r \<in> set (split_lines c)" using assms by (simp add: adjust_log_lines_to_size_def flip: assms(1))
  then show ?thesis using split_lines_nonempty True by (auto simp: length_greater_0_conv)
next
  case False
  then have "adjust_log_lines_to_size (if hs = 0 then [] else readlines hs c) hs False = adjust_loop hs 0 (split_lines c)"
    by (simp add: adjust_log_lines_to_size_def readlines_def adjust_lines_until)
  then show ?thesis using adjust_loop_maximal [of hs 0 "split_lines c" r] assms by simp
qed

section \<open>Whole lines can be decoded\<close>

definition continues :: "(nat \<times> nat \<times> nat) option \<Rightarrow> bool" where
  "continues p = (case p of None \<Rightarrow> True | Some (a, b, n) \<Rightarrow> 0x80 \<le> a)"

lemma first_byte_continues: "first_byte c = Some p \<Longrightarrow> continues (Some p)"
  by (auto simp: first_byte_def continues_def split: if_splits)

lemma newline_code [simp]: "of_char (CHR 0x0A) = (10 :: nat)"
  by simp

text \<open>No line is cut within a character.\<close>

lemma utf8_lines:
  "utf8_valid p c \<Longrightarrow> continues p \<Longrightarrow>
     (c = [] \<and> p = None) \<or> (c \<noteq> [] \<and> utf8_valid p (hd (split_lines c)) \<and> (\<forall>l \<in> set (tl (split_lines c)). utf8_valid None l))"
proof (induction p c rule: utf8_valid.induct)
  case (2 c cs)
  show ?case
  proof (cases "c = CHR 0x0A")
    case True
    then have "utf8_valid None cs" using 2(3) by (simp add: in_range_def)
    moreover have "in_range 0 0x7F c" using True by (simp add: in_range_def)
    ultimately have "cs = [] \<or> (cs \<noteq> [] \<and> utf8_valid None (hd (split_lines cs)) \<and> (\<forall>l \<in> set (tl (split_lines cs)). utf8_valid None l))"
      using 2(1) by (simp add: continues_def)
    moreover have "l = hd (split_lines cs) \<or> l \<in> set (tl (split_lines cs))" if "l \<in> set (split_lines cs)" for l
      using that by (cases "split_lines cs") auto
    ultimately show ?thesis using True by (auto simp: in_range_def)
  next
    case False
    obtain q where q: "utf8_valid q cs" "continues q" "\<And>s. utf8_valid None (c # s) = utf8_valid q s"
      and ih: "(cs = [] \<and> q = None) \<or> (cs \<noteq> [] \<and> utf8_valid q (hd (split_lines cs)) \<and> (\<forall>l \<in> set (tl (split_lines cs)). utf8_valid None l))"
    proof (cases "in_range 0 0x7F c")
      case True
      then show thesis using that [of None] 2(1,3) by (simp add: continues_def)
    next
      case nr: False
      then obtain p where p: "first_byte c = Some p" using 2(3) by (auto split: option.splits)
      then show thesis using that [of "Some p"] 2(2,3) nr first_byte_continues [OF p] by simp
    qed
    show ?thesis
    proof (cases "split_lines cs")
      case Nil
      then have "cs = []" by (cases cs) (auto split: list.splits if_splits)
      then show ?thesis using ih q(3) False by auto
    next
      case (Cons l ls)
      then have "cs \<noteq> []" by auto
      then show ?thesis using ih q(3) False Cons by auto
    qed
  qed
next
  case (3 a b n c cs)
  let ?q = "case n of 0 \<Rightarrow> None | Suc m \<Rightarrow> Some (0x80 :: nat, 0xBF :: nat, m)"
  have r: "in_range a b c" "utf8_valid ?q cs" using 3(2) by simp_all
  have "c \<noteq> CHR 0x0A" using r(1) 3(3) by (auto simp: in_range_def continues_def)
  moreover have "continues ?q" by (cases n) (simp_all add: continues_def)
  with 3(1) r have ih: "(cs = [] \<and> ?q = None) \<or>
      (cs \<noteq> [] \<and> utf8_valid ?q (hd (split_lines cs)) \<and> (\<forall>l \<in> set (tl (split_lines cs)). utf8_valid None l))" by blast
  moreover have "split_lines cs = [] \<Longrightarrow> cs = []" by (cases cs) (auto split: list.splits if_splits)
  ultimately show ?case using r(1) by (cases "split_lines cs") auto
qed auto

lemma lines_of_text_decode:
  assumes "utf8_valid None c" "set ls \<subseteq> set (split_lines c)"
  shows "decode_lines ls = Inr (map strip_line_end ls)"
proof -
  have "utf8_valid None l" if "l \<in> set (split_lines c)" for l
    using utf8_lines [OF assms(1)] that by (cases "split_lines c") (auto simp: continues_def)
  then have "mapM decode ls = Inr (map id ls)"
    using assms(2) by (intro mapM_total) (auto simp: decode_def)
  then show ?thesis by (simp add: decode_lines_def)
qed

text \<open>
  C37. The preview of a log file holding text never fails for limits that are not negative. A file within the
  limits is shown whole. Otherwise the head and the tail are whole lines from both ends of the file that do
  not overlap and keep their limits, although the reading of the tail starts in the middle of a line or of a
  character, and the head is as long as its limit allows.
\<close>
theorem preview_is_whole_lines_within_limits:
  assumes "utf8_valid None c" "0 \<le> h" "0 \<le> t"
  shows "if h + t < int (length c)
    then \<exists>hd_lines mid tl_lines. split_lines c = hd_lines @ mid @ tl_lines \<and> mid \<noteq> [] \<and>
           read_head_and_tail True c h t = Inr [map strip_line_end hd_lines, map strip_line_end tl_lines] \<and>
           int (total_size hd_lines) \<le> h \<and> int (total_size tl_lines) \<le> t \<and> h < int (total_size (hd_lines @ [hd mid]))
    else read_head_and_tail True c h t = Inr [map strip_line_end (split_lines c)]"
proof (cases "h + t < int (length c)")
  case True
  let ?hs = "nat h" and ?ts = "nat t"
  let ?h = "adjust_log_lines_to_size (if ?hs = 0 then [] else readlines ?hs c) ?hs False"
  let ?rest = "readlines ?ts (drop (length c - ?ts) c)"
  let ?t = "adjust_log_lines_to_size (drop 1 ?rest) ?ts True"
  have h: "prefix ?h (split_lines c)" "total_size ?h \<le> ?hs" using adjusted_head by blast+
  have "prefix ?rest (split_lines (drop (length c - ?ts) c))" by (rule readlines_prefix)
  moreover have "?rest = split_lines (drop (length c - ?ts) c)"
  proof -
    have "lines_until ts n ls = ls" if "n + total_size ls \<le> ts" for ts n ls
      using that by (induction ls arbitrary: n) auto
    from this [of 0 "split_lines (drop (length c - ?ts) c)" ?ts] show ?thesis by (simp add: readlines_def)
  qed
  then have "suffix (drop 1 ?rest) (split_lines c)"
    using suffix_order.trans [OF lines_after_seek suffix_tl] by (simp add: drop_Suc)
  then have t: "suffix ?t (split_lines c)" "total_size ?t \<le> ?ts"
    using adjusted_tail suffix_order.trans by blast+
  have less: "total_size ?h + total_size ?t < length c" using h(2) t(2) True assms(2,3) by linarith
  then obtain mid where mid: "split_lines c = ?h @ mid @ ?t" using no_overlap [OF h(1) t(1)] by auto
  have "mid \<noteq> []"
  proof
    assume "mid = []"
    then have "total_size (split_lines c) = total_size ?h + total_size ?t" by (simp add: mid)
    then show False using less by simp
  qed
  moreover have "read_head_and_tail True c h t = Inr [map strip_line_end ?h, map strip_line_end ?t]"
  proof -
    have "decode_lines ?h = Inr (map strip_line_end ?h)" "decode_lines ?t = Inr (map strip_line_end ?t)"
      by (rule lines_of_text_decode [OF assms(1)], use mid in auto)+
    then show ?thesis using True assms(2,3) by (simp add: read_head_and_tail_def Let_def)
  qed
  moreover have "h < int (total_size (?h @ [hd mid]))"
    using head_is_maximal [of ?hs c "mid @ ?t"] mid \<open>mid \<noteq> []\<close> by simp
  moreover have "int (total_size ?h) \<le> h" "int (total_size ?t) \<le> t" using h(2) t(2) assms(2,3) by linarith+
  moreover note mid
  ultimately show ?thesis
    unfolding if_P [OF True] by - (rule exI [of _ ?h], rule exI [of _ mid], rule exI [of _ ?t], intro conjI)
next
  case False
  then show ?thesis
    using assms lines_of_text_decode [OF assms(1) order_refl] by (simp add: read_head_and_tail_def)
qed

definition example_log :: string where
  "example_log = ''aaaa'' @ [CHR 0x0A] @ [CHR 0xC3, CHR 0xA4, CHR 0x0A] @ ''cc'' @ [CHR 0x0A]"

theorem preview_is_whole_lines_within_limits_witness:
  "\<exists>head tail. read_head_and_tail True example_log 5 4 = Inr [head, tail] \<and> length head \<le> 5 \<and> length tail \<le> 4"
proof -
  have v: "utf8_valid None example_log"
    by (simp add: example_log_def in_range_def first_byte_def)
  have l: "(5 :: int) + 4 < int (length example_log)" by (simp add: example_log_def)
  have count: "length ls \<le> total_size ls" if "set ls \<subseteq> set (split_lines c)" for ls c
    using that
  proof (induction ls)
    case (Cons x xs)
    then have "x \<noteq> []" using split_lines_nonempty [of x c] by simp
    then have "1 \<le> length x" by (cases x) simp_all
    moreover have "length xs \<le> total_size xs" using Cons by simp
    ultimately show ?case by simp
  qed simp
  from preview_is_whole_lines_within_limits [OF v, of 5 4] obtain hd_lines mid tl_lines where
    p: "split_lines example_log = hd_lines @ mid @ tl_lines"
      "read_head_and_tail True example_log 5 4 = Inr [map strip_line_end hd_lines, map strip_line_end tl_lines]"
      "int (total_size hd_lines) \<le> 5" "int (total_size tl_lines) \<le> 4"
    unfolding if_P [OF l] by auto
  have "set hd_lines \<subseteq> set (split_lines example_log)" "set tl_lines \<subseteq> set (split_lines example_log)"
    unfolding p(1) by auto
  from this [THEN count] have "length hd_lines \<le> 5" "length tl_lines \<le> 4" using p(3,4) by linarith+
  then show ?thesis using p(2) by auto
qed

text \<open>The tail starts within the second line, which is left out.\<close>

lemma example_log_preview: "read_head_and_tail True example_log 5 4 = Inr [[''aaaa''], [''cc'']]"
  by (simp add: read_head_and_tail_def example_log_def readlines_def adjust_log_lines_to_size_def decode_lines_def
      decode_def in_range_def first_byte_def strip_line_end_def Let_def)

section \<open>Two logs\<close>

text \<open>A failure with the Spark log, whatever it is, leaves the preview of the first log.\<close>

lemma unreadable_spark_log:
  assumes "rbind (file spark) (\<lambda>c. read_head_and_tail seekable c h t) = Inl e"
  shows "merge_read_log_files file seekable log spark h t = rbind (file log) (\<lambda>c. read_head_and_tail seekable c h t)"
  using assms by (cases "rbind (file log) (\<lambda>c. read_head_and_tail seekable c h t)") (simp_all add: merge_read_log_files_def)

text \<open>The lines of both logs are there, each in its order.\<close>

lemma merged_parts_keep_order:
  assumes "rbind (file log) (\<lambda>c. read_head_and_tail seekable c h t) = Inr dbnd"
    and "rbind (file spark) (\<lambda>c. read_head_and_tail seekable c h t) = Inr other"
  shows "\<exists>parts. merge_read_log_files file seekable log spark h t = Inr parts \<and>
    list_all2 (\<lambda>part (d, s). part \<in> shuffles d s) parts (zip_longest dbnd other)"
  using assms by (auto simp: merge_read_log_files_def list_all2_map1 merged_logs_keep_order intro!: list.rel_refl_strong)

end
