(* ===== verification/TypeHints.thy ===== *)
theory TypeHints
  imports PyStrings
begin

text \<open>
  Types given as text: the comments with type hints of Python 2 (\<open>_core/utils/typing_utils/doc_annotations.py\<close>)
  and the value type for the text of a type in the registry (\<open>targets/values/registry.py\<close>, with
  \<open>with_lazy_load\<close> and \<open>with_sub_type_handler\<close> of the value types).  Regular expressions are written out.
\<close>

section \<open>Regular expressions\<close>

definition is_bracket :: "char \<Rightarrow> bool" where
  "is_bracket c = (c = CHR ''('' \<or> c = CHR '')'' \<or> c = CHR ''['' \<or> c = CHR '']'')"

text \<open>\<open>,(?![^()\[\]]*[)\]])\<close>: the next bracket after the comma, if there is one, is not a closing one.\<close>

definition splits_here :: "string \<Rightarrow> bool" where
  "splits_here rest =
     (case dropWhile (\<lambda>c. \<not> is_bracket c) rest of [] \<Rightarrow> True | b # _ \<Rightarrow> b \<noteq> CHR '')'' \<and> b \<noteq> CHR '']'')"

fun split_args :: "string \<Rightarrow> string list" where
  "split_args [] = [[]]"
| "split_args (c # cs) =
     (if c = CHR '','' \<and> splits_here cs then [] # split_args cs
      else (case split_args cs of [] \<Rightarrow> [[c]] | p # ps \<Rightarrow> (c # p) # ps))"

text \<open>What \<open>$\<close> leaves of a text: it matches at the end and before a line feed at the end.\<close>

definition before_end :: "string \<Rightarrow> string" where
  "before_end s = (if s \<noteq> [] \<and> last s = CHR 0x0A then butlast s else s)"

text \<open>\<open>(.+)$\<close>, \<open>(.+)\]$\<close> and a pattern that begins with a fixed text.\<close>

definition some_line :: "string \<Rightarrow> string option" where
  "some_line s = (let t = before_end s in if t \<noteq> [] \<and> CHR 0x0A \<notin> set t then Some t else None)"

definition closed_by :: "char \<Rightarrow> string \<Rightarrow> string option" where
  "closed_by b s =
     (let t = before_end s
      in if t \<noteq> [] \<and> last t = b \<and> butlast t \<noteq> [] \<and> CHR 0x0A \<notin> set (butlast t) then Some (butlast t) else None)"

definition wrapped :: "string \<Rightarrow> char \<Rightarrow> string \<Rightarrow> string option" where
  "wrapped start b s = (if starts_with s start then closed_by b (drop (length start) s) else None)"

section \<open>Comments with type hints\<close>

text \<open>Pieces are put together again while there are more opening than closing square brackets.\<close>

fun merge_parts :: "string \<Rightarrow> string list \<Rightarrow> string list" where
  "merge_parts current [] = [current]"
| "merge_parts current (p # ps) =
     (if count_list current (CHR '']'') < count_list current (CHR ''['') then merge_parts (current @ '','' @ p) ps
      else current # merge_parts p ps)"

definition doc_split :: "string \<Rightarrow> string list" where
  "doc_split type_str =
     (if type_str = [] then [] else (case split_args type_str of [] \<Rightarrow> [] | p # ps \<Rightarrow> merge_parts p ps))"

definition get_Tuple_params :: "string \<Rightarrow> string list option" where
  "get_Tuple_params s = map_option doc_split (wrapped ''Tuple['' (CHR '']'') s)"

definition get_inline_Tuple_params :: "string \<Rightarrow> string list option" where
  "get_inline_Tuple_params s = map_option doc_split (wrapped ''('' (CHR '')'') s)"

definition parse_return_type :: "string \<Rightarrow> string list + string" where
  "parse_return_type s =
     (case get_inline_Tuple_params s of Some l \<Rightarrow> Inl l
      | None \<Rightarrow> (case get_Tuple_params s of Some l \<Rightarrow> Inl l | None \<Rightarrow> Inr s))"

text \<open>\<open>#type:\((.*)\)->(.+)\<close>, searched in a line: the text after the first \<open>#type:(\<close>, cut at the last arrow.\<close>

fun after_first :: "string \<Rightarrow> string \<Rightarrow> string option" where
  "after_first p [] = (if p = [] then Some [] else None)"
| "after_first p (c # cs) = (if starts_with (c # cs) p then Some (drop (length p) (c # cs)) else after_first p cs)"

fun cut_at_last :: "string \<Rightarrow> string \<Rightarrow> (string \<times> string) option" where
  "cut_at_last p [] = None"
| "cut_at_last p (c # cs) =
     (case cut_at_last p cs of
        Some (a, b) \<Rightarrow> Some (c # a, b)
      | None \<Rightarrow> if starts_with (c # cs) p \<and> length p < length (c # cs) then Some ([], drop (length p) (c # cs)) else None)"

definition remove_spaces :: "string \<Rightarrow> string" where
  "remove_spaces s = filter (\<lambda>c. c \<noteq> CHR '' '') s"

definition parse_python_2_type_hint_line :: "string \<Rightarrow> (string list \<times> (string list + string)) option" where
  "parse_python_2_type_hint_line line =
     (case after_first ''#type:('' (remove_spaces line) of
        None \<Rightarrow> None
      | Some r \<Rightarrow> map_option (\<lambda>(a, b). (doc_split a, parse_return_type b)) (cut_at_last '')->'' r))"

text \<open>The search ends at the second \<open>def\<close>; the source lines are those of \<open>inspect.getsource\<close>.\<close>

fun parse_hint_lines :: "nat \<Rightarrow> string list \<Rightarrow> (string list \<times> (string list + string)) option" where
  "parse_hint_lines n [] = None"
| "parse_hint_lines n (l # ls) =
     (case parse_python_2_type_hint_line l of
        Some r \<Rightarrow> Some r
      | None \<Rightarrow> (let n = (if starts_with (strip l) ''def '' then Suc n else n)
                 in if 1 < n then None else parse_hint_lines n ls))"

definition parse_arg_types_for_callable :: "string list option \<Rightarrow> (string list \<times> (string list + string)) option" where
  "parse_arg_types_for_callable source = Option.bind source (parse_hint_lines 0)"

definition get_doc_annotations ::
  "string list option \<Rightarrow> string list \<Rightarrow> (string, string list + string) dict option"
where
  "get_doc_annotations source arg_names =
     map_option (\<lambda>(args, ret). dict_set (dict_update [] (map (\<lambda>(k, t). (k, Inr t)) (zip arg_names args))) ''return'' ret)
       (parse_arg_types_for_callable source)"

section \<open>Splitting gives the types back\<close>

text \<open>
  A type as it may stand in a list: square brackets match, commas are within brackets.
\<close>

fun level :: "nat \<Rightarrow> string \<Rightarrow> nat option" where
  "level d [] = Some d"
| "level d (c # cs) =
     (if c = CHR ''['' then level (Suc d) cs
      else if c = CHR '']'' then (if d = 0 then None else level (d - 1) cs)
      else if c = CHR '','' then (if d = 0 then None else level d cs)
      else if c = CHR ''('' \<or> c = CHR '')'' then None
      else level d cs)"

definition well_bracketed :: "string \<Rightarrow> bool" where
  "well_bracketed s = (level 0 s = Some 0)"

lemma next_bracket:
  assumes "level 0 t = Some 0" "splits_here R" shows "splits_here (t @ R)"
  using assms
proof (induction t)
  case (Cons c t)
  show ?case
  proof (cases "is_bracket c")
    case True
    then have "c = CHR ''[''" using Cons.prems(1) by (auto simp: is_bracket_def split: if_splits)
    then show ?thesis by (simp add: splits_here_def is_bracket_def)
  next
    case False
    then have "level 0 t = Some 0" using Cons.prems(1) by (auto simp: is_bracket_def split: if_splits)
    then show ?thesis using Cons.IH Cons.prems(2) False by (simp add: splits_here_def)
  qed
qed simp

lemma splits_before_types: "\<forall>t \<in> set ts. well_bracketed t \<Longrightarrow> splits_here (join_str '','' ts)"
proof (induction ts)
  case Nil
  show ?case by (simp add: splits_here_def)
next
  case (Cons t ts)
  have "splits_here []" by (simp add: splits_here_def)
  moreover have "splits_here ('','' @ join_str '','' ts)"
    using Cons by (simp add: splits_here_def is_bracket_def)
  ultimately show ?case
    using next_bracket [of t "[]"] next_bracket [of t "'','' @ join_str '','' ts"] Cons.prems
    by (cases ts) (simp_all add: well_bracketed_def)
qed

definition merged :: "string \<Rightarrow> string \<Rightarrow> string list" where
  "merged current s = (case split_args s of [] \<Rightarrow> [] | p # ps \<Rightarrow> merge_parts (current @ p) ps)"

lemma split_args_not_Nil [simp]: "split_args s \<noteq> []"
  by (induction s) (auto split: list.splits)

lemma merged_char:
  "\<not> (c = CHR '','' \<and> splits_here s) \<Longrightarrow> merged current (c # s) = merged (current @ [c]) s"
  by (cases "split_args s") (auto simp: merged_def)

lemma merged_comma:
  assumes "c = CHR '','' \<and> splits_here s"
  shows "merged current (c # s) =
    (if count_list current (CHR '']'') < count_list current (CHR ''['') then merged (current @ [c]) s
     else current # merged [] s)"
  using assms by (cases "split_args s") (auto simp: merged_def)

text \<open>The rest of a type is added to what was read of it, and then the split goes on.\<close>

lemma merged_rest_of_type:
  "level d u = Some 0 \<Longrightarrow> count_list current (CHR ''['') = count_list current (CHR '']'') + d \<Longrightarrow>
     R = [] \<or> (\<exists>V. R = '','' @ V \<and> splits_here V) \<Longrightarrow>
     merged current (u @ R) = (current @ u) # (if R = [] then [] else merged [] (drop 1 R))"
proof (induction d u arbitrary: current rule: level.induct)
  case (1 d)
  then have "d = 0" by simp
  then show ?case
    using 1(2,3) by (auto simp: merged_def [of _ "[]"] merged_comma)
next
  case (2 d c cs)
  have step: "merged current ((c # cs) @ R) = merged (current @ [c]) (cs @ R)"
  proof (cases "c = CHR '','' \<and> splits_here (cs @ R)")
    case True
    then have "0 < d" using 2(5) by (auto split: if_splits)
    then show ?thesis using True 2(6) by (simp add: merged_comma)
  qed (simp add: merged_char)
  have "merged (current @ [c]) (cs @ R) = (current @ [c] @ cs) # (if R = [] then [] else merged [] (drop 1 R))"
  proof -
    consider (opens) "c = CHR ''[''" | (closes) "c = CHR '']''" "0 < d" "level (d - 1) cs = Some 0"
      | (comma) "c = CHR '',''" "level d cs = Some 0"
      | (other) "c \<noteq> CHR ''[''" "c \<noteq> CHR '']''" "c \<noteq> CHR '',''" "\<not> (c = CHR ''('' \<or> c = CHR '')'')" "level d cs = Some 0"
      using 2(5) by (auto split: if_splits)
    then show ?thesis
    proof cases
      case opens
      then show ?thesis using 2(1) [of "current @ [c]"] 2(5-7) by simp
    next
      case closes
      then show ?thesis using 2(2) [of "current @ [c]"] 2(6,7) by simp
    next
      case comma
      then show ?thesis using 2(3) [of "current @ [c]"] 2(5-7) by (simp split: if_splits)
    next
      case other
      then show ?thesis using 2(4) [of "current @ [c]"] 2(6,7) by simp
    qed
  qed
  then show ?case using step by simp
qed

lemma merged_types: "ts \<noteq> [] \<Longrightarrow> \<forall>t \<in> set ts. well_bracketed t \<Longrightarrow> merged [] (join_str '','' ts) = ts"
proof (induction ts)
  case (Cons t ts)
  show ?case
  proof (cases ts)
    case Nil
    then show ?thesis using merged_rest_of_type [of 0 t "[]" "[]"] Cons.prems by (simp add: well_bracketed_def)
  next
    case (Cons u us)
    then have "splits_here (join_str '','' ts)" using splits_before_types [of ts] Cons.prems(2) by simp
    then have "merged [] (t @ '','' @ join_str '','' ts) = t # merged [] (join_str '','' ts)"
      using merged_rest_of_type [of 0 t "[]" "'','' @ join_str '','' ts"] Cons.prems(2) by (auto simp: well_bracketed_def)
    then show ?thesis using Cons.IH Cons.prems(2) Cons by simp
  qed
qed simp

text \<open>
  C38. Splitting the types of a hint gives them back: a list of types that is written with commas is split
  into these types, however deep their square brackets are nested.
\<close>
theorem split_types_roundtrip:
  assumes "\<forall>t \<in> set ts. well_bracketed t" "ts \<noteq> [[]]"
  shows "doc_split (join_str '','' ts) = ts"
proof (cases "join_str '','' ts = []")
  case True
  then have "ts = []" using assms(2) by (cases "('','', ts)" rule: join_str.cases) auto
  then show ?thesis by (simp add: doc_split_def)
next
  case False
  then have "ts \<noteq> []" by auto
  then show ?thesis
    using False merged_types [OF _ assms(1)] unfolding doc_split_def merged_def append_Nil if_not_P [OF False] by blast
qed

theorem split_types_roundtrip_witness:
  "doc_split (join_str '','' [''Dict[str,List[int]]'', ''Dict[str,Dict[str,List[int]]]'']) =
     [''Dict[str,List[int]]'', ''Dict[str,Dict[str,List[int]]]'']"
  by (rule split_types_roundtrip) (simp_all add: well_bracketed_def)

end
