(* ===== verification/ValueRegistry.thy ===== *)
theory ValueRegistry
  imports TypeHints
begin

text \<open>
  The registry of value types (\<open>targets/values/registry.py\<close>): registration under the names of a type, the
  lookup by an object, and the value type for the text of a type, with its optional, union and generic forms.
\<close>

section \<open>Value types\<close>

text \<open>
  \<open>class_load\<close> and \<open>class_sub\<close> are the attributes of the class, which a new instance starts with.
\<close>

datatype value_type =
  ValueType (vt_class: string) (vt_type_str: string) (type_str_extras: "string list") (is_dict_type: bool)
    (is_structure: bool) (discoverable: bool) (class_load: bool) (class_sub: "value_type option")
    (load_on_build: bool) (sub_value_type: "value_type option")

definition with_lazy_load :: "bool \<Rightarrow> value_type \<Rightarrow> value_type" where
  "with_lazy_load lazy v =
     (if load_on_build v \<noteq> lazy then v
      else (case v of ValueType c t x d s i cl cs l sub \<Rightarrow> ValueType c t x d s i cl cs (\<not> lazy) sub))"

text \<open>A structure gets a new instance of its class; other types have no parts.\<close>

definition with_sub_type_handler :: "value_type option \<Rightarrow> value_type \<Rightarrow> value_type" where
  "with_sub_type_handler h v =
     (case v of ValueType c t x d s i cl cs l sub \<Rightarrow>
        if s then ValueType c t x d s i cl cs cl (case h of None \<Rightarrow> cs | Some u \<Rightarrow> Some u) else v)"

record type_registry =
  value_types :: "value_type list"
  discoverable_value_types :: "value_type list"
  type_str_to_parameter :: "(string, value_type) dict"

text \<open>\<open>s.replace(p, '')\<close>\<close>

function remove_all :: "string \<Rightarrow> string \<Rightarrow> string" where
  "remove_all p [] = []"
| "remove_all p (c # cs) =
     (if p \<noteq> [] \<and> starts_with (c # cs) p then remove_all p (drop (length p) (c # cs)) else c # remove_all p cs)"
  by pat_completeness auto
termination by (relation "measure (\<lambda>(p, s). length s)") auto

definition register_names :: "value_type \<Rightarrow> (string, value_type) dict \<Rightarrow> (string, value_type) dict" where
  "register_names v d =
     (let t = vt_type_str v;
          d1 = (if t = [] then d else
                 (let d = dict_set d t v;
                      d = (if starts_with t ''typing'' then dict_set d (remove_all ''typing.'' t) v else d)
                  in if CHR '' '' \<in> set t then dict_set d (remove_spaces t) v else d))
      in fold (\<lambda>x d. dict_set d x v) (type_str_extras v) d1)"

definition register_value_type :: "value_type \<Rightarrow> type_registry \<Rightarrow> type_registry" where
  "register_value_type v r =
     \<lparr>value_types = value_types r @ [v],
      discoverable_value_types = (if discoverable v then discoverable_value_types r @ [v] else discoverable_value_types r),
      type_str_to_parameter = register_names v (type_str_to_parameter r)\<rparr>"

definition new_registry :: "value_type list \<Rightarrow> type_registry" where
  "new_registry vs =
     foldl (\<lambda>r v. register_value_type v r) \<lparr>value_types = [], discoverable_value_types = [], type_str_to_parameter = []\<rparr> vs"

definition get_value_type_of_obj :: "(value_type \<Rightarrow> bool) \<Rightarrow> type_registry \<Rightarrow> value_type option \<Rightarrow> value_type option" where
  "get_value_type_of_obj is_type_of r default_type =
     (case find is_type_of (discoverable_value_types r) of Some v \<Rightarrow> Some v | None \<Rightarrow> default_type)"

definition list_known_types :: "type_registry \<Rightarrow> string list" where
  "list_known_types r = map fst (type_str_to_parameter r)"

section \<open>The value type of a text\<close>

text \<open>\<open>^[^(\[]+\.(.+)$\<close>: what follows the last dot before a bracket; \<open>ne\<close> tells that something stands before it.\<close>

fun last_name :: "bool \<Rightarrow> string \<Rightarrow> string option" where
  "last_name ne [] = None"
| "last_name ne (c # cs) =
     (case (if c = CHR ''('' \<or> c = CHR ''['' then None else last_name True cs) of
        Some r \<Rightarrow> Some r
      | None \<Rightarrow> if c = CHR ''.'' \<and> ne then some_line cs else None)"

text \<open>\<open>^([^\[]+)\[(.+)\]$\<close>\<close>

definition generic_match :: "string \<Rightarrow> (string \<times> string) option" where
  "generic_match s =
     (let main = takeWhile (\<lambda>c. c \<noteq> CHR ''['') s
      in if main = [] then None else map_option (Pair main) (wrapped (main @ ''['') (CHR '']'') s))"

definition type_options :: "string \<Rightarrow> string list" where
  "type_options s =
     remdups_adj ([s, lower s] @ (case last_name False s of None \<Rightarrow> [] | Some n \<Rightarrow> [n, lower n]))"

fun generic_choice :: "(string, value_type) dict \<Rightarrow> string list \<Rightarrow> (value_type \<times> string) option" where
  "generic_choice d [] = None"
| "generic_choice d (ts # rest) =
     (case generic_match ts of
        None \<Rightarrow> generic_choice d rest
      | Some (main, part) \<Rightarrow>
          (case map_of d main of
             None \<Rightarrow> generic_choice d rest
           | Some v \<Rightarrow>
               if is_dict_type v then
                 (case split_args part of [_, p] \<Rightarrow> Some (v, p) | _ \<Rightarrow> generic_choice d rest)
               else Some (v, part)))"

text \<open>The text without \<open>Optional[...]\<close> and \<open>Union[...]\<close>, and whether the value is loaded late.\<close>

definition unwrap_type :: "string \<Rightarrow> string \<times> bool" where
  "unwrap_type type_str =
     (let s = remove_spaces type_str;
          s = (case wrapped ''Optional['' (CHR '']'') s of Some b \<Rightarrow> b | None \<Rightarrow> s);
          (s, lazy) = (case wrapped ''Union['' (CHR '']'') s of
                         Some b \<Rightarrow> (hd (split_args b), ''LazyLoad'' \<in> set (split_args b)) | None \<Rightarrow> (s, False))
      in (s, lazy \<or> contains ''DataList'' s))"

lemma before_end_length: "length (before_end s) \<le> length s"
  by (simp add: before_end_def)

lemma closed_by_length: "closed_by b s = Some t \<Longrightarrow> length t < length s"
proof -
  assume "closed_by b s = Some t"
  then have "t = butlast (before_end s)" "before_end s \<noteq> []" by (simp_all add: closed_by_def Let_def split: if_splits)
  then have "length t < length (before_end s)" by (cases "before_end s" rule: rev_cases) simp_all
  then show ?thesis using before_end_length [of s] by linarith
qed

lemma wrapped_length: "wrapped p b s = Some t \<Longrightarrow> length t < length s"
proof -
  assume "wrapped p b s = Some t"
  then have "closed_by b (drop (length p) s) = Some t" by (simp add: wrapped_def split: if_splits)
  then have "length t < length (drop (length p) s)" by (rule closed_by_length)
  then show ?thesis by simp
qed

lemma last_name_length: "last_name ne s = Some t \<Longrightarrow> length t \<le> length s"
proof (induction ne s rule: last_name.induct)
  case (2 ne c cs)
  have "some_line cs = Some t \<Longrightarrow> length t \<le> length cs"
    using before_end_length [of cs] by (auto simp: some_line_def Let_def split: if_splits)
  then show ?case using 2 by (fastforce split: option.splits if_splits)
qed simp

lemma split_args_length: "p \<in> set (split_args s) \<Longrightarrow> length p \<le> length s"
proof (induction s arbitrary: p)
  case (Cons c cs)
  have ih: "length p \<le> length cs" if "p \<in> set (split_args cs)" for p using that by (rule Cons.IH)
  show ?case
  proof (cases "c = CHR '','' \<and> splits_here cs")
    case True
    then show ?thesis using Cons.prems ih by (auto intro: le_SucI)
  next
    case False
    obtain q qs where q: "split_args cs = q # qs" by (cases "split_args cs") auto
    then show ?thesis using Cons.prems ih False by (auto intro: le_SucI split: if_splits)
  qed
qed simp

lemma unwrap_length: "length (fst (unwrap_type s)) \<le> length s"
proof -
  obtain a where a: "a = remove_spaces s" by blast
  obtain b where b: "b = (case wrapped ''Optional['' (CHR '']'') a of Some b \<Rightarrow> b | None \<Rightarrow> a)" by blast
  have "length a \<le> length s" by (simp add: a remove_spaces_def)
  moreover have "length b \<le> length a" using wrapped_length [of "''Optional[''" "CHR '']''" a] by (auto simp: b split: option.splits)
  moreover have "length (fst (unwrap_type s)) \<le> length b"
  proof (cases "wrapped ''Union['' (CHR '']'') b")
    case None
    then show ?thesis by (simp add: unwrap_type_def Let_def flip: a b)
  next
    case (Some u)
    then have "fst (unwrap_type s) = hd (split_args u)" by (simp add: unwrap_type_def Let_def flip: a b)
    moreover have "length (hd (split_args u)) \<le> length u" by (rule split_args_length) simp
    ultimately show ?thesis using wrapped_length [OF Some] by simp
  qed
  ultimately show ?thesis by linarith
qed

lemma generic_choice_length: "generic_choice d os = Some (v, p) \<Longrightarrow> \<exists>ts \<in> set os. length p < length ts"
proof (induction d os rule: generic_choice.induct)
  case (2 d ts rest)
  have shorter: "length part < length ts" if "generic_match ts = Some (main, part)" for main part
    using that wrapped_length by (auto simp: generic_match_def Let_def split: if_splits)
  show ?case
  proof (cases "generic_match ts")
    case None
    then show ?thesis using 2 by auto
  next
    case (Some mp)
    obtain main part where mp: "mp = (main, part)" by force
    show ?thesis
    proof (cases "map_of d main")
      case None
      then show ?thesis using 2 Some mp by auto
    next
      case known: (Some w)
      show ?thesis
      proof (cases "is_dict_type w")
        case False
        then show ?thesis using "2.prems" Some mp known shorter by auto
      next
        case True
        show ?thesis
        proof (cases "\<exists>x q. split_args part = [x, q]")
          case two: True
          then obtain x q where q: "split_args part = [x, q]" by blast
          then have "p = q" using "2.prems" Some mp known True by simp
          then have "length p \<le> length part" using split_args_length [of p part] q by simp
          then show ?thesis using shorter Some mp by auto
        next
          case False
          then have "generic_choice d rest = Some (v, p)"
            using "2.prems" Some mp known True by (auto split: list.splits)
          then show ?thesis using 2 Some mp known True False by (auto split: list.splits)
        qed
    qed
      qed
  qed
qed simp

lemma type_options_length: "ts \<in> set (type_options s) \<Longrightarrow> length ts \<le> length s"
  using last_name_length [of False s] by (auto simp: type_options_def lower_def split: option.splits if_splits)

lemma part_shorter:
  assumes "unwrap_type type_str = (s, lazy)" "generic_choice d (type_options s) = Some (v, part)"
  shows "length part < length type_str"
proof -
  obtain ts where "ts \<in> set (type_options s)" "length part < length ts" using generic_choice_length [OF assms(2)] by blast
  then have "length part < length s" using type_options_length by fastforce
  also have "length s \<le> length type_str" using unwrap_length [of type_str] assms(1) by simp
  finally show ?thesis .
qed

function get_value_type_of_type_str :: "(string, value_type) dict \<Rightarrow> string \<Rightarrow> value_type option" where
  "get_value_type_of_type_str d type_str =
     (if type_str = [] then None
      else (case unwrap_type type_str of
              (s, lazy) \<Rightarrow>
                map_option (\<lambda>v. if lazy then with_lazy_load True v else v)
                  (case find (\<lambda>ts. map_of d ts \<noteq> None) (type_options s) of
                     Some ts \<Rightarrow> map_of d ts
                   | None \<Rightarrow>
                       (case generic_choice d (type_options s) of
                          None \<Rightarrow> None
                        | Some (v, part) \<Rightarrow> Some (with_sub_type_handler (get_value_type_of_type_str d part) v)))))"
  by auto
termination by (relation "measure (\<lambda>(d, s). length s)") (auto intro: part_shorter [OF sym])

declare get_value_type_of_type_str.simps [simp del]

section \<open>Nested types\<close>

text \<open>
  Names without the characters that mean something in a type, and types with one part or, for
  dictionaries, a simple name of the keys and a type of the values without commas.
\<close>

datatype type_expr = TName string | TOf string type_expr | TDict string string type_expr

definition plain :: "string \<Rightarrow> bool" where
  "plain n = (n \<noteq> [] \<and> set n \<inter> set '' .,()[]'' = {} \<and> CHR 0x0A \<notin> set n)"

fun show_type :: "type_expr \<Rightarrow> string" where
  "show_type (TName n) = n"
| "show_type (TOf m e) = m @ ''['' @ show_type e @ '']''"
| "show_type (TDict m k e) = m @ ''['' @ k @ '','' @ show_type e @ '']''"

fun type_value :: "(string, value_type) dict \<Rightarrow> type_expr \<Rightarrow> value_type option" where
  "type_value d (TName n) = map_of d n"
| "type_value d (TOf m e) = map_option (with_sub_type_handler (type_value d e)) (map_of d m)"
| "type_value d (TDict m k e) = map_option (with_sub_type_handler (type_value d e)) (map_of d m)"

definition main_type :: "(string, value_type) dict \<Rightarrow> bool \<Rightarrow> string \<Rightarrow> bool" where
  "main_type d dict m =
     (plain m \<and> m \<noteq> ''Optional'' \<and> m \<noteq> ''Union'' \<and> (case map_of d m of None \<Rightarrow> False | Some v \<Rightarrow> is_dict_type v = dict))"

text \<open>The whole text of a nested type is not itself registered.\<close>

definition unregistered :: "(string, value_type) dict \<Rightarrow> string \<Rightarrow> bool" where
  "unregistered d s = (map_of d s = None \<and> map_of d (lower s) = None)"

fun known_type :: "(string, value_type) dict \<Rightarrow> type_expr \<Rightarrow> bool" where
  "known_type d (TName n) = (plain n \<and> map_of d n \<noteq> None)"
| "known_type d (TOf m e) = (main_type d False m \<and> unregistered d (show_type (TOf m e)) \<and> known_type d e)"
| "known_type d (TDict m k e) =
     (main_type d True m \<and> plain k \<and> unregistered d (show_type (TDict m k e)) \<and> known_type d e \<and> CHR '','' \<notin> set (show_type e))"

lemma known_type_chars: "known_type d e \<Longrightarrow> show_type e \<noteq> [] \<and> CHR '' '' \<notin> set (show_type e) \<and> CHR 0x0A \<notin> set (show_type e)"
  by (induction e) (auto simp: plain_def main_type_def)

lemma before_end_id: "CHR 0x0A \<notin> set s \<Longrightarrow> before_end s = s"
  by (auto simp: before_end_def dest: last_in_set)

lemma generic_match_app:
  assumes "plain m" "part \<noteq> []" "CHR 0x0A \<notin> set part"
  shows "generic_match (m @ ''['' @ part @ '']'') = Some (m, part)"
proof -
  have "CHR ''['' \<notin> set m" using assms(1) by (auto simp: plain_def)
  then have "takeWhile (\<lambda>c. c \<noteq> CHR ''['') (m @ ''['' @ part @ '']'') = m"
    by (subst takeWhile_append2) auto
  moreover have "starts_with (m @ ''['' @ part @ '']'') (m @ ''['')" by (simp add: starts_with_iff)
  moreover have "closed_by (CHR '']'') (part @ '']'') = Some part"
    using assms(2,3) by (simp add: closed_by_def before_end_id)
  moreover have "m \<noteq> []" using assms(1) by (simp add: plain_def)
  ultimately show ?thesis by (simp add: generic_match_def wrapped_def)
qed

lemma last_name_plain: "CHR ''.'' \<notin> set m \<Longrightarrow> R = [] \<or> hd R = CHR ''['' \<Longrightarrow> last_name ne (m @ R) = None"
proof (induction m arbitrary: ne)
  case Nil
  then show ?case by (cases R) auto
qed auto

lemma options_plain:
  assumes "plain m" "R = [] \<or> hd R = CHR ''[''" shows "type_options (m @ R) = remdups_adj [m @ R, lower (m @ R)]"
proof -
  have "last_name False (m @ R) = None" using assms by (intro last_name_plain) (auto simp: plain_def)
  then show ?thesis by (simp add: type_options_def)
qed

lemma not_wrapped:
  assumes "plain m" "m \<noteq> p \<or> R = []" "R = [] \<or> hd R = CHR ''[''" "CHR ''['' \<notin> set p"
  shows "wrapped (p @ ''['') b (m @ R) = None"
proof -
  have "\<not> starts_with (m @ R) (p @ ''['')"
  proof
    assume "starts_with (m @ R) (p @ ''['')"
    then obtain r where "m @ R = p @ CHR ''['' # r" by (auto simp: starts_with_iff)
    then have eq: "takeWhile (\<lambda>c. c \<noteq> CHR ''['') (m @ R) = takeWhile (\<lambda>c. c \<noteq> CHR ''['') (p @ CHR ''['' # r)" by simp
    have m: "\<And>c. c \<in> set m \<Longrightarrow> c \<noteq> CHR ''[''" using assms(1) by (auto simp: plain_def)
    then have "takeWhile (\<lambda>c. c \<noteq> CHR ''['') (m @ R) = m"
      using assms(3) by (cases R) (simp_all add: takeWhile_append2 [OF m])
    moreover have "takeWhile (\<lambda>c. c \<noteq> CHR ''['') (p @ CHR ''['' # r) = p"
      using assms(4) by (subst takeWhile_append2) auto
    ultimately have "R = []" "m = p" using eq assms(2) by simp_all
    then show False using \<open>m @ R = p @ CHR ''['' # r\<close> by simp
  qed
  then show ?thesis by (simp add: wrapped_def)
qed

lemma unwrap_plain:
  assumes "plain m" "m \<noteq> ''Optional'' \<or> R = []" "m \<noteq> ''Union'' \<or> R = []" "R = [] \<or> hd R = CHR ''[''" "CHR '' '' \<notin> set R"
    and "\<not> contains ''DataList'' (m @ R)"
  shows "unwrap_type (m @ R) = (m @ R, False)"
proof -
  have "remove_spaces (m @ R) = m @ R"
    using assms(1,5) unfolding remove_spaces_def plain_def by (intro filter_True) auto
  moreover have "wrapped ''Optional['' (CHR '']'') (m @ R) = None" "wrapped ''Union['' (CHR '']'') (m @ R) = None"
    using not_wrapped [OF assms(1,2,4)] not_wrapped [OF assms(1,3,4)] by simp_all
  ultimately show ?thesis using assms(6) by (simp add: unwrap_type_def)
qed

lemma contains_part: "\<not> contains p (a @ b @ c) \<Longrightarrow> \<not> contains p b"
  unfolding contains_iff by (metis append.assoc)

lemma find_unregistered: "unregistered d s \<Longrightarrow> find (\<lambda>ts. map_of d ts \<noteq> None) (remdups_adj [s, lower s]) = None"
  by (auto simp: unregistered_def)

text \<open>A type with a known main type and a part that is looked up on its own.\<close>

lemma nested_lookup:
  assumes "main_type d dict m" "unregistered d (m @ ''['' @ part @ '']'')" "part \<noteq> []"
    and "CHR '' '' \<notin> set part" "CHR 0x0A \<notin> set part" "\<not> contains ''DataList'' (m @ ''['' @ part @ '']'')"
    and "dict \<longrightarrow> split_args part = [k, q]" "\<not> dict \<longrightarrow> q = part"
  shows "get_value_type_of_type_str d (m @ ''['' @ part @ '']'') =
    map_option (with_sub_type_handler (get_value_type_of_type_str d q)) (map_of d m)"
proof -
  let ?s = "m @ ''['' @ part @ '']''"
  have m: "plain m" "m \<noteq> ''Optional''" "m \<noteq> ''Union''" using assms(1) by (simp_all add: main_type_def)
  obtain v where v: "map_of d m = Some v" "is_dict_type v = dict"
    using assms(1) by (auto simp: main_type_def split: option.splits)
  have u: "unwrap_type ?s = (?s, False)" using assms(4,6) by (intro unwrap_plain [OF m(1)]) (simp_all add: m)
  have o: "type_options ?s = remdups_adj [?s, lower ?s]" by (rule options_plain [OF m(1)]) simp
  have g: "generic_match ?s = Some (m, part)" by (rule generic_match_app [OF m(1) assms(3,5)])
  have c: "generic_choice d (?s # rest) = Some (v, q)" for rest
    using g v assms(7,8) by (cases dict) simp_all
  have "generic_choice d (remdups_adj [?s, lower ?s]) = Some (v, q)" using c by simp
  moreover have "?s \<noteq> []" by simp
  ultimately show ?thesis
    using u o find_unregistered [OF assms(2)] v(1)
    by (subst get_value_type_of_type_str.simps) simp
qed

lemma split_args_two:
  assumes "plain k" "CHR '','' \<notin> set s" "splits_here s" shows "split_args (k @ '','' @ s) = [k, s]"
proof -
  have one: "split_args t = [t]" if "CHR '','' \<notin> set t" for t using that by (induction t) auto
  have "CHR '','' \<notin> set k" using assms(1) by (auto simp: plain_def)
  then show ?thesis using assms(3) one [OF assms(2)] by (induction k) auto
qed

lemma known_type_splits: "known_type d e \<Longrightarrow> splits_here (show_type e)"
proof (cases e)
  case (TName n)
  assume "known_type d e"
  then have "\<forall>c \<in> set n. \<not> is_bracket c" using TName by (auto simp: plain_def is_bracket_def)
  then show ?thesis by (simp add: TName splits_here_def dropWhile_eq_Nil_conv [THEN iffD2])
next
  case (TOf m f)
  assume "known_type d e"
  then have "\<forall>c \<in> set m. \<not> is_bracket c" using TOf by (auto simp: main_type_def plain_def is_bracket_def)
  then show ?thesis by (simp add: TOf splits_here_def is_bracket_def)
next
  case (TDict m k f)
  assume "known_type d e"
  then have "\<forall>c \<in> set m. \<not> is_bracket c" using TDict by (auto simp: main_type_def plain_def is_bracket_def)
  then show ?thesis by (simp add: TDict splits_here_def is_bracket_def)
qed

text \<open>
  The text of a nested type gives the value type that is built from the inside: the registered type of
  the outer name with the value type of its part, at any depth.
\<close>
theorem nested_types_are_resolved:
  assumes "known_type d e" "\<not> contains ''DataList'' (show_type e)"
  shows "get_value_type_of_type_str d (show_type e) = type_value d e"
  using assms
proof (induction e)
  case (TName n)
  then obtain v where v: "map_of d n = Some v" by auto
  have n: "plain n" "n \<noteq> []" using TName by (auto simp: plain_def)
  have "unwrap_type n = (n, False)" using unwrap_plain [OF n(1), of "[]"] TName by simp
  moreover have "type_options n = remdups_adj [n, lower n]" using options_plain [OF n(1), of "[]"] by simp
  ultimately show ?case
    using n(2) v by (subst get_value_type_of_type_str.simps) simp
next
  case (TOf m e)
  have known: "main_type d False m" "unregistered d (m @ ''['' @ show_type e @ '']'')" "known_type d e"
    using TOf.prems(1) by simp_all
  note e = known_type_chars [OF known(3)]
  have lazy: "\<not> contains ''DataList'' (m @ ''['' @ show_type e @ '']'')" using TOf.prems(2) by simp
  then have "\<not> contains ''DataList'' (show_type e)" using contains_part [of _ "m @ ''[''" "show_type e" "'']''"] by simp
  from TOf.IH [OF known(3) this] show ?case
    using nested_lookup [OF known(1,2) _ _ _ lazy, of "[]" "show_type e"] e by simp
next
  case (TDict m k e)
  let ?part = "k @ '','' @ show_type e"
  have known: "main_type d True m" "unregistered d (m @ ''['' @ ?part @ '']'')" "known_type d e" "plain k" "CHR '','' \<notin> set (show_type e)"
    using TDict.prems(1) by simp_all
  note e = known_type_chars [OF known(3)]
  have lazy: "\<not> contains ''DataList'' (m @ ''['' @ ?part @ '']'')" using TDict.prems(2) by simp
  then have "\<not> contains ''DataList'' (show_type e)" using contains_part [of _ "m @ ''['' @ k @ '',''" "show_type e" "'']''"] by simp
  note ih = TDict.IH [OF known(3) this]
  have "?part \<noteq> []" "CHR '' '' \<notin> set ?part" "CHR 0x0A \<notin> set ?part" using e known(4) by (auto simp: plain_def)
  from nested_lookup [OF known(1,2) this lazy, of k "show_type e"] show ?case
    using split_args_two [OF known(4,5) known_type_splits [OF known(3)]] ih by simp
qed

definition example_types :: "(string, value_type) dict" where
  "example_types =
     [(''str'', ValueType ''StrValueType'' ''str'' [] False False True True None True None),
      (''List'', ValueType ''ListValueType'' ''List'' [''list''] False True True True None True None),
      (''Dict'', ValueType ''DictValueType'' ''Dict'' [''dict''] True True True True None True None)]"

theorem nested_types_are_resolved_witness:
  "map_option sub_value_type (get_value_type_of_type_str example_types ''Dict[str,List[str]]'') =
     Some (type_value example_types (TOf ''List'' (TName ''str'')))"
proof -
  have "known_type example_types (TDict ''Dict'' ''str'' (TOf ''List'' (TName ''str'')))"
    by (simp add: example_types_def main_type_def plain_def unregistered_def lower_def lower_char_def)
  moreover have "\<not> contains ''DataList'' (show_type (TDict ''Dict'' ''str'' (TOf ''List'' (TName ''str''))))"
    by (simp add: starts_with_def)
  ultimately have "get_value_type_of_type_str example_types (show_type (TDict ''Dict'' ''str'' (TOf ''List'' (TName ''str'')))) =
      type_value example_types (TDict ''Dict'' ''str'' (TOf ''List'' (TName ''str'')))"
    by (rule nested_types_are_resolved)
  then show ?thesis by (simp add: example_types_def with_sub_type_handler_def)
qed

text \<open>
  A dictionary of dictionaries of a type with parts is not found: the commas before an opening bracket split
  the text into three parts, while \<open>doc_split\<close> puts such pieces together again.
\<close>

lemma nested_dictionary_is_lost:
  "get_value_type_of_type_str example_types ''Dict[str,Dict[str,List[str]]]'' = None"
  by code_simp

end
