(* ===== verification/TypeObjects.thy ===== *)
theory TypeObjects
  imports ValueRegistry
begin

text \<open>
  The value type for a type object (\<open>TypeHandlerFromType\<close> of \<open>targets/values/registry.py\<close>), and that it is the
  value type which theory \<open>ValueRegistry\<close> finds for the text of the type.
\<close>

section \<open>Type objects\<close>

text \<open>
  What the lookup asks of a type in Python 3.7: a class; a form \<open>m[...]\<close> of \<open>typing\<close>, which is not a class and has
  the class \<open>m\<close> as its origin (bare \<open>List\<close> is the form with a type variable); a union with its parameters, at
  least one and none of them a union; or a type variable.
\<close>

datatype type_object =
    PlainType string
  | GenericType string "type_object list"
  | UnionType type_object "type_object list"
  | TypeVar

text \<open>\<open>value_type.type == type_\<close>, \<open>is_handler_of_type\<close> of the value types and \<open>issubclass(type_, LazyLoad)\<close>.\<close>

record type_env =
  type_is :: "value_type \<Rightarrow> type_object \<Rightarrow> bool"
  handles_class :: "value_type \<Rightarrow> string \<Rightarrow> bool"
  is_lazy_class :: "string \<Rightarrow> bool"

fun get_non_generic_type :: "type_object \<Rightarrow> string option" where
  "get_non_generic_type (PlainType c) = Some c"
| "get_non_generic_type (GenericType c _) = Some c"
| "get_non_generic_type (UnionType _ _) = None"
| "get_non_generic_type TypeVar = None"

text \<open>An \<open>InlineValueType\<close> shows the name of its class; the forms of \<open>typing\<close> have none of their own.\<close>

definition inline_value_type :: "type_object \<Rightarrow> value_type" where
  "inline_value_type t =
     ValueType ''InlineValueType'' (case t of PlainType c \<Rightarrow> c | _ \<Rightarrow> ''_GenericAlias'') [] False False True True None True None"

definition is_handler :: "type_env \<Rightarrow> type_object \<Rightarrow> value_type \<Rightarrow> bool" where
  "is_handler env t v =
     (type_is env v t \<or> (case get_non_generic_type t of None \<Rightarrow> False | Some c \<Rightarrow> handles_class env v c))"

definition find_handler :: "type_env \<Rightarrow> type_registry \<Rightarrow> bool \<Rightarrow> type_object \<Rightarrow> value_type option" where
  "find_handler env r inline t =
     (if t = TypeVar then None
      else (case find (is_handler env t) (value_types r) of
              Some v \<Rightarrow> Some v
            | None \<Rightarrow> if inline then Some (inline_value_type t) else None))"

fun get_generic_params :: "type_object \<Rightarrow> type_object list option" where
  "get_generic_params (GenericType _ as) = (if as = [] then None else Some as)"
| "get_generic_params (UnionType u us) = Some (u # us)"
| "get_generic_params _ = None"

definition get_dict_value_type :: "type_object \<Rightarrow> type_object option" where
  "get_dict_value_type t = (case get_generic_params t of Some [_, v] \<Rightarrow> Some v | _ \<Rightarrow> None)"

definition get_generic_item_type :: "type_object \<Rightarrow> type_object option" where
  "get_generic_item_type t = (case get_generic_params t of Some [v] \<Rightarrow> Some v | _ \<Rightarrow> None)"

text \<open>The first type of a union, and whether the type asks to be loaded late or early.\<close>

definition unwrap_union :: "type_env \<Rightarrow> type_object \<Rightarrow> type_object \<times> bool option" where
  "unwrap_union env t =
     (let (t', lazy) = (case t of
            UnionType u us \<Rightarrow>
              (u, if PlainType ''LazyLoad'' \<in> set (u # us) then Some True
                  else if PlainType ''EagerLoad'' \<in> set (u # us) then Some False else None)
          | _ \<Rightarrow> (t, None))
      in (t', case t' of PlainType c \<Rightarrow> if is_lazy_class env c then Some True else lazy | _ \<Rightarrow> lazy))"

definition sub_type_of :: "value_type \<Rightarrow> type_object \<Rightarrow> type_object option" where
  "sub_type_of v t =
     (if \<not> is_structure v then None else if is_dict_type v then get_dict_value_type t else get_generic_item_type t)"

lemma params_smaller: "get_generic_params t = Some ts \<Longrightarrow> u \<in> set ts \<Longrightarrow> size u < size t"
proof (induction t rule: get_generic_params.induct)
  case (1 c as)
  then have "u \<in> set as" by (auto split: if_splits)
  then have "size u \<le> size_list size as" by (rule size_list_estimation') simp
  then show ?case by simp
next
  case (2 w us)
  then show ?case using size_list_estimation' [of u us "size u" size] by auto
qed simp_all

lemma sub_type_smaller: "sub_type_of v t = Some s \<Longrightarrow> size s < size t"
  using params_smaller [of t _ s]
  by (auto simp: sub_type_of_def get_dict_value_type_def get_generic_item_type_def split: if_splits option.splits list.splits)

lemma unwrap_union_size: "size (fst (unwrap_union env t)) \<le> size t"
  by (cases t) (auto simp: unwrap_union_def)

function get_value_type_of_type :: "type_env \<Rightarrow> type_registry \<Rightarrow> bool \<Rightarrow> type_object \<Rightarrow> value_type option" where
  "get_value_type_of_type env r inline t =
     (case unwrap_union env t of
        (t', lazy) \<Rightarrow>
          (case find_handler env r inline t' of
             None \<Rightarrow> None
           | Some v \<Rightarrow>
               (let v = (case sub_type_of v t' of
                           None \<Rightarrow> v
                         | Some s \<Rightarrow> with_sub_type_handler (get_value_type_of_type env r inline s) v)
                in Some (case lazy of None \<Rightarrow> v | Some l \<Rightarrow> with_lazy_load l v))))"
  by auto
termination
proof (relation "measure (\<lambda>(env, r, inline, t). size t)")
  fix env r inline t t' lazy v s
  assume "(t', lazy) = unwrap_union env t" "sub_type_of v t' = Some s"
  then have "size s < size t'" "size t' \<le> size t"
    using sub_type_smaller unwrap_union_size [of env t] by (auto simp flip: \<open>(t', lazy) = unwrap_union env t\<close>)
  then show "((env, r, inline, s), (env, r, inline, t)) \<in> measure (\<lambda>(env, r, inline, t). size t)" by simp
qed simp

declare get_value_type_of_type.simps [simp del]

section \<open>Texts and objects agree\<close>

fun object_of :: "type_expr \<Rightarrow> type_object" where
  "object_of (TName n) = PlainType n"
| "object_of (TOf m e) = GenericType m [object_of e]"
| "object_of (TDict m k e) = GenericType m [PlainType k, object_of e]"

fun main_name :: "type_expr \<Rightarrow> string" where
  "main_name (TName n) = n"
| "main_name (TOf m e) = m"
| "main_name (TDict m k e) = m"

text \<open>
  The registry finds a type by its outer name as by the object: the first value type that handles the object
  is the one registered under the name; types with parts are structures, and no plain class is lazy.
\<close>

definition agrees :: "type_env \<Rightarrow> type_registry \<Rightarrow> type_expr \<Rightarrow> bool" where
  "agrees env r e =
     (find (is_handler env (object_of e)) (value_types r) = map_of (type_str_to_parameter r) (main_name e) \<and>
      (case e of
         TName n \<Rightarrow> \<not> is_lazy_class env n
       | _ \<Rightarrow> (case map_of (type_str_to_parameter r) (main_name e) of Some v \<Rightarrow> is_structure v | None \<Rightarrow> False)))"

fun all_agree :: "type_env \<Rightarrow> type_registry \<Rightarrow> type_expr \<Rightarrow> bool" where
  "all_agree env r (TName n) = agrees env r (TName n)"
| "all_agree env r (TOf m e) = (agrees env r (TOf m e) \<and> all_agree env r e)"
| "all_agree env r (TDict m k e) = (agrees env r (TDict m k e) \<and> all_agree env r e)"

lemma object_value:
  assumes "known_type (type_str_to_parameter r) e" "all_agree env r e"
  shows "get_value_type_of_type env r inline (object_of e) = type_value (type_str_to_parameter r) e"
  using assms
proof (induction e)
  case (TName n)
  then obtain v where v: "map_of (type_str_to_parameter r) n = Some v" by auto
  then show ?case using TName.prems
    by (subst get_value_type_of_type.simps)
       (simp add: unwrap_union_def find_handler_def agrees_def sub_type_of_def get_dict_value_type_def get_generic_item_type_def)
next
  case (TOf m e)
  then obtain v where v: "map_of (type_str_to_parameter r) m = Some v" "\<not> is_dict_type v" "is_structure v"
    by (auto simp: main_type_def agrees_def split: option.splits)
  then show ?case using TOf
    by (subst get_value_type_of_type.simps)
       (simp add: unwrap_union_def find_handler_def agrees_def sub_type_of_def get_generic_item_type_def)
next
  case (TDict m k e)
  then obtain v where v: "map_of (type_str_to_parameter r) m = Some v" "is_dict_type v" "is_structure v"
    by (auto simp: main_type_def agrees_def split: option.splits)
  then show ?case using TDict
    by (subst get_value_type_of_type.simps)
       (simp add: unwrap_union_def find_handler_def agrees_def sub_type_of_def get_dict_value_type_def)
qed


definition example_registry :: type_registry where
  "example_registry = new_registry
     [ValueType ''StrValueType'' ''str'' [] False False True True None True None,
      ValueType ''ListValueType'' ''List'' [''list''] False True True True None True None,
      ValueType ''DictValueType'' ''Dict'' [''dict''] True True True True None True None]"

definition example_type_env :: type_env where
  "example_type_env =
     \<lparr>type_is = \<lambda>v t. False, handles_class = \<lambda>v c. c = vt_type_str v, is_lazy_class = \<lambda>c. c = ''DataDict''\<rparr>"


text \<open>
  Two differences.  A list that is loaded late is recognised in a text and as a bare class, but not as the form
  \<open>DataList[str]\<close>, which is not a class; and a request to load early is seen in the union of objects only.
\<close>

definition lazy_registry :: type_registry where
  "lazy_registry = new_registry
     [ValueType ''StrValueType'' ''str'' [] False False True True None True None,
      ValueType ''ListValueType'' ''List'' [''list'', ''DataList''] False True True True None True None,
      ValueType ''TargetValueType'' ''Target'' [] False False True False None False None]"

definition lazy_type_env :: type_env where
  "lazy_type_env =
     \<lparr>type_is = \<lambda>v t. False,
      handles_class = \<lambda>v c. c = vt_type_str v \<or> c = ''DataList'' \<and> vt_type_str v = ''List'',
      is_lazy_class = \<lambda>c. c = ''DataList''\<rparr>"

lemma data_list_form_is_not_lazy:
  "map_option load_on_build (get_value_type_of_type_str (type_str_to_parameter lazy_registry) ''DataList[str]'') = Some False"
  "map_option load_on_build (get_value_type_of_type lazy_type_env lazy_registry True (PlainType ''DataList'')) = Some False"
  "map_option load_on_build (get_value_type_of_type lazy_type_env lazy_registry True
     (GenericType ''DataList'' [PlainType ''str''])) = Some True"
  by code_simp+

lemma eager_union_text_is_not_eager:
  "map_option load_on_build (get_value_type_of_type_str (type_str_to_parameter lazy_registry) ''Union[Target,EagerLoad]'') = Some False"
  "map_option load_on_build (get_value_type_of_type lazy_type_env lazy_registry True
     (UnionType (PlainType ''Target'') [PlainType ''EagerLoad''])) = Some True"
  by code_simp+

end
