(* ===== verification/FunctionParams.thy ===== *)
theory FunctionParams
  imports TypeObjects
begin

text \<open>
  The parameters that a task gets from a decorated function: its signature (\<open>_core/utils/callable_spec.py\<close>), the
  parameters for its arguments and its result (\<open>_core/task_build/decorated_callable_param_builder.py\<close>), how these are
  put into the task definition (\<open>task_definition.py\<close>) and how a result is spread over the outputs (\<open>task_results.py\<close>).
  The contexts of error messages, descriptions, validators and the counter of parameters are left out.
\<close>

section \<open>Parameter definitions\<close>

datatype param_kind = TaskInput | TaskOutput

text \<open>What \<open>value_type=\<close> holds: a value type, or a type that is looked up when the parameter is built.\<close>

datatype type_choice = KnownType value_type | OfType type_object

text \<open>\<open>None\<close> in the fields for the default and \<open>load_on_build\<close> is \<open>NOTHING\<close>.\<close>

record 'v pdef =
  p_default :: "'v option"
  p_name :: "string option"
  p_type :: "type_choice option"
  p_sub_type :: "type_object option"
  p_kind :: param_kind
  p_significant :: bool
  p_system :: bool
  p_load_on_build :: "bool option"
  p_empty_default :: bool

definition PARAMETER_FACTORY :: "'v pdef" where
  "PARAMETER_FACTORY =
     \<lparr>p_default = None, p_name = None, p_type = None, p_sub_type = None, p_kind = TaskInput, p_significant = True,
      p_system = False, p_load_on_build = None, p_empty_default = False\<rparr>"

text \<open>A built parameter; a \<open>FuncResultParameter\<close> has the parameters of its parts.\<close>

datatype 'v param = Plain (own: "'v pdef") | FuncResult (own: "'v pdef") (schema: "'v pdef list")

type_synonym 'v params = "(string, 'v param) dict"

text \<open>
  The registry of types and what it asks of the interpreter; the type of a value and whether a value type is
  for it; the value an empty default has; \<open>register_custom_parameter\<close>; and the types of \<open>*args\<close> and \<open>**kwargs\<close>.
\<close>

record 'v param_env =
  registry :: type_registry
  types :: type_env
  type_of :: "'v \<Rightarrow> type_object"
  is_type_of :: "'v \<Rightarrow> value_type \<Rightarrow> bool"
  empty_default :: "value_type \<Rightarrow> 'v"
  custom_parameters :: "value_type \<Rightarrow> 'v pdef option"
  default_object :: value_type
  target_value_type :: value_type
  list_object :: type_object
  kwargs_object :: type_object

definition type_of_type :: "'v param_env \<Rightarrow> bool \<Rightarrow> type_object \<Rightarrow> value_type option" where
  "type_of_type env inline t = get_value_type_of_type (types env) (registry env) inline t"

definition get_parameter :: "'v param_env \<Rightarrow> value_type \<Rightarrow> 'v pdef" where
  "get_parameter env v =
     (case custom_parameters env v of Some p \<Rightarrow> p | None \<Rightarrow> PARAMETER_FACTORY\<lparr>p_type := Some (KnownType v)\<rparr>)"

definition param_of_type :: "'v param_env \<Rightarrow> type_object \<Rightarrow> 'v pdef result" where
  "param_of_type env t =
     (case type_of_type env True t of
        None \<Rightarrow> Inl (DatabandBuildError ''type'')
      | Some v \<Rightarrow> Inr (PARAMETER_FACTORY\<lparr>p_type := Some (KnownType v)\<rparr>))"

definition as_output :: "'v param_env \<Rightarrow> 'v pdef \<Rightarrow> 'v pdef" where
  "as_output env p =
     (let q = p\<lparr>p_kind := TaskOutput\<rparr>
      in if p_type p = None then q\<lparr>p_type := Some (KnownType (target_value_type env))\<rparr> else q)"

section \<open>Building a parameter\<close>

definition build_value_type :: "'v param_env \<Rightarrow> 'v pdef \<Rightarrow> value_type option result" where
  "build_value_type env s =
     rbind
       (case p_type s of
          None \<Rightarrow>
            (case p_default s of
               Some d \<Rightarrow>
                 (case get_value_type_of_obj (is_type_of env d) (registry env) None of
                    None \<Rightarrow> Inl (DatabandBuildError ''default'') | Some v \<Rightarrow> Inr (Some v))
             | None \<Rightarrow> if p_load_on_build s = Some False then Inr None else Inl (DatabandBuildError ''value_type''))
        | Some (KnownType v) \<Rightarrow> Inr (Some v)
        | Some (OfType t) \<Rightarrow>
            (case type_of_type env False t of None \<Rightarrow> Inl (DatabandBuildError ''value_type'') | Some v \<Rightarrow> Inr (Some v)))
       (\<lambda>vt. case p_sub_type s of
               None \<Rightarrow> Inr vt
             | Some t \<Rightarrow>
                 (case vt of
                    Some v \<Rightarrow>
                      if is_structure v then Inr (Some (with_sub_type_handler (type_of_type env False t) v))
                      else Inl (DatabandBuildError ''sub_type'')
                  | None \<Rightarrow> Inl (DatabandBuildError ''sub_type'')))"

text \<open>Every exception becomes the error of the parameter; \<open>None\<close> has neither an empty default nor \<open>load_on_build\<close>.\<close>

definition build_definition :: "'v param_env \<Rightarrow> 'v pdef \<Rightarrow> 'v pdef result" where
  "build_definition env s =
     (case build_value_type env s of
        Inl e \<Rightarrow> Inl (DatabandBuildError ''parameter'')
      | Inr vt \<Rightarrow>
          if vt = None \<and> (p_default s = None \<and> p_empty_default s \<or> p_load_on_build s = None)
          then Inl (DatabandBuildError ''parameter'')
          else Inr (s\<lparr>p_default := (if p_default s = None \<and> p_empty_default s
                                     then Some (empty_default env (the vt)) else p_default s),
                      p_load_on_build := (case p_load_on_build s of None \<Rightarrow> Some (load_on_build (the vt)) | Some l \<Rightarrow> Some l),
                      p_significant := (if p_kind s = TaskOutput then False else p_significant s),
                      p_type := map_option KnownType vt\<rparr>))"

section \<open>The signature of a function\<close>

text \<open>A default may be the definition of the parameter: \<open>def f(p=parameter[str])\<close>.\<close>

datatype 'v arg_default = FactoryDefault "'v pdef" | ValueDefault 'v

datatype return_hint =
    NoneHint
  | TypeHint type_object
  | TupleHint "type_object list"
  | NamedHint "(string \<times> type_object) list"

text \<open>\<open>inspect.getfullargspec\<close>; \<open>typing.Tuple[...]\<close> and a tuple of types are one case, and so are lists and named tuples.\<close>

record 'v full_arg_spec =
  fs_args :: "string list"
  fs_varargs :: "string option"
  fs_varkw :: "string option"
  fs_defaults :: "'v arg_default list"
  fs_kwonlyargs :: "string list"
  fs_kwonlydefaults :: "(string, 'v arg_default) dict"
  fs_annotations :: "(string, type_object) dict"
  fs_return :: "return_hint option"

record 'v callable_spec =
  args :: "string list"
  varargs :: "string option"
  varkw :: "string option"
  defaults :: "(string, 'v arg_default) dict"
  kwonlyargs :: "string list"
  kwonlydefaults :: "(string, 'v arg_default) dict"
  annotations :: "(string, type_object) dict"
  return_annotation :: "return_hint option"
  defaults_values :: "'v arg_default list"
  doc_annotations :: "(string, string list + string) dict"

definition build_callable_spec :: "'v full_arg_spec \<Rightarrow> string list option \<Rightarrow> 'v callable_spec" where
  "build_callable_spec f source =
     \<lparr>args = fs_args f, varargs = fs_varargs f, varkw = fs_varkw f,
      defaults = dict_update [] (zip (drop (length (fs_args f) - length (fs_defaults f)) (fs_args f)) (fs_defaults f)),
      kwonlyargs = fs_kwonlyargs f, kwonlydefaults = fs_kwonlydefaults f, annotations = fs_annotations f,
      return_annotation = fs_return f, defaults_values = fs_defaults f,
      doc_annotations = (case get_doc_annotations source (fs_args f) of None \<Rightarrow> [] | Some d \<Rightarrow> d)\<rparr>"

text \<open>An annotation wins over the docstring and both over the type of the default.\<close>

definition text_type :: "'v param_env \<Rightarrow> string \<Rightarrow> value_type option" where
  "text_type env s = get_value_type_of_type_str (type_str_to_parameter (registry env)) s"

definition guess_func_arg_value_type ::
  "'v param_env \<Rightarrow> 'v callable_spec \<Rightarrow> string \<Rightarrow> 'v option \<Rightarrow> value_type option"
where
  "guess_func_arg_value_type env sp name d =
     (case map_of (annotations sp) name of
        Some t \<Rightarrow> type_of_type env False t
      | None \<Rightarrow>
          (case (case map_of (doc_annotations sp) name of Some (Inr s) \<Rightarrow> text_type env s | _ \<Rightarrow> None) of
             Some v \<Rightarrow> Some v
           | None \<Rightarrow> (case d of Some x \<Rightarrow> type_of_type env False (type_of env x) | None \<Rightarrow> None)))"

text \<open>\<open>NOTHING\<close>, \<open>None\<close>, several results with names, or one.\<close>

datatype return_spec = NotDefined | ReturnsNone | Parts "(string \<times> value_type option) list" | Returns value_type

definition numbered :: "'a list \<Rightarrow> (string \<times> 'a) list" where
  "numbered xs = zip (map (\<lambda>i. ''result_'' @ nat_str i) [1..<Suc (length xs)]) xs"

definition guess_func_return_type :: "'v param_env \<Rightarrow> 'v callable_spec \<Rightarrow> return_spec" where
  "guess_func_return_type env sp =
     (case return_annotation sp of
        Some NoneHint \<Rightarrow> ReturnsNone
      | Some (TupleHint ts) \<Rightarrow> Parts (map (map_prod id (type_of_type env True)) (numbered ts))
      | Some (NamedHint nts) \<Rightarrow> Parts (map (map_prod id (type_of_type env True)) nts)
      | Some (TypeHint t) \<Rightarrow> (case type_of_type env True t of None \<Rightarrow> ReturnsNone | Some v \<Rightarrow> Returns v)
      | None \<Rightarrow>
          (case map_of (doc_annotations sp) ''return'' of
             None \<Rightarrow> NotDefined
           | Some (Inr s) \<Rightarrow>
               if s = ''None'' then ReturnsNone
               else (case text_type env s of None \<Rightarrow> NotDefined | Some v \<Rightarrow> Returns v)
           | Some (Inl ts) \<Rightarrow> Parts (map (map_prod id (text_type env)) (numbered ts))))"

section \<open>What the decorator says\<close>

datatype 'v deco_value = DNone | DFactory "'v pdef" | DDefinition "'v param" | DValue 'v

text \<open>The parts of \<open>result=\<close>: a name, a parameter or a type.\<close>

datatype 'v result_part = PartName string | PartFactory "'v pdef" | PartType type_object

datatype 'v result_deco = ResultDict | ResultNone | ResultText string | ResultMany "'v result_part list" | ResultOne "'v result_part"

record 'v decorator =
  decorator_kwargs :: "(string, 'v deco_value) dict"
  result_kwarg :: "'v result_deco option"
  task_default_result :: "'v pdef"

section \<open>The parameters of a function\<close>

definition build_parameter :: "'v param_env \<Rightarrow> 'v deco_value \<Rightarrow> 'v param result" where
  "build_parameter env d =
     (case d of
        DFactory f \<Rightarrow> rmap Plain (build_definition env f)
      | DDefinition p \<Rightarrow> Inr p
      | _ \<Rightarrow> Inl (DatabandBuildError ''value_is_not_parameter_cls''))"

text \<open>An attribute for the task class: a parameter, or a value that becomes the default of an inherited one.\<close>

datatype 'v attribute = EParam "'v param" | EValue 'v

fun deco_entry :: "'v deco_value \<Rightarrow> 'v attribute result" where
  "deco_entry (DDefinition p) = Inr (EParam p)"
| "deco_entry (DValue v) = Inr (EValue v)"
| "deco_entry _ = Inl (DatabandBuildError ''entry'')"

fun is_factory :: "'v deco_value \<Rightarrow> bool" where
  "is_factory (DFactory _) = True"
| "is_factory _ = False"

definition deco_param :: "'v param_env \<Rightarrow> 'v params \<Rightarrow> 'v callable_spec \<Rightarrow> string \<Rightarrow> 'v deco_value \<Rightarrow> 'v attribute result" where
  "deco_param env base sp k d =
     rbind
       (case map_of (defaults sp) k of
          None \<Rightarrow> Inr d
        | Some (FactoryDefault _) \<Rightarrow> Inl (DatabandBuildError k)
        | Some (ValueDefault v) \<Rightarrow>
            (case d of DFactory f \<Rightarrow> Inr (DFactory (f\<lparr>p_default := Some v\<rparr>)) | _ \<Rightarrow> Inl (AttributeError ''parameter'')))
       (\<lambda>d. if k \<notin> fst ` set base \<or> is_factory d then rmap EParam (build_parameter env d) else deco_entry d)"

text \<open>The state of the loop: \<open>exclude\<close> and the parameters so far.\<close>

definition deco_step ::
  "'v param_env \<Rightarrow> 'v params \<Rightarrow> 'v callable_spec \<Rightarrow> string list \<times> (string, 'v attribute) dict \<Rightarrow> string \<times> 'v deco_value \<Rightarrow>
     (string list \<times> (string, 'v attribute) dict) result"
where
  "deco_step env base sp st kd =
     (case (st, kd) of
        ((exclude, ps), (k, d)) \<Rightarrow>
          if k \<in> set exclude then Inr (exclude, ps)
          else if d = DNone then Inr (k # exclude, ps)
          else rmap (\<lambda>e. (exclude, dict_set ps k e)) (deco_param env base sp k d))"

definition build_decorator_kwargs_params ::
  "'v param_env \<Rightarrow> 'v params \<Rightarrow> 'v callable_spec \<Rightarrow> 'v decorator \<Rightarrow> (string list \<times> (string, 'v attribute) dict) result"
where
  "build_decorator_kwargs_params env base sp deco =
     foldM (deco_step env base sp) ([''result'', ''self''], []) (decorator_kwargs deco)"

definition arg_param :: "'v param_env \<Rightarrow> 'v callable_spec \<Rightarrow> string \<Rightarrow> 'v option \<Rightarrow> 'v pdef result" where
  "arg_param env sp k d =
     (let v = (case guess_func_arg_value_type env sp k d of None \<Rightarrow> default_object env | Some v \<Rightarrow> v)
      in build_definition env ((get_parameter env v)\<lparr>p_default := d\<rparr>))"

definition spec_step ::
  "'v param_env \<Rightarrow> 'v params \<Rightarrow> 'v callable_spec \<Rightarrow> string list \<Rightarrow> (string, 'v attribute) dict \<Rightarrow> string \<Rightarrow>
     (string, 'v attribute) dict result"
where
  "spec_step env base sp done_keys ps k =
     (if k \<in> set done_keys then Inr ps
      else (case map_of (defaults sp) k of
              Some (FactoryDefault f) \<Rightarrow> rmap (\<lambda>p. dict_set ps k (EParam (Plain p))) (build_definition env f)
            | Some (ValueDefault v) \<Rightarrow>
                if k \<in> fst ` set base then Inr (dict_set ps k (EValue v))
                else rmap (\<lambda>p. dict_set ps k (EParam (Plain p))) (arg_param env sp k (Some v))
            | None \<Rightarrow>
                if k \<in> fst ` set base then Inr ps
                else rmap (\<lambda>p. dict_set ps k (EParam (Plain p))) (arg_param env sp k None)))"

definition add_typed :: "'v param_env \<Rightarrow> string option \<Rightarrow> type_object \<Rightarrow> (string, 'v attribute) dict \<Rightarrow> (string, 'v attribute) dict result" where
  "add_typed env name t ps =
     (case name of
        None \<Rightarrow> Inr ps
      | Some k \<Rightarrow>
          if k = '''' then Inr ps
          else rbind (param_of_type env t) (\<lambda>f. rmap (\<lambda>p. dict_set ps k (EParam (Plain p))) (build_definition env f)))"

definition build_func_spec_params ::
  "'v param_env \<Rightarrow> 'v params \<Rightarrow> 'v callable_spec \<Rightarrow> string list \<Rightarrow> (string, 'v attribute) dict \<Rightarrow> (string, 'v attribute) dict result"
where
  "build_func_spec_params env base sp exclude deco_params =
     rbind (foldM (spec_step env base sp (exclude @ map fst deco_params)) [] (args sp))
       (\<lambda>ps. rbind (add_typed env (varargs sp) (list_object env) ps) (add_typed env (varkw sp) (kwargs_object env)))"

section \<open>The parameters of the result\<close>

definition get_result_parameter_part ::
  "'v param_env \<Rightarrow> 'v result_part \<Rightarrow> string \<Rightarrow> value_type option \<Rightarrow> 'v pdef"
where
  "get_result_parameter_part env part name_hint hint =
     (let (given, name_hint, hint) = (case part of
            PartName s \<Rightarrow> (None, s, hint)
          | PartType t \<Rightarrow> (None, name_hint, type_of_type env True t)
          | PartFactory f \<Rightarrow> (Some f, name_hint, hint));
          p = (case given of
                 Some f \<Rightarrow> f
               | None \<Rightarrow> (case hint of Some v \<Rightarrow> get_parameter env v | None \<Rightarrow> PARAMETER_FACTORY));
          p = (if p_name p = None \<and> name_hint \<noteq> '''' then p\<lparr>p_name := Some name_hint\<rparr> else p);
          p = (if p_type p = None \<and> hint \<noteq> None then p\<lparr>p_type := map_option KnownType hint\<rparr> else p)
      in as_output env p)"

definition build_part :: "'v param_env \<Rightarrow> 'v pdef \<Rightarrow> 'v pdef result" where
  "build_part env f =
     rbind (build_definition env f)
       (\<lambda>p. if p_name p = None \<or> p_name p = Some '''' then Inl (DatabandBuildError ''should have name'')
            else if p_kind p \<noteq> TaskOutput then Inl (DatabandBuildError ''should marked as output'')
            else Inr p)"

definition build_multiple_outputs_result :: "'v param_env \<Rightarrow> 'v pdef list \<Rightarrow> 'v param result" where
  "build_multiple_outputs_result env parts =
     rmap (FuncResult (PARAMETER_FACTORY\<lparr>p_type := Some (KnownType (default_object env)), p_name := Some ''result'',
                                          p_significant := False, p_kind := TaskOutput\<rparr>))
       (mapM (build_part env) parts)"

text \<open>\<open>result = "output1,output2"\<close>, with commas and white space.\<close>

function words_of :: "string \<Rightarrow> string list" where
  "words_of s =
     (case dropWhile is_space s of
        [] \<Rightarrow> []
      | c # cs \<Rightarrow> (c # takeWhile (\<lambda>x. \<not> is_space x) cs) # words_of (dropWhile (\<lambda>x. \<not> is_space x) cs))"
  by auto
termination
proof (relation "measure length")
  fix s c cs assume "dropWhile is_space s = c # cs"
  then have "length (c # cs) \<le> length s" using length_dropWhile_le [of is_space s] by simp
  moreover have "length (dropWhile (\<lambda>x. \<not> is_space x) cs) \<le> length cs" by (rule length_dropWhile_le)
  ultimately show "(dropWhile (\<lambda>x. \<not> is_space x) cs, s) \<in> measure length" by simp
qed simp

declare words_of.simps [simp del]

fun result_parts :: "'v result_deco \<Rightarrow> 'v result_part list + 'v result_part" where
  "result_parts (ResultText s) =
     (case words_of (replace_char (CHR '','') '' '' s) of [w] \<Rightarrow> Inr (PartName w) | ws \<Rightarrow> Inl (map PartName ws))"
| "result_parts (ResultMany ps) = Inl ps"
| "result_parts (ResultOne p) = Inr p"
| "result_parts _ = Inl []"

definition validate_return_spec :: "'v result_part list + 'v result_part \<Rightarrow> return_spec \<Rightarrow> return_spec" where
  "validate_return_spec parts ret =
     (case (parts, ret) of
        (Inr _, Returns v) \<Rightarrow> ret
      | (Inl ps, Parts rs) \<Rightarrow> if length ps = length rs then ret else ReturnsNone
      | _ \<Rightarrow> ReturnsNone)"

definition hint_at :: "return_spec \<Rightarrow> nat \<Rightarrow> value_type option" where
  "hint_at ret i = (case ret of Parts rs \<Rightarrow> snd (rs ! i) | _ \<Rightarrow> None)"

text \<open>The result of the parts of the decorator or of the return type, and the types that go with them.\<close>

definition result_of_parts :: "'v param_env \<Rightarrow> 'v result_part list + 'v result_part \<Rightarrow> return_spec \<Rightarrow> 'v param result" where
  "result_of_parts env parts ret =
     (case parts of
        Inl ps \<Rightarrow>
          build_multiple_outputs_result env
            (map (\<lambda>(i, p). get_result_parameter_part env p (''result_'' @ nat_str i) (hint_at ret i)) (enumerate 0 ps))
      | Inr p \<Rightarrow>
          rmap Plain (build_definition env
            (get_result_parameter_part env p ''result'' (case ret of Returns v \<Rightarrow> Some v | _ \<Rightarrow> None))))"

definition get_result_parameter :: "'v param_env \<Rightarrow> 'v decorator \<Rightarrow> 'v callable_spec \<Rightarrow> 'v param option result" where
  "get_result_parameter env deco sp =
     (let ret = guess_func_return_type env sp
      in case result_kwarg deco of
           Some ResultDict \<Rightarrow> Inl (DatabandBuildError ''dict_in_result_definition'')
         | Some ResultNone \<Rightarrow> Inr None
         | Some d \<Rightarrow>
             (let parts = result_parts d
              in rmap Some (result_of_parts env parts (validate_return_spec parts ret)))
         | None \<Rightarrow>
             (case ret of
                ReturnsNone \<Rightarrow> Inr None
              | NotDefined \<Rightarrow> rmap (Some \<circ> Plain) (build_definition env (task_default_result deco))
              | Parts rs \<Rightarrow> rmap Some (result_of_parts env (Inl (map (PartName \<circ> fst) rs)) ret)
              | Returns v \<Rightarrow> rmap Some (result_of_parts env (Inr (PartName ''result'')) ret)))"

definition names_of :: "'v pdef list \<Rightarrow> string list" where
  "names_of ps = map (\<lambda>p. case p_name p of Some n \<Rightarrow> n | None \<Rightarrow> '''') ps"

definition build_func_result_params :: "'v param_env \<Rightarrow> 'v decorator \<Rightarrow> 'v callable_spec \<Rightarrow> 'v params result" where
  "build_func_result_params env deco sp =
     rmap (\<lambda>r. case r of
                 None \<Rightarrow> []
               | Some p \<Rightarrow>
                   dict_update [(''result'', p)]
                     (case p of FuncResult _ ps \<Rightarrow> zip (names_of ps) (map Plain ps) | Plain _ \<Rightarrow> []))
       (get_result_parameter env deco sp)"

text \<open>The parameters of the decorator, of the signature and of the result; the last share no key with the others.\<close>

definition build_func_params ::
  "'v param_env \<Rightarrow> 'v params \<Rightarrow> 'v decorator \<Rightarrow> 'v callable_spec \<Rightarrow>
     ((string, 'v attribute) dict \<times> (string, 'v attribute) dict \<times> 'v params) result"
where
  "build_func_params env base deco sp =
     rbind (build_decorator_kwargs_params env base sp deco)
       (\<lambda>(exclude, dps). rbind (build_func_spec_params env base sp exclude dps)
         (\<lambda>sps. rbind (build_func_result_params env deco sp)
           (\<lambda>rps. if fst ` set rps \<inter> (fst ` set dps \<union> fst ` set sps) = {} then Inr (dps, sps, rps)
                   else Inl (DatabandBuildError ''result_and_params_have_same_keys''))))"

section \<open>The parameters of the task\<close>

fun set_own :: "('v pdef \<Rightarrow> 'v pdef) \<Rightarrow> 'v param \<Rightarrow> 'v param" where
  "set_own f (Plain p) = Plain (f p)"
| "set_own f (FuncResult p ps) = FuncResult (f p) ps"

text \<open>Parameters first, then the values for parameters that exist by then; other values are no parameters.\<close>

definition update_params_from_attributes :: "(string, 'v attribute) dict \<Rightarrow> 'v params \<Rightarrow> 'v params" where
  "update_params_from_attributes es ps =
     foldl (\<lambda>ps (k, e). case e of
                 EValue v \<Rightarrow> (case map_of ps k of
                                None \<Rightarrow> ps
                              | Some p \<Rightarrow> dict_set ps k (set_own (\<lambda>q. q\<lparr>p_default := Some v\<rparr>) p))
               | EParam _ \<Rightarrow> ps)
       (foldl (\<lambda>ps (k, e). case e of EParam p \<Rightarrow> dict_set ps k p | EValue _ \<Rightarrow> ps) ps es) es"

definition task_params :: "'v param_env \<Rightarrow> 'v params \<Rightarrow> 'v decorator \<Rightarrow> 'v callable_spec \<Rightarrow> 'v params result" where
  "task_params env base deco sp =
     rmap (\<lambda>(dps, sps, rps).
             map (\<lambda>(k, p). (k, set_own (\<lambda>q. q\<lparr>p_name := Some k\<rparr>) p))
               (update_params_from_attributes (dict_update (dict_update dps sps) (map (map_prod id EParam) rps)) base))
       (build_func_params env base deco sp)"

text \<open>Whether \<open>result\<close> is the only output, apart from its own parts and \<open>task_band\<close>.\<close>

definition is_result_single_output :: "'v params \<Rightarrow> bool" where
  "is_result_single_output ps =
     (case map_of ps ''result'' of
        None \<Rightarrow> False
      | Some r \<Rightarrow>
          (let names = (case r of FuncResult _ qs \<Rightarrow> names_of qs | Plain _ \<Rightarrow> [])
           in list_all (\<lambda>(k, p). p_system (own p) \<or> p_kind (own p) \<noteq> TaskOutput \<or>
                                 p_name (own p) \<in> Some ` set ([''result'', ''task_band''] @ names)) ps))"

section \<open>Results\<close>

datatype 'x fn_result = RNone | RSequence "'x list" | RMapping "(string, 'x) dict" | ROther 'x

text \<open>The keys of a mapping are distinct; its values are taken in the order of the names.\<close>

definition named_results :: "string list \<Rightarrow> 'x fn_result \<Rightarrow> (string \<times> 'x) list result" where
  "named_results names r =
     (case r of
        RSequence xs \<Rightarrow>
          if length xs \<noteq> length names then Inl (DatabandRuntimeError ''wrong_return_value_len'') else Inr (zip names xs)
      | RMapping d \<Rightarrow>
          if length d \<noteq> length names then Inl (DatabandRuntimeError ''wrong_return_value_len'')
          else if fst ` set d \<noteq> set names then Inl (TargetError ''NotSupportedValue'')
          else mapM (\<lambda>n. case map_of d n of None \<Rightarrow> Inl (KeyError n) | Some x \<Rightarrow> Inr (n, x)) names
      | _ \<Rightarrow> Inl (DatabandRuntimeError ''wrong_return_value_type''))"

text \<open>
  \<open>_invoke_func\<close> after the call: the outputs that are set, \<open>None\<close> as a result being a value like others for a
  single result.
\<close>

definition assign_result ::
  "('x fn_result \<Rightarrow> bool) \<Rightarrow> 'v param option \<Rightarrow> 'x fn_result \<Rightarrow> (string, 'x fn_result) dict \<Rightarrow> (string, 'x fn_result) dict result"
where
  "assign_result truthy rp r outputs =
     (case rp of
        None \<Rightarrow> if truthy r then Inl (DatabandRuntimeError ''non empty result'') else Inr (dict_set outputs ''result'' r)
      | Some (Plain _) \<Rightarrow> Inr (dict_set outputs ''result'' r)
      | Some (FuncResult _ ps) \<Rightarrow>
          if r = RNone then Inl (DatabandRuntimeError ''failed_to_assign_result'')
          else rmap (\<lambda>nxs. dict_update outputs (map (map_prod id ROther) nxs)) (named_results (names_of ps) r))"

definition load_results :: "'v pdef list \<Rightarrow> (string, 'a) dict \<Rightarrow> 'a list result" where
  "load_results ps outputs =
     mapM (\<lambda>n. case map_of outputs n of None \<Rightarrow> Inl (AttributeError n) | Some x \<Rightarrow> Inr x) (names_of ps)"

section \<open>Keys and values of the dictionaries\<close>

lemma keys_dict_update: "fst ` set (dict_update d e) = fst ` set d \<union> fst ` set e"
  by (induction d e rule: dict_update.induct) (auto simp: set_fst_dict_set)

lemma distinct_dict_update: "distinct (map fst d) \<Longrightarrow> distinct (map fst (dict_update d e))"
  by (induction d e rule: dict_update.induct) (auto simp: distinct_dict_set)

lemma build_definition_keeps:
  assumes "build_definition env s = Inr p"
  shows "p_default s = Some v \<Longrightarrow> p_default p = Some v" "p_name p = p_name s" "p_kind p = p_kind s"
  using assms by (auto simp: build_definition_def split: sum.splits if_splits)

text \<open>What a step of the first loop does to the keys, and the entries it makes.\<close>

definition entry_ok :: "'v params \<Rightarrow> 'v callable_spec \<Rightarrow> string \<Rightarrow> 'v attribute \<Rightarrow> bool" where
  "entry_ok base sp k e =
     ((\<forall>v. e = EValue v \<longrightarrow> k \<in> fst ` set base) \<and>
      (\<forall>v. map_of (defaults sp) k = Some (ValueDefault v) \<longrightarrow>
         (case e of EValue w \<Rightarrow> w = v | EParam p \<Rightarrow> p_default (own p) = Some v)))"

lemma deco_param_ok:
  assumes "deco_param env base sp k d = Inr e" "d \<noteq> DNone" shows "entry_ok base sp k e"
proof -
  have built: "\<exists>p. build_definition env f = Inr p \<and> e = EParam (Plain p)"
    if "rmap EParam (build_parameter env (DFactory f)) = Inr e" for f
    using that by (auto simp: build_parameter_def result_simps)
  have kept: "p_default p = Some v" if "build_definition env (f\<lparr>p_default := Some v\<rparr>) = Inr p" for f p v
    using build_definition_keeps(1) [OF that, of v] by simp
  show ?thesis
  proof (cases "map_of (defaults sp) k")
    case None
    then show ?thesis
      using assms by (cases d) (auto simp: deco_param_def entry_ok_def build_parameter_def result_simps split: if_splits)
  next
    case (Some a)
    then show ?thesis
    proof (cases a)
      case (FactoryDefault f)
      then show ?thesis using assms Some by (simp add: deco_param_def)
    next
      case (ValueDefault v)
      then obtain f where f: "d = DFactory f" "rmap EParam (build_parameter env (DFactory (f\<lparr>p_default := Some v\<rparr>))) = Inr e"
        using assms Some by (cases d) (auto simp: deco_param_def)
      from built [OF f(2)] obtain p where p: "build_definition env (f\<lparr>p_default := Some v\<rparr>) = Inr p" "e = EParam (Plain p)" by blast
      then show ?thesis using Some ValueDefault kept [OF p(1)] by (simp add: entry_ok_def)
    qed
  qed
qed

definition entries_ok :: "'v params \<Rightarrow> 'v callable_spec \<Rightarrow> (string, 'v attribute) dict \<Rightarrow> bool" where
  "entries_ok base sp es = (distinct (map fst es) \<and> (\<forall>k e. map_of es k = Some e \<longrightarrow> entry_ok base sp k e))"

lemma entries_ok_Nil [simp]: "entries_ok base sp []"
  by (simp add: entries_ok_def)

lemma entries_ok_set: "entries_ok base sp es \<Longrightarrow> entry_ok base sp k e \<Longrightarrow> entries_ok base sp (dict_set es k e)"
  by (auto simp: entries_ok_def distinct_dict_set)

text \<open>The keys that are switched off with \<open>None\<close>.\<close>

definition disabled :: "'v decorator \<Rightarrow> string set" where
  "disabled deco = {k. map_of (decorator_kwargs deco) k = Some DNone}"

lemma deco_loop:
  assumes "foldM (deco_step env base sp) (ex, es) kds = Inr (ex', es')" "distinct (map fst kds)" "entries_ok base sp es"
  shows "entries_ok base sp es' \<and>
    set ex' = set ex \<union> {k. k \<notin> set ex \<and> map_of kds k = Some DNone} \<and>
    fst ` set es' = fst ` set es \<union> {k \<in> fst ` set kds. k \<notin> set ex \<and> map_of kds k \<noteq> Some DNone}"
  using assms
proof (induction kds arbitrary: ex es)
  case (Cons kd kds)
  obtain k d where kd: "kd = (k, d)" by force
  have new: "map_of kds k = None" "k \<notin> fst ` set kds" using Cons.prems(2) by (auto simp: kd map_of_eq_None_iff)
  obtain ex1 es1 where st: "deco_step env base sp (ex, es) kd = Inr (ex1, es1)"
    "foldM (deco_step env base sp) (ex1, es1) kds = Inr (ex', es')"
    using Cons.prems(1) by (auto simp: result_simps)
  have kds: "distinct (map fst kds)" using Cons.prems(2) by simp
  consider (skip) "k \<in> set ex" "ex1 = ex" "es1 = es"
    | (off) "k \<notin> set ex" "d = DNone" "ex1 = k # ex" "es1 = es"
    | (made) e where "k \<notin> set ex" "d \<noteq> DNone" "deco_param env base sp k d = Inr e" "ex1 = ex" "es1 = dict_set es k e"
    using st(1) by (auto simp: deco_step_def kd result_simps split: if_splits)
  then show ?case
  proof cases
    case skip
    then show ?thesis using Cons.IH [OF st(2) kds] Cons.prems(3) new by (auto simp: kd)
  next
    case off
    then show ?thesis using Cons.IH [OF st(2) kds] Cons.prems(3) new by (auto simp: kd)
  next
    case made
    have ok: "entries_ok base sp es1"
      unfolding made(5) by (rule entries_ok_set [OF Cons.prems(3) deco_param_ok [OF made(3,2)]])
    show ?thesis using Cons.IH [OF st(2) kds ok] made new by (auto simp: kd set_fst_dict_set)
  qed
qed simp

text \<open>The arguments with a default that is a value.\<close>

definition valued :: "'v callable_spec \<Rightarrow> string set" where
  "valued sp = {k. \<exists>v. map_of (defaults sp) k = Some (ValueDefault v)}"

lemma spec_step_ok:
  assumes "spec_step env base sp dn es k = Inr es'" "entries_ok base sp es"
  shows "entries_ok base sp es'"
    "fst ` set es \<subseteq> fst ` set es' \<and> fst ` set es' \<subseteq> insert k (fst ` set es) \<and>
     (k \<in> set dn \<longrightarrow> fst ` set es' = fst ` set es) \<and> (k \<notin> set dn \<longrightarrow> k \<in> fst ` set base \<union> fst ` set es') \<and>
     (k \<notin> set dn \<longrightarrow> k \<in> valued sp \<longrightarrow> k \<in> fst ` set es')"
proof -
  have arg: "p_default p = Some v" if "arg_param env sp k (Some v) = Inr p" for p v
    using build_definition_keeps(1) [OF that [unfolded arg_param_def Let_def]] by simp
  consider (skip) "k \<in> set dn" "es' = es"
    | (inherited) "k \<notin> set dn" "k \<in> fst ` set base" "map_of (defaults sp) k = None" "es' = es"
    | (made) e where "k \<notin> set dn" "es' = dict_set es k e" "entry_ok base sp k e"
  proof (cases "k \<in> set dn")
    case True
    then show ?thesis using assms(1) skip by (simp add: spec_step_def)
  next
    case False
    show ?thesis
    proof (cases "map_of (defaults sp) k")
      case None
      show ?thesis
      proof (cases "k \<in> fst ` set base")
        case True
        then have "es' = es" using assms(1) False None by (simp add: spec_step_def)
        then show ?thesis using inherited False True None by simp
      next
        case base: False
        then obtain p where "es' = dict_set es k (EParam (Plain p))"
          using assms(1) False None by (auto simp: spec_step_def result_simps)
        then show ?thesis using made [of "EParam (Plain p)"] False None by (simp add: entry_ok_def)
      qed
    next
      case (Some a)
      show ?thesis
      proof (cases a)
        case (FactoryDefault f)
        then obtain p where "es' = dict_set es k (EParam (Plain p))"
          using assms(1) False Some by (auto simp: spec_step_def result_simps)
        then show ?thesis using made [of "EParam (Plain p)"] False Some FactoryDefault by (simp add: entry_ok_def)
      next
        case (ValueDefault v)
        show ?thesis
        proof (cases "k \<in> fst ` set base")
          case True
          then have "es' = dict_set es k (EValue v)" using assms(1) False Some ValueDefault by (simp add: spec_step_def)
          then show ?thesis using made [of "EValue v"] True False Some ValueDefault by (simp add: entry_ok_def)
        next
          case base: False
          then obtain p where p: "arg_param env sp k (Some v) = Inr p" "es' = dict_set es k (EParam (Plain p))"
            using assms(1) False Some ValueDefault by (auto simp: spec_step_def result_simps)
          then show ?thesis using made [of "EParam (Plain p)"] False Some ValueDefault arg [OF p(1)] by (simp add: entry_ok_def)
        qed
      qed
    qed
  qed
  note how = this
  from how show "entries_ok base sp es'"
  proof cases
    case made
    then show ?thesis using entries_ok_set [OF assms(2) made(3)] by simp
  qed (use assms(2) in simp_all)
  from how show "fst ` set es \<subseteq> fst ` set es' \<and> fst ` set es' \<subseteq> insert k (fst ` set es) \<and>
     (k \<in> set dn \<longrightarrow> fst ` set es' = fst ` set es) \<and> (k \<notin> set dn \<longrightarrow> k \<in> fst ` set base \<union> fst ` set es') \<and>
     (k \<notin> set dn \<longrightarrow> k \<in> valued sp \<longrightarrow> k \<in> fst ` set es')"
  proof cases
    case made
    then have keys: "fst ` set es' = insert k (fst ` set es)" by (simp add: set_fst_dict_set)
    show ?thesis unfolding keys using made(1) by (simp add: subset_insertI)
  qed (simp_all add: valued_def subset_insertI)
qed

lemma keys_of_steps:
  "S \<subseteq> S1 \<and> S1 \<subseteq> insert k S \<and> (k \<in> dn \<longrightarrow> S1 = S) \<and> (k \<notin> dn \<longrightarrow> k \<in> B \<union> S1) \<and> (k \<notin> dn \<longrightarrow> k \<in> V \<longrightarrow> k \<in> S1) \<Longrightarrow>
   S1 \<subseteq> S' \<and> S' \<subseteq> S1 \<union> (K - dn) \<and> K - dn \<subseteq> B \<union> S' \<and> (K - dn) \<inter> V \<subseteq> S' \<Longrightarrow>
   S \<subseteq> S' \<and> S' \<subseteq> S \<union> (insert k K - dn) \<and> insert k K - dn \<subseteq> B \<union> S' \<and> (insert k K - dn) \<inter> V \<subseteq> S'"
  by (cases "k \<in> dn") auto

lemma spec_loop:
  assumes "foldM (spec_step env base sp dn) es ks = Inr es'" "entries_ok base sp es"
  shows "entries_ok base sp es' \<and> fst ` set es \<subseteq> fst ` set es' \<and>
    fst ` set es' \<subseteq> fst ` set es \<union> (set ks - set dn) \<and> set ks - set dn \<subseteq> fst ` set base \<union> fst ` set es' \<and>
    (set ks - set dn) \<inter> valued sp \<subseteq> fst ` set es'"
  using assms
proof (induction ks arbitrary: es)
  case (Cons k ks)
  obtain es1 where st: "spec_step env base sp dn es k = Inr es1" "foldM (spec_step env base sp dn) es1 ks = Inr es'"
    using Cons.prems(1) by (auto simp: result_simps)
  note one = spec_step_ok [OF st(1) Cons.prems(2)]
  note rest = Cons.IH [OF st(2) one(1)]
  from keys_of_steps [OF one(2) conjunct2 [OF rest]] conjunct1 [OF rest] show ?case
    by (simp only: list.set conj_assoc)
qed simp

text \<open>The keys of the parameters of the result are those of its parts and \<open>result\<close> itself.\<close>

lemma build_func_params_cases:
  assumes "build_func_params env base deco sp = Inr (dps, sps, rps)"
  obtains ex es es1 where
    "foldM (deco_step env base sp) ([''result'', ''self''], []) (decorator_kwargs deco) = Inr (ex, dps)"
    "foldM (spec_step env base sp (ex @ map fst dps)) [] (args sp) = Inr es"
    "add_typed env (varargs sp) (list_object env) es = Inr es1"
    "add_typed env (varkw sp) (kwargs_object env) es1 = Inr sps"
  using assms
  by (auto simp: build_func_params_def build_decorator_kwargs_params_def build_func_spec_params_def result_simps
      split: if_splits)

lemma build_func_params_results:
  assumes "build_func_params env base deco sp = Inr (dps, sps, rps)"
  shows "build_func_result_params env deco sp = Inr rps \<and> fst ` set rps \<inter> (fst ` set dps \<union> fst ` set sps) = {}"
  using assms by (auto simp: build_func_params_def result_simps split: if_splits)

definition named :: "string option \<Rightarrow> string set" where
  "named n = (case n of None \<Rightarrow> {} | Some k \<Rightarrow> {k} - {''''})"

lemma add_typed_ok:
  assumes "add_typed env n t es = Inr es'" "entries_ok base sp es" "named n \<inter> fst ` set (defaults sp) = {}"
  shows "entries_ok base sp es' \<and> fst ` set es' = fst ` set es \<union> named n"
proof (cases "named n = {}")
  case True
  then show ?thesis using assms by (cases n) (auto simp: add_typed_def named_def split: if_splits)
next
  case False
  then obtain k p where k: "n = Some k" "k \<noteq> ''''" "es' = dict_set es k (EParam (Plain p))"
    using assms(1) by (cases n) (auto simp: add_typed_def named_def result_simps)
  then have "map_of (defaults sp) k = None" using assms(3) by (auto simp: named_def map_of_eq_None_iff)
  then show ?thesis using k entries_ok_set [OF assms(2)] by (auto simp: entry_ok_def set_fst_dict_set named_def)
qed

section \<open>The parameters of the task in full\<close>

text \<open>What the loops of \<open>update_params_from_attributes\<close> leave under a key.\<close>

definition entry_value :: "'v attribute option \<Rightarrow> 'v param option \<Rightarrow> 'v param option" where
  "entry_value e p =
     (case e of None \<Rightarrow> p | Some (EParam q) \<Rightarrow> Some q | Some (EValue v) \<Rightarrow> map_option (set_own (\<lambda>q. q\<lparr>p_default := Some v\<rparr>)) p)"

lemma params_loop:
  assumes "distinct (map fst es)"
  shows "map_of (foldl (\<lambda>ps (k, e). case e of EParam p \<Rightarrow> dict_set ps k p | EValue _ \<Rightarrow> ps) ps es) k =
    (case map_of es k of Some (EParam p) \<Rightarrow> Some p | _ \<Rightarrow> map_of ps k)"
  using assms
proof (induction es arbitrary: ps)
  case (Cons ke es)
  obtain k' e where ke: "ke = (k', e)" by force
  have new: "map_of es k' = None" using Cons.prems by (auto simp: ke map_of_eq_None_iff)
  have es: "distinct (map fst es)" using Cons.prems by simp
  show ?case using Cons.IH [OF es] new by (cases e) (auto simp: ke split: option.splits attribute.splits)
qed simp

lemma values_loop:
  assumes "distinct (map fst es)"
  shows "map_of (foldl (\<lambda>ps (k, e). case e of
                 EValue v \<Rightarrow> (case map_of ps k of
                                None \<Rightarrow> ps
                              | Some p \<Rightarrow> dict_set ps k (set_own (\<lambda>q. q\<lparr>p_default := Some v\<rparr>) p))
               | EParam _ \<Rightarrow> ps) ps es) k =
    (case map_of es k of Some (EValue v) \<Rightarrow> map_option (set_own (\<lambda>q. q\<lparr>p_default := Some v\<rparr>)) (map_of ps k) | _ \<Rightarrow> map_of ps k)"
  using assms
proof (induction es arbitrary: ps)
  case (Cons ke es)
  obtain k' e where ke: "ke = (k', e)" by force
  have new: "map_of es k' = None" using Cons.prems by (auto simp: ke map_of_eq_None_iff)
  have es: "distinct (map fst es)" using Cons.prems by simp
  show ?case
  proof (cases e)
    case (EParam p)
    then show ?thesis using Cons.IH [OF es, of ps] new by (simp add: ke)
  next
    case (EValue v)
    show ?thesis
    proof (cases "map_of ps k'")
      case None
      then show ?thesis using Cons.IH [OF es, of ps] new EValue by (simp add: ke)
    next
      case (Some p)
      then show ?thesis
        using Cons.IH [OF es, of "dict_set ps k' (set_own (\<lambda>q. q\<lparr>p_default := Some v\<rparr>) p)"] new EValue
        by (auto simp: ke split: option.splits attribute.splits)
    qed
  qed
qed simp

lemma updated_params:
  assumes "distinct (map fst es)"
  shows "map_of (update_params_from_attributes es ps) k = entry_value (map_of es k) (map_of ps k)"
  unfolding update_params_from_attributes_def values_loop [OF assms] params_loop [OF assms]
  by (simp add: entry_value_def split: option.splits attribute.splits)

lemma own_set_own [simp]: "own (set_own f p) = f (own p)"
  by (cases p) simp_all

lemma map_of_renamed:
  "map_of (map (\<lambda>(k, p). (k, set_own (\<lambda>q. q\<lparr>p_name := Some k\<rparr>) p)) ps) k =
     map_option (set_own (\<lambda>q. q\<lparr>p_name := Some k\<rparr>)) (map_of ps k)"
  by (induction ps) auto

text \<open>The loops together: what the decorator and the signature give.\<close>

lemma function_entries:
  assumes "build_func_params env base deco sp = Inr (dps, sps, rps)" "distinct (map fst (decorator_kwargs deco))"
    and "(named (varargs sp) \<union> named (varkw sp)) \<inter> fst ` set (defaults sp) = {}"
  defines "off \<equiv> {''result'', ''self''} \<union> disabled deco"
    and "declared \<equiv> fst ` set (decorator_kwargs deco) \<union> set (args sp)"
  shows "entries_ok base sp dps" "entries_ok base sp sps"
    "fst ` set dps \<union> fst ` set sps \<subseteq> (declared - off) \<union> named (varargs sp) \<union> named (varkw sp)"
    "(declared - off) \<union> named (varargs sp) \<union> named (varkw sp) \<subseteq> fst ` set base \<union> fst ` set dps \<union> fst ` set sps"
    "(set (args sp) - off) \<inter> valued sp \<subseteq> fst ` set dps \<union> fst ` set sps"
proof -
  from assms(1) obtain ex es es1 where
    dps: "foldM (deco_step env base sp) ([''result'', ''self''], []) (decorator_kwargs deco) = Inr (ex, dps)" and
    es: "foldM (spec_step env base sp (ex @ map fst dps)) [] (args sp) = Inr es" and
    es1: "add_typed env (varargs sp) (list_object env) es = Inr es1" and
    sps: "add_typed env (varkw sp) (kwargs_object env) es1 = Inr sps" by (rule build_func_params_cases)
  note d = deco_loop [OF dps assms(2) entries_ok_Nil]
  note e = spec_loop [OF es entries_ok_Nil]
  have e1: "entries_ok base sp es1 \<and> fst ` set es1 = fst ` set es \<union> named (varargs sp)"
    using assms(3) by (intro add_typed_ok [OF es1 conjunct1 [OF e]]) blast
  have e2: "entries_ok base sp sps \<and> fst ` set sps = fst ` set es1 \<union> named (varkw sp)"
    using assms(3) by (intro add_typed_ok [OF sps conjunct1 [OF e1]]) blast
  show "entries_ok base sp dps" "entries_ok base sp sps" using d e2 by simp_all
  obtain D E B K A N M where sets: "fst ` set dps = D" "fst ` set es = E" "fst ` set base = B"
    "fst ` set (decorator_kwargs deco) = K" "set (args sp) = A" "named (varargs sp) = N" "named (varkw sp) = M" by blast
  have ex: "set ex = off" using d by (auto simp: off_def disabled_def)
  have "D = {k \<in> K. k \<notin> {''result'', ''self''} \<and> map_of (decorator_kwargs deco) k \<noteq> Some DNone}"
    using d by (simp add: sets)
  then have D: "D = K - off" by (auto simp: off_def disabled_def)
  have E: "E \<subseteq> A - (off \<union> D)" "A - (off \<union> D) \<subseteq> B \<union> E" "(A - (off \<union> D)) \<inter> valued sp \<subseteq> E"
    using e by (simp_all add: sets ex)
  have S: "fst ` set sps = E \<union> N \<union> M" using e1 e2 by (simp add: sets)
  show "fst ` set dps \<union> fst ` set sps \<subseteq> (declared - off) \<union> named (varargs sp) \<union> named (varkw sp)"
    unfolding S sets declared_def using D E(1) by blast
  show "(declared - off) \<union> named (varargs sp) \<union> named (varkw sp) \<subseteq> fst ` set base \<union> fst ` set dps \<union> fst ` set sps"
    unfolding S sets declared_def using D E(2) by blast
  show "(set (args sp) - off) \<inter> valued sp \<subseteq> fst ` set dps \<union> fst ` set sps"
    unfolding S sets using D E(3) by blast
qed

lemma distinct_result_params: "build_func_result_params env deco sp = Inr rps \<Longrightarrow> distinct (map fst rps)"
  by (auto simp: build_func_result_params_def result_simps distinct_dict_update split: option.splits)

lemma same_keys:
  "D = B \<union> (P \<union> S) \<union> R \<Longrightarrow> P \<union> S \<subseteq> L \<union> N \<union> M \<Longrightarrow> L \<union> N \<union> M \<subseteq> B \<union> P \<union> S \<Longrightarrow> D = B \<union> L \<union> N \<union> M \<union> R"
  by blast

text \<open>
  C35. The parameters of a decorated task are those it inherits, the arguments of the function and the parameters
  of the decorator that are not switched off, \<open>*args\<close>, \<open>**kwargs\<close> and those of the result; arguments that can be
  given by keyword only are not among them.  A default of the function is the default of its parameter, however
  the parameter is declared.
\<close>
theorem parameters_of_a_function:
  assumes "task_params env base deco sp = Inr ps" "distinct (map fst (decorator_kwargs deco))"
    and "(named (varargs sp) \<union> named (varkw sp)) \<inter> fst ` set (defaults sp) = {}"
  shows "\<exists>rps. build_func_result_params env deco sp = Inr rps \<and>
    dom (map_of ps) = fst ` set base \<union>
      ((fst ` set (decorator_kwargs deco) \<union> set (args sp)) - ({''result'', ''self''} \<union> disabled deco)) \<union>
      named (varargs sp) \<union> named (varkw sp) \<union> fst ` set rps \<and>
    (\<forall>k v. k \<in> set (args sp) - ({''result'', ''self''} \<union> disabled deco) \<longrightarrow>
       map_of (defaults sp) k = Some (ValueDefault v) \<longrightarrow> (\<exists>p. map_of ps k = Some p \<and> p_default (own p) = Some v))"
proof -
  obtain t where t: "build_func_params env base deco sp = Inr t"
    using assms(1) unfolding task_params_def rmap_Inr_iff by blast
  obtain dps sps rps where parts: "t = (dps, sps, rps)" by (rule prod_cases3)
  have built: "build_func_params env base deco sp = Inr (dps, sps, rps)" using t parts by simp
  have ps: "ps = map (\<lambda>(k, p). (k, set_own (\<lambda>q. q\<lparr>p_name := Some k\<rparr>) p))
      (update_params_from_attributes (dict_update (dict_update dps sps) (map (map_prod id EParam) rps)) base)"
    using assms(1) by (simp add: task_params_def built)
  note rps = build_func_params_results [OF built]
  note e = function_entries [OF built assms(2,3)]
  obtain C R where C: "C = dict_update dps sps" and R: "R = map (map_prod id (EParam :: 'a param \<Rightarrow> 'a attribute)) rps" by blast
  have dC: "distinct (map fst C)" unfolding C by (rule distinct_dict_update) (use e(1) in \<open>simp add: entries_ok_def\<close>)
  have dist: "distinct (map fst (dict_update C R))" by (rule distinct_dict_update [OF dC])
  have keysR: "fst ` set R = fst ` set rps" by (simp add: R image_image)
  have keysC: "fst ` set C = fst ` set dps \<union> fst ` set sps" by (simp add: C keys_dict_update)
  have mC: "map_of C = map_of dps ++ map_of sps"
    unfolding C by (rule map_of_dict_update_distinct) (use e(2) in \<open>simp add: entries_ok_def\<close>)
  have okC: "entry_ok base sp k x" if "map_of C k = Some x" for k x
    using that e(1,2) by (auto simp: mC entries_ok_def map_add_def split: option.splits)
  have at: "map_of ps k = map_option (set_own (\<lambda>q. q\<lparr>p_name := Some k\<rparr>)) (entry_value (map_of (dict_update C R) k) (map_of base k))" for k
    unfolding ps C [symmetric] R [symmetric] map_of_renamed updated_params [OF dist] ..
  have mX: "map_of (dict_update C R) = map_of C ++ map_of R"
    by (rule map_of_dict_update_distinct) (use distinct_result_params [OF conjunct1 [OF rps]] in \<open>simp add: R\<close>)
  have mR: "map_of R k = map_option EParam (map_of rps k)" for k unfolding R by (induction rps) auto
  have inherited: "k \<in> fst ` set base" if "map_of (dict_update C R) k = Some (EValue v)" for k v
  proof -
    from that have "map_of C k = Some (EValue v)" by (auto simp: mX mR map_add_def split: option.splits)
    then show ?thesis using okC by (auto simp: entry_ok_def)
  qed
  have "dom (map_of ps) = fst ` set base \<union> fst ` set (dict_update C R)"
  proof (rule set_eqI)
    fix k
    show "k \<in> dom (map_of ps) \<longleftrightarrow> k \<in> fst ` set base \<union> fst ` set (dict_update C R)"
      using inherited [of k] unfolding dom_map_of_conv_image_fst [symmetric]
      by (cases "map_of (dict_update C R) k"; cases "map_of base k")
         (auto simp: at entry_value_def dom_def split: attribute.splits)
  qed
  then have "dom (map_of ps) = fst ` set base \<union> (fst ` set dps \<union> fst ` set sps) \<union> fst ` set rps"
    by (simp only: keys_dict_update keysC keysR Un_assoc)
  then have names: "dom (map_of ps) = fst ` set base \<union>
      ((fst ` set (decorator_kwargs deco) \<union> set (args sp)) - ({''result'', ''self''} \<union> disabled deco)) \<union>
      named (varargs sp) \<union> named (varkw sp) \<union> fst ` set rps"
    using e(3,4) by (rule same_keys)
  have default: "\<exists>p. map_of ps k = Some p \<and> p_default (own p) = Some v"
    if k: "k \<in> set (args sp) - ({''result'', ''self''} \<union> disabled deco)" "map_of (defaults sp) k = Some (ValueDefault v)" for k v
  proof -
    have "k \<in> fst ` set C" using k e(5) unfolding keysC valued_def by blast
    then obtain x where x: "map_of C k = Some x" by (metis map_of_eq_None_iff option.exhaust)
    have "k \<notin> fst ` set rps" using \<open>k \<in> fst ` set C\<close> conjunct2 [OF rps] unfolding keysC by blast
    then have X: "map_of (dict_update C R) k = Some x" by (simp add: mX mR x map_add_def map_of_eq_None_iff [THEN iffD2])
    show ?thesis
    proof (cases x)
      case (EParam p)
      then show ?thesis using okC [OF x] k(2) X by (simp add: at entry_value_def entry_ok_def)
    next
      case (EValue w)
      then obtain q where "map_of base k = Some q" using inherited X by (metis map_of_eq_None_iff option.exhaust)
      then show ?thesis using okC [OF x] k(2) X EValue by (simp add: at entry_value_def entry_ok_def)
    qed
  qed
  from rps names default show ?thesis by blast
qed

definition example_env :: "nat param_env" where
  "example_env =
     \<lparr>registry = new_registry
        [ValueType ''IntValueType'' ''int'' [] False False True True None True None,
         ValueType ''ListValueType'' ''List'' [''list''] False True True True None True None],
      types = \<lparr>type_is = \<lambda>v t. False, handles_class = \<lambda>v c. c = vt_type_str v, is_lazy_class = \<lambda>c. False\<rparr>,
      type_of = \<lambda>n. PlainType ''int'', is_type_of = \<lambda>n v. vt_type_str v = ''int'', empty_default = \<lambda>v. 0,
      custom_parameters = \<lambda>v. None,
      default_object = ValueType ''DefaultObjectValueType'' ''object'' [] False False True True None True None,
      target_value_type = ValueType ''TargetValueType'' ''Target'' [] False False True False None False None,
      list_object = PlainType ''List'', kwargs_object = PlainType ''dict''\<rparr>"

text \<open>\<open>def f(a, b=5, *rest, c=1)\<close>, decorated with \<open>@task(a=parameter[int], result="model,score")\<close>\<close>

definition example_spec :: "nat callable_spec" where
  "example_spec = build_callable_spec
     \<lparr>fs_args = [''a'', ''b''], fs_varargs = Some ''rest'', fs_varkw = None, fs_defaults = [ValueDefault 5],
      fs_kwonlyargs = [''c''], fs_kwonlydefaults = [(''c'', ValueDefault 1)], fs_annotations = [], fs_return = None\<rparr> None"

definition example_decorator :: "nat decorator" where
  "example_decorator =
     \<lparr>decorator_kwargs = [(''a'', DFactory (PARAMETER_FACTORY\<lparr>p_type := Some (OfType (PlainType ''int''))\<rparr>))],
      result_kwarg = Some (ResultText ''model, score''), task_default_result = as_output example_env PARAMETER_FACTORY\<rparr>"

theorem parameters_of_a_function_witness:
  "(case task_params example_env [] example_decorator example_spec of
      Inl e \<Rightarrow> False
    | Inr ps \<Rightarrow> dom (map_of ps) = {''a'', ''b'', ''rest'', ''result'', ''model'', ''score''} \<and>
        (\<exists>p. map_of ps ''b'' = Some p \<and> p_default (own p) = Some 5))"
proof (cases "task_params example_env [] example_decorator example_spec")
  case (Inl e)
  have "\<not> isl (task_params example_env [] example_decorator example_spec)" by code_simp
  then show ?thesis using Inl by simp
next
  case (Inr ps)
  have "distinct (map fst (decorator_kwargs example_decorator))" by code_simp
  moreover have "(named (varargs example_spec) \<union> named (varkw example_spec)) \<inter> fst ` set (defaults example_spec) = {}" by code_simp
  ultimately have "\<exists>rps. build_func_result_params example_env example_decorator example_spec = Inr rps \<and>
      dom (map_of ps) = fst ` set ([] :: nat params) \<union>
        ((fst ` set (decorator_kwargs example_decorator) \<union> set (args example_spec)) -
          ({''result'', ''self''} \<union> disabled example_decorator)) \<union>
        named (varargs example_spec) \<union> named (varkw example_spec) \<union> fst ` set rps \<and>
      (\<forall>k v. k \<in> set (args example_spec) - ({''result'', ''self''} \<union> disabled example_decorator) \<longrightarrow>
         map_of (defaults example_spec) k = Some (ValueDefault v) \<longrightarrow> (\<exists>p. map_of ps k = Some p \<and> p_default (own p) = Some v))"
    by (rule parameters_of_a_function [OF Inr])
  then obtain rps where all: "build_func_result_params example_env example_decorator example_spec = Inr rps \<and>
      dom (map_of ps) = fst ` set ([] :: nat params) \<union>
        ((fst ` set (decorator_kwargs example_decorator) \<union> set (args example_spec)) -
          ({''result'', ''self''} \<union> disabled example_decorator)) \<union>
        named (varargs example_spec) \<union> named (varkw example_spec) \<union> fst ` set rps \<and>
      (\<forall>k v. k \<in> set (args example_spec) - ({''result'', ''self''} \<union> disabled example_decorator) \<longrightarrow>
         map_of (defaults example_spec) k = Some (ValueDefault v) \<longrightarrow> (\<exists>p. map_of ps k = Some p \<and> p_default (own p) = Some v))"
    by (rule exE)
  note rps = conjunct1 [OF all] and names = conjunct1 [OF conjunct2 [OF all]] and kept = conjunct2 [OF conjunct2 [OF all]]
  have "rmap (map fst) (build_func_result_params example_env example_decorator example_spec) = Inr [''result'', ''model'', ''score'']"
    by code_simp
  then have "map fst rps = [''result'', ''model'', ''score'']" using rps by simp
  then have r: "fst ` set rps = {''result'', ''model'', ''score''}" by (metis list.set(1,2) set_map)
  have off: "disabled example_decorator = {}" by (auto simp: disabled_def example_decorator_def split: if_splits)
  have sp: "set (args example_spec) = {''a'', ''b''}" "map_of (defaults example_spec) ''b'' = Some (ValueDefault 5)"
    "named (varargs example_spec) = {''rest''}" "named (varkw example_spec) = {}" by code_simp+
  have d: "fst ` set (decorator_kwargs example_decorator) = {''a''}" by code_simp
  have "dom (map_of ps) = {''a'', ''b'', ''rest'', ''result'', ''model'', ''score''}"
    unfolding names r off sp d by auto
  moreover have "\<exists>p. map_of ps ''b'' = Some p \<and> p_default (own p) = Some 5"
    using kept sp off by simp
  ultimately show ?thesis using Inr by simp
qed

section \<open>Several results\<close>

lemma build_part_name: "build_part env f = Inr p \<Longrightarrow> (\<exists>n. p_name p = Some n \<and> n \<noteq> '''') \<and> p_kind p = TaskOutput"
  by (auto simp: build_part_def result_simps split: if_splits)

lemma parts_are_outputs:
  assumes "get_result_parameter env deco sp = Inr (Some (FuncResult q qs))"
  shows "\<forall>p \<in> set qs. (\<exists>n. p_name p = Some n \<and> n \<noteq> '''') \<and> p_kind p = TaskOutput"
proof -
  have parts: "\<forall>p \<in> set qs. (\<exists>n. p_name p = Some n \<and> n \<noteq> '''') \<and> p_kind p = TaskOutput"
    if "result_of_parts env ps ret = Inr (FuncResult q qs)" for ps ret
  proof -
    from that obtain fs where "mapM (build_part env) fs = Inr qs"
      by (auto simp: result_of_parts_def build_multiple_outputs_result_def result_simps split: sum.splits)
    then have "list_all2 (\<lambda>f p. build_part env f = Inr p) fs qs" by (simp add: mapM_Inr_iff)
    then show ?thesis by (induction rule: list_all2_induct) (auto dest: build_part_name)
  qed
  have got: "result_of_parts env ps ret = Inr (FuncResult q qs)"
    if "rmap Some (result_of_parts env ps ret) = Inr (Some (FuncResult q qs))" for ps ret
    using that by (simp add: rmap_Inr_iff)
  have single: False if "rmap (Some \<circ> Plain) x = Inr (Some (FuncResult q qs))" for x :: "'a pdef result"
    using that by (cases x) simp_all
  have "\<exists>ps ret. rmap Some (result_of_parts env ps ret) = Inr (Some (FuncResult q qs))"
  proof (cases "result_kwarg deco")
    case None
    then show ?thesis
      using assms single by (cases "guess_func_return_type env sp") (simp_all add: get_result_parameter_def, blast+)
  next
    case (Some d)
    then show ?thesis
      using assms by (cases d) (simp_all add: get_result_parameter_def Let_def, blast+)
  qed
  then have "\<exists>ps ret. result_of_parts env ps ret = Inr (FuncResult q qs)" using got by blast
  then show ?thesis using parts by blast
qed

lemma map_of_dict_update_cases: "map_of (dict_update d e) k = Some x \<Longrightarrow> map_of d k = Some x \<or> x \<in> snd ` set e"
  by (induction d e rule: dict_update.induct) (auto split: if_splits)

lemma result_params_of_parts:
  assumes "build_func_result_params env deco sp = Inr rps" "map_of rps ''result'' = Some (FuncResult q qs)"
  shows "get_result_parameter env deco sp = Inr (Some (FuncResult q qs)) \<and>
    rps = dict_update [(''result'', FuncResult q qs)] (zip (names_of qs) (map Plain qs))"
proof -
  obtain r where r: "get_result_parameter env deco sp = Inr r"
    using assms(1) by (auto simp: build_func_result_params_def result_simps)
  have rps: "rps = (case r of None \<Rightarrow> [] | Some p \<Rightarrow>
      dict_update [(''result'', p)] (case p of FuncResult _ ps \<Rightarrow> zip (names_of ps) (map Plain ps) | Plain _ \<Rightarrow> []))"
    using assms(1) by (simp add: build_func_result_params_def r)
  then obtain p where p: "r = Some p" using assms(2) by (cases r) auto
  show ?thesis
  proof (cases p)
    case (Plain b)
    then show ?thesis using assms(2) rps p by simp
  next
    case (FuncResult b ps)
    have "FuncResult q qs \<notin> snd ` set (zip (names_of ps) (map Plain ps))" by (auto dest: set_zip_rightD)
    then have "p = FuncResult q qs"
      using map_of_dict_update_cases [OF assms(2) [unfolded rps p, simplified]] FuncResult by auto
    then show ?thesis using r p rps by simp
  qed
qed

text \<open>The values that a result gives to the names: as many as there are names, or under exactly the names.\<close>

fun gives :: "string list \<Rightarrow> 'x fn_result \<Rightarrow> 'x list \<Rightarrow> bool" where
  "gives names (RSequence ys) xs = (xs = ys \<and> length ys = length names)"
| "gives names (RMapping d) xs = (distinct (map fst d) \<and> fst ` set d = set names \<and> map Some xs = map (map_of d) names)"
| "gives names _ xs = False"

lemma named_results_of:
  assumes "distinct names" "gives names r xs"
  shows "named_results names r = Inr (zip names xs) \<and> length xs = length names"
proof (cases r)
  case (RMapping d)
  then have d: "distinct (map fst d)" "fst ` set d = set names" "map Some xs = map (map_of d) names" using assms(2) by simp_all
  have len: "length xs = length names" using d(3) by (metis length_map)
  have "length d = length names"
    using d(1,2) assms(1) by (metis distinct_card length_map set_map)
  moreover have "mapM (\<lambda>n. case map_of d n of None \<Rightarrow> Inl (KeyError n) | Some x \<Rightarrow> Inr (n, x)) names = Inr (zip names xs)"
    unfolding mapM_Inr_iff
  proof (rule list_all2_all_nthI)
    fix i assume i: "i < length names"
    then have "map_of d (names ! i) = Some (xs ! i)" using d(3) len by (metis nth_map)
    then show "(case map_of d (names ! i) of None \<Rightarrow> Inl (KeyError (names ! i)) | Some x \<Rightarrow> Inr (names ! i, x)) =
        Inr (zip names xs ! i)" using i len by simp
  qed (simp add: len)
  ultimately show ?thesis using d(2) len RMapping by (simp add: named_results_def)
qed (use assms(2) in \<open>auto simp: named_results_def\<close>)



section \<open>Behaviour at the edges\<close>

text \<open>
  A part that is called \<open>result\<close> takes the place of the combination, so the whole tuple is stored as that part
  and the other outputs are never written.
\<close>

lemma part_called_result_hides_the_others:
  assumes "get_result_parameter env deco sp = Inr (Some (FuncResult q qs))" "distinct (names_of qs)" "''result'' \<in> set (names_of qs)"
  shows "\<exists>rps p. build_func_result_params env deco sp = Inr rps \<and> map_of rps ''result'' = Some (Plain p) \<and>
    assign_result truthy (map_of rps ''result'') r [] = Inr [(''result'', r)]"
proof -
  obtain i where i: "i < length qs" "names_of qs ! i = ''result''" using assms(3) by (auto simp: in_set_conv_nth names_of_def)
  have len: "length (names_of qs) = length qs" by (simp add: names_of_def)
  have "map_of (zip (names_of qs) (map Plain qs)) ''result'' = Some (Plain (qs ! i))"
    using map_of_zip_nth [of "names_of qs" "map Plain qs" i] assms(2) i len by simp
  then have "map_of (dict_update [(''result'', FuncResult q qs)] (zip (names_of qs) (map Plain qs))) ''result'' = Some (Plain (qs ! i))"
    using assms(2) len by (simp add: map_of_dict_update_distinct)
  moreover have "build_func_result_params env deco sp = Inr (dict_update [(''result'', FuncResult q qs)] (zip (names_of qs) (map Plain qs)))"
    using assms(1) by (simp add: build_func_result_params_def)
  ultimately show ?thesis by (simp add: assign_result_def)
qed

text \<open>A return annotation that is a type variable counts as \<open>None\<close>: the task has no result, and a value cannot be returned.\<close>

lemma type_variable_is_no_result:
  assumes "return_annotation sp = Some (TypeHint TypeVar)" "result_kwarg deco = None" "truthy r"
  shows "build_func_result_params env deco sp = Inr []"
    "isl (assign_result truthy None r [])"
proof -
  have "type_of_type env True TypeVar = None"
    by (simp add: type_of_type_def get_value_type_of_type.simps unwrap_union_def find_handler_def)
  then show "build_func_result_params env deco sp = Inr []"
    using assms(1,2) by (simp add: build_func_result_params_def get_result_parameter_def guess_func_return_type_def)
  show "isl (assign_result truthy None r [])" using assms(3) by (simp add: assign_result_def)
qed

text \<open>A parameter for data without a type is built without one: the type of targets is set on the definition that is left behind.\<close>

lemma data_parameter_has_no_type:
  "build_definition env (PARAMETER_FACTORY\<lparr>p_load_on_build := Some False\<rparr>) = Inr (PARAMETER_FACTORY\<lparr>p_load_on_build := Some False\<rparr>)"
  by (simp add: build_definition_def build_value_type_def PARAMETER_FACTORY_def)

end
