(* ===== verification/Structures.thy ===== *)
theory Structures
  imports Prelude
begin

text \<open>
  Structured values: dictionaries, lists, tuples and sets of values, as parameters, inputs and outputs of a
  task hold them, and the two walks of \<open>dbnd/_core/utils/traversing.py\<close>: \<open>flatten\<close>, which lists the
  items, and \<open>traverse\<close>, which rebuilds the structure from converted items.
\<close>

section \<open>Values\<close>

text \<open>
  \<open>PAtom\<close> is an object that cannot be iterated, \<open>PIter\<close> one that can and is no list, tuple or set; its
  flag is the attribute \<open>target_no_traverse\<close>. \<open>PFrame\<close> is a data frame, whose iteration gives its
  columns. A set is the list of its elements in the order of iteration.
\<close>

datatype seq_kind = ListK | TupleK | SetK

datatype 'a pv =
    PNone
  | PStr string
  | PAtom 'a
  | PIter bool 'a "'a pv list"
  | PFrame 'a "'a pv list"
  | PDict "(string \<times> 'a pv) list"
  | PSeq seq_kind "'a pv list"

fun hashable :: "'a pv \<Rightarrow> bool" where
  "hashable (PFrame a cols) = False"
| "hashable (PDict kvs) = False"
| "hashable (PSeq k xs) = (k = TupleK \<and> list_all hashable xs)"
| "hashable v = True"

section \<open>Listing the items\<close>

fun flatten :: "'a pv \<Rightarrow> 'a pv list" where
  "flatten PNone = []"
| "flatten (PStr s) = [PStr s]"
| "flatten (PAtom a) = [PAtom a]"
| "flatten (PIter no_traverse a xs) = (if no_traverse then [PIter no_traverse a xs] else concat (map flatten xs))"
| "flatten (PFrame a cols) = concat (map flatten cols)"
| "flatten (PDict kvs) = concat (map (\<lambda>kv. flatten (snd kv)) kvs)"
| "flatten (PSeq k xs) = concat (map flatten xs)"

section \<open>Rebuilding\<close>

record 'a trav_opts =
  filter_none :: bool
  filter_empty :: bool
  convert_types :: "'a pv \<Rightarrow> bool"

definition default_opts :: "'a trav_opts" where
  "default_opts = \<lparr>filter_none = False, filter_empty = False, convert_types = (\<lambda>_. False)\<rparr>"

text \<open>A constructor of lists, tuples or sets; equal elements of a set are one.\<close>

definition list_constructor :: "seq_kind \<Rightarrow> 'a pv list \<Rightarrow> 'a pv" where
  "list_constructor k xs = PSeq k (if k = SetK then remdups xs else xs)"

definition empty_to_none :: "'a trav_opts \<Rightarrow> bool \<Rightarrow> 'b pv \<Rightarrow> 'b pv" where
  "empty_to_none opts nothing_left new_obj = (if filter_empty opts \<and> nothing_left then PNone else new_obj)"

text \<open>
  The test \<open>target_no_traverse is bool and \<dots>\<close> compares the value of the attribute with the class
  \<open>bool\<close> and is false for every object, so an object with the attribute is iterated like any other.
\<close>

fun traverse :: "'a trav_opts \<Rightarrow> ('a pv \<Rightarrow> 'b pv result) \<Rightarrow> 'a pv \<Rightarrow> 'b pv result"
  and traverse_items :: "'a trav_opts \<Rightarrow> ('a pv \<Rightarrow> 'b pv result) \<Rightarrow> (string \<times> 'a pv) list \<Rightarrow> (string \<times> 'b pv) list result"
  and traverse_elements :: "'a trav_opts \<Rightarrow> ('a pv \<Rightarrow> 'b pv result) \<Rightarrow> bool \<Rightarrow> 'a pv list \<Rightarrow> 'b pv list result" where
  "traverse opts f PNone = f PNone"
| "traverse opts f (PStr s) = f (PStr s)"
| "traverse opts f (PAtom a) = f (PAtom a)"
| "traverse opts f (PFrame a cols) = f (PFrame a cols)"
| "traverse opts f (PDict kvs) =
     (if convert_types opts (PDict kvs) then f (PDict kvs)
      else rmap (\<lambda>new. empty_to_none opts (new = []) (PDict new)) (traverse_items opts f kvs))"
| "traverse opts f (PIter no_traverse a xs) =
     (if convert_types opts (PIter no_traverse a xs) then f (PIter no_traverse a xs)
      else rmap (\<lambda>new. empty_to_none opts (new = []) (list_constructor ListK new)) (traverse_elements opts f False xs))"
| "traverse opts f (PSeq k xs) =
     (if convert_types opts (PSeq k xs) then f (PSeq k xs)
      else rmap (\<lambda>new. empty_to_none opts (new = []) (list_constructor k new)) (traverse_elements opts f (k = SetK) xs))"
| "traverse_items opts f [] = Inr []"
| "traverse_items opts f (kv # kvs) =
     rbind (traverse opts f (snd kv)) (\<lambda>v.
       if filter_none opts \<and> v = PNone then traverse_items opts f kvs
       else rmap (Cons (fst kv, v)) (traverse_items opts f kvs))"
| "traverse_elements opts f hashed [] = Inr []"
| "traverse_elements opts f hashed (x # xs) =
     rbind (traverse opts f x) (\<lambda>y.
       if filter_none opts \<and> y = PNone then traverse_elements opts f hashed xs
       else if hashed \<and> \<not> hashable y then Inl (TypeError ''unhashable type'')
       else rmap (Cons y) (traverse_elements opts f hashed xs))"

text \<open>The items that a walk converts, in the order of the conversions.\<close>

fun converted :: "'a trav_opts \<Rightarrow> 'a pv \<Rightarrow> 'a pv list" where
  "converted opts (PDict kvs) =
     (if convert_types opts (PDict kvs) then [PDict kvs] else concat (map (\<lambda>kv. converted opts (snd kv)) kvs))"
| "converted opts (PIter no_traverse a xs) =
     (if convert_types opts (PIter no_traverse a xs) then [PIter no_traverse a xs] else concat (map (converted opts) xs))"
| "converted opts (PSeq k xs) =
     (if convert_types opts (PSeq k xs) then [PSeq k xs] else concat (map (converted opts) xs))"
| "converted opts v = [v]"

text \<open>The attribute changes nothing, although \<open>flatten\<close> stops at it.\<close>

lemma no_traverse_is_ignored:
  assumes "\<And>b. \<not> convert_types opts (PIter b a xs)"
  shows "traverse opts f (PIter True a xs) = traverse opts f (PIter False a xs)"
    and "flatten (PIter True a xs) = [PIter True a xs]"
  using assms by simp_all

section \<open>What a walk keeps\<close>

lemma flatten_list_constructor [simp]: "set (flatten (list_constructor k xs)) = (\<Union>x \<in> set xs. set (flatten x))"
  by (auto simp: list_constructor_def)

lemma flatten_empty_to_none [simp]:
  "flatten (empty_to_none opts (new = []) (PDict new)) = flatten (PDict new)"
  "flatten (empty_to_none opts (xs = []) (list_constructor k xs)) = flatten (list_constructor k xs)"
  by (auto simp: empty_to_none_def list_constructor_def)

definition items_from :: "('a pv \<Rightarrow> 'b pv result) \<Rightarrow> 'a pv list \<Rightarrow> 'b pv set" where
  "items_from f xs = (\<Union>x \<in> set xs. case f x of Inl e \<Rightarrow> {} | Inr y \<Rightarrow> set (flatten y))"

lemma items_from_append [simp]: "items_from f (xs @ ys) = items_from f xs \<union> items_from f ys"
  by (auto simp: items_from_def)

lemma items_from_simps [simp]:
  "items_from f [] = {}" "f x = Inr y \<Longrightarrow> items_from f [x] = set (flatten y)"
  by (auto simp: items_from_def)

lemma traverse_flatten:
  shows "traverse opts f v = Inr w \<Longrightarrow> set (flatten w) = items_from f (converted opts v)"
    and "traverse_items opts f kvs = Inr kws \<Longrightarrow>
      set (concat (map (\<lambda>kw. flatten (snd kw)) kws)) = items_from f (concat (map (\<lambda>kv. converted opts (snd kv)) kvs))"
    and "traverse_elements opts f hashed xs = Inr ys \<Longrightarrow>
      set (concat (map flatten ys)) = items_from f (concat (map (converted opts) xs))"
proof (induction opts f v and opts f kvs and opts f hashed xs arbitrary: w and kws and ys
    rule: traverse_traverse_items_traverse_elements.induct)
  case (9 opts f kv kvs)
  obtain v where v: "traverse opts f (snd kv) = Inr v" using "9.prems" by (auto simp: result_simps)
  show ?case
  proof (cases "filter_none opts \<and> v = PNone")
    case True
    then have "traverse_items opts f kvs = Inr kws" using "9.prems" v by simp
    then show ?thesis using "9.IH"(1) [OF v] "9.IH"(2) [OF True] True by simp
  next
    case False
    then obtain r where r: "traverse_items opts f kvs = Inr r" "kws = (fst kv, v) # r"
      using "9.prems" v by (auto simp: rmap_Inr_iff)
    then show ?thesis using "9.IH"(1) [OF v] "9.IH"(3) [OF False r(1)] by simp
  qed
next
  case (11 opts f hashed x xs)
  obtain y where y: "traverse opts f x = Inr y" using "11.prems" by (auto simp: result_simps)
  show ?case
  proof (cases "filter_none opts \<and> y = PNone")
    case True
    then have "traverse_elements opts f hashed xs = Inr ys" using "11.prems" y by simp
    then show ?thesis using "11.IH"(1) [OF y] "11.IH"(2) [OF True] True by simp
  next
    case False
    then have h: "\<not> (hashed \<and> \<not> hashable y)" using "11.prems" y by (auto split: if_splits)
    then obtain r where r: "traverse_elements opts f hashed xs = Inr r" "ys = y # r"
      using "11.prems" y False by (auto simp: rmap_Inr_iff)
    then show ?thesis using "11.IH"(1) [OF y] "11.IH"(3) [OF False h r(1)] by simp
  qed
qed (auto simp: rmap_Inr_iff split: if_splits)

lemma traverse_converts_all:
  shows "traverse opts f v = Inr w \<Longrightarrow> list_all (\<lambda>x. \<not> isl (f x)) (converted opts v)"
    and "traverse_items opts f kvs = Inr kws \<Longrightarrow>
      list_all (\<lambda>x. \<not> isl (f x)) (concat (map (\<lambda>kv. converted opts (snd kv)) kvs))"
    and "traverse_elements opts f hashed xs = Inr ys \<Longrightarrow>
      list_all (\<lambda>x. \<not> isl (f x)) (concat (map (converted opts) xs))"
proof (induction opts f v and opts f kvs and opts f hashed xs arbitrary: w and kws and ys
    rule: traverse_traverse_items_traverse_elements.induct)
  case (9 opts f kv kvs)
  obtain v where v: "traverse opts f (snd kv) = Inr v" using "9.prems" by (auto simp: result_simps)
  obtain r where "traverse_items opts f kvs = Inr r"
    using "9.prems" v by (auto simp: rmap_Inr_iff split: if_splits)
  then show ?case using "9.IH"(1) [OF v] "9.IH"(2,3) [of v r] by auto
next
  case (11 opts f hashed x xs)
  obtain y where y: "traverse opts f x = Inr y" using "11.prems" by (auto simp: result_simps)
  obtain r where r: "traverse_elements opts f hashed xs = Inr r"
    and h: "(filter_none opts \<and> y = PNone) \<or> \<not> (hashed \<and> \<not> hashable y)"
    using "11.prems" y by (auto simp: rmap_Inr_iff split: if_splits)
  then show ?case using "11.IH"(1) [OF y] "11.IH"(2) [of y r] "11.IH"(3) [of y r] by auto
qed (auto simp: rmap_Inr_iff split: if_splits)

text \<open>Without types to convert only items are converted that have no parts.\<close>

fun simple :: "'a pv \<Rightarrow> bool" where
  "simple (PDict kvs) = False"
| "simple (PSeq k xs) = False"
| "simple (PIter no_traverse a xs) = False"
| "simple v = True"

lemma converted_simple:
  assumes "convert_types opts = (\<lambda>_. False)" shows "x \<in> set (converted opts v) \<Longrightarrow> simple x"
  using assms by (induction opts v rule: converted.induct) (auto split: if_splits)

text \<open>With both filters nothing empty is left inside.\<close>

fun solid :: "'a pv \<Rightarrow> bool" where
  "solid PNone = False"
| "solid (PDict kvs) = (kvs \<noteq> [] \<and> list_all (\<lambda>kv. solid (snd kv)) kvs)"
| "solid (PSeq k xs) = (xs \<noteq> [] \<and> list_all solid xs)"
| "solid v = True"

lemma list_all_remdups [simp]: "list_all P (remdups xs) = list_all P xs"
  by (simp add: list_all_iff)

definition solid_results :: "('a pv \<Rightarrow> 'b pv result) \<Rightarrow> bool" where
  "solid_results f = (\<forall>x y. f x = Inr y \<longrightarrow> y = PNone \<or> solid y)"

lemma solid_resultsD: "solid_results f \<Longrightarrow> f x = Inr y \<Longrightarrow> y \<noteq> PNone \<Longrightarrow> solid y"
  by (auto simp: solid_results_def)

lemma traverse_solid:
  shows "traverse opts f v = Inr w \<Longrightarrow> filter_none opts \<Longrightarrow> filter_empty opts \<Longrightarrow>
      solid_results f \<Longrightarrow> w = PNone \<or> solid w"
    and "traverse_items opts f kvs = Inr kws \<Longrightarrow> filter_none opts \<Longrightarrow> filter_empty opts \<Longrightarrow>
      solid_results f \<Longrightarrow> list_all (\<lambda>kw. solid (snd kw)) kws"
    and "traverse_elements opts f hashed xs = Inr ys \<Longrightarrow> filter_none opts \<Longrightarrow> filter_empty opts \<Longrightarrow>
      solid_results f \<Longrightarrow> list_all solid ys"
proof (induction opts f v and opts f kvs and opts f hashed xs arbitrary: w and kws and ys
    rule: traverse_traverse_items_traverse_elements.induct)
qed (auto simp: result_simps list_constructor_def empty_to_none_def dest: solid_resultsD split: if_splits)

text \<open>A walk without a failing conversion fails only where a set gets an element that cannot be hashed.\<close>

fun set_free :: "'a pv \<Rightarrow> bool" where
  "set_free (PDict kvs) = list_all (\<lambda>kv. set_free (snd kv)) kvs"
| "set_free (PSeq k xs) = (k \<noteq> SetK \<and> list_all set_free xs)"
| "set_free (PIter no_traverse a xs) = list_all set_free xs"
| "set_free v = True"

lemma traverse_total:
  shows "set_free v \<Longrightarrow> (\<forall>x. \<exists>y. f x = Inr y) \<Longrightarrow> \<exists>w. traverse opts f v = Inr w"
    and "list_all (\<lambda>kv. set_free (snd kv)) kvs \<Longrightarrow> (\<forall>x. \<exists>y. f x = Inr y) \<Longrightarrow>
      \<exists>kws. traverse_items opts f kvs = Inr kws"
    and "list_all set_free xs \<Longrightarrow> \<not> hashed \<Longrightarrow> (\<forall>x. \<exists>y. f x = Inr y) \<Longrightarrow>
      \<exists>ys. traverse_elements opts f hashed xs = Inr ys"
proof (induction opts f v and opts f kvs and opts f hashed xs
    rule: traverse_traverse_items_traverse_elements.induct)
qed (fastforce simp: result_simps split: if_splits)+

section \<open>Flat dictionaries\<close>

text \<open>\<open>flatten_dict\<close>: the keys of a nested dictionary become one key with dots; \<open>text_of\<close> is \<open>json.dumps\<close>.\<close>

fun flatten_into :: "('a pv \<Rightarrow> string) \<Rightarrow> string \<Rightarrow> 'a pv \<Rightarrow> (string \<times> 'a pv) list \<Rightarrow> (string \<times> 'a pv) list" where
  "flatten_into text_of name (PDict kvs) out = fold (\<lambda>(k, v). flatten_into text_of (name @ k @ ''.'') v) kvs out"
| "flatten_into text_of name (PSeq k xs) out =
     dict_set out (butlast name) (if k = ListK then PStr (text_of (PSeq k xs)) else PSeq k xs)"
| "flatten_into text_of name v out = dict_set out (butlast name) v"

definition flatten_dict :: "('a pv \<Rightarrow> string) \<Rightarrow> 'a pv \<Rightarrow> (string \<times> 'a pv) list" where
  "flatten_dict text_of v = flatten_into text_of '''' v []"

text \<open>Two paths with the same dotted name are one column, and the later one wins.\<close>

lemma flatten_dict_collides:
  "flatten_dict text_of (PDict [(''a.b'', PStr ''1''), (''a'', PDict [(''b'', PStr ''2'')])]) = [(''a.b'', PStr ''2'')]"
  by (simp add: flatten_dict_def)

end
