(* ===== verification/Signature.thy ===== *)
theory Signature
  imports Structures "HOL-Library.List_Lexorder" "HOL-Library.Char_ord" "HOL-Library.Multiset"
begin

text \<open>
  Signatures of tasks (\<open>dbnd/_core/task_build/task_signature.py\<close>) over the canonical JSON of
  \<open>dbnd/_core/utils/json_utils.py\<close>: two tasks with one name are one task when their signatures agree.
  The digest \<open>hashlib.md5\<close> is a parameter; the theorems are about the text that it is applied to.
\<close>

section \<open>Canonical JSON\<close>

definition hex_digit :: "nat \<Rightarrow> char" where
  "hex_digit n = ''0123456789abcdef'' ! n"

text \<open>The writer of the library with \<open>ensure_ascii\<close>; characters are those below 256.\<close>

definition json_char :: "char \<Rightarrow> string" where
  "json_char c =
     (let n = of_char c :: nat
      in if n = 34 then [CHR 92, CHR 34]
         else if n = 92 then [CHR 92, CHR 92]
         else if n = 10 then [CHR 92, CHR ''n'']
         else if n = 13 then [CHR 92, CHR ''r'']
         else if n = 9 then [CHR 92, CHR ''t'']
         else if n = 12 then [CHR 92, CHR ''f'']
         else if n = 8 then [CHR 92, CHR ''b'']
         else if n < 32 \<or> 126 < n
         then [CHR 92, CHR ''u'', CHR ''0'', CHR ''0'', hex_digit (n div 16), hex_digit (n mod 16)]
         else [c])"

definition json_string :: "string \<Rightarrow> string" where
  "json_string s = CHR 34 # concat (map json_char s) @ [CHR 34]"

text \<open>\<open>sort_keys\<close>: every dictionary is sorted by its keys before anything is written.\<close>

fun sort_dicts :: "'a pv \<Rightarrow> 'a pv" where
  "sort_dicts (PDict kvs) = PDict (sort_key fst (map (\<lambda>kv. (fst kv, sort_dicts (snd kv))) kvs))"
| "sort_dicts (PSeq k xs) = PSeq k (map sort_dicts xs)"
| "sort_dicts v = v"

text \<open>\<open>json_default\<close> writes the objects that are no JSON; a set is no object that it knows.\<close>

fun json_dumps :: "('a \<Rightarrow> string result) \<Rightarrow> 'a pv \<Rightarrow> string result" where
  "json_dumps json_default PNone = Inr ''null''"
| "json_dumps json_default (PStr s) = Inr (json_string s)"
| "json_dumps json_default (PAtom a) = json_default a"
| "json_dumps json_default (PIter no_traverse a xs) = json_default a"
| "json_dumps json_default (PFrame a cols) = json_default a"
| "json_dumps json_default (PDict kvs) =
     rmap (\<lambda>ts. ''{'' @ join_str '','' ts @ ''}'')
       (mapM (\<lambda>kv. rmap (\<lambda>t. json_string (fst kv) @ '':'' @ t) (json_dumps json_default (snd kv))) kvs)"
| "json_dumps json_default (PSeq k xs) =
     (if k = SetK then Inl (TypeError ''set is not JSON serializable'')
      else rmap (\<lambda>ts. ''['' @ join_str '','' ts @ '']'') (mapM (json_dumps json_default) xs))"

definition dumps_canonical :: "('a \<Rightarrow> string result) \<Rightarrow> 'a pv \<Rightarrow> string result" where
  "dumps_canonical json_default v = json_dumps json_default (sort_dicts v)"

section \<open>Signatures\<close>

definition sorted_by_text :: "('a pv \<Rightarrow> string result) \<Rightarrow> 'a pv list \<Rightarrow> 'a pv list result" where
  "sorted_by_text key xs = rmap (\<lambda>ks. map snd (sort_key fst (zip ks xs))) (mapM key xs)"

fun is_set_value :: "'a pv \<Rightarrow> bool" where
  "is_set_value (PSeq k xs) = (k = SetK)"
| "is_set_value v = False"

fun frozen_set :: "('a \<Rightarrow> string result) \<Rightarrow> 'a pv \<Rightarrow> 'a pv result" where
  "frozen_set json_default (PSeq k xs) =
     (if k = SetK then rmap (PSeq ListK) (sorted_by_text (dumps_canonical json_default) xs) else Inr (PSeq k xs))"
| "frozen_set json_default v = Inr v"

definition traverse_frozen_set :: "('a \<Rightarrow> string result) \<Rightarrow> 'a pv \<Rightarrow> 'a pv result" where
  "traverse_frozen_set json_default = traverse (default_opts\<lparr>convert_types := is_set_value\<rparr>) (frozen_set json_default)"

record signature =
  signature_name :: string
  signature :: string
  signature_source :: string

definition user_friendly_signature :: "(string \<Rightarrow> string) \<Rightarrow> string \<Rightarrow> string" where
  "user_friendly_signature md5 str_value = take 10 (md5 str_value)"

definition signature_dict :: "string \<Rightarrow> (string \<times> 'a pv) list \<Rightarrow> (string \<times> 'a pv) list \<Rightarrow> 'a pv" where
  "signature_dict name params extra =
     PDict ([(''name'', PStr name), (''params'', PDict (dict_update [] params))] @
       (if extra = [] then [] else [(''extra'', PDict extra)]))"

definition build_signature ::
  "(string \<Rightarrow> string) \<Rightarrow> ('a \<Rightarrow> string result) \<Rightarrow> string \<Rightarrow> (string \<times> 'a pv) list \<Rightarrow> (string \<times> 'a pv) list \<Rightarrow> signature result"
where
  "build_signature md5 json_default name params extra =
     rbind (traverse_frozen_set json_default (signature_dict name params extra)) (\<lambda>d.
       rmap (\<lambda>t. \<lparr>signature_name = name, signature = user_friendly_signature md5 t, signature_source = t\<rparr>)
         (dumps_canonical json_default d))"

definition build_signature_from_values ::
  "(string \<Rightarrow> string) \<Rightarrow> ('a pv \<Rightarrow> string) \<Rightarrow> string \<Rightarrow> 'a pv \<Rightarrow> signature" where
  "build_signature_from_values md5 str name struct =
     (let source = join_str ''|'' (sort (remdups (map str (flatten struct))))
      in \<lparr>signature_name = name, signature = md5 source, signature_source = source\<rparr>)"

definition valid_id_char :: "char \<Rightarrow> char" where
  "valid_id_char c =
     (if c \<in> set ''ABCDEFGHIJKLMNOPQRSTUVWXYZabcdefghijklmnopqrstuvwxyz0123456789_.'' then c else CHR ''_'')"

definition task_params_short :: "(string \<times> string) list \<Rightarrow> string" where
  "task_params_short params =
     map valid_id_char (join_str ''_'' (map (\<lambda>p. take 16 (the (map_of params p))) (take 3 (sort (map fst params)))))"

section \<open>Reading canonical JSON back\<close>

text \<open>The character that an escape stands for, with the text behind it.\<close>

definition hex_val :: "char \<Rightarrow> nat" where
  "hex_val d = length (takeWhile (\<lambda>x. x \<noteq> d) ''0123456789abcdef'')"

definition json_unchar :: "string \<Rightarrow> char \<times> string" where
  "json_unchar t =
     (if hd t \<noteq> CHR 92 then (hd t, tl t)
      else let e = t ! 1; rest = drop 2 t
           in if e = CHR 34 \<or> e = CHR 92 then (e, rest)
              else if e = CHR ''n'' then (CHR 10, rest)
              else if e = CHR ''r'' then (CHR 13, rest)
              else if e = CHR ''t'' then (CHR 9, rest)
              else if e = CHR ''f'' then (CHR 12, rest)
              else if e = CHR ''b'' then (CHR 8, rest)
              else (char_of (16 * hex_val (rest ! 2) + hex_val (rest ! 3)), drop 4 rest))"

lemma hex_val_digit: "m < 16 \<Longrightarrow> hex_val (hex_digit m) = m"
proof -
  have "\<forall>m \<in> set [0..<16]. hex_val (hex_digit m) = m" by code_simp
  then show "m < 16 \<Longrightarrow> hex_val (hex_digit m) = m" by auto
qed

lemma char_of_code: "of_char c = (n::nat) \<Longrightarrow> c = char_of n"
  by auto

lemma special_chars:
  "json_char (CHR 34) = [CHR 92, CHR 34]" "json_char (CHR 92) = [CHR 92, CHR 92]" "json_char (CHR 10) = [CHR 92, CHR ''n'']"
  "json_char (CHR 13) = [CHR 92, CHR ''r'']" "json_char (CHR 9) = [CHR 92, CHR ''t'']"
  "json_char (CHR 12) = [CHR 92, CHR ''f'']" "json_char (CHR 8) = [CHR 92, CHR ''b'']"
  by code_simp+

lemma special_codes:
  "char_of (34::nat) = CHR 34" "char_of (92::nat) = CHR 92" "char_of (10::nat) = CHR 10" "char_of (13::nat) = CHR 13"
  "char_of (9::nat) = CHR 9" "char_of (12::nat) = CHR 12" "char_of (8::nat) = CHR 8"
  by code_simp+

lemma code_of_backslash: "(of_char (CHR 92) :: nat) = 92"
  by code_simp

lemma json_unchar_char: "json_unchar (json_char c @ r) = (c, r)"
proof -
  obtain n :: nat where n: "of_char c = n" by blast
  have c: "char_of n = c" and lt: "n < 256" by (simp_all add: n [symmetric])
  consider (special) "c \<in> {CHR 34, CHR 92, CHR 10, CHR 13, CHR 9, CHR 12, CHR 8}"
    | (other) "n \<notin> {34, 92, 10, 13, 9, 12, 8}"
    using special_codes c by blast
  then show ?thesis
  proof cases
    case special
    then show ?thesis
      by (elim insertE emptyE; simp only: special_chars) (simp_all add: json_unchar_def)
  next
    case other
    show ?thesis
    proof (cases "n < 32 \<or> 126 < n")
      case True
      have "n div 16 < 16" using lt by simp
      then have hex: "16 * hex_val (hex_digit (n div 16)) + hex_val (hex_digit (n mod 16)) = n"
        by (simp add: hex_val_digit)
      have "json_char c = [CHR 92, CHR ''u'', CHR ''0'', CHR ''0'', hex_digit (n div 16), hex_digit (n mod 16)]"
        using other True by (simp add: json_char_def n)
      then have "json_unchar (json_char c @ r) = (char_of n, r)"
        unfolding json_unchar_def by (simp add: hex)
      then show ?thesis using c by simp
    next
      case False
      then have "json_char c = [c]" using other by (simp add: json_char_def n)
      moreover have "c \<noteq> CHR 92" using other n by (metis (no_types) code_of_backslash insert_iff)
      ultimately show ?thesis by (simp add: json_unchar_def)
    qed
  qed
qed

lemma json_char_prefix_free:
  assumes "json_char c @ r = json_char d @ q" shows "c = d \<and> r = q"
  using json_unchar_char [of c r] json_unchar_char [of d q] unfolding assms by (metis prod.inject)

lemma json_char_no_quote: "\<exists>x xs. json_char c = x # xs \<and> x \<noteq> CHR 34"
proof (cases "(of_char c :: nat) = 34")
  case False
  then have "c \<noteq> CHR 34" by auto
  then show ?thesis using False by (simp add: json_char_def Let_def)
qed (simp add: json_char_def Let_def)

lemma json_string_prefix_free:
  assumes "json_string s @ r = json_string t @ q" shows "s = t \<and> r = q"
proof -
  have "concat (map json_char s) @ CHR 34 # r = concat (map json_char t) @ CHR 34 # q \<Longrightarrow> s = t \<and> r = q"
  proof (induction s arbitrary: t)
    case Nil
    show ?case
    proof (cases t)
      case (Cons d t')
      then show ?thesis using Nil json_char_no_quote [of d] by auto
    qed (use Nil in simp)
  next
    case (Cons c s)
    show ?case
    proof (cases t)
      case Nil
      then show ?thesis using Cons.prems json_char_no_quote [of c] by auto
    next
      case (Cons d t')
      have "json_char c @ concat (map json_char s) @ CHR 34 # r = json_char d @ concat (map json_char t') @ CHR 34 # q"
        using Cons.prems Cons by simp
      then show ?thesis using json_char_prefix_free Cons.IH [of t'] Cons by blast
    qed
  qed
  then show ?thesis using assms by (simp add: json_string_def)
qed

section \<open>The text determines the value\<close>

lemma join_Cons: "join_str sep (x # xs) = x @ (if xs = [] then [] else sep @ join_str sep xs)"
  by (cases xs) simp_all

text \<open>
  Items \<open>x\<close> written as \<open>d x\<close> and separated by commas can be read back up to \<open>e\<close> when each of them can and
  none begins with the character that closes the list.
\<close>

lemma join_prefix_free:
  assumes "\<And>x y r q. x \<in> set xs \<Longrightarrow> y \<in> set ys \<Longrightarrow> d x @ r = d y @ q \<Longrightarrow> e x = e y \<and> r = q"
    and "\<And>x. x \<in> set xs \<union> set ys \<Longrightarrow> \<exists>z zs. d x = z # zs \<and> z \<noteq> close"
    and "close \<noteq> CHR '',''"
    and "join_str '','' (map d xs) @ close # r = join_str '','' (map d ys) @ close # q"
  shows "map e xs = map e ys \<and> r = q"
  using assms(1,2,4)
proof (induction xs arbitrary: ys)
  case Nil
  show ?case
  proof (cases ys)
    case (Cons y ys')
    have "hd (join_str '','' (map d ys) @ close # q) \<noteq> close"
      using Nil.prems(2) [of y] Cons by (auto simp: join_Cons)
    moreover have "hd (join_str '','' (map d ys) @ close # q) = close"
      using Nil.prems(3) by (metis append_Nil join_str.simps(1) list.sel(1) list.simps(8))
    ultimately show ?thesis by blast
  qed (use Nil in simp)
next
  case (Cons x xs)
  show ?case
  proof (cases ys)
    case Nil
    have "hd (join_str '','' (map d (x # xs)) @ close # r) \<noteq> close"
      using Cons.prems(2) [of x] by (auto simp: join_Cons)
    moreover have "hd (join_str '','' (map d (x # xs)) @ close # r) = close"
      unfolding Cons.prems(3) Nil by simp
    ultimately show ?thesis by blast
  next
    case (Cons y ys')
    let ?rest = "\<lambda>xs r. if xs = [] then close # r else CHR '','' # join_str '','' (map d xs) @ close # r"
    have "d x @ ?rest xs r = d y @ ?rest ys' q"
      using Cons.prems(3) by (simp add: Cons join_Cons split: if_splits)
    with Cons.prems(1) [of x y "?rest xs r" "?rest ys' q"]
    have e: "e x = e y" and rest: "?rest xs r = ?rest ys' q"
      unfolding Cons by simp_all
    have "xs = [] \<longleftrightarrow> ys' = []" using rest assms(3) by (auto split: if_splits)
    then have "(xs = [] \<and> ys' = [] \<and> r = q) \<or>
        join_str '','' (map d xs) @ close # r = join_str '','' (map d ys') @ close # q"
      using rest by (auto split: if_splits)
    moreover have "map e xs = map e ys' \<and> r = q"
      if "join_str '','' (map d xs) @ close # r = join_str '','' (map d ys') @ close # q"
    proof (rule Cons.IH [OF _ _ that])
      fix x' y' r' q' assume "x' \<in> set xs" "y' \<in> set ys'" "d x' @ r' = d y' @ q'"
      then show "e x' = e y' \<and> r' = q'" using Cons.prems(1) [of x' y' r' q'] Cons by simp
    next
      fix x' assume "x' \<in> set xs \<union> set ys'"
      then show "\<exists>z zs. d x' = z # zs \<and> z \<noteq> close" using Cons.prems(2) [of x'] Cons by auto
    qed
    ultimately have "map e xs = map e ys' \<and> r = q" by auto
    then show ?thesis using e by (simp add: Cons)
  qed
qed

text \<open>The values that serialised parameters are made of, and what JSON keeps of them.\<close>

fun texts_only :: "'a pv \<Rightarrow> bool" where
  "texts_only (PDict kvs) = list_all (\<lambda>kv. texts_only (snd kv)) kvs"
| "texts_only (PSeq k xs) = (k \<noteq> SetK \<and> list_all texts_only xs)"
| "texts_only (PAtom a) = False"
| "texts_only (PIter no_traverse a xs) = False"
| "texts_only (PFrame a cols) = False"
| "texts_only v = True"

fun tuples_as_lists :: "'a pv \<Rightarrow> 'a pv" where
  "tuples_as_lists (PDict kvs) = PDict (map (\<lambda>kv. (fst kv, tuples_as_lists (snd kv))) kvs)"
| "tuples_as_lists (PSeq k xs) = PSeq (if k = TupleK then ListK else k) (map tuples_as_lists xs)"
| "tuples_as_lists v = v"

definition canonical :: "'a pv \<Rightarrow> 'a pv" where
  "canonical v = tuples_as_lists (sort_dicts v)"

fun json_text :: "'a pv \<Rightarrow> string" where
  "json_text (PStr s) = json_string s"
| "json_text (PDict kvs) = ''{'' @ join_str '','' (map (\<lambda>kv. json_string (fst kv) @ '':'' @ json_text (snd kv)) kvs) @ ''}''"
| "json_text (PSeq k xs) = ''['' @ join_str '','' (map json_text xs) @ '']''"
| "json_text v = ''null''"

lemma json_dumps_text: "texts_only v \<Longrightarrow> json_dumps json_default v = Inr (json_text v)"
proof (induction v)
  case (PDict kvs)
  have "mapM (\<lambda>kv. rmap (\<lambda>t. json_string (fst kv) @ '':'' @ t) (json_dumps json_default (snd kv))) kvs =
      Inr (map (\<lambda>kv. json_string (fst kv) @ '':'' @ json_text (snd kv)) kvs)"
    using PDict by (intro mapM_total) (auto simp: list_all_iff)
  then show ?case by simp
next
  case (PSeq k xs)
  have "mapM (json_dumps json_default) xs = Inr (map json_text xs)"
    using PSeq by (intro mapM_total) (auto simp: list_all_iff)
  then show ?case using PSeq.prems by simp
qed simp_all

lemma json_text_start: "texts_only v \<Longrightarrow> \<exists>x t. json_text v = x # t \<and> x \<in> {CHR ''n'', CHR 34, CHR ''{'', CHR ''[''}"
  by (cases v) (auto simp: json_string_def)

lemma json_text_prefix_free:
  "texts_only v \<Longrightarrow> texts_only w \<Longrightarrow> json_text v @ r = json_text w @ q \<Longrightarrow>
     tuples_as_lists v = tuples_as_lists w \<and> r = q"
proof (induction v arbitrary: w r q)
  case (PDict kvs)
  obtain kws where w: "w = PDict kws"
    using PDict.prems by (cases w) (auto simp: json_string_def)
  let ?d = "\<lambda>kv. json_string (fst kv) @ '':'' @ json_text (snd kv)"
  let ?e = "\<lambda>kv. (fst kv, tuples_as_lists (snd kv))"
  have step: "?e x = ?e y \<and> r' = q'"
    if "x \<in> set kvs" "y \<in> set kws" "?d x @ r' = ?d y @ q'" for x y r' q'
  proof -
    have "json_string (fst x) @ '':'' @ json_text (snd x) @ r' = json_string (fst y) @ '':'' @ json_text (snd y) @ q'"
      using that(3) by simp
    from json_string_prefix_free [OF this] have key: "fst x = fst y"
      and val: "json_text (snd x) @ r' = json_text (snd y) @ q'" by simp_all
    have only: "texts_only (snd x)" "texts_only (snd y)"
      using that(1,2) PDict.prems(1,2) w by (auto simp: list_all_iff)
    have "snd x \<in> Basic_BNFs.snds x" by (cases x) simp
    from PDict.IH [OF that(1) this only val] show ?thesis using key by simp
  qed
  have "map ?e kvs = map ?e kws \<and> r = q"
  proof (rule join_prefix_free [where close = "CHR ''}''"])
    fix x y r' q' assume "x \<in> set kvs" "y \<in> set kws" "?d x @ r' = ?d y @ q'"
    then show "?e x = ?e y \<and> r' = q'" by (rule step)
  qed (use PDict.prems(3) in \<open>simp_all add: w json_string_def\<close>)
  then show ?case by (simp add: w)
next
  case (PSeq k xs)
  obtain k' ys where w: "w = PSeq k' ys"
    using PSeq.prems by (cases w) (auto simp: json_string_def)
  have k: "(if k = TupleK then ListK else k) = (if k' = TupleK then ListK else k')"
    using PSeq.prems(1,2) w by (cases k; cases k') auto
  have "map tuples_as_lists xs = map tuples_as_lists ys \<and> r = q"
  proof (rule join_prefix_free [where close = "CHR '']''"])
    fix x y r' q' assume "x \<in> set xs" "y \<in> set ys" "json_text x @ r' = json_text y @ q'"
    then show "tuples_as_lists x = tuples_as_lists y \<and> r' = q'"
      using PSeq w by (auto simp: list_all_iff)
  next
    fix x :: "'a pv" assume "x \<in> set xs \<union> set ys"
    then have "texts_only x" using PSeq.prems w by (auto simp: list_all_iff)
    from json_text_start [OF this] show "\<exists>z zs. json_text x = z # zs \<and> z \<noteq> CHR '']''" by auto
  qed (use PSeq.prems(3) w in simp_all)
  then show ?case using k by (simp add: w)
next
  case (PStr s)
  then show ?case
    using json_text_start [of w] json_string_prefix_free [of s r _ q] by (cases w) (auto simp: json_string_def)
next
  case PNone
  then show ?case by (cases w) (auto simp: json_string_def)
qed simp_all

section \<open>What a signature identifies\<close>

lemma texts_only_frozen: 
  shows "texts_only v \<Longrightarrow> traverse (default_opts\<lparr>convert_types := is_set_value\<rparr>) (frozen_set json_default) v = Inr v"
    and "list_all (\<lambda>kv. texts_only (snd kv)) kvs \<Longrightarrow>
      traverse_items (default_opts\<lparr>convert_types := is_set_value\<rparr>) (frozen_set json_default) kvs = Inr kvs"
    and "\<not> hashed \<Longrightarrow> list_all texts_only xs \<Longrightarrow>
      traverse_elements (default_opts\<lparr>convert_types := is_set_value\<rparr>) (frozen_set json_default) hashed xs = Inr xs"
  by (induction "default_opts\<lparr>convert_types := is_set_value :: 'a pv \<Rightarrow> bool\<rparr>" "frozen_set json_default" v
      and "default_opts\<lparr>convert_types := is_set_value :: 'a pv \<Rightarrow> bool\<rparr>" "frozen_set json_default" kvs
      and "default_opts\<lparr>convert_types := is_set_value :: 'a pv \<Rightarrow> bool\<rparr>" "frozen_set json_default" hashed xs
      rule: traverse_traverse_items_traverse_elements.induct)
    (auto simp: default_opts_def empty_to_none_def list_constructor_def)

lemma texts_only_sorted: "texts_only v \<Longrightarrow> texts_only (sort_dicts v)"
  by (induction v) (auto simp: list_all_iff)

lemma canonical_json: "json_text (tuples_as_lists v) = json_text v"
proof (induction v)
  case (PDict kvs)
  have "map (\<lambda>kv. json_string (fst kv) @ '':'' @ json_text (tuples_as_lists (snd kv))) kvs =
      map (\<lambda>kv. json_string (fst kv) @ '':'' @ json_text (snd kv)) kvs"
    using PDict.IH by (auto simp: snds.simps)
  then show ?case by (simp add: comp_def cong: map_cong)
next
  case (PSeq k xs)
  then have "map (\<lambda>x. json_text (tuples_as_lists x)) xs = map json_text xs" by simp
  then show ?case by (simp add: comp_def del: map_eq_conv)
qed simp_all

lemma canonical_iff:
  assumes "texts_only v" "texts_only w"
  shows "dumps_canonical json_default v = Inr (json_text (sort_dicts v))"
    and "json_text (sort_dicts v) = json_text (sort_dicts w) \<longleftrightarrow> canonical v = canonical w"
proof -
  show "dumps_canonical json_default v = Inr (json_text (sort_dicts v))"
    unfolding dumps_canonical_def using json_dumps_text [OF texts_only_sorted [OF assms(1)]] .
  have "canonical v = canonical w" if "json_text (sort_dicts v) = json_text (sort_dicts w)"
    using json_text_prefix_free [OF texts_only_sorted [OF assms(1)] texts_only_sorted [OF assms(2)], of "[]" "[]"] that
    by (simp add: canonical_def)
  moreover have "json_text (sort_dicts v) = json_text (sort_dicts w)" if "canonical v = canonical w"
    using canonical_json [of "sort_dicts v"] canonical_json [of "sort_dicts w"] that by (simp add: canonical_def)
  ultimately show "json_text (sort_dicts v) = json_text (sort_dicts w) \<longleftrightarrow> canonical v = canonical w" by blast
qed

lemma key_order: "''extra'' < ''name''" "''name'' < ''params''" "''extra'' < ''params''"
  by code_simp+

lemma canonical_signature_dict:
  "canonical (signature_dict name params extra) =
     PDict ((if extra = [] then [] else [(''extra'', canonical (PDict extra))]) @
       [(''name'', PStr name), (''params'', canonical (PDict (dict_update [] params)))])"
  using key_order by (auto simp: canonical_def signature_dict_def sort_key_def not_le)

lemma canonical_signature_dict_iff:
  "canonical (signature_dict n ps e) = canonical (signature_dict m qs d) \<longleftrightarrow>
     n = m \<and> canonical (PDict (dict_update [] ps)) = canonical (PDict (dict_update [] qs)) \<and>
     canonical (PDict e) = canonical (PDict d)"
proof -
  have "sort_key fst xs = [] \<longleftrightarrow> xs = []" for xs :: "(string \<times> 'a pv) list"
    by (metis length_0_conv length_sort)
  then have "canonical (PDict []) = canonical (PDict xs) \<longleftrightarrow> xs = []"
    "canonical (PDict xs) = canonical (PDict []) \<longleftrightarrow> xs = []" for xs :: "(string \<times> 'a pv) list"
    by (auto simp: canonical_def)
  then show ?thesis by (auto simp: canonical_signature_dict)
qed

lemma texts_only_dict_set:
  "list_all (\<lambda>kv. texts_only (snd kv)) d \<Longrightarrow> texts_only v \<Longrightarrow> list_all (\<lambda>kv. texts_only (snd kv)) (dict_set d k v)"
  by (induction d k v rule: dict_set.induct) auto

lemma texts_only_dict_update:
  "list_all (\<lambda>kv. texts_only (snd kv)) d \<Longrightarrow> list_all (\<lambda>kv. texts_only (snd kv)) e \<Longrightarrow>
     list_all (\<lambda>kv. texts_only (snd kv)) (dict_update d e)"
  by (induction d e rule: dict_update.induct) (auto simp: texts_only_dict_set)

lemma build_signature_text:
  assumes "list_all (\<lambda>kv. texts_only (snd kv)) params" "list_all (\<lambda>kv. texts_only (snd kv)) extra"
  shows "build_signature md5 json_default name params extra =
    (let t = json_text (sort_dicts (signature_dict name params extra))
     in Inr \<lparr>signature_name = name, signature = user_friendly_signature md5 t, signature_source = t\<rparr>)"
proof -
  have "texts_only (signature_dict name params extra)"
    using assms by (simp add: signature_dict_def texts_only_dict_update)
  then show ?thesis
    unfolding build_signature_def traverse_frozen_set_def
    by (simp add: texts_only_frozen canonical_iff(1) Let_def)
qed

text \<open>
  C11. Two tasks get the same signature text exactly when they have the same name and their serialised
  parameters and extra values agree: a later value of a parameter replaces an earlier one, neither the
  order of dictionaries nor the difference of tuples and lists counts, and everything else does. Equal
  texts have equal signatures.
\<close>
theorem signature_text_identifies_the_task:
  assumes "list_all (\<lambda>kv. texts_only (snd kv)) ps" "list_all (\<lambda>kv. texts_only (snd kv)) e"
    and "list_all (\<lambda>kv. texts_only (snd kv)) qs" "list_all (\<lambda>kv. texts_only (snd kv)) d"
  shows "\<exists>s t. build_signature md5 json_default n ps e = Inr s \<and> build_signature md5 json_default m qs d = Inr t \<and>
    (signature_source s = signature_source t \<longleftrightarrow>
       n = m \<and> canonical (PDict (dict_update [] ps)) = canonical (PDict (dict_update [] qs)) \<and>
       canonical (PDict e) = canonical (PDict d)) \<and>
    signature s = take 10 (md5 (signature_source s)) \<and> signature t = take 10 (md5 (signature_source t))"
proof -
  have "texts_only (signature_dict n ps e)" "texts_only (signature_dict m qs d)"
    using assms by (simp_all add: signature_dict_def texts_only_dict_update)
  from canonical_iff(2) [OF this] show ?thesis
    by (simp add: build_signature_text [OF assms(1,2)] build_signature_text [OF assms(3,4)] Let_def
        canonical_signature_dict_iff user_friendly_signature_def)
qed

theorem signature_text_identifies_the_task_witness:
  "\<exists>s t. build_signature rev (\<lambda>a. Inl (TypeError a)) ''t'' [(''p'', PStr ''1'')] [] = Inr s \<and>
     build_signature rev (\<lambda>a. Inl (TypeError a)) ''t'' [(''p'', PStr ''2''), (''p'', PStr ''1'')] [] = Inr t \<and>
     signature_source s = signature_source t"
  using signature_text_identifies_the_task [of "[(''p'', PStr ''1'')]" "[]" "[(''p'', PStr ''2''), (''p'', PStr ''1'')]" "[]"
      rev "\<lambda>a. Inl (TypeError a)" "''t''" "''t''"]
  by auto

text \<open>A set that is frozen is a list in an order that only depends on its elements.\<close>

lemma sorted_by_text_order:
  fixes json_default :: "'a \<Rightarrow> string result"
  assumes "distinct xs" "distinct ys" "set xs = set ys"
  shows "sorted_by_text (dumps_canonical json_default) (map PStr xs) = sorted_by_text (dumps_canonical json_default) (map PStr ys)"
proof -
  let ?t = "\<lambda>s. json_string s"
  have dumps: "mapM (dumps_canonical json_default) (map PStr zs) = Inr (map ?t zs)" for zs :: "string list"
  proof (induction zs)
    case (Cons z zs)
    then show ?case using canonical_iff(1) [of "PStr z :: 'a pv" "PStr z"] by simp
  qed simp
  have inj: "inj_on fst (set (zip (map ?t zs) (map PStr zs)))" for zs :: "string list"
    using json_string_prefix_free [of _ "[]" _ "[]"] by (fastforce simp: set_zip inj_on_def)
  have same: "set (zip (map ?t zs) (map PStr zs)) = (\<lambda>s. (?t s, PStr s)) ` set zs" for zs :: "string list"
    by (induction zs) auto
  have "sort_key fst (zip (map ?t xs) (map (PStr :: string \<Rightarrow> 'a pv) xs)) = sort_key fst (zip (map ?t ys) (map PStr ys))"
  proof (rule sort_key_inj_key_eq)
    have "distinct (zip (map ?t zs) (map PStr zs))" if "distinct zs" for zs :: "string list"
      using that by (intro distinct_zipI2) (simp add: distinct_map inj_on_def)
    from set_eq_iff_mset_eq_distinct [OF this [OF assms(2)] this [OF assms(1)]]
    have "mset (zip (map ?t ys) (map PStr ys)) = mset (zip (map ?t xs) (map (PStr :: string \<Rightarrow> 'a pv) xs))"
      unfolding same assms(3) by simp
    then show "mset (zip (map ?t xs) (map (PStr :: string \<Rightarrow> 'a pv) xs)) = mset (sort_key fst (zip (map ?t ys) (map PStr ys)))"
      by simp
    show "inj_on fst (set (zip (map ?t xs) (map (PStr :: string \<Rightarrow> 'a pv) xs)))" by (rule inj)
  qed simp
  then show ?thesis by (simp add: sorted_by_text_def dumps)
qed

lemma traverse_items_same:
  "list_all2 (\<lambda>p q. fst p = fst q \<and> traverse opts f (snd p) = traverse opts f (snd q)) ps qs \<Longrightarrow>
     traverse_items opts f ps = traverse_items opts f qs"
  by (induction rule: list_all2_induct) (simp_all cong: if_cong)

lemma dict_set_same:
  "list_all2 (\<lambda>p q. fst p = fst q \<and> R (snd p) (snd q)) d e \<Longrightarrow> R v w \<Longrightarrow>
     list_all2 (\<lambda>p q. fst p = fst q \<and> R (snd p) (snd q)) (dict_set d k v) (dict_set e k w)"
proof (induction rule: list_all2_induct)
  case (Cons p ps q qs)
  then show ?case by (cases p; cases q) auto
qed simp

lemma dict_update_same:
  "list_all2 (\<lambda>p q. fst p = fst q \<and> R (snd p) (snd q)) ps qs \<Longrightarrow>
     list_all2 (\<lambda>p q. fst p = fst q \<and> R (snd p) (snd q)) d e \<Longrightarrow>
     list_all2 (\<lambda>p q. fst p = fst q \<and> R (snd p) (snd q)) (dict_update d ps) (dict_update e qs)"
proof (induction arbitrary: d e rule: list_all2_induct)
  case (Cons p ps q qs)
  then show ?case using dict_set_same [of R d e "snd p" "snd q" "fst p"] by (cases p; cases q) auto
qed simp

text \<open>Two values of a parameter that Python treats as equal although the order of iteration may differ.\<close>

inductive same_value :: "'a pv \<Rightarrow> 'a pv \<Rightarrow> bool" where
  itself: "same_value v v"
| reordered: "distinct xs \<Longrightarrow> distinct ys \<Longrightarrow> set xs = set ys \<Longrightarrow> same_value (PSeq SetK (map PStr xs)) (PSeq SetK (map PStr ys))"

text \<open>
  C12. The signature of a task does not depend on the order in which Python iterates over the sets of texts
  among its parameters, which differs from one process to the next.
\<close>
theorem signature_ignores_set_order:
  assumes "list_all2 (\<lambda>p q. fst p = fst q \<and> same_value (snd p) (snd q)) ps qs"
  shows "build_signature md5 json_default name ps extra = build_signature md5 json_default name qs extra"
proof -
  let ?o = "default_opts\<lparr>convert_types := is_set_value\<rparr>" and ?f = "frozen_set json_default"
  have same: "traverse ?o ?f v = traverse ?o ?f w" if "same_value v w" for v w
    using that
  proof cases
    case (reordered xs ys)
    show ?thesis unfolding reordered(1,2) using sorted_by_text_order [OF reordered(3-5), of json_default] by (simp add: default_opts_def)
  qed simp
  have "list_all2 (\<lambda>p q. fst p = fst q \<and> traverse ?o ?f (snd p) = traverse ?o ?f (snd q)) ps qs"
    by (rule list_all2_mono [OF assms]) (elim conjE, intro conjI, assumption, erule same)
  from traverse_items_same [OF dict_update_same [OF this, of "[]" "[]"]]
  show ?thesis
    by (simp add: build_signature_def traverse_frozen_set_def signature_dict_def default_opts_def)
qed

theorem signature_ignores_set_order_witness:
  "build_signature rev Inr ''t'' [(''p'', PSeq SetK [PStr ''a'', PStr ''b''])] [] =
   build_signature rev Inr ''t'' [(''p'', PSeq SetK [PStr ''b'', PStr ''a''])] []"
  using same_value.reordered [of "[''a'', ''b'']" "[''b'', ''a'']"]
  by (intro signature_ignores_set_order) auto

text \<open>The elements of a set can be hashed; what is left of a frozen value holds no set.\<close>

fun well_typed :: "'a pv \<Rightarrow> bool" where
  "well_typed (PDict kvs) = list_all (\<lambda>kv. well_typed (snd kv)) kvs"
| "well_typed (PSeq k xs) = ((k = SetK \<longrightarrow> list_all hashable xs) \<and> list_all well_typed xs)"
| "well_typed (PIter no_traverse a xs) = list_all well_typed xs"
| "well_typed v = True"

fun holds_no_set :: "'a pv \<Rightarrow> bool" where
  "holds_no_set (PDict kvs) = list_all (\<lambda>kv. holds_no_set (snd kv)) kvs"
| "holds_no_set (PSeq k xs) = (k \<noteq> SetK \<and> list_all holds_no_set xs)"
| "holds_no_set v = True"

lemma hashable_no_set: "hashable v \<Longrightarrow> holds_no_set v"
  by (induction v) (auto simp: list_all_iff)

lemma frozen_elements:
  assumes "sorted_by_text key xs = Inr ys" shows "set ys \<subseteq> set xs"
proof -
  obtain ks where ks: "mapM key xs = Inr ks" "ys = map snd (sort_key fst (zip ks xs))"
    using assms by (auto simp: sorted_by_text_def rmap_Inr_iff)
  then show ?thesis by (auto dest: set_zip_rightD)
qed

lemma traverse_frozen_no_set:
  shows "well_typed v \<Longrightarrow> traverse (default_opts\<lparr>convert_types := is_set_value\<rparr>) (frozen_set json_default) v = Inr w \<Longrightarrow>
      holds_no_set w"
    and "list_all (\<lambda>kv. well_typed (snd kv)) kvs \<Longrightarrow>
      traverse_items (default_opts\<lparr>convert_types := is_set_value\<rparr>) (frozen_set json_default) kvs = Inr kws \<Longrightarrow>
      list_all (\<lambda>kw. holds_no_set (snd kw)) kws"
    and "list_all well_typed xs \<Longrightarrow>
      traverse_elements (default_opts\<lparr>convert_types := is_set_value\<rparr>) (frozen_set json_default) hashed xs = Inr ys \<Longrightarrow>
      list_all holds_no_set ys"
proof (induction "default_opts\<lparr>convert_types := is_set_value :: 'a pv \<Rightarrow> bool\<rparr>" "frozen_set json_default" v
      and "default_opts\<lparr>convert_types := is_set_value :: 'a pv \<Rightarrow> bool\<rparr>" "frozen_set json_default" kvs
      and "default_opts\<lparr>convert_types := is_set_value :: 'a pv \<Rightarrow> bool\<rparr>" "frozen_set json_default" hashed xs
      arbitrary: w and kws and ys rule: traverse_traverse_items_traverse_elements.induct)
  case (7 k xs)
  show ?case
  proof (cases "k = SetK")
    case True
    then obtain zs where "sorted_by_text (dumps_canonical json_default) xs = Inr zs" "w = PSeq ListK zs"
      using "7.prems" by (auto simp: rmap_Inr_iff)
    then show ?thesis
      using frozen_elements [of _ xs zs] "7.prems" True hashable_no_set by (fastforce simp: list_all_iff)
  next
    case False
    then show ?thesis
      using 7 by (auto simp: default_opts_def empty_to_none_def list_constructor_def rmap_Inr_iff)
  qed
next
  case (11 hashed x xs)
  let ?o = "default_opts\<lparr>convert_types := is_set_value :: 'a pv \<Rightarrow> bool\<rparr>"
  obtain y zs where y: "traverse ?o (frozen_set json_default) x = Inr y" "hashed \<longrightarrow> hashable y"
    and zs: "traverse_elements ?o (frozen_set json_default) hashed xs = Inr zs" "ys = y # zs"
    using "11.prems"(2) by (auto simp: result_simps default_opts_def split: if_splits)
  have "holds_no_set y" using "11.hyps"(1) "11.prems"(1) y(1) by simp
  moreover have "list_all holds_no_set zs"
    by (rule "11.hyps"(3) [of y]) (use "11.prems"(1) y(2) zs(1) in \<open>auto simp: default_opts_def\<close>)
  ultimately show ?case by (simp add: zs(2))
qed (auto simp: result_simps default_opts_def empty_to_none_def list_constructor_def split: if_splits)

text \<open>
  C40. The values that a signature is written from hold no set any more, at no depth, so that writing
  them as JSON never meets one.
\<close>
theorem frozen_values_hold_no_set:
  assumes "well_typed v" "traverse_frozen_set json_default v = Inr w"
  shows "holds_no_set w"
  using traverse_frozen_no_set(1) [OF assms(1)] assms(2) unfolding traverse_frozen_set_def .

theorem frozen_values_hold_no_set_witness:
  "holds_no_set (PDict [(''p'', PSeq ListK [PStr ''a'', PStr ''b'']) :: string \<times> nat pv])"
  by (rule frozen_values_hold_no_set
        [where v = "PDict [(''p'', PSeq SetK [PStr ''b'', PStr ''a''])]" and json_default = "\<lambda>_. Inr []"])
     (simp, code_simp)

end
