(* ===== verification/TaskRelations.thy ===== *)
theory TaskRelations
  imports Signature Effects
begin

text \<open>
  The inputs and outputs of a task (\<open>dbnd/_core/task_ctrl/task_relations.py\<close>) with the conversions of
  \<open>dbnd/_core/utils/task_utils.py\<close>: which targets a task waits for, which targets it owns, and the
  identifier that it gets from its signature.
\<close>

section \<open>Objects\<close>

text \<open>
  Targets are numbered; the record of the sources maps the number of a target to the task and the
  parameter that own it. \<open>NotDefined\<close> is the value of a parameter nobody has set.
\<close>

datatype rel_obj =
    Target nat
  | MultiTargetObj nat "rel_obj list"
  | TaskObj string
  | PathObj string
  | NotDefined
  | OtherObj string

type_synonym sources = "nat \<Rightarrow> (string \<times> string option) option"

record rel_env =
  str_of :: "rel_obj \<Rightarrow> string"
  single_result :: "string \<Rightarrow> rel_obj pv option"
  outputs_of :: "string \<Rightarrow> rel_obj pv"
  operator_task :: "rel_obj \<Rightarrow> string option"
  make_target :: "string \<Rightarrow> rel_obj pv result"
  known_task :: "string \<Rightarrow> bool"

fun is_target :: "rel_obj \<Rightarrow> bool" where
  "is_target (Target i) = True"
| "is_target (MultiTargetObj i ts) = True"
| "is_target x = False"

fun target_number :: "rel_obj \<Rightarrow> nat" where
  "target_number (Target i) = i"
| "target_number (MultiTargetObj i ts) = i"
| "target_number x = 0"

fun truthy_value :: "'a pv \<Rightarrow> bool" where
  "truthy_value PNone = False"
| "truthy_value (PStr s) = (s \<noteq> [])"
| "truthy_value (PDict kvs) = (kvs \<noteq> [])"
| "truthy_value (PSeq k xs) = (xs \<noteq> [])"
| "truthy_value v = True"

section \<open>Conversions\<close>

definition source_task :: "rel_env \<Rightarrow> sources \<Rightarrow> nat \<Rightarrow> string option" where
  "source_task env src i = (case src i of None \<Rightarrow> None | Some (t, p) \<Rightarrow> if known_task env t then Some t else None)"

fun to_task_obj :: "rel_env \<Rightarrow> sources \<Rightarrow> rel_obj \<Rightarrow> rel_obj pv" where
  "to_task_obj env src (TaskObj t) = PAtom (TaskObj t)"
| "to_task_obj env src (Target i) =
     (case source_task env src i of Some t \<Rightarrow> PAtom (TaskObj t) | None \<Rightarrow> PNone)"
| "to_task_obj env src (MultiTargetObj i ts) =
     (case source_task env src i of Some t \<Rightarrow> PAtom (TaskObj t)
      | None \<Rightarrow> PSeq ListK (filter (\<lambda>t. t \<noteq> PNone) (map (to_task_obj env src) ts)))"
| "to_task_obj env src x = (case operator_task env x of Some t \<Rightarrow> PAtom (TaskObj t) | None \<Rightarrow> PNone)"

fun to_task :: "rel_env \<Rightarrow> sources \<Rightarrow> rel_obj pv \<Rightarrow> rel_obj pv result" where
  "to_task env src (PAtom x) = Inr (to_task_obj env src x)"
| "to_task env src (PFrame x cols) = Inr (to_task_obj env src x)"
| "to_task env src v = Inr PNone"

definition to_tasks :: "rel_env \<Rightarrow> sources \<Rightarrow> rel_obj pv \<Rightarrow> rel_obj pv result" where
  "to_tasks env src = traverse (default_opts\<lparr>filter_none := True\<rparr>) (to_task env src)"

definition to_target_obj :: "rel_env \<Rightarrow> rel_obj \<Rightarrow> rel_obj pv result" where
  "to_target_obj env x =
     (if is_target x then Inr (PAtom x)
      else case x of
        TaskObj t \<Rightarrow> Inr (case single_result env t of Some v \<Rightarrow> v | None \<Rightarrow> outputs_of env t)
      | _ \<Rightarrow>
          (case operator_task env x of
             Some t \<Rightarrow> Inr (outputs_of env t)
           | None \<Rightarrow>
               (case x of PathObj p \<Rightarrow> make_target env p
                | _ \<Rightarrow> Inl (DatabandBuildError ''Don't know how to convert value to target''))))"

fun to_target :: "rel_env \<Rightarrow> rel_obj pv \<Rightarrow> rel_obj pv result" where
  "to_target env PNone = Inr PNone"
| "to_target env (PStr s) = make_target env s"
| "to_target env (PAtom x) = to_target_obj env x"
| "to_target env (PFrame x cols) = to_target_obj env x"
| "to_target env v = Inr v"

definition to_targets :: "rel_env \<Rightarrow> rel_obj pv \<Rightarrow> rel_obj pv result" where
  "to_targets env = traverse (default_opts\<lparr>filter_none := True\<rparr>) (to_target env)"

fun find_target :: "rel_obj pv \<Rightarrow> rel_obj pv result" where
  "find_target (PAtom x) = Inr (if is_target x then PAtom x else PNone)"
| "find_target v = Inr PNone"

section \<open>The task\<close>

record rel_param =
  rp_name :: string
  rp_system :: bool
  rp_output :: bool
  rp_significant :: bool
  rp_func_result :: bool

type_synonym param_values = "(rel_param \<times> rel_obj pv) list"

record rel_task =
  rt_name :: string
  rt_params :: param_values
  rt_pipeline :: bool
  rt_dynamic :: bool
  rt_decorated :: bool
  rt_child_pipelines :: "string list"
  rt_requires :: "rel_obj pv"
  rt_custom_output :: "rel_obj pv"
  rt_signature_extra :: "(string \<times> rel_obj pv) list"
  rt_airflow_task_id :: "string option"

definition user_defined_output :: "rel_param \<Rightarrow> bool" where
  "user_defined_output p = (rp_output p \<and> rp_name p \<noteq> ''task_band'' \<and> \<not> rp_func_result p)"

section \<open>Inputs\<close>

type_synonym sections = "(string \<times> rel_obj pv) list \<times> (string \<times> rel_obj pv) list"

definition put_in_section :: "rel_param \<Rightarrow> rel_obj pv \<Rightarrow> sections \<Rightarrow> sections" where
  "put_in_section p v io =
     (if rp_system p then (fst io, dict_set (snd io) (rp_name p) v) else (dict_set (fst io) (rp_name p) v, snd io))"

definition find_opts :: "rel_obj trav_opts" where
  "find_opts = \<lparr>filter_none = True, filter_empty = True, convert_types = (\<lambda>_. False)\<rparr>"

definition add_input :: "sections \<Rightarrow> rel_param \<times> rel_obj pv \<Rightarrow> sections result" where
  "add_input io pv =
     (if snd pv = PNone then Inr io
      else rbind (traverse find_opts find_target (snd pv)) (\<lambda>v.
        Inr (if truthy_value v then put_in_section (fst pv) v io else io)))"

definition extend_system_section :: "string \<Rightarrow> rel_obj pv \<Rightarrow> sections \<Rightarrow> sections" where
  "extend_system_section key extra io = (if truthy_value extra then (fst io, dict_set (snd io) key extra) else io)"

definition of_sections :: "sections \<Rightarrow> rel_obj pv" where
  "of_sections io = PDict [(''user'', PDict (fst io)), (''system'', PDict (snd io))]"

definition band_outputs :: "rel_task \<Rightarrow> rel_obj pv" where
  "band_outputs task =
     PDict (dict_update [] (map (\<lambda>(p, v). (rp_name p, v))
       (filter (\<lambda>(p, v). user_defined_output p \<and> \<not> rp_system p) (rt_params task))))"

definition initialize_required :: "rel_env \<Rightarrow> rel_task \<Rightarrow> rel_obj pv result" where
  "initialize_required env task =
     rbind (foldM add_input ([], []) (filter (\<lambda>pv. \<not> rp_output (fst pv)) (rt_params task))) (\<lambda>io.
       let io = (if rt_pipeline task then extend_system_section ''band'' (band_outputs task) io else io);
           io = extend_system_section ''pipelines''
                  (PDict (dict_update [] (map (\<lambda>t. (t, PAtom (TaskObj t))) (rt_child_pipelines task)))) io;
           io = extend_system_section ''required'' (rt_requires task) io
       in to_targets env (of_sections io))"

text \<open>The upstream tasks that the node of the task in the graph gets from its inputs.\<close>

definition upstream_of_inputs :: "rel_env \<Rightarrow> sources \<Rightarrow> rel_obj pv \<Rightarrow> rel_obj pv list result" where
  "upstream_of_inputs env src inputs = rmap flatten (to_tasks env src inputs)"

section \<open>Outputs\<close>

text \<open>A target gets an owner unless it has one.\<close>

definition set_source :: "string \<times> string option \<Rightarrow> rel_obj pv \<Rightarrow> sources \<Rightarrow> sources" where
  "set_source owner v src =
     (case v of
        PAtom x \<Rightarrow> if is_target x \<and> src (target_number x) = None then src(target_number x \<mapsto> owner) else src
      | _ \<Rightarrow> src)"

definition accepts_source :: "rel_obj pv \<Rightarrow> rel_obj pv result" where
  "accepts_source v =
     (if \<not> truthy_value v then Inr v
      else case v of
        PAtom x \<Rightarrow> if is_target x then Inr v else Inl (DatabandSystemError ''Expected target object'')
      | PFrame x cols \<Rightarrow> Inl (ValueError ''The truth value of a DataFrame is ambiguous'')
      | _ \<Rightarrow> Inl (DatabandSystemError ''Expected target object''))"

definition traverse_and_set_target ::
  "string \<times> string option \<Rightarrow> rel_obj pv \<Rightarrow> sources \<Rightarrow> rel_obj pv result \<times> sources" where
  "traverse_and_set_target owner v src =
     (traverse default_opts accepts_source v,
      fold (set_source owner) (takeWhile (\<lambda>x. \<not> isl (accepts_source x)) (converted default_opts v)) src)"

type_synonym 'a building = "('a, sources) io"

fun collect_outputs ::
  "(rel_param \<Rightarrow> rel_obj pv building) \<Rightarrow> string \<Rightarrow> param_values \<Rightarrow> sections \<Rightarrow> (sections \<times> param_values) building" where
  "collect_outputs build_output tid [] io = io_return (io, [])"
| "collect_outputs build_output tid ((p, v) # pvs) io =
     io_bind (if v = PAtom NotDefined then build_output p else io_return v) (\<lambda>v.
       io_bind
         (if rp_func_result p then io_return io
          else io_bind (traverse_and_set_target (tid, Some (rp_name p)) v) (\<lambda>w. io_return (put_in_section p w io)))
         (\<lambda>io. io_bind (collect_outputs build_output tid pvs io) (\<lambda>(io, pvs). io_return (io, (p, v) # pvs))))"

text \<open>The outputs of \<open>_output()\<close> take the place of the others, but only where there are others.\<close>

definition with_custom_output :: "rel_task \<Rightarrow> sections \<Rightarrow> rel_obj pv" where
  "with_custom_output task io =
     PDict [(''user'', if truthy_value (rt_custom_output task) \<and> fst io \<noteq> [] then rt_custom_output task else PDict (fst io)),
            (''system'', PDict (snd io))]"

definition io_of_result :: "'a result \<Rightarrow> 'a building" where
  "io_of_result r src = (r, src)"

definition initialize_outputs ::
  "rel_env \<Rightarrow> (rel_param \<Rightarrow> rel_obj pv building) \<Rightarrow> string \<Rightarrow> rel_task \<Rightarrow> (rel_obj pv \<times> param_values) building" where
  "initialize_outputs env build_output tid task =
     io_bind (collect_outputs build_output tid (filter (\<lambda>pv. rp_output (fst pv)) (rt_params task)) ([], []))
       (\<lambda>(io, pvs).
         io_bind (io_of_result (to_targets env (with_custom_output task io))) (\<lambda>outputs.
           io_bind (traverse_and_set_target (tid, None) outputs) (\<lambda>outputs. io_return (outputs, pvs))))"

section \<open>The band function\<close>

definition band_error :: "rel_task \<Rightarrow> py_error \<Rightarrow> py_error" where
  "band_error task e = (if rt_decorated task then e else DatabandBuildError ''Failed to call band'')"

definition normalize_assigned :: "rel_env \<Rightarrow> (string \<times> rel_obj pv) list \<Rightarrow> rel_param \<times> rel_obj pv \<Rightarrow> (rel_param \<times> rel_obj pv) result" where
  "normalize_assigned env assigned pv =
     (if user_defined_output (fst pv)
      then (case map_of assigned (rp_name (fst pv)) of
              None \<Rightarrow> Inr pv
            | Some v \<Rightarrow>
                (case to_targets env v of
                   Inl e \<Rightarrow> Inl (DatabandBuildError ''Failed to assign value to parameter at band'')
                 | Inr v \<Rightarrow> Inr (fst pv, v)))
      else Inr (fst pv, (case map_of assigned (rp_name (fst pv)) of None \<Rightarrow> snd pv | Some v \<Rightarrow> v)))"

text \<open>
  \<open>band\<close> answers with the parameters that it has assigned; a pipeline must have assigned all its outputs.
\<close>

definition initialize_band ::
  "rel_env \<Rightarrow> (rel_task \<Rightarrow> (string \<times> rel_obj pv) list result) \<Rightarrow> rel_task \<Rightarrow> rel_task result" where
  "initialize_band env band task =
     (case band task of
        Inl e \<Rightarrow> Inl (band_error task e)
      | Inr assigned \<Rightarrow>
          let unassigned = (\<lambda>pv. user_defined_output (fst pv) \<and> \<not> rp_system (fst pv) \<and>
                (case map_of assigned (rp_name (fst pv)) of None \<Rightarrow> snd pv | Some v \<Rightarrow> v) = PAtom NotDefined)
          in if rt_pipeline task \<and> list_ex unassigned (rt_params task)
             then Inl (band_error task (DatabandBuildError ''Pipeline task has unassigned outputs''))
             else (case mapM (normalize_assigned env assigned) (rt_params task) of
                     Inl e \<Rightarrow> Inl (band_error task e)
                   | Inr pvs \<Rightarrow> Inr (task\<lparr>rt_params := pvs\<rparr>)))"

section \<open>The whole\<close>

fun str_item :: "rel_env \<Rightarrow> rel_obj pv \<Rightarrow> rel_obj pv result" where
  "str_item env PNone = Inr (PStr ''None'')"
| "str_item env (PAtom x) = Inr (PStr (str_of env x))"
| "str_item env (PFrame x cols) = Inr (PStr (str_of env x))"
| "str_item env v = Inr v"

fun dict_get :: "rel_obj pv \<Rightarrow> string \<Rightarrow> rel_obj pv option" where
  "dict_get (PDict kvs) k = map_of kvs k"
| "dict_get v k = None"

definition inputs_to_sign :: "rel_env \<Rightarrow> rel_obj pv \<Rightarrow> (string \<times> rel_obj pv) list result" where
  "inputs_to_sign env inputs =
     (case dict_get inputs ''user'' of
        None \<Rightarrow> Inr []
      | Some user \<Rightarrow>
          let band = (case dict_get inputs ''system'' of Some s \<Rightarrow> dict_get s ''band'' | None \<Rightarrow> None);
              d = PDict ((''user'', user) # (case band of None \<Rightarrow> [] | Some b \<Rightarrow> [(''system'', PDict [(''band'', b)])]))
          in rmap (\<lambda>v. [(''_task_inputs'', if v = PNone then PStr [] else v)]) (traverse find_opts (str_item env) d))"

definition outputs_to_sign :: "rel_task \<Rightarrow> rel_obj pv \<Rightarrow> rel_obj pv result" where
  "outputs_to_sign task outputs =
     (let user = (case dict_get outputs ''user'' of None \<Rightarrow> PDict [] | Some v \<Rightarrow> v)
      in if rt_pipeline task then Inr user
         else (case user of
                 PDict kvs \<Rightarrow> Inr (PDict (filter (\<lambda>kv. fst kv \<noteq> ''task_band'') kvs))
               | _ \<Rightarrow> Inl (AttributeError ''items'')))"

record relations =
  rl_task_id :: string
  rl_inputs :: "rel_obj pv"
  rl_outputs :: "rel_obj pv"
  rl_signature :: signature
  rl_outputs_signature :: signature

definition initialize_relations ::
  "rel_env \<Rightarrow> (string \<Rightarrow> string) \<Rightarrow> (rel_obj \<Rightarrow> string result) \<Rightarrow> (rel_param \<Rightarrow> rel_obj pv \<Rightarrow> string) \<Rightarrow>
   (rel_obj pv \<Rightarrow> string) \<Rightarrow> (rel_task \<Rightarrow> (string \<times> rel_obj pv) list result) \<Rightarrow> (rel_param \<Rightarrow> rel_obj pv building) \<Rightarrow>
   rel_task \<Rightarrow> relations building" where
  "initialize_relations env md5 json_default serialize str band build_output task =
     io_bind (io_of_result (initialize_band env band task)) (\<lambda>task.
     io_bind (io_of_result (case initialize_required env task of
                Inl e \<Rightarrow> if rt_dynamic task then Inr (PDict []) else Inl e
              | Inr inputs \<Rightarrow> Inr inputs)) (\<lambda>inputs.
     io_bind (io_of_result (inputs_to_sign env inputs)) (\<lambda>task_inputs.
     let params = map (\<lambda>(p, v). (rp_name p, PStr (serialize p v)))
           (filter (\<lambda>pv. rp_significant (fst pv) \<and> \<not> rp_output (fst pv)) (rt_params task)) @ task_inputs
     in io_bind (io_of_result (build_signature md5 json_default (rt_name task) params (rt_signature_extra task))) (\<lambda>sig.
     let tid = (case rt_airflow_task_id task of Some t \<Rightarrow> t | None \<Rightarrow> rt_name task @ ''__'' @ signature sig)
     in io_bind (initialize_outputs env build_output tid task) (\<lambda>(outputs, pvs).
     io_bind (io_of_result (outputs_to_sign task outputs)) (\<lambda>to_sign. io_return
          \<lparr>rl_task_id = tid, rl_inputs = inputs, rl_outputs = outputs, rl_signature = sig,
           rl_outputs_signature =
             (if truthy_value to_sign then build_signature_from_values md5 str ''task_outputs'' to_sign else sig)\<rparr>))))))"

section \<open>Every target has an owner\<close>

text \<open>The first owner of a target stays its owner.\<close>

lemma set_source_keeps: "src i = Some z \<Longrightarrow> set_source owner v src i = Some z"
  by (auto simp: set_source_def split: pv.split)

lemma fold_source_keeps: "src i = Some z \<Longrightarrow> fold (set_source owner) vs src i = Some z"
  by (induction vs arbitrary: src) (simp_all add: set_source_keeps)

lemma fold_source_owns:
  "PAtom x \<in> set vs \<Longrightarrow> is_target x \<Longrightarrow> fold (set_source owner) vs src (target_number x) \<noteq> None"
proof (induction vs arbitrary: src)
  case (Cons v vs)
  show ?case
  proof (cases "v = PAtom x")
    case True
    obtain z where "set_source owner v src (target_number x) = Some z"
      using True Cons.prems(2) by (cases "src (target_number x)") (auto simp: set_source_def)
    then show ?thesis by (simp add: fold_source_keeps)
  next
    case False
    then show ?thesis using Cons by simp
  qed
qed simp

lemma sources_kept:
  "src i = Some z \<Longrightarrow> snd (traverse_and_set_target owner v src) i = Some z"
  by (simp add: traverse_and_set_target_def fold_source_keeps)

lemma accepts_source_itself: "accepts_source v = Inr w \<Longrightarrow> w = v"
  by (auto simp: accepts_source_def split: if_splits pv.splits)

text \<open>A walk that returns has given an owner to every target in what it returns.\<close>

lemma walk_owns_targets:
  assumes "traverse_and_set_target owner v src = (Inr w, src')" "PAtom x \<in> set (flatten w)" "is_target x"
  shows "src' (target_number x) \<noteq> None"
proof -
  have w: "traverse default_opts accepts_source v = Inr w"
    and src': "src' = fold (set_source owner) (takeWhile (\<lambda>x. \<not> isl (accepts_source x)) (converted default_opts v)) src"
    using assms(1) by (simp_all add: traverse_and_set_target_def)
  obtain u where "u \<in> set (converted default_opts v)"
    "PAtom x \<in> (case accepts_source u of Inl e \<Rightarrow> {} | Inr y \<Rightarrow> set (flatten y))"
    using assms(2) traverse_flatten(1) [OF w] unfolding items_from_def by blast
  then have u: "u \<in> set (converted default_opts v)" "accepts_source u = Inr u" "PAtom x \<in> set (flatten u)"
    using accepts_source_itself [of u] by (cases "accepts_source u"; simp)+
  have "simple u" using u(1) by (rule converted_simple [rotated]) (simp add: default_opts_def)
  then have "u = PAtom x" using u(2,3) by (cases u) (auto simp: accepts_source_def)
  moreover have "takeWhile (\<lambda>x. \<not> isl (accepts_source x)) (converted default_opts v) = converted default_opts v"
    using traverse_converts_all(1) [OF w] by (simp add: list_all_iff)
  ultimately show ?thesis using u(1) fold_source_owns [OF _ assms(3)] src' by metis
qed

lemma io_bind_Inr:
  "io_bind m f w = (Inr y, w') \<Longrightarrow> \<exists>x v. m w = (Inr x, v) \<and> f x v = (Inr y, w')"
  by (auto simp: io_bind_def split: prod.splits sum.splits)

definition keeps_sources :: "'a building \<Rightarrow> bool" where
  "keeps_sources m = (\<forall>src i z. src i = Some z \<longrightarrow> snd (m src) i = Some z)"

lemma keeps_sourcesD: "keeps_sources m \<Longrightarrow> src i = Some z \<Longrightarrow> m src = (r, src') \<Longrightarrow> src' i = Some z"
  unfolding keeps_sources_def by (metis snd_conv)

lemma keeps_sources_snd: "keeps_sources m \<Longrightarrow> src i = Some z \<Longrightarrow> snd (m src) i = Some z"
  unfolding keeps_sources_def by metis

lemma keeps_sources_walk: "keeps_sources (traverse_and_set_target owner v)"
  by (simp add: keeps_sources_def sources_kept)

lemma keeps_sources_bind:
  assumes "keeps_sources m" "\<And>x. keeps_sources (f x)" shows "keeps_sources (io_bind m f)"
proof -
  have "snd (io_bind m f src) i = Some z" if "src i = Some z" for src i z
  proof (cases "m src")
    case (Pair r v)
    have "v i = Some z" using keeps_sourcesD [OF assms(1) that Pair] .
    then show ?thesis
      using Pair keeps_sources_snd [OF assms(2)] by (cases r) (simp_all add: io_bind_def)
  qed
  then show ?thesis by (simp add: keeps_sources_def)
qed

lemma keeps_sources_pure [simp]: "keeps_sources (io_return x)" "keeps_sources (io_of_result r)"
  by (simp_all add: keeps_sources_def io_return_def io_of_result_def)

lemma collect_outputs_keeps:
  "(\<And>p. keeps_sources (build_output p)) \<Longrightarrow> keeps_sources (collect_outputs build_output tid pvs io)"
  by (induction build_output tid pvs io rule: collect_outputs.induct)
    (auto intro!: keeps_sources_bind keeps_sources_walk split: prod.split)

lemma initialize_outputs_keeps:
  "(\<And>p. keeps_sources (build_output p)) \<Longrightarrow> keeps_sources (initialize_outputs env build_output tid task)"
  unfolding initialize_outputs_def
  by (auto intro!: keeps_sources_bind keeps_sources_walk collect_outputs_keeps split: prod.split)

text \<open>
  C10. When the outputs of a task are initialised, every target among them has an owner, and a target that
  belonged to another task before still does.
\<close>
theorem outputs_have_owners:
  assumes "\<And>p. keeps_sources (build_output p)"
    and "initialize_outputs env build_output tid task src = (Inr (outputs, pvs), src')"
  shows "(\<forall>x. PAtom x \<in> set (flatten outputs) \<and> is_target x \<longrightarrow> src' (target_number x) \<noteq> None) \<and>
    (\<forall>i z. src i = Some z \<longrightarrow> src' i = Some z)"
proof -
  obtain v mid where "traverse_and_set_target (tid, None) v mid = (Inr outputs, src')"
    using assms(2) unfolding initialize_outputs_def
    by (auto dest!: io_bind_Inr simp: io_return_def split: prod.splits)
  then have "\<forall>x. PAtom x \<in> set (flatten outputs) \<and> is_target x \<longrightarrow> src' (target_number x) \<noteq> None"
    using walk_owns_targets by blast
  moreover have "\<forall>i z. src i = Some z \<longrightarrow> src' i = Some z"
    using keeps_sourcesD [OF initialize_outputs_keeps [OF assms(1)] _ assms(2)] by blast
  ultimately show ?thesis by blast
qed

text \<open>A task with one output and a target that another task owns.\<close>

definition sample_env :: rel_env where
  "sample_env =
     \<lparr>str_of = (\<lambda>_. ''x''), single_result = (\<lambda>_. None), outputs_of = (\<lambda>_. PDict []), operator_task = (\<lambda>_. None),
      make_target = (\<lambda>_. Inr (PAtom (Target 9))), known_task = (\<lambda>_. True)\<rparr>"

definition sample_param :: "string \<Rightarrow> bool \<Rightarrow> rel_param" where
  "sample_param name output =
     \<lparr>rp_name = name, rp_system = False, rp_output = output, rp_significant = True, rp_func_result = False\<rparr>"

definition sample_rel_task :: rel_task where
  "sample_rel_task =
     \<lparr>rt_name = ''t'',
      rt_params = [(sample_param ''inp'' False, PSeq ListK [PAtom (Target 1), PStr ''x'', PSeq TupleK [PAtom (Target 2)]]),
                   (sample_param ''out'' True, PDict [(''a'', PAtom (Target 1)), (''b'', PAtom (Target 3))])],
      rt_pipeline = False, rt_dynamic = False, rt_decorated = False, rt_child_pipelines = [], rt_requires = PNone,
      rt_custom_output = PNone, rt_signature_extra = [], rt_airflow_task_id = None\<rparr>"

definition sample_sources :: sources where
  "sample_sources = [1 \<mapsto> (''up'', None)]"

lemmas sample_defs = sample_env_def sample_param_def sample_rel_task_def sample_sources_def

lemma sample_outputs:
  "\<exists>outputs pvs src'.
     initialize_outputs sample_env (\<lambda>p. io_raise RecursionError) ''t__1'' sample_rel_task sample_sources =
       (Inr (outputs, pvs), src') \<and> PAtom (Target 3) \<in> set (flatten outputs) \<and> src' 1 = Some (''up'', None)"
  by (simp add: sample_defs initialize_outputs_def io_bind_def io_return_def io_of_result_def
      traverse_and_set_target_def set_source_def accepts_source_def default_opts_def to_targets_def
      to_target_obj_def with_custom_output_def put_in_section_def empty_to_none_def)

theorem outputs_have_owners_witness:
  "\<exists>src'. snd (initialize_outputs sample_env (\<lambda>p. io_raise RecursionError) ''t__1'' sample_rel_task sample_sources) = src' \<and>
     src' 3 \<noteq> None \<and> src' 1 = Some (''up'', None)"
proof -
  obtain outputs pvs src' where run:
    "initialize_outputs sample_env (\<lambda>p. io_raise RecursionError) ''t__1'' sample_rel_task sample_sources = (Inr (outputs, pvs), src')"
    "PAtom (Target 3) \<in> set (flatten outputs)" using sample_outputs by blast
  have "keeps_sources (io_raise RecursionError :: rel_obj pv building)" by (simp add: keeps_sources_def io_raise_def)
  from outputs_have_owners [OF this run(1)] run(2)
  have "src' (target_number (Target 3)) \<noteq> None" "src' 1 = Some (''up'', None)"
    by (auto simp: sample_sources_def simp del: target_number.simps)
  then show ?thesis using run(1) by simp
qed

text \<open>The outputs of \<open>_output()\<close> are dropped when the task has no other output.\<close>

lemma custom_output_is_dropped:
  "with_custom_output task ([], sys) = PDict [(''user'', PDict []), (''system'', PDict sys)]"
  by (simp add: with_custom_output_def)

section \<open>A task waits for the owners of its inputs\<close>

fun targets_only :: "rel_obj pv \<Rightarrow> bool" where
  "targets_only (PAtom x) = is_target x"
| "targets_only (PDict kvs) = list_all (\<lambda>kv. targets_only (snd kv)) kvs"
| "targets_only (PSeq k xs) = list_all targets_only xs"
| "targets_only v = False"

lemma find_targets_only:
  shows "traverse find_opts find_target v = Inr w \<Longrightarrow> w = PNone \<or> targets_only w"
    and "traverse_items find_opts find_target kvs = Inr kws \<Longrightarrow> list_all (\<lambda>kw. targets_only (snd kw)) kws"
    and "traverse_elements find_opts find_target hashed xs = Inr ys \<Longrightarrow> list_all targets_only ys"
proof (induction find_opts find_target v and find_opts find_target kvs and find_opts find_target hashed xs
    arbitrary: w and kws and ys rule: traverse_traverse_items_traverse_elements.induct)
  case (9 kv kvs)
  obtain v where v: "traverse find_opts find_target (snd kv) = Inr v" using "9.prems" by (auto simp: result_simps)
  obtain r where "traverse_items find_opts find_target kvs = Inr r" "kws = (if v = PNone then r else (fst kv, v) # r)"
    using "9.prems" v by (auto simp: rmap_Inr_iff find_opts_def split: if_splits)
  then show ?case using "9.hyps"(1) [OF v] "9.hyps"(2,3) [of v r] by (auto simp: find_opts_def)
next
  case (11 hashed x xs)
  obtain y where y: "traverse find_opts find_target x = Inr y" using "11.prems" by (auto simp: result_simps)
  obtain r where r: "traverse_elements find_opts find_target hashed xs = Inr r" "ys = (if y = PNone then r else y # r)"
    and h: "y = PNone \<or> \<not> (hashed \<and> \<not> hashable y)"
    using "11.prems" y by (auto simp: rmap_Inr_iff find_opts_def split: if_splits)
  then show ?case using "11.hyps"(1) [OF y] "11.hyps"(2) [of y r] "11.hyps"(3) [of y r] by (auto simp: find_opts_def)
qed (auto simp: rmap_Inr_iff empty_to_none_def list_constructor_def find_opts_def split: if_splits)

lemma to_targets_only:
  shows "targets_only v \<Longrightarrow> traverse (default_opts\<lparr>filter_none := True\<rparr>) (to_target env) v = Inr w \<Longrightarrow> targets_only w"
    and "list_all (\<lambda>kv. targets_only (snd kv)) kvs \<Longrightarrow>
      traverse_items (default_opts\<lparr>filter_none := True\<rparr>) (to_target env) kvs = Inr kws \<Longrightarrow>
      list_all (\<lambda>kw. targets_only (snd kw)) kws"
    and "list_all targets_only xs \<Longrightarrow>
      traverse_elements (default_opts\<lparr>filter_none := True\<rparr>) (to_target env) hashed xs = Inr ys \<Longrightarrow>
      list_all targets_only ys"
proof (induction "default_opts\<lparr>filter_none := True\<rparr> :: rel_obj trav_opts" "to_target env" v
    and "default_opts\<lparr>filter_none := True\<rparr> :: rel_obj trav_opts" "to_target env" kvs
    and "default_opts\<lparr>filter_none := True\<rparr> :: rel_obj trav_opts" "to_target env" hashed xs
    arbitrary: w and kws and ys rule: traverse_traverse_items_traverse_elements.induct)
  case (9 kv kvs)
  let ?o = "default_opts\<lparr>filter_none := True\<rparr> :: rel_obj trav_opts"
  obtain v where v: "traverse ?o (to_target env) (snd kv) = Inr v" using "9.prems"(2) by (auto simp: result_simps)
  obtain r where r: "traverse_items ?o (to_target env) kvs = Inr r" "kws = (if v = PNone then r else (fst kv, v) # r)"
    using "9.prems"(2) v by (auto simp: rmap_Inr_iff default_opts_def split: if_splits)
  then show ?case using "9.hyps"(1) [OF _ v] "9.hyps"(2,3) [of v r] "9.prems"(1) by auto
next
  case (11 hashed x xs)
  let ?o = "default_opts\<lparr>filter_none := True\<rparr> :: rel_obj trav_opts"
  obtain y where y: "traverse ?o (to_target env) x = Inr y" using "11.prems"(2) by (auto simp: result_simps)
  obtain r where r: "traverse_elements ?o (to_target env) hashed xs = Inr r" "ys = (if y = PNone then r else y # r)"
    and h: "y = PNone \<or> \<not> (hashed \<and> \<not> hashable y)"
    using "11.prems"(2) y by (auto simp: rmap_Inr_iff default_opts_def split: if_splits)
  then show ?case
    using "11.hyps"(1) [OF _ y] "11.hyps"(2) [of y r] "11.hyps"(3) [of y r] "11.prems"(1) by auto
qed (auto simp: rmap_Inr_iff empty_to_none_def list_constructor_def default_opts_def to_target_obj_def split: if_splits)

text \<open>A structure of targets only: the items are the converted objects, and each of them is a target.\<close>

lemma converted_targets_only:
  "targets_only v \<Longrightarrow> convert_types opts = (\<lambda>_. False) \<Longrightarrow> converted opts v = flatten v"
  by (induction opts v rule: converted.induct)
    (auto simp: list_all_iff intro!: arg_cong [where f = concat] map_cong)

lemma flatten_targets_only: "targets_only v \<Longrightarrow> y \<in> set (flatten v) \<Longrightarrow> \<exists>x. y = PAtom x \<and> is_target x"
  by (induction v) (auto simp: list_all_iff)

lemma to_targets_same_items:
  assumes "targets_only v" "to_targets env v = Inr w"
  shows "targets_only w \<and> set (flatten w) = set (flatten v)"
proof -
  let ?o = "default_opts\<lparr>filter_none := True\<rparr> :: rel_obj trav_opts"
  have w: "traverse ?o (to_target env) v = Inr w" using assms(2) by (simp add: to_targets_def)
  have "items_from (to_target env) (flatten v) = set (flatten v)"
  proof -
    have "to_target env y = Inr y \<and> set (flatten y) = {y}" if "y \<in> set (flatten v)" for y
      using flatten_targets_only [OF assms(1) that] by (auto simp: to_target_obj_def)
    then show ?thesis by (force simp: items_from_def)
  qed
  then show ?thesis
    using traverse_flatten(1) [OF w] converted_targets_only [OF assms(1), of ?o] to_targets_only(1) [OF assms(1) w]
    by (simp add: default_opts_def)
qed

text \<open>The targets that are mentioned in the value of a parameter.\<close>

definition targets_in :: "rel_obj pv \<Rightarrow> rel_obj set" where
  "targets_in v = {x. is_target x \<and> PAtom x \<in> set (converted find_opts v)}"

definition items_of_sections :: "sections \<Rightarrow> rel_obj pv set" where
  "items_of_sections io = (\<Union>kv \<in> set (fst io) \<union> set (snd io). set (flatten (snd kv)))"

lemma found_targets:
  assumes "traverse find_opts find_target v = Inr w"
  shows "set (flatten w) = PAtom ` targets_in v"
proof -
  have "items_from find_target xs = PAtom ` {x. is_target x \<and> PAtom x \<in> set xs}" for xs
  proof (induction xs)
    case (Cons y ys)
    have "items_from find_target [y] = PAtom ` {x. is_target x \<and> PAtom x = y}"
      by (cases y) (auto simp: items_from_def)
    then show ?case using Cons items_from_append [of find_target "[y]" ys] by auto
  qed simp
  then show ?thesis using traverse_flatten(1) [OF assms] by (simp add: targets_in_def)
qed

lemma items_put_in_section:
  assumes "rp_name p \<notin> fst ` set (fst io) \<union> fst ` set (snd io)"
  shows "items_of_sections (put_in_section p v io) = items_of_sections io \<union> set (flatten v)"
proof -
  have "dict_set (fst io) (rp_name p) v = fst io @ [(rp_name p, v)]"
    "dict_set (snd io) (rp_name p) v = snd io @ [(rp_name p, v)]"
    using assms by (auto intro!: dict_set_new)
  then show ?thesis by (auto simp: items_of_sections_def put_in_section_def)
qed

lemma names_put_in_section:
  "fst ` set (fst (put_in_section p v io)) \<union> fst ` set (snd (put_in_section p v io)) =
     insert (rp_name p) (fst ` set (fst io) \<union> fst ` set (snd io))"
  by (simp add: put_in_section_def set_fst_dict_set)

lemma targets_only_dict_set:
  "list_all (\<lambda>kv. targets_only (snd kv)) d \<Longrightarrow> targets_only v \<Longrightarrow>
     list_all (\<lambda>kv. targets_only (snd kv)) (dict_set d k v)"
  by (induction d k v rule: dict_set.induct) auto

lemma targets_only_put:
  assumes "list_all (\<lambda>kv. targets_only (snd kv)) (fst io @ snd io)" "targets_only v"
  shows "list_all (\<lambda>kv. targets_only (snd kv)) (fst (put_in_section p v io) @ snd (put_in_section p v io))"
  using assms by (simp add: put_in_section_def targets_only_dict_set)

lemma collected_inputs:
  assumes "foldM add_input io pvs = Inr out" "distinct (map (\<lambda>pv. rp_name (fst pv)) pvs)"
    and "\<forall>pv \<in> set pvs. rp_name (fst pv) \<notin> fst ` set (fst io) \<union> fst ` set (snd io)"
    and "list_all (\<lambda>kv. targets_only (snd kv)) (fst io @ snd io)"
  shows "items_of_sections out = items_of_sections io \<union> PAtom ` (\<Union>pv \<in> set pvs. targets_in (snd pv)) \<and>
    list_all (\<lambda>kv. targets_only (snd kv)) (fst out @ snd out)"
  using assms
proof (induction pvs arbitrary: io)
  case (Cons pv pvs)
  obtain mid where mid: "add_input io pv = Inr mid" "foldM add_input mid pvs = Inr out"
    using Cons.prems(1) by (auto simp: result_simps)
  have step: "items_of_sections mid = items_of_sections io \<union> PAtom ` targets_in (snd pv) \<and>
      (mid = io \<or> (\<exists>v. mid = put_in_section (fst pv) v io \<and> targets_only v))"
  proof (cases "snd pv = PNone")
    case True
    then show ?thesis using mid(1) by (auto simp: add_input_def targets_in_def find_opts_def)
  next
    case False
    then obtain v where v: "traverse find_opts find_target (snd pv) = Inr v"
      "mid = (if truthy_value v then put_in_section (fst pv) v io else io)"
      using mid(1) by (auto simp: add_input_def result_simps)
    have only: "v = PNone \<or> targets_only v" using find_targets_only(1) [OF v(1)] .
    show ?thesis
    proof (cases "truthy_value v")
      case True
      then show ?thesis
        using v(2) only found_targets [OF v(1)] items_put_in_section [of "fst pv" io v] Cons.prems(3) by auto
    next
      case False
      then have "flatten v = []" using only by (cases v) auto
      then show ?thesis using v(2) False found_targets [OF v(1)] by auto
    qed
  qed
  have names: "\<forall>q \<in> set pvs. rp_name (fst q) \<notin> fst ` set (fst mid) \<union> fst ` set (snd mid)"
  proof
    fix q assume q: "q \<in> set pvs"
    then have "rp_name (fst q) \<noteq> rp_name (fst pv)"
      using Cons.prems(2) by (metis (mono_tags, lifting) distinct.simps(2) image_eqI list.set_map list.simps(9))
    moreover have "rp_name (fst q) \<notin> fst ` set (fst io) \<union> fst ` set (snd io)" using Cons.prems(3) q by simp
    moreover have "fst ` set (fst mid) \<union> fst ` set (snd mid)
        \<subseteq> insert (rp_name (fst pv)) (fst ` set (fst io) \<union> fst ` set (snd io))"
      using step names_put_in_section [of "fst pv" _ io] by (elim conjE disjE exE) (blast, simp)
    ultimately show "rp_name (fst q) \<notin> fst ` set (fst mid) \<union> fst ` set (snd mid)" by blast
  qed
  have "list_all (\<lambda>kv. targets_only (snd kv)) (fst mid @ snd mid)"
    using step targets_only_put [OF Cons.prems(4)] Cons.prems(4) by auto
  from Cons.IH [OF mid(2) _ names this] Cons.prems(2) step show ?case by auto
qed simp

lemma upstream_of_inputs_outcome:
  assumes "\<not> rt_pipeline task" "rt_child_pipelines task = []" "\<not> truthy_value (rt_requires task)"
    and "distinct (map (\<lambda>pv. rp_name (fst pv)) (filter (\<lambda>pv. \<not> rp_output (fst pv)) (rt_params task)))"
    and "initialize_required env task = Inr inputs" "upstream_of_inputs env src inputs = Inr ups"
  shows "set ups = (\<Union>(p, v) \<in> {(p, v) \<in> set (rt_params task). \<not> rp_output p}.
    \<Union>x \<in> targets_in v. set (flatten (to_task_obj env src x)))"
proof -
  let ?ins = "filter (\<lambda>pv. \<not> rp_output (fst pv)) (rt_params task)"
  obtain io where io: "foldM add_input ([], []) ?ins = Inr io" "to_targets env (of_sections io) = Inr inputs"
    using assms(1-3,5) by (auto simp: initialize_required_def extend_system_section_def result_simps)
  have items: "items_of_sections io = PAtom ` (\<Union>pv \<in> set ?ins. targets_in (snd pv))"
    and only: "list_all (\<lambda>kv. targets_only (snd kv)) (fst io @ snd io)"
    using collected_inputs [OF io(1) assms(4)] by (simp_all add: items_of_sections_def)
  have "targets_only (of_sections io)" using only by (simp add: of_sections_def)
  from to_targets_same_items [OF this io(2)]
  have inputs: "targets_only inputs" "set (flatten inputs) = items_of_sections io"
    by (auto simp: of_sections_def items_of_sections_def)
  obtain w where w: "traverse (default_opts\<lparr>filter_none := True\<rparr>) (to_task env src) inputs = Inr w" "ups = flatten w"
    using assms(6) by (auto simp: upstream_of_inputs_def to_tasks_def rmap_Inr_iff)
  have "set ups = items_from (to_task env src) (flatten inputs)"
    using traverse_flatten(1) [OF w(1)] w(2)
      converted_targets_only [OF inputs(1), of "default_opts\<lparr>filter_none := True\<rparr>"] by (simp add: default_opts_def)
  also have "\<dots> = (\<Union>y \<in> items_of_sections io. case to_task env src y of Inl e \<Rightarrow> {} | Inr z \<Rightarrow> set (flatten z))"
    by (simp add: items_from_def inputs(2))
  also have "\<dots> = (\<Union>x \<in> (\<Union>pv \<in> set ?ins. targets_in (snd pv)). set (flatten (to_task_obj env src x)))"
    by (auto simp: items)
  finally show ?thesis by (auto simp: split_beta)
qed

text \<open>
  C9. A task that is no pipeline and adds nothing by \<open>_requires()\<close> waits exactly for the tasks that own the
  targets in its input parameters, however deep these are nested: they are the upstream tasks it gets.
\<close>
theorem upstream_is_the_owners_of_the_inputs:
  assumes "\<not> rt_pipeline task" "rt_child_pipelines task = []" "\<not> truthy_value (rt_requires task)"
    and "distinct (map (\<lambda>pv. rp_name (fst pv)) (filter (\<lambda>pv. \<not> rp_output (fst pv)) (rt_params task)))"
    and "initialize_required env task = Inr inputs" "upstream_of_inputs env src inputs = Inr ups"
  shows "set ups = (\<Union>(p, v) \<in> {(p, v) \<in> set (rt_params task). \<not> rp_output p}.
    \<Union>x \<in> targets_in v. set (flatten (to_task_obj env src x)))"
  by (rule upstream_of_inputs_outcome [OF assms])

definition sample_inputs :: "rel_obj pv" where
  "sample_inputs = PDict [(''user'', PDict [(''inp'', PSeq ListK [PAtom (Target 1), PSeq TupleK [PAtom (Target 2)]])]),
     (''system'', PDict [])]"

lemma sample_required: "initialize_required sample_env sample_rel_task = Inr sample_inputs"
  by (simp add: sample_inputs_def sample_defs initialize_required_def add_input_def find_opts_def empty_to_none_def
      list_constructor_def put_in_section_def extend_system_section_def to_targets_def default_opts_def
      of_sections_def to_target_obj_def)

lemma sample_upstream: "upstream_of_inputs sample_env sample_sources sample_inputs = Inr [PAtom (TaskObj ''up'')]"
  by (simp add: sample_inputs_def sample_defs upstream_of_inputs_def to_tasks_def source_task_def default_opts_def
      empty_to_none_def list_constructor_def)

theorem upstream_is_the_owners_of_the_inputs_witness:
  "(\<Union>(p, v) \<in> {(p, v) \<in> set (rt_params sample_rel_task). \<not> rp_output p}.
     \<Union>x \<in> targets_in v. set (flatten (to_task_obj sample_env sample_sources x))) = {PAtom (TaskObj ''up'')}"
  using upstream_is_the_owners_of_the_inputs [OF _ _ _ _ sample_required sample_upstream]
  by (simp add: sample_rel_task_def sample_param_def)

end
