(* ===== verification/TaskRegistry.thy ===== *)
theory TaskRegistry
  imports Effects
begin

text \<open>
  The registry of task classes (\<open>dbnd/_core/task_build/task_registry.py\<close>): names of tasks are looked for
  among the registered classes, in the configuration, in modules and among the DAGs of Airflow; and the
  contexts that make one registry the current one (\<open>dbnd/_core/utils/basics/singleton_context.py\<close>).
\<close>

section \<open>Entries\<close>

text \<open>
  Both dictionaries of the registry refer to the same entry objects, so they hold positions in the list of the
  entries. An entry has a class or a factory that is called on the first access.
\<close>

datatype task_cls = TaskCls string | AMBIGUOUS_CLASS

record task_entry =
  te_family :: string
  te_full_family :: "string option"
  te_cls :: "task_cls option"
  te_factory :: string

record registry =
  entries :: "task_entry list"
  fqn_to_task_cls :: "(string, nat) dict"
  task_family_to_task_cls :: "(string, nat) dict"
  namespace_map :: "(string, string) dict"

definition empty_registry :: registry where
  "empty_registry = \<lparr>entries = [], fqn_to_task_cls = [], task_family_to_task_cls = [], namespace_map = []\<rparr>"

definition new_entry :: "task_entry \<Rightarrow> registry \<Rightarrow> nat \<times> registry" where
  "new_entry e r = (length (entries r), r\<lparr>entries := entries r @ [e]\<rparr>)"

definition ambiguous_entry :: "string \<Rightarrow> task_entry" where
  "ambiguous_entry family =
     \<lparr>te_family = family, te_full_family = None, te_cls = Some AMBIGUOUS_CLASS, te_factory = []\<rparr>"

definition add_entry :: "task_entry \<Rightarrow> string \<Rightarrow> registry \<Rightarrow> registry" where
  "add_entry e full r =
     (case new_entry e r of (i, r) \<Rightarrow>
        let r = r\<lparr>fqn_to_task_cls := dict_set (fqn_to_task_cls r) full i\<rparr>
        in if map_of (task_family_to_task_cls r) (te_family e) = None
           then r\<lparr>task_family_to_task_cls := dict_set (task_family_to_task_cls r) (te_family e) i\<rparr>
           else (case new_entry (ambiguous_entry (te_family e)) r of (j, r) \<Rightarrow>
                   r\<lparr>task_family_to_task_cls := dict_set (task_family_to_task_cls r) (te_family e) j\<rparr>))"

text \<open>A class that arrives after its factory is put into the entry of the factory.\<close>

definition register_entry :: "task_entry \<Rightarrow> string \<Rightarrow> registry \<Rightarrow> registry" where
  "register_entry e full r =
     (case map_of (fqn_to_task_cls r) full of
        Some i \<Rightarrow>
          if te_cls (entries r ! i) = None \<and> te_cls e \<noteq> None
          then r\<lparr>entries := (entries r)[i := (entries r ! i)\<lparr>te_cls := te_cls e\<rparr>]\<rparr>
          else add_entry e full r
      | None \<Rightarrow> add_entry e full r)"

definition register_task :: "string \<times> string \<times> string \<Rightarrow> registry \<Rightarrow> registry" where
  "register_task t r =
     (case t of (c, family, full) \<Rightarrow>
        register_entry \<lparr>te_family = family, te_full_family = Some full, te_cls = Some (TaskCls c), te_factory = []\<rparr> full r)"

definition register_task_cls_factory :: "string \<Rightarrow> string \<Rightarrow> string \<Rightarrow> registry \<Rightarrow> registry" where
  "register_task_cls_factory factory family full r =
     register_entry \<lparr>te_family = family, te_full_family = Some full, te_cls = None, te_factory = factory\<rparr> full r"

section \<open>Lookup\<close>

text \<open>What a lookup asks outside the registry; loading a module may register tasks.\<close>

datatype module_attr =
    TaskClassAttr task_cls
  | DecoratedAttr task_cls
  | CallableAttr
  | OtherAttr

record registry_env =
  run_factory :: "string \<Rightarrow> task_cls result"
  config_get :: "string \<Rightarrow> string \<Rightarrow> string option"
  load_module :: "string \<Rightarrow> registry \<Rightarrow> unit result \<times> registry"
  module_attr_of :: "string \<Rightarrow> string \<Rightarrow> module_attr option"
  decorate :: "string \<Rightarrow> string \<Rightarrow> registry \<Rightarrow> task_cls result \<times> registry"
  airflow_dag :: "string \<Rightarrow> bool"

type_synonym 'a lookup = "('a, registry) io"

definition entry_task_cls :: "registry_env \<Rightarrow> nat \<Rightarrow> task_cls lookup" where
  "entry_task_cls env i r =
     (case te_cls (entries r ! i) of
        Some c \<Rightarrow> (Inr c, r)
      | None \<Rightarrow>
          (case run_factory env (te_factory (entries r ! i)) of
             Inl e \<Rightarrow> (Inl e, r)
           | Inr c \<Rightarrow> (Inr c, r\<lparr>entries := (entries r)[i := (entries r ! i)\<lparr>te_cls := Some c\<rparr>]\<rparr>)))"

definition get_registered_task_cls :: "registry_env \<Rightarrow> string \<Rightarrow> task_cls option lookup" where
  "get_registered_task_cls env name r =
     (case map_of (fqn_to_task_cls r) name of
        Some i \<Rightarrow> io_bind (entry_task_cls env i) (\<lambda>c. io_return (Some c)) r
      | None \<Rightarrow>
          (case map_of (task_family_to_task_cls r) name of
             Some i \<Rightarrow> io_bind (entry_task_cls env i) (\<lambda>c. io_return (Some c)) r
           | None \<Rightarrow> (Inr None, r)))"

text \<open>\<open>parts.pop()\<close> and the join of the rest.\<close>

definition split_task_name :: "string \<Rightarrow> string \<times> string" where
  "split_task_name name = (let parts = split_on (CHR ''.'') name in (join_str ''.'' (butlast parts), last parts))"

definition get_from_module :: "registry_env \<Rightarrow> string \<Rightarrow> task_cls option lookup" where
  "get_from_module env task_name =
     (case split_task_name task_name of (possible_module, possible_root_task) \<Rightarrow>
        io_bind (load_module env possible_module) (\<lambda>_.
        io_bind (get_registered_task_cls env task_name) (\<lambda>found.
          case found of
            Some c \<Rightarrow> io_return (Some c)
          | None \<Rightarrow>
              (case module_attr_of env possible_module possible_root_task of
                 Some (TaskClassAttr c) \<Rightarrow> io_return (Some c)
               | Some (DecoratedAttr c) \<Rightarrow> io_return (Some c)
               | Some CallableAttr \<Rightarrow> io_bind (decorate env possible_module possible_root_task) (\<lambda>c. io_return (Some c))
               | _ \<Rightarrow> io_return None))))"

text \<open>\<open>fuel\<close> is Python's recursion limit.\<close>

fun get_task_cls_or_none :: "nat \<Rightarrow> registry_env \<Rightarrow> string \<Rightarrow> task_cls option lookup" where
  "get_task_cls_or_none 0 env task_name = io_raise RecursionError"
| "get_task_cls_or_none (Suc fuel) env task_name =
     io_bind (get_registered_task_cls env task_name) (\<lambda>found.
       case found of
         Some c \<Rightarrow> io_return (Some c)
       | None \<Rightarrow>
           (case (case config_get env task_name ''_type'' of
                    Some [] \<Rightarrow> config_get env task_name ''_from''
                  | None \<Rightarrow> config_get env task_name ''_from''
                  | Some t \<Rightarrow> Some t) of
              Some (x # t) \<Rightarrow>
                if x # t = task_name then io_raise (DatabandConfigError ''task name and from are the same'')
                else get_task_cls_or_none fuel env (x # t)
            | _ \<Rightarrow>
                io_bind (if CHR ''.'' \<in> set task_name then get_from_module env task_name else io_return None) (\<lambda>found.
                  io_return (case found of
                               Some c \<Rightarrow> Some c
                             | None \<Rightarrow> if airflow_dag env task_name then Some (TaskCls ''AirflowDagAsDbndTask'') else None))))"

definition get_task_cls :: "nat \<Rightarrow> registry_env \<Rightarrow> string \<Rightarrow> task_cls lookup" where
  "get_task_cls fuel env task_name =
     io_bind (get_task_cls_or_none fuel env task_name) (\<lambda>c.
       case c of
         Some AMBIGUOUS_CLASS \<Rightarrow> io_raise (TaskClassAmbigiousException task_name)
       | Some c \<Rightarrow> io_return c
       | None \<Rightarrow> io_raise (TaskClassNotFoundException task_name))"

text \<open>The classes of the list are sorted by their full family; hidden ones are left out.\<close>

fun list_task_classes ::
  "registry_env \<Rightarrow> (task_cls \<Rightarrow> bool) \<Rightarrow> (task_cls \<Rightarrow> string) \<Rightarrow> (string \<times> nat) list \<Rightarrow> task_cls list lookup" where
  "list_task_classes env hidden family_of [] = io_return []"
| "list_task_classes env hidden family_of (kv # kvs) =
     io_bind (entry_task_cls env (snd kv)) (\<lambda>c.
       io_bind (list_task_classes env hidden family_of kvs) (\<lambda>cs.
         io_return
           (if c = AMBIGUOUS_CLASS \<or> hidden c \<or> starts_with (family_of c) ''_'' then cs else c # cs)))"

section \<open>Namespaces\<close>

text \<open>\<open>a.b.c\<close>, \<open>a.b\<close>, \<open>a\<close> and the empty name.\<close>

definition module_parents :: "string \<Rightarrow> string list" where
  "module_parents m =
     (let spl = split_on (CHR ''.'') m
      in map (\<lambda>i. join_str ''.'' (take i spl)) (rev [1..<length spl + 1]) @ (if m \<noteq> [] then [[]] else []))"

fun first_namespace :: "(string, string) dict \<Rightarrow> string list \<Rightarrow> string" where
  "first_namespace d [] = []"
| "first_namespace d (p # ps) =
     (case map_of d p of Some (x # xs) \<Rightarrow> x # xs | _ \<Rightarrow> first_namespace d ps)"

definition get_namespace :: "registry \<Rightarrow> string \<Rightarrow> string" where
  "get_namespace r m = first_namespace (namespace_map r) (module_parents m)"

definition register_namespace :: "string \<Rightarrow> string \<Rightarrow> registry \<Rightarrow> registry" where
  "register_namespace scope namespace r = r\<lparr>namespace_map := dict_set (namespace_map r) scope namespace\<rparr>"

section \<open>Current contexts\<close>

text \<open>
  \<open>SingletonContext\<close>: a class has one current instance; \<open>new_context\<close> makes another one current while
  its body runs. Bodies are programs that enter contexts, assign the instance, call others and raise.
\<close>

datatype ctx_prog =
    CSkip
  | CRaise py_error
  | CAssign "nat option"
  | CSeq ctx_prog ctx_prog
  | CWith bool nat ctx_prog

fun run_ctx :: "ctx_prog \<Rightarrow> (unit, nat option) io" where
  "run_ctx CSkip = io_return ()"
| "run_ctx (CRaise e) = io_raise e"
| "run_ctx (CAssign i) = (\<lambda>_. (Inr (), i))"
| "run_ctx (CSeq p q) = io_bind (run_ctx p) (\<lambda>_. run_ctx q)"
| "run_ctx (CWith allow_override ctx body) =
     (\<lambda>orig_value.
        if orig_value \<noteq> None \<and> \<not> allow_override
        then (Inl (DatabandSystemError ''You are trying to create new context out of existing context''), orig_value)
        else (case run_ctx body (Some ctx) of
                (r, inst) \<Rightarrow>
                  if inst \<noteq> Some ctx
                  then (Inl (DatabandSystemError ''somebody has change context while we were running''), inst)
                  else (r, orig_value)))"

fun assigns :: "ctx_prog \<Rightarrow> bool" where
  "assigns (CAssign i) = True"
| "assigns (CSeq p q) = (assigns p \<or> assigns q)"
| "assigns (CWith allow_override ctx body) = assigns body"
| "assigns p = False"

lemma run_ctx_restores: "\<not> assigns p \<Longrightarrow> snd (run_ctx p i) = i"
proof (induction p arbitrary: i)
  case (CWith allow_override ctx body)
  then show ?case by (cases "run_ctx body (Some ctx)") (use CWith.IH [of "Some ctx"] in auto)
next
  case (CSeq p q)
  then have "snd (run_ctx p i) = i" "snd (run_ctx q i) = i" by simp_all
  then show ?case by (cases "run_ctx p i") (auto simp: io_bind_def split: sum.split)
qed (auto simp: io_return_def io_raise_def)

section \<open>What a lookup finds\<close>

text \<open>The answer that a history of registrations asks for.\<close>

definition lookup_spec :: "(string \<times> string \<times> string) list \<Rightarrow> string \<Rightarrow> task_cls option" where
  "lookup_spec ts name =
     (let same_name = filter (\<lambda>(c, family, full). full = name) ts
      in if same_name \<noteq> [] then Some (TaskCls (fst (last same_name)))
         else case filter (\<lambda>(c, family, full). family = name) ts of
                [] \<Rightarrow> None
              | [t] \<Rightarrow> Some (TaskCls (fst t))
              | t # u # us \<Rightarrow> Some AMBIGUOUS_CLASS)"

definition fqn_spec :: "(string \<times> string \<times> string) list \<Rightarrow> string \<Rightarrow> task_cls option" where
  "fqn_spec ts name =
     (let same_name = filter (\<lambda>(c, family, full). full = name) ts
      in if same_name = [] then None else Some (TaskCls (fst (last same_name))))"

definition family_spec :: "(string \<times> string \<times> string) list \<Rightarrow> string \<Rightarrow> task_cls option" where
  "family_spec ts name =
     (case filter (\<lambda>(c, family, full). family = name) ts of
        [] \<Rightarrow> None | [t] \<Rightarrow> Some (TaskCls (fst t)) | t # u # us \<Rightarrow> Some AMBIGUOUS_CLASS)"

text \<open>A registry whose dictionaries answer as they should: all entries have classes.\<close>

definition answers_as :: "registry \<Rightarrow> (string \<Rightarrow> task_cls option) \<Rightarrow> (string \<Rightarrow> task_cls option) \<Rightarrow> bool" where
  "answers_as r fqn family =
     ((\<forall>n. map_option (\<lambda>i. te_cls (entries r ! i)) (map_of (fqn_to_task_cls r) n) = map_option Some (fqn n)) \<and>
      (\<forall>n. map_option (\<lambda>i. te_cls (entries r ! i)) (map_of (task_family_to_task_cls r) n) = map_option Some (family n)) \<and>
      (\<forall>i \<in> ran (map_of (fqn_to_task_cls r)) \<union> ran (map_of (task_family_to_task_cls r)). i < length (entries r)))"

lemma answers_append:
  assumes "\<forall>i \<in> ran d. i < length es"
  shows "map_option (\<lambda>i. te_cls ((es @ fs) ! i)) (d n) = map_option (\<lambda>i. te_cls (es ! i)) (d n)"
  using assms by (cases "d n") (auto simp: ran_def nth_append)

lemma answers_register:
  assumes "answers_as r fqn fam"
  shows "answers_as (register_task (c, family, full) r)
    (fqn(full \<mapsto> TaskCls c)) (fam(family \<mapsto> (if fam family = None then TaskCls c else AMBIGUOUS_CLASS)))"
proof -
  let ?e = "\<lparr>te_family = family, te_full_family = Some full, te_cls = Some (TaskCls c), te_factory = []\<rparr>"
  have add: "register_task (c, family, full) r = add_entry ?e full r"
  proof (cases "map_of (fqn_to_task_cls r) full")
    case (Some i)
    have "map_option (\<lambda>i. te_cls (entries r ! i)) (map_of (fqn_to_task_cls r) full) = map_option Some (fqn full)"
      using assms unfolding answers_as_def by blast
    then have "te_cls (entries r ! i) \<noteq> None" using Some by (cases "fqn full") auto
    then show ?thesis by (auto simp: register_task_def register_entry_def Some)
  qed (simp add: register_task_def register_entry_def)
  have bound: "\<forall>i \<in> ran (map_of (fqn_to_task_cls r)). i < length (entries r)"
    "\<forall>i \<in> ran (map_of (task_family_to_task_cls r)). i < length (entries r)"
    using assms by (auto simp: answers_as_def)
  have old: "map_option (\<lambda>i. te_cls ((entries r @ es) ! i)) (map_of (fqn_to_task_cls r) n) = map_option Some (fqn n)"
    "map_option (\<lambda>i. te_cls ((entries r @ es) ! i)) (map_of (task_family_to_task_cls r) n) = map_option Some (fam n)" for n es
    using assms answers_append [OF bound(1), of es n] answers_append [OF bound(2), of es n] by (auto simp: answers_as_def)
  have known: "map_of (task_family_to_task_cls r) family = None \<longleftrightarrow> fam family = None"
    using old(2) [of "[]" family] by (cases "map_of (task_family_to_task_cls r) family"; cases "fam family") auto
  have "ran ((map_of (fqn_to_task_cls r))(full \<mapsto> i)) \<subseteq> insert i (ran (map_of (fqn_to_task_cls r)))"
    "ran ((map_of (task_family_to_task_cls r))(family \<mapsto> i)) \<subseteq> insert i (ran (map_of (task_family_to_task_cls r)))" for i
    by (auto simp: ran_def)
  then have less: "i \<in> ran ((map_of (fqn_to_task_cls r))(full \<mapsto> j)) \<Longrightarrow> i = j \<or> i < length (entries r)"
    "i \<in> ran ((map_of (task_family_to_task_cls r))(family \<mapsto> j)) \<Longrightarrow> i = j \<or> i < length (entries r)" for i j
    using bound by blast+
  show ?thesis
  proof (cases "fam family = None")
    case True
    then show ?thesis
      using known old [of "[?e]"]
      unfolding add answers_as_def
      by (auto simp: add_entry_def new_entry_def nth_append simp del: ran_map_upd dest!: less)
  next
    case False
    then show ?thesis
      using known old [of "[?e, ambiguous_entry family]"]
      unfolding add answers_as_def
      by (auto simp: add_entry_def new_entry_def ambiguous_entry_def nth_append simp del: ran_map_upd dest!: less)
  qed
qed

lemma fqn_spec_snoc: "fqn_spec (ts @ [(c, family, full)]) = (fqn_spec ts)(full \<mapsto> TaskCls c)"
  by (rule ext) (auto simp: fqn_spec_def)

lemma family_spec_snoc:
  "family_spec (ts @ [(c, family, full)]) =
     (family_spec ts)(family \<mapsto> (if family_spec ts family = None then TaskCls c else AMBIGUOUS_CLASS))"
  by (rule ext) (auto simp: family_spec_def split: list.split)

lemma registered_answers: "answers_as (fold register_task ts empty_registry) (fqn_spec ts) (family_spec ts)"
proof (induction ts rule: rev_induct)
  case Nil
  then show ?case by (simp add: answers_as_def empty_registry_def fqn_spec_def family_spec_def)
next
  case (snoc t ts)
  obtain c family full where t: "t = (c, family, full)" by (metis prod_cases3)
  have "fold register_task (ts @ [t]) empty_registry = register_task (c, family, full) (fold register_task ts empty_registry)"
    by (simp add: t)
  then show ?case using answers_register [OF snoc.IH, of c family full] unfolding t fqn_spec_snoc family_spec_snoc by (rule ssubst)
qed


text \<open>The same class registered twice, as when its module is loaded again, is ambiguous by its family.\<close>

lemma registered_twice_is_ambiguous:
  "lookup_spec [(''T'', ''t'', ''m.t''), (''T'', ''t'', ''m.t'')] ''t'' = Some AMBIGUOUS_CLASS"
  by (simp add: lookup_spec_def)

text \<open>Two sections that name each other as their type are followed until Python gives up.\<close>

lemma circular_types_recurse:
  assumes "config_get env ''a'' ''_type'' = Some ''b''" "config_get env ''b'' ''_type'' = Some ''a''"
  shows "fst (get_task_cls_or_none fuel env ''a'' empty_registry) = Inl RecursionError"
    and "fst (get_task_cls_or_none fuel env ''b'' empty_registry) = Inl RecursionError"
  using assms
  by (induction fuel)
    (simp_all add: io_bind_def io_return_def io_raise_def get_registered_task_cls_def empty_registry_def split: prod.split)

text \<open>
  A context leaves the current instance as it found it, whether its body returns or raises and however
  contexts are nested, as long as nobody assigns the instance by hand.
\<close>
theorem contexts_restore_the_instance:
  assumes "\<not> assigns p"
  shows "snd (run_ctx p i) = i"
  by (rule run_ctx_restores [OF assms])

theorem contexts_restore_the_instance_witness:
  "run_ctx (CWith False 1 (CSeq (CWith True 2 CSkip) (CRaise IndexError))) None = (Inl IndexError, None)"
  using contexts_restore_the_instance [of "CWith False 1 (CSeq (CWith True 2 CSkip) (CRaise IndexError))" None]
  by (simp add: io_bind_def io_return_def io_raise_def)

end
