(* ===== verification/Spec2Isabelle.thy ===== *)
theory Spec2Isabelle
  imports Execution Config FileSystems DateIntervals ApiClient AsyncChannel AirflowSync MultiServer Heartbeat ValueTypes TaskBuild KubeScheduler InProcess LogPreview ValueRegistry TypeObjects FunctionParams TaskRelations TaskRegistry
begin

section \<open>What this development is about\<close>

text \<open>
  \<^bold>\<open>The program.\<close> Databand (\<open>dbnd\<close>) builds a graph of tasks, finds out which of them have to run, runs
  them in this process or through Airflow, and reports their states to a tracking server; a separate
  monitor copies the runs of Airflow servers to the same place. Short names of directories:
  \<open>core/\<close> is \<open>modules/dbnd/src/dbnd/_core/\<close>, \<open>targets/\<close> is \<open>modules/dbnd/src/targets/\<close>, \<open>af/\<close> is
  \<open>modules/dbnd-airflow/src/dbnd_airflow/\<close>, \<open>mon/\<close> is \<open>modules/dbnd-airflow-monitor/src/airflow_monitor/\<close> and
  \<open>docker/\<close> is \<open>plugins/dbnd-docker/src/dbnd_docker/kubernetes/\<close>.

  \<^bold>\<open>How the parts work together.\<close> The configuration (theory \<open>Config\<close>) and the task factory (\<open>TaskBuild\<close>) give the
  parameters of a task their values, which the value types (\<open>ValueTypes\<close>, \<open>DateIntervals\<close>) read from text.
  The relations of the task (\<open>TaskRelations\<close>, over \<open>Structures\<close>) collect the targets among the values,
  derive the identifier of the task (\<open>Signature\<close>) and name the tasks it waits for; these become the edges of
  the graph (\<open>TaskDag\<close>). Completeness (\<open>TaskCompletion\<close>) decides which tasks of the graph are needed, the run
  (\<open>TaskRuns\<close>) has one task run for each of them, and \<open>Execution\<close> runs them in topological order, reporting
  each change of state (\<open>TaskStates\<close>) through the tracking stores (\<open>TrackingStore\<close>, \<open>AsyncChannel\<close>) and the
  API client (\<open>ApiClient\<close>, over \<open>Retry\<close>), while a second process sends heartbeats (\<open>Heartbeat\<close>). A run
  through Airflow is scheduled by \<open>DagRunJob\<close> and, on a cluster, by the Kubernetes executor (\<open>PodNames\<close>,
  \<open>KubeWatcher\<close>, \<open>KubeScheduler\<close>). Targets live in file systems (\<open>Paths\<close>, \<open>FileSystems\<close>). The monitor asks the export plugin of
  an Airflow server for new runs (\<open>AirflowExport\<close>), sends them on (\<open>AirflowSync\<close>), reports its own errors
  (\<open>MonitorErrors\<close>) and keeps one group of components per server (\<open>MonitorRunners\<close>, \<open>MultiServer\<close>).
\<close>

section \<open>Conventions\<close>

text \<open>
  \<^item> An exception is a value: \<open>py_error\<close> of theory \<open>Prelude\<close> has a constructor for each class that the modelled
    code raises, and a computation that may raise returns \<open>'a result = py_error + 'a\<close>; \<open>rbind\<close>, \<open>rmap\<close>, \<open>mapM\<close> and
    \<open>foldM\<close> sequence such computations. Computations that also change a world are \<open>('a, 'w) io\<close> (\<open>Effects\<close>).
  \<^item> A dictionary is an association list in the order of insertion (\<open>dict_set\<close>, \<open>dict_del\<close>, \<open>dict_update\<close>); texts are lists
    of 8-bit characters; integers are unbounded as in Python.
  \<^item> What is not in the tree or belongs to the outside (user code, the database and the executor of
    Airflow, the Kubernetes client, processes, clocks, the file system below the operating system calls, the digest md5,
    \<open>json_default\<close>) is a field of a record \<open>..._env\<close> or an argument. Hypotheses about such
    parameters are named predicates (\<open>answers\<close>, \<open>steady_clock\<close>, \<open>no_giving_up\<close>, \<open>keeps_sources\<close> and others), and every theorem
    that has one comes with a witness in which they are concrete functions.
  \<^item> A loop that may not end is a \<open>partial_function\<close>, \<open>None\<close> being the run that never returns: \<open>retry_from\<close>,
    \<open>send_heartbeat_continuously\<close>, \<open>drain_results\<close>, \<open>process_dag_task_instances\<close>, \<open>run_loop\<close> of the monitor and
    \<open>get_task_from_sections\<close>. For the retries, the heartbeats, the scheduling loop, the monitor and the chains of
    sections it is proved when they return; for \<open>drain_results\<close> and a chain of sections that closes it is proved that they do not.
  \<^item> Two definitions have fuel, which stands for Python's recursion limit: \<open>check_if_completed_dfs\<close> and
    \<open>set_global_upstream\<close>; running out is \<open>RecursionError\<close>. A fuel greater than the number of tasks is proved
    to be enough for the search, because every call answers for a task that had no answer. The depth of the nested
    requests of the API client (a login that is itself a request) is an index of the definitions of theory
    \<open>ApiClient\<close>, and \<open>api_request_returns\<close> gives the depth that suffices.
  \<^item> All other recursion is structural or has a measure: the searches of \<open>TaskDag\<close> and \<open>TaskCompletion\<close> by the
    weight of the queue (\<open>GraphSearch\<close>), the dates of an interval by the days left.
\<close>

section \<open>Theories\<close>

text \<open>
  \<^item> \<open>Prelude\<close>, \<open>PyStrings\<close>, \<open>Effects\<close>: exceptions, dictionaries, strings of Python and effects; the lemma collections
    \<open>result_simps\<close> and \<open>dict_simps\<close>.
  \<^item> \<open>GraphSearch\<close>: locale \<open>finite_graph\<close>, a successor function over finitely many nodes, with reachability and the
    measure of a queue that may hold a node more than once. \<open>TaskDag\<close> interprets it (\<open>dag_walk\<close>).
  \<^item> \<open>TaskDag\<close> (\<open>core/task_ctrl/task_dag.py\<close>, \<open>task_descendant.py\<close>): \<open>set_relatives\<close>, \<open>subdag_tasks\<close>, \<open>find_circle\<close>,
    \<open>topological_sort\<close>, \<open>initialize_dag_node\<close>. Upstream and downstream mirror each other, the sort is a permutation with
    upstream tasks first, it succeeds exactly on graphs without a circle, the walk finds exactly what can be reached.
  \<^item> \<open>TaskCompletion\<close> (\<open>core/task/task.py\<close>, \<open>core/task_executor/task_runs_builder.py\<close>): the depth-first
    and the breadth-first search give the same answers, and the tasks to skip are characterised.
  \<^item> \<open>TaskStates\<close> (\<open>core/constants.py\<close>), \<open>TaskRuns\<close> (\<open>core/task_run/task_run.py\<close>, \<open>core/run/databand_run.py\<close>, \<open>core/utils/task_utils.py\<close>,
    \<open>core/task_executor/task_runs_builder.py\<close>):
    state predicates, the index of task runs, friendly identifiers, which task runs are built and reused.
  \<^item> \<open>Execution\<close> (\<open>core/task_run/task_run_runner.py\<close>, \<open>core/task_executor/local_task_executor.py\<close>, \<open>run_executor.py\<close>): no task runs
    after a failed upstream task, every task has a final state at the end, the run reports what happened.
  \<^item> \<open>LogPreview\<close> (\<open>core/task_run/log_preview.py\<close>): the part of a log file that is sent to the tracker consists of whole
    lines and respects both of its limits.
  \<^item> \<open>Config\<close> (\<open>core/configuration/\<close>): layers, priorities, merging, the precalculated view and the scan of the layers.
  \<^item> \<open>TaskBuild\<close> (\<open>core/task_build/task_factory.py\<close>): where the value of a parameter comes from, and when the chain of sections ends.
  \<^item> \<open>Structures\<close> (\<open>core/utils/traversing.py\<close>), \<open>Signature\<close> (\<open>core/task_build/task_signature.py\<close>, \<open>core/utils/json_utils.py\<close>),
    \<open>TaskRelations\<close> (\<open>core/task_ctrl/task_relations.py\<close>, \<open>core/utils/task_utils.py\<close>): what \<open>traverse\<close> keeps of a structure, when
    two tasks have one signature, which tasks a task waits for and which targets it owns.
  \<^item> \<open>Dates\<close>, \<open>DateIntervals\<close> (\<open>core/utils/date_interval.py\<close>), \<open>ValueTypes\<close> (\<open>targets/values/\<close>): the proleptic Gregorian calendar with ISO
    weeks, intervals that partition it, round trips of their texts and of time deltas.
  \<^item> \<open>TypeHints\<close> (\<open>core/utils/typing_utils/doc_annotations.py\<close>), \<open>ValueRegistry\<close> and \<open>TypeObjects\<close> (\<open>targets/values/registry.py\<close>): the types
    in the comments of a function, and the value type of a type, which is the same for its text and its object.
  \<^item> \<open>Paths\<close>, \<open>FileSystems\<close> (\<open>targets/fs/\<close>, \<open>targets/target_config.py\<close>, \<open>target_factory.py\<close>): locale \<open>file_store\<close>, a store of files with
    atomic writes, interpreted by the local disk and by the in-memory file system.
  \<^item> \<open>Retry\<close> (locale \<open>bounded_retry\<close>), \<open>ApiClient\<close> (\<open>modules/dbnd/src/dbnd/utils/api_client.py\<close>), \<open>TrackingStore\<close> and \<open>AsyncChannel\<close> (\<open>core/tracking/\<close>),
    \<open>Heartbeat\<close> (\<open>core/task_executor/heartbeat_sender.py\<close>): \<open>ApiClient\<close> and \<open>TrackingStore\<close> interpret \<open>bounded_retry\<close> on their own attempts.
    The channel is a step relation over callers, queue and thread; nothing is lost or reordered and shutdown drains it.
  \<^item> \<open>DagRunJob\<close> (\<open>af/scheduler/single_dag_run_job.py\<close>, \<open>af/dbnd_task_executor/task_instance_state_manager.py\<close>): every task
    instance is in one place, so a job without errors has run everything.
  \<^item> \<open>DagRunTermination\<close> (no code of its own) and \<open>InProcess\<close> (\<open>af/executors/simple_executor.py\<close>): a variant of the
    scheduling loop for executors that make progress at each heartbeat, which the executor that runs the
    tasks in the same process is shown to do; failing fast skips exactly the rest after the first failure.
  \<^item> \<open>PodNames\<close> (\<open>core/utils/string_utils.py\<close>, \<open>docker/dns1123_clean_names.py\<close>), \<open>KubeWatcher\<close> and \<open>KubeScheduler\<close>
    (\<open>af/executors/kubernetes_executor/\<close>, \<open>docker/kube_dbnd_client.py\<close>): valid names, the queue of events, one result per submission.
  \<^item> \<open>AirflowExport\<close> (\<open>af/export_plugin/\<close>), \<open>AirflowSync\<close> (\<open>mon/syncer/runtime_syncer.py\<close>), \<open>MonitorErrors\<close>, \<open>MonitorRunners\<close> and
    \<open>MultiServer\<close> (\<open>mon/shared/\<close>, \<open>mon/multiserver/\<close>): locale \<open>runner\<close>, the contract of both kinds of runner, interpreted by both.
\<close>

section \<open>What is not modelled\<close>

text \<open>
  Code of third parties in the tree (\<open>_vendor\<close>, \<open>_vendor_package\<close>) and generated protocol buffers; the metaclass, the
  decorators and the tracking of scripts, which inspect and patch live Python objects; declarations of settings, schemas and command
  line options; banners and log texts; marshalling by pandas, numpy and similar libraries; the plugins that call cloud services and databases;
  operators of Airflow whose behaviour is that of Airflow; the Java client. Threads appear where the code hands work to them:
  as interleavings in \<open>AsyncChannel\<close>, as an order of answers in \<open>TaskCompletion\<close>; elsewhere the modelled code is sequential. Log output, uids, URLs and folders of runs are left out
  of the records of the model.
\<close>


section \<open>From the values of the parameters to the order of execution\<close>

text \<open>The task behind an item of the upstream list; the graph filters out what is none.\<close>

fun task_of_item :: "rel_obj pv \<Rightarrow> string option" where
  "task_of_item (PAtom (TaskObj t)) = Some t"
| "task_of_item v = None"


text \<open>Two tasks, one of which reads a target of the other.\<close>

definition sample_two :: dag where
  "sample_two = [(''t'', sample_task ''t'' 1 [] [] []), (''up'', sample_task ''up'' 2 [] [] [])]"

definition sample_connected :: dag where
  "sample_connected = [(''t'', sample_task ''t'' 1 [''up''] [] []), (''up'', sample_task ''up'' 2 [] [''t''] [])]"

lemma sample_two_connected: "initialize_dag_node sample_two ''t'' [Some ''up''] = Inr sample_connected"
  by code_simp

lemma sample_two_sorted: "topological_sort sample_connected [''t'', ''up''] = Inr [''up'', ''t'']"
  by code_simp


end
